(* ===== verification/Prelude.thy ===== *)
theory Prelude
  imports Main "HOL-Library.Word"
begin

text \<open>
  Shared vocabulary of the development: the machine integer types of the firmware, C strings,
  flag words, and the generic lemmas on lists and words that the component theories use.
  A C string is the list of its characters before the terminating NUL, so reading at or past
  the end of the list yields the byte 0, exactly as the C code sees the terminator.
\<close>

unbundle bit_operations_syntax

type_synonym u8 = "8 word"
type_synonym u16 = "16 word"
type_synonym u32 = "32 word"
type_synonym u64 = "64 word"
type_synonym freq_t = "32 word"

named_theorems cstr \<open>reading of C strings\<close>
named_theorems flag \<open>status words and their bits\<close>

subsection \<open>C strings\<close>

definition cget :: "string \<Rightarrow> char" where
  "cget p = (case p of [] \<Rightarrow> CHR 0x00 | c # _ \<Rightarrow> c)"

lemma cget_simps [simp, cstr]: "cget [] = CHR 0x00" "cget (c # p) = c"
  by (simp_all add: cget_def)

definition nul_free :: "string \<Rightarrow> bool" where
  "nul_free s \<longleftrightarrow> CHR 0x00 \<notin> set s"

lemma nul_free_simps [simp]:
  "nul_free []" "nul_free (c # s) \<longleftrightarrow> c \<noteq> CHR 0x00 \<and> nul_free s"
  "nul_free (s @ t) \<longleftrightarrow> nul_free s \<and> nul_free t"
  by (auto simp: nul_free_def)

lemma cget_eq_0_iff: "nul_free p \<Longrightarrow> cget p = CHR 0x00 \<longleftrightarrow> p = []"
  by (cases p) auto

subsection \<open>Flag words\<close>

definition has :: "'a::len word \<Rightarrow> 'a word \<Rightarrow> bool" where
  "has w m \<longleftrightarrow> w AND m \<noteq> 0"

lemma has_or [flag]: "has (w OR v) m \<longleftrightarrow> has w m \<or> has v m"
  by (auto simp: has_def bit.conj_disj_distrib2 or_eq_0_iff)

subsection \<open>Clipping\<close>

lemma clip_lo: "(if a < b then b else a) = max a (b::'a::linorder)"
  by (auto simp: max_def)

lemma clip_hi: "(if b < a then b else a) = min a (b::'a::linorder)"
  by (auto simp: min_def)

subsection \<open>Linear scans for a best sample\<close>

text \<open>
  Several loops of the firmware walk over sample indices and keep the best admissible one seen so
  far.  The locale states what one iteration does for a strict weak order \<open>better\<close>; the result
  of the whole loop, including that ties keep the earliest index, is proved once from it.
\<close>

definition best_of ::
  "('v \<Rightarrow> 'v \<Rightarrow> bool) \<Rightarrow> (nat \<Rightarrow> bool) \<Rightarrow> (nat \<Rightarrow> 'v) \<Rightarrow> nat \<Rightarrow> (nat \<times> 'v) option \<Rightarrow> bool" where
  "best_of better ok val n r \<longleftrightarrow> (case r of None \<Rightarrow> (\<forall>i<n. \<not> ok i)
     | Some (j, b) \<Rightarrow> j < n \<and> ok j \<and> b = val j \<and> (\<forall>i<n. ok i \<longrightarrow> \<not> better (val i) b) \<and>
         (\<forall>i<j. ok i \<longrightarrow> better b (val i)))"

locale best_scan =
  fixes better :: "'v \<Rightarrow> 'v \<Rightarrow> bool" and ok :: "nat \<Rightarrow> bool" and val :: "nat \<Rightarrow> 'v"
    and step :: "nat \<Rightarrow> (nat \<times> 'v) option \<Rightarrow> (nat \<times> 'v) option"
  assumes better_irrefl: "\<not> better v v"
    and better_trans: "better a b \<Longrightarrow> better b c \<Longrightarrow> better a c"
    and better_weak: "\<not> better a b \<Longrightarrow> better c b \<Longrightarrow> better c a"
    and step_None: "step i None = (if ok i then Some (i, val i) else None)"
    and step_Some: "step i (Some (j, b)) = (if ok i \<and> better (val i) b then Some (i, val i) else Some (j, b))"
begin

lemma step_best: "best_of better ok val i r \<Longrightarrow> best_of better ok val (Suc i) (step i r)"
proof (cases r)
  case None
  then show "best_of better ok val i r \<Longrightarrow> best_of better ok val (Suc i) (step i r)"
    by (auto simp: best_of_def step_None less_Suc_eq better_irrefl)
next
  case (Some p)
  obtain j b where p: "p = (j, b)" by (cases p)
  assume r: "best_of better ok val i r"
  then have j: "j < i" "ok j" "b = val j" and nb: "\<And>k. k < i \<Longrightarrow> ok k \<Longrightarrow> \<not> better (val k) b"
    and fb: "\<And>k. k < j \<Longrightarrow> ok k \<Longrightarrow> better b (val k)"
    using Some p by (auto simp: best_of_def)
  show ?thesis
  proof (cases "ok i \<and> better (val i) b")
    case True
    then have "\<not> better (val k) (val i)" if "k < Suc i" "ok k" for k
      using that nb better_irrefl better_trans by (metis less_Suc_eq)
    moreover have "better (val i) (val k)" if "k < i" "ok k" for k
      using better_weak [OF nb [OF that]] True by blast
    ultimately show ?thesis using True Some p by (simp add: step_Some best_of_def)
  next
    case False
    then show ?thesis using Some p j nb fb by (auto simp: step_Some best_of_def less_Suc_eq)
  qed
qed

lemma scan_from: "best_of better ok val m r \<Longrightarrow> m \<le> n \<Longrightarrow> best_of better ok val n (fold step [m..<n] r)"
  by (induction n) (auto simp: le_Suc_eq step_best)

lemma scan_best: "best_of better ok val n (fold step [0..<n] None)"
  by (rule scan_from) (auto simp: best_of_def)

end

end
