(* ===== verification/Strings.thy ===== *)
theory Strings
  imports Prelude Complex_Main
begin

text \<open>
  The string helpers of \<^verbatim>\<open>common.c\<close>: number parsing (\<open>my_atoi\<close>, \<open>my_atoui\<close>, \<open>my_atof\<close>),
  case-insensitive comparison, the keyword search \<open>get_str_index\<close> that every shell command
  uses, and the in-place tokenizer \<open>parse_line\<close>.
  A \<^verbatim>\<open>char\<close> is unsigned on the target, so \<open>*p - '0'\<close> is computed in 32 bits and wraps for
  characters below \<open>'0'\<close>. A \<^verbatim>\<open>float\<close> is modelled by an exact \<open>real\<close>.
\<close>

subsection \<open>Integers\<close>

definition digit_code :: "char \<Rightarrow> u32" where
  "digit_code ch = of_char ch - 48"

fun atoi_loop :: "u32 \<Rightarrow> string \<Rightarrow> u32" where
  "atoi_loop value [] = value"
| "atoi_loop value (ch # p) =
     (if digit_code ch < 10 then atoi_loop (value * 10 + digit_code ch) p else value)"

definition my_atoi :: "string \<Rightarrow> u32" where
  "my_atoi p =
     (let neg = (cget p = CHR ''-'');
          p1 = (if neg then tl p else p);
          p2 = (if cget p1 = CHR ''+'' then tl p1 else p1);
          value = atoi_loop 0 p2
      in if neg then - value else value)"

text \<open>The digit of \<open>my_atoui\<close>: letters are folded to upper case by clearing bit 5 of the offset.\<close>

definition atoui_digit :: "char \<Rightarrow> u32" where
  "atoui_digit ch =
     (let c = digit_code ch
      in if c \<ge> 17 then (c AND NOT 0x20) - 17 + 10 else c)"

fun atoui_loop :: "u32 \<Rightarrow> u32 \<Rightarrow> string \<Rightarrow> u32" where
  "atoui_loop radix value [] = value"
| "atoui_loop radix value (ch # p) =
     (if atoui_digit ch \<ge> radix then value
      else atoui_loop radix (value * radix + atoui_digit ch) p)"

definition my_atoui :: "string \<Rightarrow> u32" where
  "my_atoui s =
     (let p = (if cget s = CHR ''+'' then tl s else s)
      in if cget p = CHR ''0'' then
           (let d = cget (tl p)
            in if d = CHR ''x'' then atoui_loop 16 0 (drop 2 p)
               else if d = CHR ''o'' then atoui_loop 8 0 (drop 2 p)
               else if d = CHR ''b'' then atoui_loop 2 0 (drop 2 p)
               else atoui_loop 10 0 p)
         else atoui_loop 10 0 p)"

subsection \<open>Reals\<close>

definition isdigit :: "char \<Rightarrow> bool" where
  "isdigit c \<longleftrightarrow> 48 \<le> (of_char c :: nat) \<and> (of_char c :: nat) \<le> 57"

definition digit_val :: "char \<Rightarrow> nat" where
  "digit_val c = of_char c - 48"

fun skip_digits :: "string \<Rightarrow> string" where
  "skip_digits [] = []"
| "skip_digits (c # p) = (if isdigit c then skip_digits p else c # p)"

fun atof_frac :: "real \<Rightarrow> real \<Rightarrow> string \<Rightarrow> real \<times> string" where
  "atof_frac d x [] = (x, [])"
| "atof_frac d x (c # p) =
     (if isdigit c then atof_frac (d / 10) (x + d / 10 * real (digit_val c)) p else (x, c # p))"

text \<open>The exponent of the suffix: \<open>e\<close>/\<open>E\<close> with a number, or an SI letter.\<close>

definition atof_exp :: "string \<Rightarrow> int" where
  "atof_exp p =
     (let c = cget p
      in if c = CHR ''e'' \<or> c = CHR ''E'' then sint (my_atoi (tl p))
         else if c = CHR ''G'' then 9
         else if c = CHR ''M'' then 6
         else if c = CHR ''k'' then 3
         else if c = CHR ''m'' then -3
         else if c = CHR ''u'' then -6
         else if c = CHR ''n'' then -9
         else if c = CHR ''p'' then -12
         else 0)"

fun mul_times :: "nat \<Rightarrow> real \<Rightarrow> real \<Rightarrow> real" where
  "mul_times 0 m x = x"
| "mul_times (Suc n) m x = mul_times n m (x * m)"

definition my_atof :: "string \<Rightarrow> real" where
  "my_atof s =
     (let neg = (cget s = CHR ''-'');
          p = (if cget s = CHR ''-'' \<or> cget s = CHR ''+'' then tl s else s);
          x = real_of_int (sint (my_atoi p));
          p1 = skip_digits p;
          (x1, p2) = (if cget p1 = CHR ''.'' \<or> cget p1 = CHR '','' then atof_frac 1 x (tl p1)
                      else (x, p1));
          e = (if cget p2 \<noteq> CHR 0x00 then atof_exp p2 else 0);
          x2 = (if e > 0 then mul_times (nat e) 10 x1
                else if e < 0 then mul_times (nat (- e)) (1 / 10) x1 else x1)
      in if neg then - x2 else x2)"

subsection \<open>Comparison and keyword search\<close>

definition to_lower :: "char \<Rightarrow> char" where
  "to_lower c =
     (if 65 \<le> (of_char c :: nat) \<and> (of_char c :: nat) \<le> 90
      then char_of ((of_char c :: nat) - 65 + 97) else c)"

function strcmpi :: "string \<Rightarrow> string \<Rightarrow> bool" where
  "strcmpi t1 t2 =
     (let ch1 = to_lower (cget t1); ch2 = to_lower (cget t2)
      in if ch1 \<noteq> ch2 then False
         else if ch1 = CHR 0x00 then True
         else strcmpi (tl t1) (tl t2))"
  by pat_completeness auto
termination
proof (relation "measure (\<lambda>(t1, t2). length t1)", goal_cases)
  case (2 t1 t2 x y)
  then show ?case by (cases t1) (auto simp: to_lower_def)
qed simp

declare strcmpi.simps [simp del]

text \<open>One candidate of the keyword list: \<open>True\<close> when \<open>p\<close> equals the item the list starts with.\<close>

function gsi_match :: "string \<Rightarrow> string \<Rightarrow> bool \<times> string" where
  "gsi_match p l =
     (let c = (if cget l = CHR ''|'' then CHR 0x00 else cget l)
      in if c = cget p then
           (if c = CHR 0x00 then (True, l) else gsi_match (tl p) (tl l))
         else (False, l))"
  by pat_completeness auto
termination
proof (relation "measure (\<lambda>(p, l). length l)", goal_cases)
  case (2 p l c)
  then show ?case by (cases l) (auto split: if_splits)
qed simp

declare gsi_match.simps [simp del]

text \<open>Advance behind the next bar; \<open>None\<close> at the end of the list.\<close>

fun gsi_skip :: "string \<Rightarrow> string option" where
  "gsi_skip [] = None"
| "gsi_skip (c # l) =
     (if c = CHR 0x00 then None else if c = CHR ''|'' then Some l else gsi_skip l)"

lemma gsi_match_shorter: "length (snd (gsi_match p l)) \<le> length l"
proof (induction p l rule: gsi_match.induct)
  case (1 p l)
  then show ?case
    by (subst gsi_match.simps) (cases l; auto simp: Let_def)
qed

lemma gsi_skip_shorter: "gsi_skip l = Some l' \<Longrightarrow> length l' < length l"
  by (induction l rule: gsi_skip.induct) (auto split: if_splits)

function gsi_from :: "int \<Rightarrow> string \<Rightarrow> string \<Rightarrow> int" where
  "gsi_from i v l =
     (case gsi_match v l of
        (True, _) \<Rightarrow> i
      | (False, l1) \<Rightarrow> (case gsi_skip l1 of None \<Rightarrow> -1 | Some l2 \<Rightarrow> gsi_from (i + 1) v l2))"
  by pat_completeness auto
termination
proof (relation "measure (\<lambda>(i, v, l). length l)", goal_cases)
  case (2 i v l x l1 l2)
  have "length l1 \<le> length l" using gsi_match_shorter [of v l] 2(1) [symmetric] 2(2) by simp
  moreover have "length l2 < length l1" using 2 by (auto dest: gsi_skip_shorter)
  ultimately show ?case by simp
qed simp

declare gsi_from.simps [simp del]

definition get_str_index :: "string \<Rightarrow> string \<Rightarrow> int" where
  "get_str_index v list = gsi_from 0 v list"

subsection \<open>Tokenizer\<close>

definition char_at :: "string \<Rightarrow> nat \<Rightarrow> char" where
  "char_at line i = (if i < length line then line ! i else CHR 0x00)"

function strpbrk :: "string \<Rightarrow> nat \<Rightarrow> string \<Rightarrow> nat" where
  "strpbrk line lp brk =
     (if char_at line lp = CHR 0x00 then lp
      else if char_at line lp \<in> set brk then lp
      else strpbrk line (Suc lp) brk)"
  by pat_completeness auto
termination
  by (relation "measure (\<lambda>(line, lp, brk). length line - lp)") (auto simp: char_at_def split: if_splits)

declare strpbrk.simps [simp del]

lemma strpbrk_ge: "lp \<le> strpbrk line lp brk"
proof (induction line lp brk rule: strpbrk.induct)
  case (1 line lp brk)
  then show ?case by (subst strpbrk.simps) auto
qed

function parse_loop :: "nat \<Rightarrow> string \<Rightarrow> nat \<Rightarrow> nat list \<Rightarrow> nat \<Rightarrow> string \<times> nat list \<times> nat" where
  "parse_loop max_cnt line lp args nargs =
     (let c = char_at line lp
      in if c = CHR 0x00 then (line, args, nargs)
         else if c \<noteq> CHR '' '' \<and> c \<noteq> CHR 0x09 then
           (let lp1 = (if c = CHR 0x22 then Suc lp else lp);
                brk = (if c = CHR 0x22 then [CHR 0x22] else [CHR '' '', CHR 0x09]);
                args1 = (if nargs < max_cnt then args @ [lp1] else args);
                lp2 = strpbrk line lp1 brk
            in if char_at line lp2 = CHR 0x00 then (line, args1, Suc nargs)
               else parse_loop max_cnt (line[lp2 := CHR 0x00]) (Suc lp2) args1 (Suc nargs))
         else parse_loop max_cnt line (Suc lp) args nargs)"
  by pat_completeness auto
termination
proof (relation "measure (\<lambda>(m, line, lp, args, n). length line - lp)", goal_cases)
  case (2 m line lp args n c lp1 brk args1 lp2)
  then have "lp \<le> lp2" using strpbrk_ge [of lp1 line brk] by (auto split: if_splits)
  with 2 show ?case by (auto simp: char_at_def split: if_splits)
next
  case (3 m line lp args n c)
  then show ?case by (auto simp: char_at_def split: if_splits)
qed simp

declare parse_loop.simps [simp del]

definition parse_line :: "string \<Rightarrow> nat \<Rightarrow> string \<times> nat list \<times> nat" where
  "parse_line line max_cnt = parse_loop max_cnt line 0 [] 0"

subsection \<open>Specifications\<close>

text \<open>What the keyword search means: the position of a string in the bar-separated list.\<close>

fun split_bar :: "string \<Rightarrow> string list" where
  "split_bar [] = [[]]"
| "split_bar (c # l) =
     (if c = CHR ''|'' then [] # split_bar l
      else (c # hd (split_bar l)) # tl (split_bar l))"

fun find_index :: "'a \<Rightarrow> int \<Rightarrow> 'a list \<Rightarrow> int" where
  "find_index v i [] = -1"
| "find_index v i (x # xs) = (if x = v then i else find_index v (i + 1) xs)"

text \<open>The string an argument pointer denotes: the buffer from its offset to the next NUL.\<close>

definition cstr_from :: "string \<Rightarrow> nat \<Rightarrow> string" where
  "cstr_from line i = takeWhile (\<lambda>c. c \<noteq> CHR 0x00) (drop i line)"

abbreviation blank :: "char \<Rightarrow> bool" where
  "blank c \<equiv> c = CHR '' '' \<or> c = CHR 0x09"

function tokens :: "string \<Rightarrow> string list" where
  "tokens [] = []"
| "tokens (c # p) =
     (if blank c then tokens p
      else if c = CHR 0x22 then
        takeWhile (\<lambda>d. d \<noteq> CHR 0x22) p # tokens (drop 1 (dropWhile (\<lambda>d. d \<noteq> CHR 0x22) p))
      else takeWhile (\<lambda>d. \<not> blank d) (c # p) # tokens (drop 1 (dropWhile (\<lambda>d. \<not> blank d) (c # p))))"
  by pat_completeness auto
termination
proof (relation "measure length", goal_cases)
  case (3 c p)
  then show ?case using length_dropWhile_le [of _ p] by (auto simp: less_Suc_eq_le intro: le_trans diff_le_self)
next
  case (4 c p)
  then show ?case using length_dropWhile_le [of _ p] by (auto simp: less_Suc_eq_le intro: le_trans diff_le_self)
qed auto

subsection \<open>Keyword search\<close>

lemma split_bar_not_Nil [simp]: "split_bar l \<noteq> []"
  by (cases l) auto

lemma find_index_hd_tl:
  "xs \<noteq> [] \<Longrightarrow> find_index v i xs = (if hd xs = v then i else find_index v (i + 1) (tl xs))"
  by (cases xs) auto

lemma split_bar_no_bar: "x \<in> set (split_bar l) \<Longrightarrow> CHR ''|'' \<notin> set x"
proof (induction l arbitrary: x)
  case (Cons c l)
  then show ?case
    by (cases "split_bar l") (auto split: if_splits)
qed simp

lemma gsi_skip_split:
  assumes "nul_free l"
  shows "gsi_skip l = None \<Longrightarrow> tl (split_bar l) = []"
    and "gsi_skip l = Some l2 \<Longrightarrow> split_bar l2 = tl (split_bar l) \<and> nul_free l2"
  using assms by (induction l) (auto split: if_splits)

lemma gsi_match_correct:
  assumes "nul_free v" "nul_free l"
  shows "fst (gsi_match v l) = (v = hd (split_bar l))"
    and "gsi_skip (snd (gsi_match v l)) = gsi_skip l \<and> nul_free (snd (gsi_match v l))"
  using assms
proof (induction v l rule: gsi_match.induct)
  case (1 p l)
  {
    case 1
    with "1.IH"(1) [OF refl] show ?case
      by (subst gsi_match.simps) (cases l; cases p; auto simp: Let_def)
  next
    case 2
    with "1.IH"(2) [OF refl] show ?case
      by (subst (1 2) gsi_match.simps) (cases l; cases p; auto simp: Let_def)
  }
qed

lemma gsi_from_correct:
  "nul_free v \<Longrightarrow> nul_free l \<Longrightarrow> gsi_from i v l = find_index v i (split_bar l)"
proof (induction i v l rule: gsi_from.induct)
  case (1 i v l)
  obtain b l1 where m: "gsi_match v l = (b, l1)" by fastforce
  have b: "b = (v = hd (split_bar l))" and s: "gsi_skip l1 = gsi_skip l"
    using gsi_match_correct [OF "1.prems"] m by auto
  show ?case
  proof (cases "gsi_skip l")
    case None
    then show ?thesis
      using m b s gsi_skip_split(1) [OF "1.prems"(2)]
      by (subst gsi_from.simps) (auto simp: find_index_hd_tl split: bool.splits)
  next
    case (Some l2)
    have "\<not> b \<Longrightarrow> gsi_from (i + 1) v l2 = find_index v (i + 1) (split_bar l2)"
      using "1.IH" m s Some "1.prems" gsi_skip_split(2) [OF "1.prems"(2) Some] by auto
    with Some show ?thesis
      using m b s gsi_skip_split(2) [OF "1.prems"(2) Some]
      by (subst gsi_from.simps) (auto simp: find_index_hd_tl split: bool.splits)
  qed
qed

text \<open>\<open>get_str_index\<close> returns the position of the keyword in the bar-separated list, and -1
  exactly when it is not one of its items; it always returns.\<close>

theorem get_str_index_correct:
  assumes "nul_free v" "nul_free l"
  shows "get_str_index v l = find_index v 0 (split_bar l)"
  using assms by (simp add: get_str_index_def gsi_from_correct)

theorem get_str_index_correct_witness:
  "get_str_index ''span'' ''start|stop|center|span|cw'' = find_index ''span'' 0 (split_bar ''start|stop|center|span|cw'')"
  by (rule get_str_index_correct) (simp_all add: nul_free_def)

subsection \<open>Tokenizer lemmas\<close>

lemma char_at_append [simp]:
  "char_at (pre @ rest) (length pre) = cget rest"
  by (cases rest) (auto simp: char_at_def nth_append)

lemma char_at_append_add: "char_at (pre @ rest) (length pre + i) = char_at rest i"
  by (simp add: char_at_def nth_append)

lemma strpbrk_append:
  "nul_free rest \<Longrightarrow>
   strpbrk (pre @ rest) (length pre) brk = length pre + length (takeWhile (\<lambda>d. d \<notin> set brk) rest)"
proof (induction rest arbitrary: pre)
  case Nil
  then show ?case by (subst strpbrk.simps) (simp add: char_at_def)
next
  case (Cons c rest)
  have "strpbrk ((pre @ [c]) @ rest) (length (pre @ [c])) brk
        = length (pre @ [c]) + length (takeWhile (\<lambda>d. d \<notin> set brk) rest)"
    using Cons.IH [of "pre @ [c]"] Cons.prems by simp
  with Cons.prems show ?case by (subst strpbrk.simps) simp
qed

lemma cstr_from_token:
  "nul_free t \<Longrightarrow> k = length pre \<Longrightarrow> cget r = CHR 0x00 \<Longrightarrow> cstr_from (pre @ t @ r) k = t"
  by (cases r) (auto simp: cstr_from_def nul_free_def takeWhile_append)

lemma takeWhile_nul_free: "nul_free p \<Longrightarrow> nul_free (takeWhile P p)"
  by (auto simp: nul_free_def dest: set_takeWhileD)

lemma dropWhile_nul_free: "nul_free p \<Longrightarrow> nul_free (dropWhile P p)"
  by (auto simp: nul_free_def dest: set_dropWhileD)

text \<open>One token: \<open>q\<close> is the opening quote or empty, \<open>body\<close> what the scan for the end sees.\<close>

lemma parse_loop_token:
  assumes nf: "nul_free body" and c: "rest = c # p" "\<not> blank c" "c \<noteq> CHR 0x00"
    and q: "q = (if c = CHR 0x22 then [CHR 0x22] else [])" "rest = q @ body"
    and brk: "brk = (if c = CHR 0x22 then [CHR 0x22] else [CHR '' '', CHR 0x09])"
    and t: "t = takeWhile (\<lambda>d. d \<notin> set brk) body"
    and d: "dropWhile (\<lambda>d. d \<notin> set brk) body = d"
  shows "parse_loop m (pre @ rest) (length pre) args n =
     (if d = [] then (pre @ rest, (if n < m then args @ [length (pre @ q)] else args), Suc n)
      else parse_loop m ((pre @ q @ t @ [CHR 0x00]) @ tl d) (length (pre @ q @ t @ [CHR 0x00]))
             (if n < m then args @ [length (pre @ q)] else args) (Suc n))"
proof -
  have body: "body = t @ d" using t d by (metis takeWhile_dropWhile_id)
  have lp2: "strpbrk (pre @ rest) (length (pre @ q)) brk = length (pre @ q @ t)"
    using strpbrk_append [OF nf, of "pre @ q" brk] q(2) t by simp
  have lp1: "(if c = CHR 0x22 then Suc (length pre) else length pre) = length (pre @ q)"
    by (simp add: q(1))
  have at: "char_at (pre @ rest) (length (pre @ q @ t)) = cget d"
    using char_at_append [of "pre @ q @ t" d] q(2) body by simp
  have dn: "cget d = CHR 0x00 \<longleftrightarrow> d = []"
    using nf body by (intro cget_eq_0_iff) auto
  have upd: "(pre @ rest)[length pre + (length q + length t) := CHR 0x00] = pre @ q @ t @ CHR 0x00 # tl d" if "d \<noteq> []"
    using that q(2) body by (cases d) (auto simp: list_update_append)
  have cc: "char_at (pre @ rest) (length pre) = c" using c(1) by simp
  have c': "c \<noteq> CHR '' ''" "c \<noteq> CHR 0x09" using c(2) by auto
  show ?thesis
    by (subst parse_loop.simps, unfold cc Let_def lp1 brk [symmetric] lp2 at)
       (simp add: dn c(3) c' upd)
qed

lemma parse_loop_length: "length (fst (parse_loop m line lp args n)) = length line"
proof (induction m line lp args n rule: parse_loop.induct)
  case (1 m line lp args n)
  then show ?case by (subst parse_loop.simps) (simp add: Let_def)
qed

lemma parse_loop_correct:
  "nul_free rest \<Longrightarrow>
   \<exists>line' os. parse_loop m (pre @ rest) (length pre) args n
       = (pre @ line', args @ take (m - n) os, n + length os)
     \<and> map (cstr_from (pre @ line')) os = tokens rest"
proof (induction rest arbitrary: pre args n rule: tokens.induct)
  case 1
  show ?case by (rule exI [of _ "[]"], rule exI [of _ "[]"], subst parse_loop.simps) (simp add: char_at_def)
next
  case (2 c p)
  show ?case
  proof (cases "blank c")
    case True
    have "parse_loop m (pre @ c # p) (length pre) args n = parse_loop m ((pre @ [c]) @ p) (length (pre @ [c])) args n"
      using True by (subst parse_loop.simps) (auto simp: Let_def)
    moreover obtain line' os where "parse_loop m ((pre @ [c]) @ p) (length (pre @ [c])) args n
       = ((pre @ [c]) @ line', args @ take (m - n) os, n + length os)"
       "map (cstr_from ((pre @ [c]) @ line')) os = tokens p"
      using "2.IH"(1) [OF True, of "pre @ [c]" args n] "2.prems" by auto
    ultimately show ?thesis using True by (intro exI [of _ "c # line'"] exI [of _ os]) simp
  next
    case False
    define q where "q = (if c = CHR 0x22 then [CHR 0x22] else [])"
    define body where "body = (if c = CHR 0x22 then p else c # p)"
    define brk where "brk = (if c = CHR 0x22 then [CHR 0x22] else [CHR '' '', CHR 0x09])"
    define t where "t = takeWhile (\<lambda>d. d \<notin> set brk) body"
    define d where "d = dropWhile (\<lambda>d. d \<notin> set brk) body"
    have eq: "c # p = q @ body" by (simp add: q_def body_def)
    have nf: "nul_free body" "nul_free t" "nul_free d"
      using "2.prems" by (auto simp: body_def t_def d_def takeWhile_nul_free dropWhile_nul_free)
    have body: "body = t @ d" by (simp add: t_def d_def)
    have tok: "tokens (c # p) = t # tokens (tl d)"
      using False by (auto simp: t_def d_def body_def brk_def drop_Suc)
    define args1 where "args1 = (if n < m then args @ [length (pre @ q)] else args)"
    have step: "parse_loop m (pre @ c # p) (length pre) args n =
       (if d = [] then (pre @ c # p, args1, Suc n)
        else parse_loop m ((pre @ q @ t @ [CHR 0x00]) @ tl d) (length (pre @ q @ t @ [CHR 0x00])) args1 (Suc n))"
      unfolding args1_def
      using "2.prems" False
      by (intro parse_loop_token [OF nf(1) refl _ _ q_def eq brk_def t_def d_def [symmetric]])
         simp_all
    have args1: "args1 @ take (m - Suc n) os = args @ take (m - n) (length (pre @ q) # os)" for os
      by (cases "m - n") (auto simp: args1_def diff_Suc)
    show ?thesis
    proof (cases "d = []")
      case True
      then show ?thesis
        using step tok args1 [of "[]"] body eq cstr_from_token [OF nf(2) refl, of "[]" "pre @ q"]
        by (intro exI [of _ "q @ t"] exI [of _ "[length (pre @ q)]"]) simp
    next
      case False
      have IH: "\<exists>line' os. parse_loop m ((pre @ q @ t @ [CHR 0x00]) @ tl d) (length (pre @ q @ t @ [CHR 0x00])) args1 (Suc n)
         = ((pre @ q @ t @ [CHR 0x00]) @ line', args1 @ take (m - Suc n) os, Suc n + length os)
         \<and> map (cstr_from ((pre @ q @ t @ [CHR 0x00]) @ line')) os = tokens (tl d)"
      proof -
        have "nul_free (tl d)" using nf(3) by (cases d) auto
        then show ?thesis
          using "2.IH"(2) [OF \<open>\<not> blank c\<close>, of "pre @ q @ t @ [CHR 0x00]" args1 "Suc n"]
            "2.IH"(3) [OF \<open>\<not> blank c\<close>, of "pre @ q @ t @ [CHR 0x00]" args1 "Suc n"]
          by (cases "c = CHR 0x22") (auto simp: d_def body_def brk_def drop_Suc)
      qed
      then obtain line' os where l: "parse_loop m ((pre @ q @ t @ [CHR 0x00]) @ tl d) (length (pre @ q @ t @ [CHR 0x00])) args1 (Suc n)
         = ((pre @ q @ t @ [CHR 0x00]) @ line', args1 @ take (m - Suc n) os, Suc n + length os)"
        "map (cstr_from ((pre @ q @ t @ [CHR 0x00]) @ line')) os = tokens (tl d)" by blast
      have "cstr_from (pre @ q @ t @ CHR 0x00 # line') (length (pre @ q)) = t"
        using cstr_from_token [OF nf(2) refl, of "CHR 0x00 # line'" "pre @ q"] by simp
      then show ?thesis
        using step l False tok args1 [of os]
        by (intro exI [of _ "q @ t @ [CHR 0x00] @ line'"] exI [of _ "length (pre @ q) # os"]) simp
    qed
  qed
qed


subsection \<open>Decimal numbers\<close>

definition dec_value :: "string \<Rightarrow> nat" where
  "dec_value ds = foldl (\<lambda>v c. v * 10 + digit_val c) 0 ds"

lemma isdigit_iff: "isdigit c \<longleftrightarrow> (\<exists>k<10. c = char_of (48 + k :: nat))"
proof
  assume "isdigit c"
  then show "\<exists>k<10. c = char_of (48 + k :: nat)"
    by (intro exI [of _ "of_char c - 48"]) (auto simp: isdigit_def)
qed (auto simp: isdigit_def of_char_of take_bit_eq_mod)

lemma digit_code_eq: "digit_code c = of_nat (of_char c) - 48"
  by (cases c) (simp add: digit_code_def of_char_def)

lemma digit_code_isdigit:
  "isdigit c \<Longrightarrow> digit_code c = of_nat (digit_val c)"
  by (auto simp: isdigit_def digit_code_eq digit_val_def of_nat_diff)

lemma isdigit_digit_val: "isdigit c \<Longrightarrow> digit_val c < 10"
  by (auto simp: isdigit_def digit_val_def)

lemma digit_code_less_all: "\<forall>c. (digit_code c < 10) = isdigit c" by code_simp
lemma atoui_digit_all: "\<forall>c. isdigit c \<longrightarrow> atoui_digit c = digit_code c" by code_simp

lemma digit_code_less [simp]: "digit_code c < 10 \<longleftrightarrow> isdigit c"
  using digit_code_less_all by simp

definition dec_from :: "nat \<Rightarrow> string \<Rightarrow> nat" where
  "dec_from v ds = foldl (\<lambda>v c. v * 10 + digit_val c) v ds"

lemma dec_from_simps [simp]:
  "dec_from v [] = v" "dec_from v (c # ds) = dec_from (v * 10 + digit_val c) ds"
  by (simp_all add: dec_from_def)

lemma atoi_loop_decimal:
  "list_all isdigit ds \<Longrightarrow> \<not> isdigit (cget r) \<Longrightarrow> atoi_loop (of_nat v) (ds @ r) = of_nat (dec_from v ds)"
proof (induction ds arbitrary: v)
  case Nil
  then show ?case by (cases r) auto
next
  case (Cons c ds)
  then show ?case
    using Cons.IH [of "v * 10 + digit_val c"] digit_code_less [of c] by (simp add: digit_code_isdigit)
qed

lemma atoui_loop_decimal:
  "list_all isdigit ds \<Longrightarrow> atoui_digit (cget r) \<ge> 10 \<Longrightarrow> atoui_loop 10 (of_nat v) (ds @ r) = of_nat (dec_from v ds)"
proof (induction ds arbitrary: v)
  case Nil
  then show ?case by (cases r) auto
next
  case (Cons c ds)
  have "atoui_digit c = of_nat (digit_val c)" "\<not> (10::u32) \<le> digit_code c"
    using Cons.prems atoui_digit_all digit_code_less [of c] by (auto simp: digit_code_isdigit not_le)
  then show ?case
    using Cons.prems Cons.IH [of "v * 10 + digit_val c"] by (simp add: digit_code_isdigit)
qed

lemma dec_from_add: "dec_from v ds = v * 10 ^ length ds + dec_value ds"
proof (induction ds arbitrary: v)
  case Nil then show ?case by (simp add: dec_value_def)
next
  case (Cons c ds)
  show ?case using Cons [of "v * 10 + digit_val c"] Cons [of "digit_val c"]
    by (simp add: dec_value_def flip: dec_from_def) (simp add: algebra_simps)
qed

lemma atof_frac_decimal:
  "list_all isdigit ds \<Longrightarrow> \<not> isdigit (cget r) \<Longrightarrow>
   atof_frac d x (ds @ r) = (x + d * real (dec_value ds) / 10 ^ length ds, r)"
proof (induction ds arbitrary: d x)
  case Nil
  then show ?case by (cases r) (auto simp: dec_value_def)
next
  case (Cons c ds)
  have "dec_value (c # ds) = digit_val c * 10 ^ length ds + dec_value ds"
    using dec_from_add [of "digit_val c" ds] by (simp add: dec_value_def dec_from_def)
  with Cons show ?case by (simp add: field_simps)
qed

lemma skip_digits_decimal:
  "list_all isdigit ds \<Longrightarrow> \<not> isdigit (cget r) \<Longrightarrow> skip_digits (ds @ r) = r"
  by (induction ds) (cases r; auto)+

lemma isdigit_not: "\<not> isdigit CHR ''.''" "\<not> isdigit CHR ''-''" "\<not> isdigit CHR ''+''"
 "\<not> isdigit CHR 0x00"
  by (simp_all add: isdigit_def)

lemma my_atoi_decimal:
  assumes "list_all isdigit ds" "ds \<noteq> []" "\<not> isdigit (cget r)"
  shows "my_atoi (ds @ r) = of_nat (dec_value ds)"
proof -
  have "cget (ds @ r) \<noteq> CHR ''-''" "cget (ds @ r) \<noteq> CHR ''+''"
    using assms(1,2) by (cases ds; auto simp: isdigit_not)+
  then show ?thesis using atoi_loop_decimal [OF assms(1,3), of 0]
   by (simp add: my_atoi_def Let_def dec_value_def flip: dec_from_def)
qed

lemma mul_times_eq: "mul_times n m x = x * m ^ n"
  by (induction n arbitrary: x) auto

definition si_suffixes :: "(string \<times> int) list" where
  "si_suffixes = [([], 0), (''G'', 9), (''M'', 6), (''k'', 3), (''m'', -3), (''u'', -6),
     (''n'', -9), (''p'', -12)]"

lemma si_suffixes_exp:
  "(r, e) \<in> set si_suffixes \<Longrightarrow>
   \<not> isdigit (cget r) \<and> (if cget r \<noteq> CHR 0x00 then atof_exp r else 0) = e"
  by (auto simp: si_suffixes_def isdigit_def atof_exp_def)

lemma scale_eq:
  "(if e > 0 then mul_times (nat e) 10 x else if e < 0 then mul_times (nat (- e)) (1 / 10) x else x)
   = x * 10 powi e"
  by (auto simp: mul_times_eq power_int_def field_simps)

text \<open>on a decimal number with a fraction and an optional SI suffix \<open>my_atof\<close> returns its value, and
  its negation when a minus sign precedes it, provided the integer part fits in 31 bits.\<close>

theorem my_atof_decimal:
  assumes ds: "list_all isdigit ds" "ds \<noteq> []" and fs: "list_all isdigit fs"
    and bound: "dec_value ds < 2 ^ 31" and r: "(r, e) \<in> set si_suffixes"
  shows "my_atof (ds @ CHR ''.'' # fs @ r)
         = (real (dec_value ds) + real (dec_value fs) / 10 ^ length fs) * 10 powi e
       \<and> my_atof (CHR ''-'' # ds @ CHR ''.'' # fs @ r)
         = - ((real (dec_value ds) + real (dec_value fs) / 10 ^ length fs) * 10 powi e)"
proof -
  let ?p = "ds @ CHR ''.'' # fs @ r"
  have s: "cget ?p \<noteq> CHR ''-''" "cget ?p \<noteq> CHR ''+''"
    using ds by (cases ds; auto simp: isdigit_not)+
  have n: "\<not> isdigit (cget (CHR ''.'' # fs @ r))" by (simp add: isdigit_not)
  have v: "(signed (of_nat (dec_value ds) :: u32) :: real) = real (dec_value ds)"
    using bound by (simp add: signed_of_nat signed_take_bit_int_eq_self)
  note digits = s my_atoi_decimal [OF ds n] skip_digits_decimal [OF ds(1) n] v
    atof_frac_decimal [OF fs, of r 1 "real (dec_value ds)"] si_suffixes_exp [OF r] scale_eq
  show ?thesis using digits by (simp add: my_atof_def Let_def)
qed

theorem my_atof_decimal_witness:
  "my_atof ''14.25M'' = (14 + 25 / 100) * 10 powi 6"
  using my_atof_decimal [of "''14''" "''25''" "''M''" 6]
  by (simp add: isdigit_def dec_value_def digit_val_def si_suffixes_def)

lemma my_atoui_decimal:
  assumes "list_all isdigit ds" "ds \<noteq> []" "10 \<le> atoui_digit (cget r)"
    "\<not> (hd ds = CHR ''0'' \<and> cget (tl ds @ r) \<in> set ''xob'')"
  shows "my_atoui (ds @ r) = of_nat (dec_value ds)"
proof -
  have "cget (ds @ r) \<noteq> CHR ''+''" "tl (ds @ r) = tl ds @ r" "cget (ds @ r) = hd ds"
    using assms(1,2) by (cases ds; auto simp: isdigit_not)+
  then show ?thesis using atoui_loop_decimal [OF assms(1,3), of 0] assms(4)
   by (simp add: my_atoui_def Let_def dec_value_def flip: dec_from_def)
qed

text \<open>\<open>my_atoui\<close> does not stop at every character that is not a digit: the ten characters from
  \<open>'W'\<close> (87) to the back quote are read as the decimal digits 0 to 9.\<close>

theorem my_atoui_accepts_non_digits:
  "map (\<lambda>k. my_atoui (''12'' @ [char_of (87 + k :: nat)])) [0..<10]
     = map (\<lambda>k. 120 + of_nat k) [0..<10]"
  by code_simp

end
