(* ===== verification/Screenshot.thy ===== *)
theory Screenshot
  imports Prelude
begin

text \<open>
  Screenshots on the SD card (\<^verbatim>\<open>ui.c\<close>): the pixel formats of \<^verbatim>\<open>nanovna.h\<close>, the BMP and TIFF writers and
  loaders, and the \<open>packbits\<close> compressor of \<^verbatim>\<open>common.c\<close>, which works inside one buffer: the
  compressed bytes are written from offset 0 while the pixels are read from offset 128.
  The buffer (\<open>spi_buffer\<close>) is a list of bytes, the LCD memory a list of rows of 16 bit pixels in LCD
  order. \<open>f_write\<close> of FatFs is a parameter (\<open>fwr\<close>: file contents and data to result and new contents);
  \<open>f_read\<close> copies the bytes that are left, at most as many as were asked for.
\<close>

subsection \<open>Pixels\<close>

definition RGB565 :: "u32 \<Rightarrow> u32 \<Rightarrow> u32 \<Rightarrow> u32" where
  "RGB565 r g b =
     push_bit 11 (g AND 0x1c) OR push_bit 5 (b AND 0xf8) OR (r AND 0xf8) OR drop_bit 5 (g AND 0xe0)"

definition RGBHEX :: "u32 \<Rightarrow> u32" where
  "RGBHEX hex =
     push_bit 3 (hex AND 0x001c00) OR push_bit 5 (hex AND 0x0000f8)
     OR drop_bit 16 (hex AND 0xf80000) OR drop_bit 13 (hex AND 0x00e000)"

definition HEXRGB :: "u32 \<Rightarrow> u32" where
  "HEXRGB hex =
     (drop_bit 3 hex AND 0x001c00) OR (drop_bit 5 hex AND 0x0000f8)
     OR (push_bit 16 hex AND 0xf80000) OR (push_bit 13 hex AND 0x00e000)"

definition swap16 :: "u16 \<Rightarrow> u16" where
  "swap16 v = push_bit 8 v OR drop_bit 8 v"

definition swap_bytes :: "u16 list \<Rightarrow> u16 list" where
  "swap_bytes buf = map swap16 buf"

text \<open>Alignment of the LCD pixel to 24 bits, as \<open>save_tiff\<close> does it, and back as \<open>load_tiff\<close> does it.\<close>

definition rgb888 :: "u16 \<Rightarrow> u8 \<times> u8 \<times> u8" where
  "rgb888 v =
     (let color = swap16 v;
          r = ucast (drop_bit 8 color AND 0xF8) :: u8;
          g = ucast (drop_bit 3 color AND 0xFC) :: u8;
          b = ucast (push_bit 3 color AND 0xF8) :: u8
      in (if r > 128 then r OR 7 else r, if g > 128 then g OR 3 else g, if b > 128 then b OR 7 else b))"

definition rgb565_of :: "u8 \<Rightarrow> u8 \<Rightarrow> u8 \<Rightarrow> u16" where
  "rgb565_of r g b = ucast (RGB565 (ucast r) (ucast g) (ucast b))"

subsection \<open>Little-endian buffers\<close>

definition le16 :: "u16 \<Rightarrow> u8 list" where
  "le16 v = [ucast v, ucast (drop_bit 8 v)]"

definition le32 :: "nat \<Rightarrow> u8 list" where
  "le32 n = [of_nat n, of_nat (n div 2 ^ 8), of_nat (n div 2 ^ 16), of_nat (n div 2 ^ 24)]"

definition rd16 :: "u8 list \<Rightarrow> nat \<Rightarrow> u16" where
  "rd16 mem k = ucast (mem ! (2 * k)) OR push_bit 8 (ucast (mem ! (2 * k + 1)))"

definition overlay :: "u8 list \<Rightarrow> u8 list \<Rightarrow> u8 list" where
  "overlay d mem = d @ drop (length d) mem"

definition halfwords :: "nat \<Rightarrow> u8 list \<Rightarrow> u16 list" where
  "halfwords n mem = map (rd16 mem) [0..<n]"

subsection \<open>Run-length compression\<close>

fun rle_len :: "u8 list \<Rightarrow> nat \<Rightarrow> u8 \<Rightarrow> nat \<Rightarrow> nat" where
  "rle_len mem a c 0 = 0"
| "rle_len mem a c (Suc l) = (if l \<noteq> 0 \<and> c = mem ! a then Suc (rle_len mem (Suc a) c l) else 0)"

text \<open>\<open>dest\<close> is the start of the buffer and \<open>source\<close> begins at \<open>off\<close>; \<open>sz = None\<close> is the C value -1.\<close>

function packbits_loop ::
    "nat \<Rightarrow> nat \<Rightarrow> u8 list \<Rightarrow> nat \<Rightarrow> nat \<Rightarrow> nat option \<Rightarrow> u8 list \<times> nat" where
  "packbits_loop off srclen mem i pk sz =
     (if i < srclen then
        (let l = (if srclen - i > 128 then 128 else srclen - i);
             c = mem ! (off + i);
             i1 = Suc i;
             rle0 = rle_len mem (off + i1) c l;
             (rle, s, pk1) =
               (if sz \<noteq> None \<and> rle0 < 2 then (0, the sz, pk)
                else if sz = None \<or> rle0 > 0 then (rle0, pk, Suc pk)
                else (rle0, the sz, pk));
             mem1 = mem[pk1 := c];
             pk2 = Suc pk1
         in if rle > 0 then packbits_loop off srclen (mem1[s := - of_nat rle]) (i1 + rle) pk2 None
            else (let n = of_nat (pk2 - s - 2)
                  in packbits_loop off srclen (mem1[s := n]) i1 pk2 (if n < 127 then Some s else None)))
      else (mem, pk))"
  by pat_completeness auto
termination by (relation "measure (\<lambda>(off, srclen, mem, i, pk, sz). srclen - i)") auto

declare packbits_loop.simps [simp del]

definition packbits :: "nat \<Rightarrow> u8 list \<Rightarrow> nat \<Rightarrow> u8 list \<times> nat" where
  "packbits off mem srclen = packbits_loop off srclen mem 0 0 None"

text \<open>The row loop of \<open>load_tiff\<close>; \<open>None\<close> when the file ends inside a block.\<close>

function unpack_row :: "nat \<Rightarrow> u8 list \<Rightarrow> u8 list \<Rightarrow> (u8 list \<times> u8 list) option" where
  "unpack_row lim f acc =
     (if length acc < lim then
        (case f of
           d0 # d1 # f1 \<Rightarrow>
             (if 0 < sint d0 then
                (if nat (sint d0) \<le> length f1
                 then unpack_row lim (drop (nat (sint d0)) f1) (acc @ [d1] @ take (nat (sint d0)) f1)
                 else None)
              else unpack_row lim f1 (acc @ [d1] @ replicate (nat (- sint d0)) d1))
         | _ \<Rightarrow> None)
      else Some (acc, f))"
  by pat_completeness auto
termination by (relation "measure (\<lambda>(lim, f, acc). length f)") auto

declare unpack_row.simps [simp del]

subsection \<open>Files\<close>

definition LCD_WIDTH :: nat where "LCD_WIDTH = 480"
definition LCD_HEIGHT :: nat where "LCD_HEIGHT = 320"

type_synonym lcd = "u16 list list"
type_synonym writer = "u8 list \<Rightarrow> u8 list \<Rightarrow> bool \<times> u8 list"

definition wf_lcd :: "lcd \<Rightarrow> bool" where
  "wf_lcd lcd \<longleftrightarrow> length lcd = LCD_HEIGHT \<and> (\<forall>row\<in>set lcd. length row = LCD_WIDTH)"

text \<open>The progress mark: the last pixel of the row takes the background colour.\<close>

definition lcd_tick :: "u16 \<Rightarrow> nat \<Rightarrow> lcd \<Rightarrow> lcd" where
  "lcd_tick bg y lcd = lcd[y := (lcd ! y)[LCD_WIDTH - 1 := bg]]"

definition bmp_header_v4 :: "u8 list" where
  "bmp_header_v4 =
     [0x42, 0x4D] @ le32 (2 * LCD_WIDTH * LCD_HEIGHT + 122) @ le16 0 @ le16 0 @ le32 122
     @ le32 108 @ le32 LCD_WIDTH @ le32 LCD_HEIGHT @ le16 1 @ le16 16 @ le32 3
     @ le32 (2 * LCD_WIDTH * LCD_HEIGHT) @ le32 0x0EC4 @ le32 0x0EC4 @ le32 0 @ le32 0
     @ le32 0xF800 @ le32 0x07E0 @ le32 0x001F @ le32 0
     @ [0x42, 0x47, 0x52, 0x73] @ concat (replicate 12 (le32 0))"

fun save_bmp_rows :: "writer \<Rightarrow> u16 \<Rightarrow> nat \<Rightarrow> bool \<Rightarrow> lcd \<Rightarrow> u8 list \<Rightarrow> bool \<times> lcd \<times> u8 list" where
  "save_bmp_rows fwr bg 0 res lcd f = (res, lcd, f)"
| "save_bmp_rows fwr bg (Suc y) res lcd f =
     (if res then
        (let (res1, f1) = fwr f (concat (map le16 (swap_bytes (lcd ! y))))
         in save_bmp_rows fwr bg y res1 (lcd_tick bg y lcd) f1)
      else (res, lcd, f))"

definition save_bmp :: "writer \<Rightarrow> u16 \<Rightarrow> lcd \<Rightarrow> u8 list \<Rightarrow> bool \<times> lcd \<times> u8 list" where
  "save_bmp fwr bg lcd f =
     (let (res, f1) = fwr f bmp_header_v4 in save_bmp_rows fwr bg LCD_HEIGHT res lcd f1)"

fun load_bmp_rows :: "nat \<Rightarrow> u8 list \<Rightarrow> u8 list \<Rightarrow> lcd \<Rightarrow> lcd" where
  "load_bmp_rows 0 mem f lcd = lcd"
| "load_bmp_rows (Suc y) mem f lcd =
     (let d = take (2 * LCD_WIDTH) f;
          mem1 = overlay d mem;
          row = swap_bytes (halfwords LCD_WIDTH mem1)
      in load_bmp_rows y (overlay (concat (map le16 row)) mem1) (drop (2 * LCD_WIDTH) f) (lcd[y := row]))"

definition load_bmp :: "u8 list \<Rightarrow> u8 list \<Rightarrow> lcd \<Rightarrow> string + lcd" where
  "load_bmp mem f lcd =
     (let mem1 = overlay (take 122 f) mem
      in if rd16 mem1 9 \<noteq> of_nat LCD_WIDTH \<or> rd16 mem1 11 \<noteq> of_nat LCD_HEIGHT \<or> rd16 mem1 14 \<noteq> 16
         then Inl ''Format err''
         else Inr (load_bmp_rows LCD_HEIGHT mem1 (drop 122 f) lcd))"

definition ifd_entry :: "nat \<Rightarrow> nat \<Rightarrow> nat \<Rightarrow> nat \<Rightarrow> u8 list" where
  "ifd_entry ty val_t cnt val = le16 (of_nat ty) @ le16 (of_nat val_t) @ le32 cnt @ le32 val"

definition tif_header :: "u8 list" where
  "tif_header =
     [0x49, 0x49] @ le16 0x002A @ le32 8 @ le16 7
     @ ifd_entry 0x0100 3 1 LCD_WIDTH @ ifd_entry 0x0101 3 1 LCD_HEIGHT @ ifd_entry 0x0102 3 3 98
     @ ifd_entry 0x0103 3 1 0x8005 @ ifd_entry 0x0106 3 1 2 @ ifd_entry 0x0111 4 1 104
     @ ifd_entry 0x0115 3 1 3
     @ [0, 0, 0, 0] @ le16 8 @ le16 8 @ le16 8"

text \<open>The conversion of one LCD row to 24 bits, in place: pixel \<open>x\<close> at bytes \<open>2x\<close>, its colours at
  \<open>128 + 3x\<close>, from the last pixel to the first.\<close>

fun rgb888_loop :: "nat \<Rightarrow> u8 list \<Rightarrow> u8 list" where
  "rgb888_loop 0 mem = mem"
| "rgb888_loop (Suc x) mem =
     (let (r, g, b) = rgb888 (rd16 mem x)
      in rgb888_loop x (mem[128 + 3 * x := r, 128 + 3 * x + 1 := g, 128 + 3 * x + 2 := b]))"

fun save_tiff_rows :: "nat \<Rightarrow> writer \<Rightarrow> u16 \<Rightarrow> nat \<Rightarrow> bool \<Rightarrow> u8 list \<Rightarrow> lcd \<Rightarrow> u8 list
    \<Rightarrow> bool \<times> lcd \<times> u8 list" where
  "save_tiff_rows 0 fwr bg y res mem lcd f = (res, lcd, f)"
| "save_tiff_rows (Suc k) fwr bg y res mem lcd f =
     (if res then
        (let mem1 = rgb888_loop LCD_WIDTH (overlay (concat (map le16 (lcd ! y))) mem);
             (mem2, pk) = packbits 128 mem1 (LCD_WIDTH * 3);
             (res1, f1) = fwr f (take pk mem2)
         in save_tiff_rows k fwr bg (Suc y) res1 mem2 (lcd_tick bg y lcd) f1)
      else (res, lcd, f))"

definition save_tiff :: "writer \<Rightarrow> u16 \<Rightarrow> u8 list \<Rightarrow> lcd \<Rightarrow> u8 list \<Rightarrow> bool \<times> lcd \<times> u8 list" where
  "save_tiff fwr bg mem lcd f =
     (let (res, f1) = fwr f tif_header in save_tiff_rows LCD_HEIGHT fwr bg 0 res mem lcd f1)"

text \<open>Back to 16 bits in place, from the first pixel to the last.\<close>

fun rgb565_loop :: "nat \<Rightarrow> nat \<Rightarrow> u8 list \<Rightarrow> u8 list" where
  "rgb565_loop 0 x mem = mem"
| "rgb565_loop (Suc k) x mem =
     (let v = rgb565_of (mem ! (3 * x)) (mem ! (3 * x + 1)) (mem ! (3 * x + 2))
      in rgb565_loop k (Suc x) (mem[2 * x := ucast v, 2 * x + 1 := ucast (drop_bit 8 v)]))"

text \<open>\<open>None\<close> when the file ends inside a row: the C code then draws uninitialised bytes.\<close>

fun load_tiff_rows :: "nat \<Rightarrow> nat \<Rightarrow> u8 list \<Rightarrow> u8 list \<Rightarrow> lcd \<Rightarrow> lcd option" where
  "load_tiff_rows 0 y mem f lcd = Some lcd"
| "load_tiff_rows (Suc k) y mem f lcd =
     (case unpack_row (LCD_WIDTH * 3) f [] of
        None \<Rightarrow> None
      | Some (bytes, f1) \<Rightarrow>
          (let mem1 = rgb565_loop LCD_WIDTH 0 (overlay bytes mem)
           in load_tiff_rows k (Suc y) mem1 f1 (lcd[y := halfwords LCD_WIDTH mem1])))"

definition load_tiff :: "u8 list \<Rightarrow> u8 list \<Rightarrow> lcd \<Rightarrow> string + lcd option" where
  "load_tiff mem f lcd =
     (let mem1 = overlay (take 104 f) mem
      in if rd16 mem1 0 \<noteq> 0x4949 \<or> rd16 mem1 9 \<noteq> of_nat LCD_WIDTH
            \<or> rd16 mem1 15 \<noteq> of_nat LCD_HEIGHT \<or> rd16 mem1 27 \<noteq> 0x8005
         then Inl ''Format err''
         else Inr (load_tiff_rows LCD_HEIGHT 0 mem1 (drop 104 f) lcd))"

subsection \<open>Lemmas on pixels and buffers\<close>

text \<open>A property of the bit positions of a half word is checked position by position.\<close>

lemma halfword_bits: "list_all P [0..<16] \<Longrightarrow> n < LENGTH(16) \<Longrightarrow> P n"
  by (simp add: list_all_iff)

lemma halfword_positions: "[0..<16] = 0 # Suc 0 # [2..<16]"
  by (simp add: upt_conv_Cons numeral_2_eq_2)

lemma align_bits: 
  "bit (ucast (if r > 128 then r OR 7 else r :: u8) :: u32) n = (bit r n \<or> (r > 128 \<and> n < 3))"
  "bit (ucast (if r > 128 then r OR 3 else r :: u8) :: u32) n = (bit r n \<or> (r > 128 \<and> n < 2))"
proof -
  have m: "(7::u8) = mask 3" "(3::u8) = mask 2" by (simp_all add: mask_eq_exp_minus_1)
  show "bit (ucast (if r > 128 then r OR 7 else r) :: u32) n = (bit r n \<or> (r > 128 \<and> n < 3))"
    "bit (ucast (if r > 128 then r OR 3 else r) :: u32) n = (bit r n \<or> (r > 128 \<and> n < 2))"
    unfolding m by (auto simp: bit_simps dest: bit_imp_le_length)
qed

lemma rgb565_rgb888: "rgb888 v = (r, g, b) \<Longrightarrow> rgb565_of r g b = v"
proof (rule bit_word_eqI)
  fix n assume "rgb888 v = (r, g, b)" and n: "n < LENGTH(16)"
  then have eq: "r = (let r = ucast (drop_bit 8 (swap16 v) AND 0xF8) in if r > 128 then r OR 7 else r)"
    "g = (let r = ucast (drop_bit 3 (swap16 v) AND 0xFC) in if r > 128 then r OR 3 else r)"
    "b = (let r = ucast (push_bit 3 (swap16 v) AND 0xF8) in if r > 128 then r OR 7 else r)"
    by (auto simp: rgb888_def Let_def)
  have "list_all (\<lambda>n. bit (rgb565_of r g b) n = bit v n) [0..<16]"
    unfolding eq Let_def rgb565_of_def RGB565_def
    by (simp add: halfword_positions bit_simps align_bits swap16_def) (auto dest: bit_imp_le_length)
  then show "bit (rgb565_of r g b) n = bit v n" using n by (rule halfword_bits)
qed

lemma ucast_le16: "ucast (ucast v :: u8) OR push_bit 8 (ucast (ucast (drop_bit 8 v) :: u8)) = (v :: u16)"
  by (rule bit_word_eqI) (auto simp: bit_simps dest: bit_imp_le_length)

lemma swap16_swap16 [simp]: "swap16 (swap16 v) = v"
  by (rule bit_word_eqI) (auto simp: swap16_def bit_simps dest: bit_imp_le_length)

lemma length_le [simp]: "length (le16 v) = 2" "length (le32 n) = 4"
  by (simp_all add: le16_def le32_def)

lemma length_headers: "length bmp_header_v4 = 122" "length tif_header = 104"
  by (simp_all add: bmp_header_v4_def tif_header_def ifd_entry_def length_concat sum_list_replicate)

lemma rd16_append_le16: "k < length vs \<Longrightarrow> rd16 (concat (map le16 vs) @ mem) k = vs ! k"
proof (induction vs arbitrary: k)
  case (Cons v vs)
  then show ?case
    by (cases k) (simp_all add: rd16_def le16_def ucast_le16)
qed simp

lemma length_concat_le16 [simp]: "length (concat (map le16 vs)) = 2 * length vs"
  by (induction vs) auto

lemma halfwords_le16: "halfwords (length vs) (concat (map le16 vs) @ mem) = vs"
  by (rule nth_equalityI) (auto simp: halfwords_def rd16_append_le16)

lemma swap_bytes_swap_bytes [simp]: "swap_bytes (swap_bytes vs) = vs" "length (swap_bytes vs) = length vs"
  by (simp_all add: swap_bytes_def comp_def)

lemma headers: "rd16 (bmp_header_v4 @ m) 9 = of_nat LCD_WIDTH"
  "rd16 (bmp_header_v4 @ m) 11 = of_nat LCD_HEIGHT" "rd16 (bmp_header_v4 @ m) 14 = 16"
  "rd16 (tif_header @ m) 0 = 0x4949" "rd16 (tif_header @ m) 9 = of_nat LCD_WIDTH"
  "rd16 (tif_header @ m) 15 = of_nat LCD_HEIGHT" "rd16 (tif_header @ m) 27 = 0x8005"
  by (simp_all add: rd16_def bmp_header_v4_def tif_header_def ifd_entry_def le16_def le32_def
      LCD_WIDTH_def LCD_HEIGHT_def nth_Cons')

subsection \<open>BMP files\<close>

text \<open>What the writers rely on: \<open>f_write\<close> succeeds and appends.\<close>

definition appends :: "writer \<Rightarrow> bool" where
  "appends fwr \<longleftrightarrow> (\<forall>f d. fwr f d = (True, f @ d))"

definition bmp_row :: "u16 list \<Rightarrow> u8 list" where
  "bmp_row row = concat (map le16 (swap_bytes row))"

lemma lcd_tick_nth: "k \<noteq> y \<Longrightarrow> lcd_tick bg y lcd ! k = lcd ! k" "length (lcd_tick bg y lcd) = length lcd"
  by (simp_all add: lcd_tick_def)

lemma save_bmp_rows_eq:
  assumes "appends fwr"
  shows "\<exists>lcd'. save_bmp_rows fwr bg y True lcd f
           = (True, lcd', f @ concat (map (\<lambda>k. bmp_row (lcd ! k)) (rev [0..<y])))"
proof (induction y arbitrary: lcd f)
  case (Suc y)
  have rows: "map (\<lambda>k. bmp_row (lcd_tick bg y lcd ! k)) (rev [0..<y])
      = map (\<lambda>k. bmp_row (lcd ! k)) (rev [0..<y])"
    by (rule map_cong) (auto simp: lcd_tick_nth)
  have step: "save_bmp_rows fwr bg (Suc y) True lcd f
      = save_bmp_rows fwr bg y True (lcd_tick bg y lcd) (f @ bmp_row (lcd ! y))"
    using assms by (simp add: appends_def bmp_row_def)
  show ?case
    using Suc [of "lcd_tick bg y lcd" "f @ bmp_row (lcd ! y)"] unfolding step rows by simp
qed simp

lemma overlay_append [simp]: "overlay d mem = d @ drop (length d) mem"
  by (simp add: overlay_def)

lemma load_bmp_rows_eq:
  assumes "wf_lcd s" "y \<le> LCD_HEIGHT" "length lcd = LCD_HEIGHT"
  shows "load_bmp_rows y mem (concat (map (\<lambda>k. bmp_row (s ! k)) (rev [0..<y])) @ f) lcd
         = take y s @ drop y lcd"
  using assms
proof (induction y arbitrary: mem lcd)
  case (Suc y)
  let ?r = "bmp_row (s ! y)" and ?g = "concat (map (\<lambda>k. bmp_row (s ! k)) (rev [0..<y])) @ f"
  have w: "length (s ! y) = LCD_WIDTH" using Suc.prems by (simp add: wf_lcd_def)
  then have l: "length ?r = 2 * LCD_WIDTH" by (simp add: bmp_row_def)
  have h: "halfwords LCD_WIDTH (?r @ m) = swap_bytes (s ! y)" for m
    using halfwords_le16 [of "swap_bytes (s ! y)" m] w by (simp add: bmp_row_def)
  have upd: "take y s @ drop y (lcd[y := s ! y]) = take (Suc y) s @ drop (Suc y) lcd"
    using Suc.prems by (simp add: wf_lcd_def take_Suc_conv_app_nth drop_update_swap flip: Cons_nth_drop_Suc)
  show ?case using Suc.IH [of "lcd[y := s ! y]"] Suc.prems l h upd by (simp add: Let_def)
qed simp

text \<open>loading the file \<open>save_bmp\<close> wrote for a screen restores that screen, pixel for pixel, although the
  progress marks of \<open>save_bmp\<close> change the display while it runs.\<close>

theorem bmp_roundtrip:
  assumes "appends fwr" "wf_lcd s" "length lcd = LCD_HEIGHT"
  shows "\<exists>s' f. save_bmp fwr bg s [] = (True, s', f) \<and> load_bmp mem f lcd = Inr s"
proof -
  let ?g = "concat (map (\<lambda>k. bmp_row (s ! k)) (rev [0..<LCD_HEIGHT]))"
  obtain s' where s': "save_bmp fwr bg s [] = (True, s', bmp_header_v4 @ ?g)"
    using save_bmp_rows_eq [OF assms(1), of bg LCD_HEIGHT s bmp_header_v4] assms(1)
    by (auto simp: save_bmp_def appends_def)
  moreover have "load_bmp mem (bmp_header_v4 @ ?g) lcd = Inr s"
    using load_bmp_rows_eq [OF assms(2) le_refl assms(3), of _ "[]"] assms(2,3)
    by (simp add: load_bmp_def Let_def length_headers headers wf_lcd_def)
  ultimately show ?thesis by blast
qed

theorem bmp_roundtrip_witness:
  "\<exists>s' f. save_bmp (\<lambda>f d. (True, f @ d)) 7 (replicate LCD_HEIGHT (replicate LCD_WIDTH 0x1234)) [] = (True, s', f)
     \<and> load_bmp [] f (replicate LCD_HEIGHT []) = Inr (replicate LCD_HEIGHT (replicate LCD_WIDTH 0x1234))"
  by (rule bmp_roundtrip) (simp_all add: appends_def wf_lcd_def)

subsection \<open>Run-length blocks\<close>

text \<open>What a sequence of complete blocks encodes; blocks are appended as the compressor emits them.\<close>

inductive packed :: "u8 list \<Rightarrow> u8 list \<Rightarrow> bool" where
  empty: "packed [] []"
| literal: "packed e x \<Longrightarrow> l \<noteq> [] \<Longrightarrow> length l \<le> 128 \<Longrightarrow> packed (e @ of_nat (length l - 1) # l) (x @ l)"
| run: "packed e x \<Longrightarrow> 0 < n \<Longrightarrow> n \<le> 127 \<Longrightarrow> packed (e @ [- of_nat n, c]) (x @ replicate (Suc n) c)"

lemma sint_of_nat_u8: "n \<le> 127 \<Longrightarrow> sint (of_nat n :: u8) = int n"
  by (simp add: signed_of_nat signed_take_bit_int_eq_self)

lemma sint_neg_of_nat_u8: "n \<le> 127 \<Longrightarrow> sint (- of_nat n :: u8) = - int n"
proof -
  assume "n \<le> 127"
  moreover have "(- of_nat n :: u8) = of_int (- int n)" by simp
  ultimately show ?thesis
    by (simp only: signed_of_int) (simp add: signed_take_bit_int_eq_self)
qed

lemma unpack_row_packed:
  "packed e x \<Longrightarrow> length acc + length x \<le> lim \<Longrightarrow> unpack_row lim (e @ f) acc = unpack_row lim f (acc @ x)"
proof (induction arbitrary: f rule: packed.induct)
  case (literal e x l)
  obtain c l' where l: "l = c # l'" using literal.hyps by (cases l) auto
  have "unpack_row lim (of_nat (length l - 1) # l @ f) (acc @ x) = unpack_row lim f (acc @ x @ l)"
    using literal l by (subst unpack_row.simps) (auto simp: sint_of_nat_u8)
  with literal show ?case by simp
next
  case (run e x n c)
  have "unpack_row lim (- of_nat n # c # f) (acc @ x) = unpack_row lim f (acc @ x @ replicate (Suc n) c)"
    using run by (subst unpack_row.simps) (auto simp: sint_neg_of_nat_u8)
  with run show ?case by simp
qed simp


text \<open>The invariant of the compressor: the pixels from \<open>i\<close> on are still intact in the shared buffer, the
  finished blocks encode the pixels before \<open>i\<close>, and an open literal block of \<open>m\<close> bytes starts at \<open>s\<close>.\<close>

definition pb_inv :: "nat \<Rightarrow> u8 list \<Rightarrow> u8 list \<Rightarrow> nat \<Rightarrow> nat \<Rightarrow> nat option \<Rightarrow> bool" where
  "pb_inv off src mem i pk sz \<longleftrightarrow>
     i \<le> length src \<and> off + length src \<le> length mem \<and>
     (\<forall>k. i \<le> k \<longrightarrow> k < length src \<longrightarrow> mem ! (off + k) = src ! k) \<and>
     (case sz of
        None \<Rightarrow> packed (take pk mem) (take i src) \<and> pk \<le> i + i div 128
      | Some s \<Rightarrow> (\<exists>m. 1 \<le> m \<and> m < 128 \<and> m \<le> i \<and> pk = Suc s + m \<and>
          packed (take s mem) (take (i - m) src) \<and>
          take (Suc m) (drop s mem) = of_nat (m - 1) # take m (drop (i - m) src) \<and>
          pk \<le> i + (i - m) div 128 + 1))"

lemma rle_len_run:
  "rle_len mem a c l < l \<or> l = 0" "\<forall>k < rle_len mem a c l. mem ! (a + k) = c"
proof (induction l arbitrary: a)
  case (Suc l)
  { case 1 show ?case using Suc(1) [of "Suc a"] by auto }
  { case 2 show ?case using Suc(2) [of "Suc a"] by (auto simp: less_Suc_eq_0_disj) }
qed auto

lemma pb_inv_packed:
  assumes "pb_inv off src mem i pk sz"
  shows "packed (take pk mem) (take i src)" "pk \<le> i + i div 128 + 1"
proof -
  have "packed (take pk mem) (take i src) \<and> pk \<le> i + i div 128 + 1"
  proof (cases sz)
    case (Some s)
    then obtain m where m: "1 \<le> m" "m < 128" "m \<le> i" "i \<le> length src" "pk = Suc s + m"
      "packed (take s mem) (take (i - m) src)"
      "take (Suc m) (drop s mem) = of_nat (m - 1) # take m (drop (i - m) src)"
      "pk \<le> i + (i - m) div 128 + 1"
      using assms by (auto simp: pb_inv_def)
    let ?l = "take m (drop (i - m) src)"
    have l: "length ?l = m" using m by simp
    have "packed (take s mem @ of_nat (length ?l - 1) # ?l) (take (i - m) src @ ?l)"
      using m l by (intro packed.literal) auto
    moreover have "take s mem @ of_nat (length ?l - 1) # ?l = take pk mem"
      using m l take_add [of s "Suc m" mem] by (simp add: add.commute)
    moreover have "take (i - m) src @ ?l = take i src" using take_add [of "i - m" m src] m by simp
    moreover have "(i - m) div 128 \<le> i div 128" by (simp add: div_le_mono)
    ultimately show ?thesis using m by simp
  qed (use assms in \<open>simp add: pb_inv_def\<close>)
  then show "packed (take pk mem) (take i src)" "pk \<le> i + i div 128 + 1" by auto
qed

lemma take_run:
  "\<forall>k<n. src ! (i + k) = c \<Longrightarrow> i + n \<le> length src \<Longrightarrow> take (i + n) src = take i src @ replicate n c"
  by (rule nth_equalityI)
     (auto simp: nth_append, metis add_diff_inverse_nat nat_add_left_cancel_less)

lemma take_write2: "Suc pk < length mem \<Longrightarrow> take (Suc (Suc pk)) (mem[Suc pk := c, pk := v]) = take pk mem @ [v, c]"
  by (rule nth_equalityI) (auto simp: nth_append nth_list_update less_Suc_eq nth_Cons')

lemma pb_step_run:
  assumes inv: "pb_inv off src mem i pk sz" and off: "length src div 128 + 2 \<le> off" and i: "i < length src"
    and rle: "rle = rle_len mem (Suc (off + i)) c (min 128 (length src - i))" "0 < rle" "sz = None \<or> 2 \<le> rle"
    and c: "c = mem ! (off + i)"
  shows "pb_inv off src (mem[Suc pk := c, pk := - of_nat rle]) (Suc i + rle) (Suc (Suc pk)) None"
proof -
  have r: "rle < 128" "Suc i + rle \<le> length src"
    using rle_len_run(1) [of mem "Suc (off + i)" c "min 128 (length src - i)", folded rle(1)] i
    by (auto simp: min_def split: if_splits)
  have src: "\<forall>k. i \<le> k \<longrightarrow> k < length src \<longrightarrow> mem ! (off + k) = src ! k" and len: "off + length src \<le> length mem"
    using inv by (auto simp: pb_inv_def)
  have "src ! (i + k) = c" if "k < Suc rle" for k
  proof (cases k)
    case 0
    then show ?thesis using src i c by simp
  next
    case (Suc k')
    then show ?thesis
      using src [rule_format, of "Suc i + k'"] rle_len_run(2) [rule_format, of k' mem "Suc (off + i)" c] that rle(1) r
      by (simp add: add.assoc)
  qed
  then have run: "take (Suc i + rle) src = take i src @ replicate (Suc rle) c"
    using take_run [of "Suc rle" src i c] r by simp
  have pk: "Suc pk < off + Suc i" and bound: "Suc (Suc pk) \<le> (Suc i + rle) + (Suc i + rle) div 128"
  proof -
    have "i div 128 \<le> length src div 128" "i div 128 \<le> (Suc i + rle) div 128" using i by (auto intro!: div_le_mono)
    then show "Suc pk < off + Suc i" using pb_inv_packed(2) [OF inv] off by linarith
    have "pk \<le> i + i div 128 \<or> 2 \<le> rle" using rle(3) inv by (auto simp: pb_inv_def)
    then show "Suc (Suc pk) \<le> (Suc i + rle) + (Suc i + rle) div 128"
      using pb_inv_packed(2) [OF inv] rle(2) \<open>i div 128 \<le> (Suc i + rle) div 128\<close> by linarith
  qed
  have "packed (take pk mem @ [- of_nat rle, c]) (take i src @ replicate (Suc rle) c)"
    using pb_inv_packed(1) [OF inv] rle(2) r by (intro packed.run) auto
  then show ?thesis
    using r src len pk bound run i by (auto simp: pb_inv_def take_write2)
qed

lemma pb_step_start:
  assumes inv: "pb_inv off src mem i pk None" and off: "length src div 128 + 2 \<le> off" and i: "i < length src"
    and c: "c = mem ! (off + i)"
  shows "pb_inv off src (mem[Suc pk := c, pk := 0]) (Suc i) (Suc (Suc pk)) (Some pk)"
proof -
  have "i div 128 \<le> length src div 128" using i by (auto intro!: div_le_mono)
  moreover have "pk \<le> i + i div 128" using inv by (simp add: pb_inv_def)
  ultimately have pk: "Suc pk < off + Suc i" using off by linarith
  have src: "\<forall>k. i \<le> k \<longrightarrow> k < length src \<longrightarrow> mem ! (off + k) = src ! k" and len: "off + length src \<le> length mem"
    and p: "packed (take pk mem) (take i src)"
    using inv by (auto simp: pb_inv_def)
  have "take 2 (drop pk (mem[Suc pk := c, pk := 0])) = [0, c]"
    using take_write2 [of pk mem c 0] pk len i take_add [of pk 2 "mem[Suc pk := c, pk := 0]"] by simp
  then show ?thesis
    using src len p pk i c \<open>pk \<le> i + i div 128\<close>
    by (auto simp: pb_inv_def numeral_2_eq_2 take_Suc_conv_app_nth intro!: exI [of _ 1])
qed

lemma pb_step_literal:
  assumes inv: "pb_inv off src mem i pk (Some s)" and off: "length src div 128 + 2 \<le> off" and i: "i < length src"
    and c: "c = mem ! (off + i)" and n: "n = of_nat (Suc pk - s - 2)"
  shows "pb_inv off src (mem[pk := c, s := n]) (Suc i) (Suc pk) (if n < (127 :: u8) then Some s else None)"
proof -
  obtain m where m: "1 \<le> m" "m < 128" "m \<le> i" "pk = Suc s + m" "packed (take s mem) (take (i - m) src)"
      "take (Suc m) (drop s mem) = of_nat (m - 1) # take m (drop (i - m) src)"
      "pk \<le> i + (i - m) div 128 + 1"
    using inv by (auto simp: pb_inv_def)
  have src: "\<forall>k. i \<le> k \<longrightarrow> k < length src \<longrightarrow> mem ! (off + k) = src ! k" and len: "off + length src \<le> length mem"
    using inv by (auto simp: pb_inv_def)
  have "i div 128 \<le> length src div 128" using i by (auto intro!: div_le_mono)
  then have pk: "pk < off + i" using pb_inv_packed(2) [OF inv] off by linarith
  have nm: "n = of_nat m" using n m by simp
  have less: "n < 127 \<longleftrightarrow> m < 127" unfolding nm using m by (simp add: word_less_nat_alt unat_of_nat)
  let ?mem = "mem[pk := c, s := n]"
  have lit: "take (Suc (Suc m)) (drop s ?mem) = n # take (Suc m) (drop (i - m) src)"
  proof -
    have "take m (drop (Suc s) mem) = take m (drop (i - m) src)"
      using m(6) pk len i m(4) by (simp add: drop_Suc flip: drop_Suc) (metis list.sel(3) drop_Suc tl_drop tl_take diff_Suc_1)
    moreover have "drop s mem = mem ! s # drop (Suc s) mem"
      using m(4) pk len i by (simp add: Cons_nth_drop_Suc)
    then have "drop s ?mem = n # (drop (Suc s) mem)[m := c]"
      using m(4) by (simp add: drop_update_swap)
    moreover have "take (Suc m) ((drop (Suc s) mem)[m := c]) = take m (drop (Suc s) mem) @ [c]"
      using m(4) pk len i by (simp add: take_Suc_conv_app_nth)
    moreover have "take (Suc m) (drop (i - m) src) = take m (drop (i - m) src) @ [c]"
      using m(3) i c src by (simp add: take_Suc_conv_app_nth)
    ultimately show ?thesis by simp
  qed
  have src': "\<forall>k. Suc i \<le> k \<longrightarrow> k < length src \<longrightarrow> ?mem ! (off + k) = src ! k"
    using src pk m(4) by auto
  have s: "take s ?mem = take s mem" using m(4) by simp
  show ?thesis
  proof (cases "m < 127")
    case True
    then show ?thesis
      using m src' len i lit s less nm
      by (auto simp: pb_inv_def intro!: exI [of _ "Suc m"])
  next
    case False
    let ?l = "take (Suc m) (drop (i - m) src)"
    have l: "length ?l = 128" and m127: "m = 127" using m False i by simp_all
    have "packed (take s mem @ of_nat (length ?l - 1) # ?l) (take (i - m) src @ ?l)"
      using m l by (intro packed.literal) auto
    moreover have "take s mem @ of_nat (length ?l - 1) # ?l = take (Suc pk) ?mem"
      using m127 m(4) l nm lit s take_add [of s "Suc (Suc m)" ?mem] by (simp add: add.commute)
    moreover have "take (i - m) src @ ?l = take (Suc i) src"
      using take_add [of "i - m" "Suc m" src] m by simp
    moreover have "Suc i div 128 = Suc ((i - m) div 128)"
      using m False le_div_geq [of 128 "Suc i"] by simp
    ultimately show ?thesis
      using m src' len i less False by (auto simp: pb_inv_def)
  qed
qed

lemma packbits_loop_inv:
  assumes "pb_inv off src mem i pk sz" "length src div 128 + 2 \<le> off"
  shows "\<exists>mem' pk' sz'. packbits_loop off (length src) mem i pk sz = (mem', pk')
     \<and> pb_inv off src mem' (length src) pk' sz' \<and> length mem' = length mem"
  using assms(1)
proof (induction "length src - i" arbitrary: mem i pk sz rule: less_induct)
  case less
  define c where "c = mem ! (off + i)"
  define r where "r = rle_len mem (Suc (off + i)) c (min 128 (length src - i))"
  have l: "(if 128 < length src - i then 128 else length src - i) = min 128 (length src - i)" by simp
  show ?case
  proof (cases "i < length src")
    case False
    then have "i = length src" using less.prems by (simp add: pb_inv_def)
    then show ?thesis using less.prems by (subst packbits_loop.simps) auto
  next
    case i: True
    consider (run) "0 < r" "sz = None \<or> 2 \<le> r" | (start) "r = 0" "sz = None" | (lit) s where "sz = Some s" "r < 2"
      by (cases sz; cases "r < 2") auto
    then show ?thesis
    proof cases
      case run
      have "packbits_loop off (length src) mem i pk sz
          = packbits_loop off (length src) (mem[Suc pk := c, pk := - of_nat r]) (Suc i + r) (Suc (Suc pk)) None"
        using i run by (subst packbits_loop.simps) (auto simp: Let_def l simp flip: c_def r_def)
      then show ?thesis
        using less.hyps [OF _ pb_step_run [OF less.prems assms(2) i r_def run c_def]] i by simp
    next
      case start
      have "packbits_loop off (length src) mem i pk sz
          = packbits_loop off (length src) (mem[Suc pk := c, pk := 0]) (Suc i) (Suc (Suc pk)) (Some pk)"
        using i start by (subst packbits_loop.simps) (simp add: Let_def l flip: c_def r_def)
      then show ?thesis
        using less.hyps [OF _ pb_step_start [OF less.prems [unfolded start] assms(2) i c_def]] i by simp
    next
      case lit
      have "packbits_loop off (length src) mem i pk sz
          = packbits_loop off (length src) (mem[pk := c, s := of_nat (Suc pk - s - 2)]) (Suc i) (Suc pk)
              (if of_nat (Suc pk - s - 2) < (127 :: u8) then Some s else None)"
        using i lit by (subst packbits_loop.simps) (simp add: Let_def l flip: c_def r_def)
      then show ?thesis
        using less.hyps [OF _ pb_step_literal [OF less.prems [unfolded lit(1)] assms(2) i c_def refl]] i by simp
    qed
  qed
qed

lemma packbits_correct:
  assumes "off + length src \<le> length mem" "take (length src) (drop off mem) = src"
    and "length src div 128 + 2 \<le> off"
  obtains mem' pk where "packbits off mem (length src) = (mem', pk)" "length mem' = length mem"
    "pk \<le> length src + length src div 128 + 1"
    "\<And>f. unpack_row (length src) (take pk mem' @ f) [] = Some (src, f)"
proof -
  have "mem ! (off + k) = src ! k" if "k < length src" for k
    using assms that by (metis nth_drop nth_take add_leD1)
  then have "pb_inv off src mem 0 0 None"
    using assms by (auto simp: pb_inv_def packed.empty)
  then obtain mem' pk sz where p: "packbits off mem (length src) = (mem', pk)"
      and inv: "pb_inv off src mem' (length src) pk sz" and len: "length mem' = length mem"
    using packbits_loop_inv assms(3) unfolding packbits_def by blast
  have "unpack_row (length src) (take pk mem' @ f) [] = Some (src, f)" for f
    using unpack_row_packed [OF pb_inv_packed(1) [OF inv], of "[]" "length src" f]
    by (simp add: unpack_row.simps [of "length src" f src])
  then show ?thesis using that p pb_inv_packed(2) [OF inv] len by blast
qed

text \<open>\<open>packbits\<close> compressing inside one buffer, with the source \<open>off\<close> bytes behind the destination, never
  overwrites a byte it still has to read, emits at most one extra byte per 128 (plus one), and
  what it emits is read back by the row loop of \<open>load_tiff\<close> as exactly the source bytes.\<close>

theorem packbits_roundtrip:
  assumes "off + length src \<le> length mem" "take (length src) (drop off mem) = src"
    and "length src div 128 + 2 \<le> off"
  shows "\<exists>mem' pk. packbits off mem (length src) = (mem', pk)
     \<and> pk \<le> length src + length src div 128 + 1
     \<and> unpack_row (length src) (take pk mem' @ f) [] = Some (src, f)"
  using packbits_correct [OF assms] by metis

theorem packbits_roundtrip_witness:
  "\<exists>mem' pk. packbits 4 [0, 0, 0, 0, 9, 9, 9, 1, 2, 5, 5, 5, 5] (length [9, 9, 9, 1, 2, 5, 5, 5, 5 :: u8]) = (mem', pk)
     \<and> pk \<le> length [9, 9, 9, 1, 2, 5, 5, 5, 5 :: u8] + length [9, 9, 9, 1, 2, 5, 5, 5, 5 :: u8] div 128 + 1
     \<and> unpack_row (length [9, 9, 9, 1, 2, 5, 5, 5, 5 :: u8]) (take pk mem' @ [7]) [] = Some ([9, 9, 9, 1, 2, 5, 5, 5, 5], [7])"
  by (rule packbits_roundtrip) simp_all

subsection \<open>TIFF files\<close>

definition rgb_bytes :: "u16 \<Rightarrow> u8 list" where
  "rgb_bytes v = (case rgb888 v of (r, g, b) \<Rightarrow> [r, g, b])"

lemma length_rgb_bytes [simp]: "length (rgb_bytes v) = 3"
  by (simp add: rgb_bytes_def split: prod.splits)

lemma rd16_cong: "mem ! (2 * k) = mem' ! (2 * k) \<Longrightarrow> mem ! (2 * k + 1) = mem' ! (2 * k + 1) \<Longrightarrow> rd16 mem k = rd16 mem' k"
  by (simp add: rd16_def)

lemma rgb888_step:
  assumes "128 + 3 * n < length mem"
  shows "rgb888_loop (Suc n) mem = rgb888_loop n (mem[128 + 3 * n := rgb_bytes (rd16 mem n) ! 0,
     128 + 3 * n + 1 := rgb_bytes (rd16 mem n) ! 1, 128 + 3 * n + 2 := rgb_bytes (rd16 mem n) ! 2])"
  by (simp add: rgb_bytes_def numeral_2_eq_2 split: prod.splits)

declare rgb888_loop.simps(2) [simp del] rgb565_loop.simps(2) [simp del]

lemma halfwords_nth [simp]: "length (halfwords n mem) = n" "k < n \<Longrightarrow> halfwords n mem ! k = rd16 mem k"
  by (simp_all add: halfwords_def)

lemma rgb888_loop_all:
  "128 + 3 * n \<le> length mem \<Longrightarrow>
   length (rgb888_loop n mem) = length mem \<and>
   (\<forall>p. 128 + 3 * n \<le> p \<longrightarrow> rgb888_loop n mem ! p = mem ! p) \<and>
   (\<forall>k j. k < n \<longrightarrow> j < 3 \<longrightarrow> rgb888_loop n mem ! (128 + 3 * k + j) = rgb_bytes (rd16 mem k) ! j)"
proof (induction n arbitrary: mem)
  case (Suc n)
  define b where "b = rgb_bytes (rd16 mem n)"
  define mem' where "mem' = mem[128 + 3 * n := b ! 0, 128 + 3 * n + 1 := b ! 1, 128 + 3 * n + 2 := b ! 2]"
  have len: "length mem' = length mem" by (simp add: mem'_def)
  have step: "rgb888_loop (Suc n) mem = rgb888_loop n mem'"
    using Suc.prems unfolding mem'_def b_def by (intro rgb888_step) simp
  have IH: "length (rgb888_loop n mem') = length mem'"
    "\<And>p. 128 + 3 * n \<le> p \<Longrightarrow> rgb888_loop n mem' ! p = mem' ! p"
    "\<And>k j. k < n \<Longrightarrow> j < 3 \<Longrightarrow> rgb888_loop n mem' ! (128 + 3 * k + j) = rgb_bytes (rd16 mem' k) ! j"
    using Suc.IH [of mem'] Suc.prems len by auto
  have rd: "rd16 mem' k = rd16 mem k" if "k < n" for k
    using that by (intro rd16_cong) (simp_all add: mem'_def)
  have last: "mem' ! (128 + 3 * n + j) = b ! j" if "j < 3" for j
  proof -
    have "j = 0 \<or> j = 1 \<or> j = 2" using that by presburger
    then show ?thesis using Suc.prems by (elim disjE) (simp_all add: mem'_def)
  qed
  have "rgb888_loop n mem' ! (128 + 3 * k + j) = rgb_bytes (rd16 mem k) ! j" if "k < Suc n" "j < 3" for k j
  proof (cases "k = n")
    case True
    then show ?thesis using IH(2) [of "128 + 3 * n + j"] last [OF that(2)] by (simp add: b_def)
  next
    case False
    then show ?thesis using IH(3) [of k j] rd [of k] that by simp
  qed
  moreover have "rgb888_loop n mem' ! p = mem ! p" if "128 + 3 * Suc n \<le> p" for p
    using IH(2) [of p] that by (simp add: mem'_def)
  ultimately show ?case using IH(1) len unfolding step by (intro conjI allI impI) simp_all
qed simp

lemmas rgb888_loop_nth = rgb888_loop_all [THEN conjunct1]
  rgb888_loop_all [THEN conjunct2, THEN conjunct1, rule_format]
  rgb888_loop_all [THEN conjunct2, THEN conjunct2, rule_format]

lemma rgb888_loop_row:
  assumes "128 + 3 * n \<le> length mem"
  shows "take (3 * n) (drop 128 (rgb888_loop n mem)) = concat (map rgb_bytes (halfwords n mem))"
proof (rule nth_equalityI)
  have len: "length (concat (map rgb_bytes vs)) = 3 * length vs" for vs by (induction vs) auto
  show "length (take (3 * n) (drop 128 (rgb888_loop n mem))) = length (concat (map rgb_bytes (halfwords n mem)))"
    using assms len rgb888_loop_nth(1) [OF assms] by simp
  have nth: "k < length vs \<Longrightarrow> j < 3 \<Longrightarrow> concat (map rgb_bytes vs) ! (3 * k + j) = rgb_bytes (vs ! k) ! j" for vs k j
  proof (induction vs arbitrary: k)
    case (Cons v vs)
    then show ?case by (cases k) (auto simp: nth_append)
  qed simp
  fix i assume "i < length (take (3 * n) (drop 128 (rgb888_loop n mem)))"
  then have i: "i < 3 * n" by simp
  define k j where "k = i div 3" and "j = i mod 3"
  have "i = 3 * k + j" "j < 3" "k < n" using i by (auto simp: k_def j_def)
  then show "take (3 * n) (drop 128 (rgb888_loop n mem)) ! i = concat (map rgb_bytes (halfwords n mem)) ! i"
    using nth [of k "halfwords n mem" j] rgb888_loop_nth(3) [OF assms, of k j] rgb888_loop_nth(1) [OF assms] assms
    by (simp add: add.assoc)
qed

lemma rgb565_loop_all:
  "2 * (x + n) \<le> length mem \<Longrightarrow>
   (\<forall>p. p < 2 * x \<longrightarrow> rgb565_loop n x mem ! p = mem ! p) \<and>
   (\<forall>y. x \<le> y \<longrightarrow> y < x + n \<longrightarrow>
      rd16 (rgb565_loop n x mem) y = rgb565_of (mem ! (3 * y)) (mem ! (3 * y + 1)) (mem ! (3 * y + 2)))"
proof (induction n arbitrary: x mem)
  case (Suc n)
  define v where "v = rgb565_of (mem ! (3 * x)) (mem ! (3 * x + 1)) (mem ! (3 * x + 2))"
  let ?mem = "mem[2 * x := ucast v, 2 * x + 1 := ucast (drop_bit 8 v)]"
  have step: "rgb565_loop (Suc n) x mem = rgb565_loop n (Suc x) ?mem"
    by (simp add: v_def Let_def rgb565_loop.simps(2))
  note IH = Suc.IH [of "Suc x" ?mem]
  have "rd16 (rgb565_loop n (Suc x) ?mem) x = rd16 ?mem x"
    using IH Suc.prems by (intro rd16_cong) simp_all
  also have "\<dots> = v" using Suc.prems by (simp add: rd16_def ucast_le16)
  finally have first: "rd16 (rgb565_loop n (Suc x) ?mem) x = v" .
  have "rd16 (rgb565_loop n (Suc x) ?mem) y = rgb565_of (mem ! (3 * y)) (mem ! (3 * y + 1)) (mem ! (3 * y + 2))"
    if "x \<le> y" "y < x + Suc n" for y
  proof (cases "x = y")
    case True
    then show ?thesis using first by (simp add: v_def)
  next
    case False
    then have "Suc x \<le> y" "y < Suc x + n" using that by auto
    then show ?thesis using IH Suc.prems by simp
  qed
  then show ?case using IH Suc.prems unfolding step by simp
qed simp

lemmas rgb565_loop_nth = rgb565_loop_all [THEN conjunct2, rule_format]

lemma rgb565_loop_row:
  assumes "length vs = n" "2 * n \<le> length mem" "mem = concat (map rgb_bytes vs) @ r"
  shows "halfwords n (rgb565_loop n 0 mem) = vs"
proof (rule nth_equalityI)
  show "length (halfwords n (rgb565_loop n 0 mem)) = length vs" using assms by simp
  fix k assume "k < length (halfwords n (rgb565_loop n 0 mem))"
  then have k: "k < n" by simp
  have nth: "k < length ws \<Longrightarrow> j < 3 \<Longrightarrow> (concat (map rgb_bytes ws) @ r) ! (3 * k + j) = rgb_bytes (ws ! k) ! j" for ws k j
  proof (induction ws arbitrary: k)
    case (Cons v ws)
    then show ?case by (cases k) (auto simp: nth_append)
  qed simp
  obtain cr cg cb where c: "rgb888 (vs ! k) = (cr, cg, cb)" by (metis prod_cases3)
  have "rd16 (rgb565_loop n 0 mem) k = rgb565_of cr cg cb"
    using rgb565_loop_nth [of 0 n mem k] assms k nth [of k vs 0] nth [of k vs 1] nth [of k vs 2] c
    by (simp add: rgb_bytes_def)
  then show "halfwords n (rgb565_loop n 0 mem) ! k = vs ! k"
    using k rgb565_rgb888 [OF c] by simp
qed

lemma length_concat_rgb_bytes [simp]: "length (concat (map rgb_bytes vs)) = 3 * length vs"
  by (induction vs) auto

lemma tiff_row:
  assumes "length row = LCD_WIDTH" "1568 \<le> length mem"
  obtains mem' pk where
    "packbits 128 (rgb888_loop LCD_WIDTH (overlay (concat (map le16 row)) mem)) (LCD_WIDTH * 3) = (mem', pk)"
    "length mem' = length mem"
    "\<And>f. unpack_row (LCD_WIDTH * 3) (take pk mem' @ f) [] = Some (concat (map rgb_bytes row), f)"
proof -
  let ?m = "overlay (concat (map le16 row)) mem"
  let ?src = "concat (map rgb_bytes row)"
  have len: "length ?m = length mem" using assms by (simp add: LCD_WIDTH_def)
  have src: "length ?src = LCD_WIDTH * 3" using assms by simp
  have h: "halfwords LCD_WIDTH ?m = row" using halfwords_le16 [of row] assms(1) by simp
  have b: "128 + 3 * LCD_WIDTH \<le> length ?m" using len assms(2) by (simp add: LCD_WIDTH_def)
  have len2: "length (rgb888_loop LCD_WIDTH ?m) = length mem" using rgb888_loop_nth(1) [OF b] len by simp
  have t: "take (length ?src) (drop 128 (rgb888_loop LCD_WIDTH ?m)) = ?src"
    using rgb888_loop_row [OF b] h src by (simp add: mult.commute)
  have o: "128 + length ?src \<le> length (rgb888_loop LCD_WIDTH ?m)" "length ?src div 128 + 2 \<le> 128"
    using len2 assms(2) src by (simp_all add: LCD_WIDTH_def)
  show ?thesis by (rule packbits_correct [OF o(1) t o(2), unfolded src len2]) (rule that)
qed

lemma tiff_rows:
  assumes "appends fwr"
  shows "y + k = LCD_HEIGHT \<Longrightarrow> wf_lcd lcd \<Longrightarrow> 1568 \<le> length mem \<Longrightarrow>
   \<exists>lcd' g. save_tiff_rows k fwr bg y True mem lcd f0 = (True, lcd', f0 @ g) \<and>
     (\<forall>mem2 f lcd2. length lcd2 = LCD_HEIGHT \<longrightarrow>
        load_tiff_rows k y mem2 (g @ f) lcd2 = Some (take y lcd2 @ drop y lcd))"
proof (induction k arbitrary: y mem lcd f0)
  case 0
  then show ?case by (auto simp: wf_lcd_def)
next
  case (Suc k)
  let ?row = "lcd ! y" and ?lcd = "lcd_tick bg y lcd"
  have row: "length ?row = LCD_WIDTH" and y: "y < LCD_HEIGHT" "y < length lcd"
    using Suc.prems by (auto simp: wf_lcd_def)
  obtain mem' pk where p:
      "packbits 128 (rgb888_loop LCD_WIDTH (overlay (concat (map le16 ?row)) mem)) (LCD_WIDTH * 3) = (mem', pk)"
      "length mem' = length mem"
      "\<And>f. unpack_row (LCD_WIDTH * 3) (take pk mem' @ f) [] = Some (concat (map rgb_bytes ?row), f)"
    using tiff_row [OF row Suc.prems(3)] by metis
  have wf: "wf_lcd ?lcd"
    using Suc.prems(2) row by (auto simp: wf_lcd_def lcd_tick_def dest!: set_update_subset_insert [THEN subsetD])
  obtain lcd' g where g: "save_tiff_rows k fwr bg (Suc y) True mem' ?lcd (f0 @ take pk mem') = (True, lcd', (f0 @ take pk mem') @ g)"
      and l: "\<And>mem2 f lcd2. length lcd2 = LCD_HEIGHT \<Longrightarrow>
        load_tiff_rows k (Suc y) mem2 (g @ f) lcd2 = Some (take (Suc y) lcd2 @ drop (Suc y) ?lcd)"
    using Suc.IH [of "Suc y" ?lcd mem' "f0 @ take pk mem'"] Suc.prems p(2) wf by auto
  have "save_tiff_rows (Suc k) fwr bg y True mem lcd f0 = (True, lcd', f0 @ (take pk mem' @ g))"
    using g p(1) assms by (simp add: appends_def del: overlay_append)
  moreover have "load_tiff_rows (Suc k) y mem2 ((take pk mem' @ g) @ f) lcd2 = Some (take y lcd2 @ drop y lcd)"
    if "length lcd2 = LCD_HEIGHT" for mem2 f lcd2
  proof -
    have h: "halfwords LCD_WIDTH (rgb565_loop LCD_WIDTH 0 (overlay (concat (map rgb_bytes ?row)) mem2)) = ?row"
      using row by (intro rgb565_loop_row) (auto simp: overlay_def)
    have "take (Suc y) (lcd2[y := ?row]) @ drop (Suc y) ?lcd = take y lcd2 @ drop y lcd"
      using y that by (simp add: lcd_tick_def take_Suc_conv_app_nth Cons_nth_drop_Suc)
    then show ?thesis
      using p(3) [of "g @ f"] h l [of "lcd2[y := ?row]"] that by (simp add: Let_def del: overlay_append)
  qed
  ultimately show ?case by blast
qed

text \<open>C26: loading the file \<open>save_tiff\<close> wrote for a screen restores that screen, pixel for pixel: the
  alignment to 24 bits, the in-place conversions and the compression lose nothing.\<close>

theorem tiff_roundtrip:
  assumes "appends fwr" "wf_lcd s" "length lcd = LCD_HEIGHT" "1568 \<le> length mem"
  shows "\<exists>s' f. save_tiff fwr bg mem s [] = (True, s', f) \<and> load_tiff mem2 f lcd = Inr (Some s)"
proof -
  obtain s' g where g: "save_tiff_rows LCD_HEIGHT fwr bg 0 True mem s tif_header = (True, s', tif_header @ g)"
      and l: "\<And>mem2 f lcd2. length lcd2 = LCD_HEIGHT \<Longrightarrow> load_tiff_rows LCD_HEIGHT 0 mem2 (g @ f) lcd2 = Some s"
    using tiff_rows [OF assms(1), of 0 LCD_HEIGHT s mem bg tif_header] assms(2,4) by auto
  have "save_tiff fwr bg mem s [] = (True, s', tif_header @ g)"
    using g assms(1) by (simp add: save_tiff_def appends_def)
  moreover have "load_tiff mem2 (tif_header @ g) lcd = Inr (Some s)"
    using l [OF assms(3), of _ "[]"] by (simp add: load_tiff_def Let_def length_headers headers)
  ultimately show ?thesis by blast
qed

theorem tiff_roundtrip_witness:
  "\<exists>s' f. save_tiff (\<lambda>f d. (True, f @ d)) 7 (replicate 2000 0) (replicate LCD_HEIGHT (replicate LCD_WIDTH 0x1234)) [] = (True, s', f)
     \<and> load_tiff [] f (replicate LCD_HEIGHT []) = Inr (Some (replicate LCD_HEIGHT (replicate LCD_WIDTH 0x1234)))"
  by (rule tiff_roundtrip) (simp_all add: appends_def wf_lcd_def)

end
