(* ===== verification/Png.thy ===== *)
theory Png
  imports Screenshot
begin

text \<open>
  The PNG codec of \<^verbatim>\<open>vna_modules/vna_png.c\<close>: checksums, chunk writer, the fixed-Huffman deflate encoder with
  its 512 byte window, and the bounded inflater. The callbacks of \<open>png_io_t\<close> are modelled as follows: \<open>write\<close>
  is a parameter \<open>wr\<close> (file contents and data to the number of bytes written and the new contents), \<open>read\<close>
  takes bytes from the front of a list, \<open>get_row\<close> is a parameter with the display and palette as its state,
  and \<open>put_row\<close>, which never fails in \<^verbatim>\<open>ui.c\<close>, records the rows it is given. Positions in the image are natural
  numbers; they stay below \<open>2\<^sup>3\<^sup>2\<close> for every image the display can hold.
\<close>

subsection \<open>Checksums\<close>

definition crc_shift :: "u32 \<Rightarrow> u32" where
  "crc_shift crc = drop_bit 1 crc XOR (0xEDB88320 AND (0 - (crc AND 1)))"

definition png_crc32 :: "u32 \<Rightarrow> u8 list \<Rightarrow> u32" where
  "png_crc32 crc p = NOT (foldl (\<lambda>crc b. (crc_shift ^^ 8) (crc XOR ucast b)) (NOT crc) p)"

definition png_adler32 :: "u32 \<Rightarrow> u8 list \<Rightarrow> u32" where
  "png_adler32 adler p =
     (let (a, b) = foldl (\<lambda>(a, b) c.
            let a1 = a + ucast c; a2 = (if a1 \<ge> 65521 then a1 - 65521 else a1);
                b1 = b + a2
            in (a2, if b1 \<ge> 65521 then b1 - 65521 else b1))
          (adler AND 0xFFFF, drop_bit 16 adler) p
      in push_bit 16 b OR a)"

subsection \<open>Chunks\<close>

type_synonym png_writer = "u8 list \<Rightarrow> u8 list \<Rightarrow> nat \<times> u8 list"

record png_chunk =
  c_file :: "u8 list"
  c_crc :: u32
  c_ok :: bool

definition png_be32 :: "u32 \<Rightarrow> u8 list" where
  "png_be32 v = [ucast (drop_bit 24 v), ucast (drop_bit 16 v), ucast (drop_bit 8 v), ucast v]"

definition png_write :: "png_writer \<Rightarrow> u8 list \<Rightarrow> png_chunk \<Rightarrow> png_chunk" where
  "png_write wr p c =
     (let (n, f) = wr (c_file c) p in c\<lparr>c_file := f, c_ok := (c_ok c \<and> n = length p)\<rparr>)"

definition png_chunk_begin :: "png_writer \<Rightarrow> u8 list \<Rightarrow> nat \<Rightarrow> png_chunk \<Rightarrow> png_chunk" where
  "png_chunk_begin wr tag len c =
     (let c1 = png_write wr (png_be32 (of_nat len) @ tag) c in c1\<lparr>c_crc := png_crc32 0 tag\<rparr>)"

definition png_chunk_write :: "png_writer \<Rightarrow> u8 list \<Rightarrow> png_chunk \<Rightarrow> png_chunk" where
  "png_chunk_write wr p c = png_write wr p (c\<lparr>c_crc := png_crc32 (c_crc c) p\<rparr>)"

definition png_chunk_end :: "png_writer \<Rightarrow> png_chunk \<Rightarrow> png_chunk" where
  "png_chunk_end wr c = png_write wr (png_be32 (c_crc c)) c"

definition tag_IHDR :: "u8 list" where "tag_IHDR = [0x49, 0x48, 0x44, 0x52]"
definition tag_PLTE :: "u8 list" where "tag_PLTE = [0x50, 0x4C, 0x54, 0x45]"
definition tag_IDAT :: "u8 list" where "tag_IDAT = [0x49, 0x44, 0x41, 0x54]"
definition tag_IEND :: "u8 list" where "tag_IEND = [0x49, 0x45, 0x4E, 0x44]"
definition png_sig :: "u8 list" where "png_sig = [0x89, 0x50, 0x4E, 0x47, 0x0D, 0x0A, 0x1A, 0x0A]"

subsection \<open>Deflate tables\<close>

definition png_len_base :: "nat list" where
  "png_len_base = [3,4,5,6,7,8,9,10,11,13,15,17,19,23,27,31,35,43,51,59,67,83,99,115,131,163,195,227,258]"
definition png_len_extra :: "nat list" where
  "png_len_extra = [0,0,0,0,0,0,0,0,1,1,1,1,2,2,2,2,3,3,3,3,4,4,4,4,5,5,5,5,0]"
definition png_dist_base :: "nat list" where
  "png_dist_base = [1,2,3,4,5,7,9,13,17,25,33,49,65,97,129,193,257,385,513,769,1025,1537,2049,3073,
     4097,6145,8193,12289,16385,24577]"
definition png_dist_extra :: "nat list" where
  "png_dist_extra = [0,0,0,0,1,1,2,2,3,3,4,4,5,5,6,6,7,7,8,8,9,9,10,10,11,11,12,12,13,13]"

subsection \<open>Encoder\<close>

record png_enc =
  e_file :: "u8 list"
  e_out :: "u8 list"
  e_bits :: u32
  e_nbits :: nat
  e_adler :: u32
  e_ring :: "u8 list"
  e_head :: "nat list"
  e_pos :: nat
  e_ok :: bool

definition png_flush_idat :: "png_writer \<Rightarrow> png_enc \<Rightarrow> png_enc" where
  "png_flush_idat wr e =
     (if e_out e = [] then e
      else (let c0 = \<lparr>c_file = e_file e, c_crc = 0, c_ok = e_ok e\<rparr>;
                c1 = png_chunk_begin wr tag_IDAT (length (e_out e)) c0;
                c2 = png_chunk_write wr (e_out e) c1;
                c3 = png_chunk_end wr c2
            in e\<lparr>e_file := c_file c3, e_ok := c_ok c3, e_out := []\<rparr>))"

definition png_put_byte :: "png_writer \<Rightarrow> u8 \<Rightarrow> png_enc \<Rightarrow> png_enc" where
  "png_put_byte wr b e =
     (let e1 = e\<lparr>e_out := e_out e @ [b]\<rparr>
      in if length (e_out e1) = 256 then png_flush_idat wr e1 else e1)"

function png_drain :: "png_writer \<Rightarrow> png_enc \<Rightarrow> png_enc" where
  "png_drain wr e =
     (if e_nbits e \<ge> 8
      then png_drain wr ((png_put_byte wr (ucast (e_bits e AND 0xFF)) e)
             \<lparr>e_bits := drop_bit 8 (e_bits e), e_nbits := e_nbits e - 8\<rparr>)
      else e)"
  by pat_completeness auto
termination by (relation "measure (\<lambda>(wr, e). e_nbits e)") auto

declare png_drain.simps [simp del]

definition png_put_bits :: "png_writer \<Rightarrow> u32 \<Rightarrow> nat \<Rightarrow> png_enc \<Rightarrow> png_enc" where
  "png_put_bits wr v n e =
     png_drain wr (e\<lparr>e_bits := e_bits e OR push_bit (e_nbits e) v, e_nbits := e_nbits e + n\<rparr>)"

definition png_align_byte :: "png_writer \<Rightarrow> png_enc \<Rightarrow> png_enc" where
  "png_align_byte wr e =
     (if e_nbits e \<noteq> 0
      then (png_put_byte wr (ucast (e_bits e AND 0xFF)) e)\<lparr>e_bits := 0, e_nbits := 0\<rparr> else e)"

fun png_rev :: "nat \<Rightarrow> u32 \<Rightarrow> u32 \<Rightarrow> u32" where
  "png_rev 0 r code = r"
| "png_rev (Suc n) r code = png_rev n (push_bit 1 r OR (code AND 1)) (drop_bit 1 code)"

definition png_put_rev :: "png_writer \<Rightarrow> u32 \<Rightarrow> nat \<Rightarrow> png_enc \<Rightarrow> png_enc" where
  "png_put_rev wr code n e = png_put_bits wr (png_rev n 0 code) n e"

definition png_put_literal :: "png_writer \<Rightarrow> nat \<Rightarrow> png_enc \<Rightarrow> png_enc" where
  "png_put_literal wr v e =
     (if v < 144 then png_put_rev wr (of_nat (0x30 + v)) 8 e
      else png_put_rev wr (of_nat (0x190 + v - 144)) 9 e)"

definition png_put_symbol :: "png_writer \<Rightarrow> nat \<Rightarrow> png_enc \<Rightarrow> png_enc" where
  "png_put_symbol wr symb e =
     (if symb < 280 then png_put_rev wr (of_nat (symb - 256)) 7 e
      else png_put_rev wr (of_nat (0xC0 + symb - 280)) 8 e)"

text \<open>The table search \<open>while (i < max && base[i + 1] <= v) i++\<close>.\<close>

function base_index :: "nat list \<Rightarrow> nat \<Rightarrow> nat \<Rightarrow> nat \<Rightarrow> nat" where
  "base_index base mx v i =
     (if i < mx \<and> base ! (i + 1) \<le> v then base_index base mx v (Suc i) else i)"
  by pat_completeness auto
termination by (relation "measure (\<lambda>(base, mx, v, i). mx - i)") auto

declare base_index.simps [simp del]

definition png_put_match :: "png_writer \<Rightarrow> nat \<Rightarrow> nat \<Rightarrow> png_enc \<Rightarrow> png_enc" where
  "png_put_match wr len dist e =
     (let i = base_index png_len_base 28 len 0;
          e1 = png_put_symbol wr (257 + i) e;
          e2 = (if png_len_extra ! i \<noteq> 0
                then png_put_bits wr (of_nat (len - png_len_base ! i)) (png_len_extra ! i) e1 else e1);
          d = base_index png_dist_base 29 dist 0;
          e3 = png_put_rev wr (of_nat d) 5 e2
      in if png_dist_extra ! d \<noteq> 0
         then png_put_bits wr (of_nat (dist - png_dist_base ! d)) (png_dist_extra ! d) e3 else e3)"

definition png_byte_at :: "png_enc \<Rightarrow> nat \<Rightarrow> nat \<Rightarrow> u8 list \<Rightarrow> u8" where
  "png_byte_at e p base src = (if p \<ge> base then src ! (p - base) else e_ring e ! (p mod 512))"

definition png_hash :: "u8 \<Rightarrow> u8 \<Rightarrow> u8 \<Rightarrow> nat" where
  "png_hash s0 s1 s2 =
     unat (((push_bit 6 (ucast s0) XOR push_bit 3 (ucast s1) XOR ucast s2 XOR (ucast s0 * 31)) AND 255) :: u32)"

text \<open>\<open>cand = head | (pos & ~0xFFFF)\<close>, moved one 64K page down, modulo \<open>2\<^sup>3\<^sup>2\<close>, when it is not before \<open>pos\<close>.\<close>

definition png_cand :: "nat \<Rightarrow> nat \<Rightarrow> nat" where
  "png_cand head pos =
     (let cand = head + 65536 * (pos div 65536)
      in if cand \<ge> pos then (cand + 2 ^ 32 - 65536) mod 2 ^ 32 else cand)"

function match_len :: "png_enc \<Rightarrow> nat \<Rightarrow> nat \<Rightarrow> u8 list \<Rightarrow> nat \<Rightarrow> nat \<Rightarrow> nat \<Rightarrow> nat" where
  "match_len e cand base src k mx len =
     (if len < mx \<and> png_byte_at e (cand + len) base src = src ! (k + len)
      then match_len e cand base src k mx (Suc len) else len)"
  by pat_completeness auto
termination by (relation "measure (\<lambda>(e, cand, base, src, k, mx, len). mx - len)") auto

declare match_len.simps [simp del]

text \<open>The search of \<open>png_lz_feed\<close>: the best match (0 for none), its distance, and the updated heads.\<close>

definition png_find :: "png_enc \<Rightarrow> nat \<Rightarrow> nat \<Rightarrow> u8 list \<Rightarrow> nat \<times> nat \<times> nat list" where
  "png_find e base stop src =
     (let avail = stop - e_pos e; k = e_pos e - base
      in if avail \<ge> 3 then
           (let h = png_hash (src ! k) (src ! (k + 1)) (src ! (k + 2));
                cand = png_cand (e_head e ! h) (e_pos e);
                dist = e_pos e - cand;
                (best, bestd) =
                  (if cand < e_pos e \<and> dist \<le> 512 \<and> e_head e ! h \<noteq> 0xFFFF then
                     (let len = match_len e cand base src k (if avail > 258 then 258 else avail) 0
                      in if len \<ge> 3 then (len, dist) else (0, 0))
                   else (0, 0))
            in (best, bestd, (e_head e)[h := e_pos e mod 65536]))
         else (0, 0, e_head e))"

text \<open>The consumed bytes enter the ring; \<open>n\<close> iterations are left, \<open>k\<close> counts the ones done.\<close>

fun png_consume :: "nat \<Rightarrow> nat \<Rightarrow> nat \<Rightarrow> nat \<Rightarrow> u8 list \<Rightarrow> png_enc \<Rightarrow> png_enc" where
  "png_consume 0 k base stop src e = e"
| "png_consume (Suc n) k base stop src e =
     (let j = e_pos e - base;
          e1 = e\<lparr>e_ring := (e_ring e)[e_pos e mod 512 := src ! j]\<rparr>;
          e2 = (if k \<noteq> 0 \<and> stop - e_pos e \<ge> 3
                then e1\<lparr>e_head := (e_head e1)[png_hash (src ! j) (src ! (j + 1)) (src ! (j + 2)) := e_pos e mod 65536]\<rparr>
                else e1)
      in png_consume n (Suc k) base stop src (e2\<lparr>e_pos := Suc (e_pos e)\<rparr>))"

lemma e_pos_writer [simp]:
  "e_pos (png_flush_idat wr e) = e_pos e" "e_pos (png_put_byte wr b e) = e_pos e"
  by (simp_all add: png_flush_idat_def png_put_byte_def Let_def)

lemma e_pos_drain [simp]: "e_pos (png_drain wr e) = e_pos e"
proof (induction wr e rule: png_drain.induct)
  case (1 wr e)
  then show ?case by (subst png_drain.simps) simp
qed

lemma e_pos_put [simp]:
  "e_pos (png_put_bits wr v n e) = e_pos e" "e_pos (png_put_rev wr v n e) = e_pos e"
  "e_pos (png_put_literal wr m e) = e_pos e" "e_pos (png_put_symbol wr m e) = e_pos e"
  "e_pos (png_put_match wr len dist e) = e_pos e"
  by (simp_all add: png_put_bits_def png_put_rev_def png_put_literal_def png_put_symbol_def
      png_put_match_def Let_def)

lemma e_pos_consume [simp]: "e_pos (png_consume n k base stop src e) = e_pos e + n"
  by (induction n arbitrary: k e) (simp_all add: Let_def)

function png_lz_loop :: "png_writer \<Rightarrow> nat \<Rightarrow> nat \<Rightarrow> u8 list \<Rightarrow> png_enc \<Rightarrow> png_enc" where
  "png_lz_loop wr base stop src e =
     (if e_pos e < stop then
        (let (best, bestd, head) = png_find e base stop src;
             e1 = e\<lparr>e_head := head\<rparr>;
             step = (if best \<noteq> 0 then best else 1);
             e2 = (if best \<noteq> 0 then png_put_match wr best bestd e1
                   else png_put_literal wr (unat (src ! (e_pos e - base))) e1)
         in png_lz_loop wr base stop src (png_consume step 0 base stop src e2))
      else e)"
  by pat_completeness auto
termination
  by (relation "measure (\<lambda>(wr, base, stop, src, e). stop - e_pos e)") auto

declare png_lz_loop.simps [simp del]

definition png_lz_feed :: "png_writer \<Rightarrow> u8 list \<Rightarrow> png_enc \<Rightarrow> png_enc" where
  "png_lz_feed wr src e = png_lz_loop wr (e_pos e) (e_pos e + length src) src e"

type_synonym png_rows = "nat \<Rightarrow> lcd \<times> u16 list \<Rightarrow> u8 list option \<times> lcd \<times> u16 list"

text \<open>Pass 1: every row is requested once, which builds the palette; \<open>False\<close> when the callback fails.\<close>

fun png_pass1 :: "png_rows \<Rightarrow> nat list \<Rightarrow> lcd \<times> u16 list \<Rightarrow> bool \<times> lcd \<times> u16 list" where
  "png_pass1 get_row [] io = (True, io)"
| "png_pass1 get_row (y # ys) io =
     (case get_row y io of (None, io1) \<Rightarrow> (False, io1) | (Some row, io1) \<Rightarrow> png_pass1 get_row ys io1)"

definition png_plte_entry :: "u16 \<Rightarrow> u8 list" where
  "png_plte_entry v = (let rgb = HEXRGB (ucast v) in [ucast (drop_bit 16 rgb), ucast (drop_bit 8 rgb), ucast rgb])"

fun png_pass2 :: "png_writer \<Rightarrow> png_rows \<Rightarrow> nat list \<Rightarrow> lcd \<times> u16 list \<Rightarrow> png_enc
    \<Rightarrow> (lcd \<times> u16 list) \<times> png_enc option" where
  "png_pass2 wr get_row [] io e = (io, Some e)"
| "png_pass2 wr get_row (y # ys) io e =
     (case get_row y io of
        (None, io1) \<Rightarrow> (io1, None)
      | (Some row, io1) \<Rightarrow>
          (let e1 = e\<lparr>e_adler := png_adler32 (png_adler32 (e_adler e) [0]) row\<rparr>
           in png_pass2 wr get_row ys io1 (png_lz_feed wr row (png_lz_feed wr [0] e1))))"

definition png_header :: "png_writer \<Rightarrow> nat \<Rightarrow> nat \<Rightarrow> u16 list \<Rightarrow> u8 list \<Rightarrow> bool \<times> u8 list" where
  "png_header wr w h palette f =
     (let (n, f1) = wr f png_sig;
          ihdr = png_be32 (of_nat w) @ png_be32 (of_nat h) @ [8, 3, 0, 0, 0];
          c1 = png_chunk_begin wr tag_IHDR 13 \<lparr>c_file = f1, c_crc = 0, c_ok = True\<rparr>;
          c2 = png_chunk_end wr (png_chunk_write wr ihdr c1);
          c3 = png_chunk_begin wr tag_PLTE (length palette * 3) c2;
          c4 = foldl (\<lambda>c v. png_chunk_write wr (png_plte_entry v) c) c3 palette;
          c5 = png_chunk_end wr c4
      in (n = 8 \<and> c_ok c5, c_file c5))"

definition png_encode ::
    "png_writer \<Rightarrow> png_rows \<Rightarrow> nat \<Rightarrow> nat \<Rightarrow> lcd \<times> u16 list \<Rightarrow> u8 list \<Rightarrow> u8 list \<Rightarrow> bool \<times> (lcd \<times> u16 list) \<times> u8 list" where
  "png_encode wr get_row w h io ring f =
     (let (ok1, io1) = png_pass1 get_row [0..<h] io
      in if \<not> ok1 then (False, io1, f)
         else
           (let (ok, f1) = png_header wr w h (snd io1) f;
                e0 = \<lparr>e_file = f1, e_out = [], e_bits = 0, e_nbits = 0, e_adler = 1, e_ring = ring,
                       e_head = replicate 256 0xFFFF, e_pos = 0, e_ok = ok\<rparr>;
                e1 = png_put_byte wr 0x01 (png_put_byte wr 0x78 e0);
                e2 = png_put_bits wr 1 2 (png_put_bits wr 1 1 e1);
                (io2, r) = png_pass2 wr get_row [0..<h] io1 e2
            in case r of
                 None \<Rightarrow> (False, io2, f1)
               | Some e3 \<Rightarrow>
                   (let e4 = png_align_byte wr (png_put_symbol wr 256 e3);
                        e5 = foldl (\<lambda>e b. png_put_byte wr b e) e4 (png_be32 (e_adler e4));
                        e6 = png_flush_idat wr e5;
                        c = png_chunk_end wr (png_chunk_begin wr tag_IEND 0
                              \<lparr>c_file = e_file e6, c_crc = 0, c_ok = True\<rparr>)
                    in (e_ok e6 \<and> c_ok c, io2, c_file c))))"

subsection \<open>Decoder\<close>

record png_dec =
  d_stream :: "u8 list"
  d_in :: "u8 list"
  d_chunk_left :: nat
  d_have_chunk :: bool
  d_bits :: u32
  d_nbits :: nat
  d_ring :: "u8 list"
  d_pos :: nat
  d_row :: "u8 list"
  d_rowp :: nat
  d_y :: nat
  d_err :: nat
  d_rows :: "(nat \<times> u8 list) list"

definition rd_be32 :: "u8 list \<Rightarrow> u32" where
  "rd_be32 h = push_bit 24 (ucast (h ! 0)) OR push_bit 16 (ucast (h ! 1)) OR push_bit 8 (ucast (h ! 2)) OR ucast (h ! 3)"

function png_skip :: "nat \<Rightarrow> u8 list \<Rightarrow> bool \<times> u8 list" where
  "png_skip n s =
     (if n = 0 then (True, s)
      else (let k = (if n > 16 then 16 else n)
            in if length (take k s) \<noteq> k then (False, drop k s) else png_skip (n - k) (drop k s)))"
  by pat_completeness auto
termination by (relation "measure fst") auto

declare png_skip.simps [simp del]

lemma png_skip_length: "length (snd (png_skip n s)) \<le> length s"
proof (induction n s rule: png_skip.induct)
  case (1 n s)
  then show ?case by (subst png_skip.simps) (auto simp: Let_def intro: le_trans)
qed

lemma png_skip_le: "(b, t) = png_skip n s \<Longrightarrow> length t \<le> length s"
  using png_skip_length [of n s] by (cases "png_skip n s") auto

text \<open>Move to the next IDAT payload; \<open>False\<close> at IEND or on an error.\<close>

function png_next_idat :: "png_dec \<Rightarrow> bool \<times> png_dec" where
  "png_next_idat d =
     (let (ok, s) = (if d_have_chunk d then png_skip 4 (d_stream d) else (True, d_stream d));
          h = take 8 s;
          d1 = d\<lparr>d_have_chunk := False, d_stream := s\<rparr>;
          d2 = d1\<lparr>d_stream := drop 8 s\<rparr>;
          len = rd_be32 h
      in if \<not> ok then (False, d1)
         else if length h \<noteq> 8 then (False, d2)
         else if drop 4 h = tag_IDAT then (True, d2\<lparr>d_chunk_left := unat len, d_have_chunk := True\<rparr>)
         else if drop 4 h = tag_IEND then (False, d2)
         else (let (ok1, s1) = png_skip (unat (len + 4)) (drop 8 s)
               in if \<not> ok1 then (False, d2\<lparr>d_stream := s1\<rparr>) else png_next_idat (d2\<lparr>d_stream := s1\<rparr>)))"
  by pat_completeness auto
termination
proof (relation "measure (\<lambda>d. length (d_stream d))", goal_cases)
  case (2 d x ok s h d1 d2 len y ok1 s1)
  have "length s1 \<le> length (drop 8 s)" using 2 by (metis png_skip_le)
  moreover have "length s \<le> length (d_stream d)" using 2 by (auto split: if_splits dest: png_skip_le)
  moreover have "8 \<le> length s" using 2 by auto
  ultimately show ?case by simp
qed simp

declare png_next_idat.simps [simp del]

lemma png_next_idat_props:
  "d_err (snd (png_next_idat d)) = d_err d \<and> d_in (snd (png_next_idat d)) = d_in d \<and>
   d_bits (snd (png_next_idat d)) = d_bits d \<and> d_nbits (snd (png_next_idat d)) = d_nbits d \<and>
   length (d_stream (snd (png_next_idat d))) \<le> length (d_stream d) \<and>
   (fst (png_next_idat d) \<longrightarrow> length (d_stream (snd (png_next_idat d))) < length (d_stream d))"
proof (induction d rule: png_next_idat.induct)
  case (1 d)
  obtain ok s where s: "(if d_have_chunk d then png_skip 4 (d_stream d) else (True, d_stream d)) = (ok, s)"
    by fastforce
  then have ls: "length s \<le> length (d_stream d)" by (auto split: if_splits dest: png_skip_le [OF sym])
  obtain ok1 s1 where s1: "png_skip (unat (rd_be32 (take 8 s) + 4)) (drop 8 s) = (ok1, s1)" by fastforce
  then have ls1: "length s1 \<le> length s - 8" using png_skip_le [OF sym] by fastforce
  note IH = "1.IH" [OF s [symmetric] refl refl refl refl refl _ _ _ _ s1 [symmetric] refl]
  show ?case
    using ls ls1 IH by (subst (1 2 3 4 5 6 7) png_next_idat.simps) (auto simp: s s1 Let_def)
qed

text \<open>\<open>while (d->chunk_left == 0) if (!png_next_idat(d)) { d->err = 1; return 0; }\<close>\<close>

function png_seek :: "png_dec \<Rightarrow> bool \<times> png_dec" where
  "png_seek d =
     (if d_chunk_left d = 0
      then (case png_next_idat d of (True, d1) \<Rightarrow> png_seek d1 | (False, d1) \<Rightarrow> (False, d1\<lparr>d_err := 1\<rparr>))
      else (True, d))"
  by pat_completeness auto
termination
proof (relation "measure (\<lambda>d. length (d_stream d))", goal_cases)
  case (2 d x d1)
  then show ?case using png_next_idat_props [of d] by (auto simp flip: 2(2))
qed simp

declare png_seek.simps [simp del]

definition png_in_byte :: "png_dec \<Rightarrow> u8 \<times> png_dec" where
  "png_in_byte d =
     (case d_in d of
        b # bs \<Rightarrow> (b, d\<lparr>d_in := bs\<rparr>)
      | [] \<Rightarrow>
          (case png_seek d of
             (False, d1) \<Rightarrow> (0, d1)
           | (True, d1) \<Rightarrow>
               (let n = (if d_chunk_left d1 > 256 then 256 else d_chunk_left d1);
                    bytes = take n (d_stream d1);
                    d2 = d1\<lparr>d_stream := drop n (d_stream d1)\<rparr>
                in if length bytes \<noteq> n then (0, d2\<lparr>d_err := 1\<rparr>)
                   else (hd bytes, d2\<lparr>d_in := tl bytes, d_chunk_left := d_chunk_left d1 - n\<rparr>))))"

function png_fill :: "nat \<Rightarrow> png_dec \<Rightarrow> png_dec" where
  "png_fill n d =
     (if d_nbits d < n then
        (let (b, d1) = png_in_byte d
         in png_fill n (d1\<lparr>d_bits := d_bits d OR push_bit (d_nbits d) (ucast b), d_nbits := d_nbits d + 8\<rparr>))
      else d)"
  by pat_completeness auto
termination by (relation "measure (\<lambda>(n, d). n - d_nbits d)") auto

declare png_fill.simps [simp del]

definition png_get_bits :: "nat \<Rightarrow> png_dec \<Rightarrow> u32 \<times> png_dec" where
  "png_get_bits n d =
     (let d1 = png_fill n d
      in (d_bits d1 AND (push_bit n 1 - 1),
          d1\<lparr>d_bits := drop_bit n (d_bits d1), d_nbits := d_nbits d1 - n\<rparr>))"

fun png_get_rev :: "nat \<Rightarrow> u32 \<Rightarrow> png_dec \<Rightarrow> u32 \<times> png_dec" where
  "png_get_rev 0 v d = (v, d)"
| "png_get_rev (Suc n) v d =
     (let (b, d1) = png_get_bits 1 d in png_get_rev n (push_bit 1 v OR b) d1)"

definition png_out_byte :: "nat \<Rightarrow> nat \<Rightarrow> u8 \<Rightarrow> png_dec \<Rightarrow> png_dec" where
  "png_out_byte w h b d =
     (let d1 = d\<lparr>d_ring := (d_ring d)[d_pos d mod 512 := b], d_pos := Suc (d_pos d)\<rparr>
      in if d_rowp d = 0 then d1\<lparr>d_err := (if b \<noteq> 0 then 2 else d_err d), d_rowp := 1\<rparr>
         else
           (let row = (d_row d)[d_rowp d - 1 := b]; d2 = d1\<lparr>d_row := row, d_rowp := Suc (d_rowp d)\<rparr>
            in if d_rowp d2 = w + 1
               then (if d_y d \<ge> h then d2\<lparr>d_err := 1, d_y := Suc (d_y d), d_rowp := 0\<rparr>
                     else d2\<lparr>d_rows := d_rows d @ [(d_y d, row)], d_y := Suc (d_y d), d_rowp := 0\<rparr>)
               else d2))"

definition png_fixed_litlen :: "png_dec \<Rightarrow> nat \<times> png_dec" where
  "png_fixed_litlen d =
     (let (v, d1) = png_get_rev 7 0 d; c = unat v
      in if c \<le> 23 then (256 + c, d1)
         else
           (let (b, d2) = png_get_bits 1 d1; c1 = unat (push_bit 1 v OR b)
            in if c1 \<ge> 48 \<and> c1 \<le> 191 then (c1 - 48, d2)
               else if c1 \<ge> 192 \<and> c1 \<le> 199 then (280 + c1 - 192, d2)
               else (let (b2, d3) = png_get_bits 1 d2; c2 = unat (push_bit 1 (push_bit 1 v OR b) OR b2)
                     in (144 + c2 - 400, d3))))"

text \<open>\<open>while (len--) png_out_byte(&d, d.ring[(d.pos - dist) & (PNG_WINDOW - 1)])\<close>.\<close>

fun png_copy :: "nat \<Rightarrow> nat \<Rightarrow> nat \<Rightarrow> nat \<Rightarrow> png_dec \<Rightarrow> png_dec" where
  "png_copy w h 0 dist d = d"
| "png_copy w h (Suc len) dist d =
     png_copy w h len dist (png_out_byte w h (d_ring d ! ((d_pos d - dist) mod 512)) d)"

subsubsection \<open>Progress of the reader\<close>

text \<open>The bits the decoder can still consume; every operation either consumes its bits or sets \<open>err\<close>,
  and \<open>err\<close> is never cleared.\<close>

definition bits_left :: "png_dec \<Rightarrow> nat" where
  "bits_left d = d_nbits d + 8 * (length (d_in d) + length (d_stream d))"

definition advances :: "nat \<Rightarrow> png_dec \<Rightarrow> png_dec \<Rightarrow> bool" where
  "advances k d d' \<longleftrightarrow> (d_err d' = 0 \<longrightarrow> d_err d = 0 \<and> bits_left d' + k \<le> bits_left d)"

lemma advances_refl [simp]: "advances 0 d d"
  by (simp add: advances_def)

lemma advances_trans: "advances j d d1 \<Longrightarrow> advances k d1 d2 \<Longrightarrow> advances (j + k) d d2"
  by (auto simp: advances_def)

lemma advances_trans0: "advances 0 d d1 \<Longrightarrow> advances k d1 d2 \<Longrightarrow> advances k d d2"
  using advances_trans [of 0 d d1 k d2] by simp

lemma advances_weaken: "advances j d d1 \<Longrightarrow> i \<le> j \<Longrightarrow> advances i d d1"
  by (auto simp: advances_def)

lemma png_seek_props:
  "d_in (snd (png_seek d)) = d_in d \<and> d_bits (snd (png_seek d)) = d_bits d \<and>
   d_nbits (snd (png_seek d)) = d_nbits d \<and> length (d_stream (snd (png_seek d))) \<le> length (d_stream d) \<and>
   d_err (snd (png_seek d)) = (if fst (png_seek d) then d_err d else 1) \<and>
   (fst (png_seek d) \<longrightarrow> d_chunk_left (snd (png_seek d)) \<noteq> 0)"
proof (induction d rule: png_seek.induct)
  case (1 d)
  obtain ok d1 where n: "png_next_idat d = (ok, d1)" by fastforce
  note p = png_next_idat_props [of d, unfolded n fst_conv snd_conv]
  show ?case
  proof (cases "d_chunk_left d = 0 \<and> ok")
    case True
    then have e: "png_seek d = png_seek d1" using n by (subst png_seek.simps) simp
    show ?thesis using "1.IH" [of ok d1] True n p unfolding e by auto
  next
    case False
    then have e: "png_seek d = (if d_chunk_left d = 0 then (False, d1\<lparr>d_err := 1\<rparr>) else (True, d))"
      using n by (subst png_seek.simps) auto
    show ?thesis using p unfolding e by auto
  qed
qed

lemma png_in_byte_props:
  "d_bits (snd (png_in_byte d)) = d_bits d \<and> d_nbits (snd (png_in_byte d)) = d_nbits d \<and>
   (d_err (snd (png_in_byte d)) = 0 \<longrightarrow> d_err d = 0 \<and>
      Suc (length (d_in (snd (png_in_byte d))) + length (d_stream (snd (png_in_byte d))))
      \<le> length (d_in d) + length (d_stream d))"
  using png_seek_props [of d]
  by (cases "png_seek d") (auto simp: png_in_byte_def Let_def split: list.splits bool.splits)

lemma png_fill_advances: "advances 0 d (png_fill n d) \<and> n \<le> d_nbits (png_fill n d)"
proof (induction n d rule: png_fill.induct)
  case (1 n d)
  show ?case
  proof (cases "d_nbits d < n")
    case True
    obtain b d1 where b: "png_in_byte d = (b, d1)" by fastforce
    let ?d = "d1\<lparr>d_bits := d_bits d OR push_bit (d_nbits d) (ucast b), d_nbits := d_nbits d + 8\<rparr>"
    have "advances 0 d ?d"
      using png_in_byte_props [of d] b by (auto simp: advances_def bits_left_def)
    then show ?thesis
      using "1.IH" [OF True b [symmetric] refl] advances_trans [of 0 d ?d 0] True b
      by (subst (1 2) png_fill.simps) simp
  qed (subst (1 2) png_fill.simps, simp)
qed

lemma png_get_bits_advances: "advances n d (snd (png_get_bits n d))"
  using png_fill_advances [of d n] by (auto simp: png_get_bits_def Let_def advances_def bits_left_def)

lemma png_get_rev_advances: "advances n d (snd (png_get_rev n v d))"
proof (induction n arbitrary: v d)
  case (Suc n)
  then show ?case
    using png_get_bits_advances [of 1 d] advances_trans [of 1 d _ n]
    by (auto split: prod.splits)
qed simp

lemma png_out_byte_advances: "advances 0 d (png_out_byte w h b d)"
  by (auto simp: png_out_byte_def Let_def advances_def bits_left_def)

lemma png_copy_advances: "advances 0 d (png_copy w h len dist d)"
proof (induction len arbitrary: d)
  case (Suc len)
  then show ?case by (auto intro: advances_trans0 png_out_byte_advances)
qed simp

lemma png_fixed_litlen_advances: "advances 7 d (snd (png_fixed_litlen d))"
proof -
  obtain v d1 where 1: "png_get_rev 7 0 d = (v, d1)" by fastforce
  obtain b d2 where 2: "png_get_bits 1 d1 = (b, d2)" by fastforce
  obtain b2 d3 where 3: "png_get_bits 1 d2 = (b2, d3)" by fastforce
  have a: "advances 7 d d1" "advances 1 d1 d2" "advances 1 d2 d3"
    using png_get_rev_advances [of 7 d 0] png_get_bits_advances [of 1 d1] png_get_bits_advances [of 1 d2] 1 2 3 by auto
  then have "advances 7 d d2" "advances 7 d d3"
    by (meson advances_trans advances_weaken le_add1)+
  then show ?thesis using a 1 2 3 by (auto simp: png_fixed_litlen_def Let_def)
qed

text \<open>One length/distance pair behind symbol \<open>257 + li\<close>; \<open>None\<close> when it is not supported.\<close>

definition png_pair :: "nat \<Rightarrow> png_dec \<Rightarrow> (nat \<times> nat) option \<times> png_dec" where
  "png_pair li d =
     (if li > 28 then (None, d)
      else
        (let (eb, d1) = png_get_bits (png_len_extra ! li) d;
             len = png_len_base ! li + unat eb;
             (dv, d2) = png_get_rev 5 0 d1;
             di = unat dv
         in if di > 29 then (None, d2)
            else
              (let (db, d3) = png_get_bits (png_dist_extra ! di) d2;
                   dist = png_dist_base ! di + unat db
               in if dist > 512 \<or> dist > d_pos d3 then (None, d3) else (Some (len, dist), d3))))"

lemma png_pair_advances: "advances 0 d (snd (png_pair li d))"
proof -
  obtain eb d1 where 1: "png_get_bits (png_len_extra ! li) d = (eb, d1)" by fastforce
  obtain dv d2 where 2: "png_get_rev 5 0 d1 = (dv, d2)" by fastforce
  obtain db d3 where 3: "png_get_bits (png_dist_extra ! unat dv) d2 = (db, d3)" by fastforce
  have a: "advances 0 d d1" "advances 0 d1 d2" "advances 0 d2 d3"
    using png_get_bits_advances [of "png_len_extra ! li" d] png_get_rev_advances [of 5 d1 0]
      png_get_bits_advances [of "png_dist_extra ! unat dv" d2] 1 2 3
    by (auto intro: advances_weaken)
  then have "advances 0 d d2" "advances 0 d d3" by (blast intro: advances_trans0)+
  then show ?thesis using a 1 2 3 by (auto simp: png_pair_def Let_def)
qed

definition gas :: "png_dec \<Rightarrow> nat" where
  "gas d = (if d_err d = 0 then Suc (bits_left d) else 0)"

lemma gas_less: "advances k d d1 \<Longrightarrow> 0 < k \<Longrightarrow> d_err d1 = 0 \<Longrightarrow> advances 0 d1 d2 \<Longrightarrow> gas d2 < gas d"
  by (auto simp: gas_def advances_def)

function png_fixed_block :: "nat \<Rightarrow> nat \<Rightarrow> png_dec \<Rightarrow> png_dec" where
  "png_fixed_block w h d =
     (let (symb, d1) = png_fixed_litlen d
      in if d_err d1 \<noteq> 0 then d1
         else if symb < 256 then png_fixed_block w h (png_out_byte w h (of_nat symb) d1)
         else if symb = 256 then d1
         else (case png_pair (symb - 257) d1 of
                 (None, d2) \<Rightarrow> d2\<lparr>d_err := 3\<rparr>
               | (Some (len, dist), d2) \<Rightarrow> png_fixed_block w h (png_copy w h len dist d2)))"
  by pat_completeness auto
termination
proof (relation "measure (\<lambda>(w, h, d). gas d)", goal_cases)
  case (2 w h d x symb d1)
  have "advances 7 d d1" using png_fixed_litlen_advances [of d] 2 by (metis snd_conv)
  then show ?case using 2 by (auto intro: gas_less png_out_byte_advances)
next
  case (3 w h d x symb d1 y d2 p len dist)
  have a: "advances 7 d d1" using png_fixed_litlen_advances [of d] 3 by (metis snd_conv)
  have "advances 0 d1 d2" using png_pair_advances [of d1 "symb - 257"] 3 by (metis snd_conv)
  then have "advances 0 d1 (png_copy w h len dist d2)"
    by (rule advances_trans0) (rule png_copy_advances)
  then show ?case using 3 a by (auto intro: gas_less)
qed simp

declare png_fixed_block.simps [simp del]

fun png_stored_loop :: "nat \<Rightarrow> nat \<Rightarrow> nat \<Rightarrow> png_dec \<Rightarrow> png_dec" where
  "png_stored_loop w h 0 d = d"
| "png_stored_loop w h (Suc len) d =
     (if d_err d \<noteq> 0 then d
      else (let (b, d1) = png_in_byte d in png_stored_loop w h len (png_out_byte w h b d1)))"

definition png_stored :: "nat \<Rightarrow> nat \<Rightarrow> png_dec \<Rightarrow> png_dec" where
  "png_stored w h d =
     (let (b0, d0) = png_in_byte (d\<lparr>d_bits := 0, d_nbits := 0\<rparr>);
          (b1, d1) = png_in_byte d0;
          (b2, d2) = png_in_byte d1;
          (b3, d3) = png_in_byte d2
      in png_stored_loop w h (unat b0 + 256 * unat b1) d3)"

lemma png_in_byte_advances: "png_in_byte d = (b, d1) \<Longrightarrow> advances 0 d d1"
  using png_in_byte_props [of d] by (auto simp: advances_def bits_left_def)

lemma png_stored_loop_advances: "advances 0 d (png_stored_loop w h len d)"
proof (induction len arbitrary: d)
  case (Suc len)
  obtain b d1 where b: "png_in_byte d = (b, d1)" by fastforce
  have "advances 0 d (png_stored_loop w h len (png_out_byte w h b d1))"
    using png_in_byte_advances [OF b] png_out_byte_advances Suc by (blast intro: advances_trans0)
  then show ?case by (simp add: b)
qed simp

lemma png_stored_advances: "advances 0 d (png_stored w h d)"
proof -
  let ?d = "d\<lparr>d_bits := 0, d_nbits := 0\<rparr>"
  obtain b0 d0 where 0: "png_in_byte ?d = (b0, d0)" by fastforce
  obtain b1 d1 where 1: "png_in_byte d0 = (b1, d1)" by fastforce
  obtain b2 d2 where 2: "png_in_byte d1 = (b2, d2)" by fastforce
  obtain b3 d3 where 3: "png_in_byte d2 = (b3, d3)" by fastforce
  have "advances 0 d ?d" by (simp add: advances_def bits_left_def)
  then have "advances 0 d d3"
    using 0 1 2 3 by (blast intro: advances_trans0 dest: png_in_byte_advances)
  then show ?thesis
    using advances_trans0 [OF _ png_stored_loop_advances] by (simp add: png_stored_def 0 1 2 3)
qed

lemma png_fixed_block_advances: "advances 0 d (png_fixed_block w h d)"
proof (induction w h d rule: png_fixed_block.induct)
  case (1 w h d)
  obtain symb d1 where 1: "png_fixed_litlen d = (symb, d1)" by fastforce
  obtain r d2 where 2: "png_pair (symb - 257) d1 = (r, d2)" by fastforce
  have a1: "advances 0 d d1" using png_fixed_litlen_advances [of d] 1 by (auto intro: advances_weaken)
  have a2: "advances 0 d d2"
    using advances_trans0 [OF a1 png_pair_advances, of "symb - 257"] 2 by simp
  have lit: "advances 0 d (png_fixed_block w h (png_out_byte w h (of_nat symb) d1))"
    if "d_err d1 = 0" "symb < 256"
    using "1.IH"(1) [OF 1 [symmetric] refl] that a1 png_out_byte_advances by (blast intro: advances_trans0)
  have cp: "advances 0 d (png_fixed_block w h (png_copy w h len dist d2))"
    if "d_err d1 = 0" "\<not> symb < 256" "symb \<noteq> 256" "r = Some (len, dist)" for len dist
    using "1.IH"(2) [OF 1 [symmetric] refl] that 2 a2 png_copy_advances by (metis advances_trans0)
  show ?case
    using a1 lit cp
    by (subst png_fixed_block.simps) (auto simp: 1 2 advances_def split: option.splits)
qed

text \<open>The block loop \<open>while (!final && !d.err)\<close>.\<close>

definition png_block :: "nat \<Rightarrow> nat \<Rightarrow> png_dec \<Rightarrow> bool \<times> png_dec" where
  "png_block w h d =
     (let (final, d1) = png_get_bits 1 d; (ty, d2) = png_get_bits 2 d1
      in (final \<noteq> 0,
          if ty = 0 then png_stored w h d2
          else if ty = 1 then png_fixed_block w h d2
          else d2\<lparr>d_err := 3\<rparr>))"

lemma png_block_advances: "advances 1 d (snd (png_block w h d))"
proof -
  obtain f d1 where 1: "png_get_bits 1 d = (f, d1)" by fastforce
  obtain ty d2 where 2: "png_get_bits 2 d1 = (ty, d2)" by fastforce
  have "advances 1 d d1" "advances 2 d1 d2"
    using png_get_bits_advances [of 1 d] png_get_bits_advances [of 2 d1] 1 2 by auto
  then have a: "advances 1 d d2" by (meson advances_trans advances_weaken le_add1)
  have t: "advances 0 d2 d3 \<Longrightarrow> advances 1 d d3" for d3 using advances_trans [OF a, of 0 d3] by simp
  show ?thesis
    using t [OF png_stored_advances] t [OF png_fixed_block_advances]
    unfolding png_block_def 1 2 Let_def by (simp add: 2) (simp add: advances_def)
qed

function png_inflate :: "nat \<Rightarrow> nat \<Rightarrow> png_dec \<Rightarrow> png_dec" where
  "png_inflate w h d =
     (if d_err d \<noteq> 0 then d
      else (case png_block w h d of (final, d1) \<Rightarrow> if final then d1 else png_inflate w h d1))"
  by pat_completeness auto
termination
proof (relation "measure (\<lambda>(w, h, d). gas d)", goal_cases)
  case (2 w h d final d1)
  then have "advances 1 d d1" using png_block_advances [of d w h] by (metis snd_conv)
  then show ?case using 2 by (auto simp: gas_def advances_def)
qed simp

declare png_inflate.simps [simp del]

fun png_read_plte :: "nat \<Rightarrow> u8 list \<Rightarrow> (u16 list \<times> u8 list) option" where
  "png_read_plte 0 s = Some ([], s)"
| "png_read_plte (Suc n) s =
     (let p = take 3 s
      in if length p \<noteq> 3 then None
         else (case png_read_plte n (drop 3 s) of
                 None \<Rightarrow> None
               | Some (pal, s1) \<Rightarrow> Some (rgb565_of (p ! 0) (p ! 1) (p ! 2) # pal, s1)))"

text \<open>The chunks before the palette; \<open>None\<close> is \<open>"Format err"\<close>.\<close>

function png_find_plte :: "u8 list \<Rightarrow> (u16 list \<times> u8 list) option" where
  "png_find_plte s =
     (let h = take 8 s; s1 = drop 8 s; len = rd_be32 h
      in if length h \<noteq> 8 then None
         else if drop 4 h = tag_PLTE then
           (if unat len mod 3 \<noteq> 0 \<or> unat len > 768 \<or> len = 0 then None
            else (case png_read_plte (unat len div 3) s1 of
                    None \<Rightarrow> None
                  | Some (pal, s2) \<Rightarrow> (case png_skip 4 s2 of (ok, s3) \<Rightarrow> if ok then Some (pal, s3) else None)))
         else if drop 4 h = tag_IDAT \<or> drop 4 h = tag_IEND then None
         else (case png_skip (unat (len + 4)) s1 of (ok, s2) \<Rightarrow> if ok then png_find_plte s2 else None))"
  by pat_completeness auto
termination
proof (relation "measure length", goal_cases)
  case (2 s h s1 len ok s2)
  then have "length s2 \<le> length s1" by (metis png_skip_le)
  then show ?case using 2 by auto
qed simp

declare png_find_plte.simps [simp del]

definition png_decode :: "nat \<Rightarrow> nat \<Rightarrow> u8 list \<Rightarrow> u8 list \<Rightarrow> u8 list \<Rightarrow> string option \<times> u16 list \<times> (nat \<times> u8 list) list" where
  "png_decode width height ring row s =
     (let h = take 33 s
      in if length h \<noteq> 33 \<or> take 8 h \<noteq> png_sig \<or> take 4 (drop 12 h) \<noteq> tag_IHDR
         then (Some ''Format err'', [], [])
         else if rd_be32 (drop 16 h) \<noteq> of_nat width \<or> rd_be32 (drop 20 h) \<noteq> of_nat height
                 \<or> h ! 24 \<noteq> 8 \<or> h ! 25 \<noteq> 3 \<or> h ! 28 \<noteq> 0
         then (Some ''Unsupported PNG'', [], [])
         else
           (case png_find_plte (drop 33 s) of
              None \<Rightarrow> (Some ''Format err'', [], [])
            | Some (pal, s1) \<Rightarrow>
                (let d0 = \<lparr>d_stream = s1, d_in = [], d_chunk_left = 0, d_have_chunk = False, d_bits = 0,
                           d_nbits = 0, d_ring = ring, d_pos = 0, d_row = row, d_rowp = 0, d_y = 0,
                           d_err = 0, d_rows = []\<rparr>;
                     (ok, d1) = png_next_idat d0
                 in if \<not> ok then (Some ''Format err'', pal, [])
                    else
                      (let (cmf, d2) = png_in_byte d1
                       in if cmf \<noteq> 0x78 then (Some ''Unsupported PNG'', pal, [])
                          else
                            (let (flg, d3) = png_in_byte d2;
                                 d = png_inflate width height d3
                             in if d_err d = 3 then (Some ''Unsupported PNG'', pal, d_rows d)
                                else if d_err d \<noteq> 0 \<or> d_y d \<noteq> height then (Some ''Format err'', pal, d_rows d)
                                else (None, pal, d_rows d))))))"

subsection \<open>The display callbacks and file handlers of \<^verbatim>\<open>ui.c\<close>\<close>

definition color_dist :: "u16 \<Rightarrow> u16 \<Rightarrow> int" where
  "color_dist v p =
     (let a = HEXRGB (ucast v); b = HEXRGB (ucast p);
          dr = uint (drop_bit 16 a AND 255) - uint (drop_bit 16 b AND 255);
          dg = uint (drop_bit 8 a AND 255) - uint (drop_bit 8 b AND 255);
          db = uint (a AND 255) - uint (b AND 255)
      in dr * dr + dg * dg + db * db)"

definition png_nearest :: "u16 list \<Rightarrow> u16 \<Rightarrow> nat" where
  "png_nearest pal v =
     snd (foldl (\<lambda>(best, i) k. let d = color_dist v (pal ! k) in if d < best then (d, k) else (best, i))
       (0xFFFFFFFF, length pal) [0..<256])"

definition png_index :: "u16 list \<Rightarrow> u16 \<Rightarrow> nat \<times> u16 list" where
  "png_index pal v =
     (let i = length (takeWhile (\<lambda>c. c \<noteq> v) pal)
      in if i = length pal then
           (if length pal < 256 then (i, pal @ [v]) else (png_nearest pal v, pal))
         else (i, pal))"

fun png_index_row :: "u16 list \<Rightarrow> u16 list \<Rightarrow> u8 list \<times> u16 list" where
  "png_index_row pal [] = ([], pal)"
| "png_index_row pal (v # px) =
     (let (i, pal1) = png_index pal v; (row, pal2) = png_index_row pal1 px in (of_nat i # row, pal2))"

definition png_lcd_row :: "u16 \<Rightarrow> png_rows" where
  "png_lcd_row bg y io =
     (let (row, pal) = png_index_row (snd io) (fst io ! y) in (Some row, lcd_tick bg y (fst io), pal))"

definition png_lcd_put :: "u16 list \<Rightarrow> nat \<Rightarrow> u8 list \<Rightarrow> lcd \<Rightarrow> lcd" where
  "png_lcd_put pal y row lcd =
     lcd[y := map (\<lambda>i. pal ! (if unat i < length pal then unat i else 0)) row]"

definition save_png :: "png_writer \<Rightarrow> u16 \<Rightarrow> u16 list \<Rightarrow> u8 list \<Rightarrow> lcd \<Rightarrow> u8 list \<Rightarrow> bool \<times> lcd \<times> u8 list" where
  "save_png wr bg lcd_palette ring lcd f =
     (let (ok, io, f1) = png_encode wr (png_lcd_row bg) LCD_WIDTH LCD_HEIGHT (lcd, lcd_palette) ring f
      in (ok, fst io, f1))"

definition load_png :: "u8 list \<Rightarrow> u8 list \<Rightarrow> u8 list \<Rightarrow> lcd \<Rightarrow> string option \<times> lcd" where
  "load_png ring row f lcd =
     (let (err, pal, rows) = png_decode LCD_WIDTH LCD_HEIGHT ring row f
      in (err, foldl (\<lambda>lcd (y, r). png_lcd_put pal y r lcd) lcd rows))"

end
