(* ===== verification/PngBits.thy ===== *)
theory PngBits
  imports Png
begin

text \<open>
  The bit level of the PNG codec: what the encoder's accumulator and IDAT chunks contain, as a list of bits,
  and what the decoder's reader returns from such a list. A symbol, a length/distance pair or a token
  written by the encoder is read back by the decoder.
\<close>

subsection \<open>Bit lists\<close>

definition bits_of :: "'a::len word \<Rightarrow> nat \<Rightarrow> bool list" where
  "bits_of w n = map (bit w) [0..<n]"

definition byte_bits :: "u8 list \<Rightarrow> bool list" where
  "byte_bits bs = concat (map (\<lambda>b. bits_of b 8) bs)"

definition below :: "'a::len word \<Rightarrow> nat \<Rightarrow> bool" where
  "below w n \<longleftrightarrow> (\<forall>i\<ge>n. \<not> bit w i)"

lemma bits_of_simps [simp]: "bits_of w 0 = []" "length (bits_of w n) = n"
  by (simp_all add: bits_of_def)

lemma bits_of_nth [simp]: "i < n \<Longrightarrow> bits_of w n ! i = bit w i"
  by (simp add: bits_of_def)

lemma byte_bits_simps [simp]:
  "byte_bits [] = []" "byte_bits (b # bs) = bits_of b 8 @ byte_bits bs"
  "byte_bits (bs @ cs) = byte_bits bs @ byte_bits cs" "length (byte_bits bs) = 8 * length bs"
  by (simp_all add: byte_bits_def) (induction bs; simp)

lemma bits_of_split: "m \<le> n \<Longrightarrow> bits_of w n = bits_of w m @ bits_of (drop_bit m w) (n - m)"
  by (rule nth_equalityI) (auto simp: nth_append bit_drop_bit_eq)

lemma bits_of_or:
  assumes "below w m" "m + n \<le> LENGTH('a)"
  shows "bits_of (w OR push_bit m v) (m + n) = bits_of w m @ bits_of (v :: 'a::len word) n"
  using assms by (intro nth_equalityI) (auto simp: nth_append bit_simps below_def)

lemma bits_of_byte: "bits_of (ucast (w AND 0xFF :: u32) :: u8) 8 = bits_of w 8"
proof (rule nth_equalityI)
  fix i assume "i < length (bits_of (ucast (w AND 0xFF) :: u8) 8)"
  then have i: "i < 8" by simp
  have "bit (0xFF :: u32) i" using i by (auto simp: numeral_eq_Suc less_Suc_eq)
  then show "bits_of (ucast (w AND 0xFF) :: u8) 8 ! i = bits_of w 8 ! i"
    using i by (simp add: bit_simps)
qed simp

lemma below_simps [simp]: "below w n \<Longrightarrow> below (drop_bit k w) (n - k)" "below 0 n"
  by (auto simp: below_def bit_simps)

lemma below_or: "below w m \<Longrightarrow> below v n \<Longrightarrow> below (w OR push_bit m v) (m + n)"
  by (auto simp: below_def bit_simps)

lemma below_mono: "below w m \<Longrightarrow> m \<le> n \<Longrightarrow> below w n"
  by (auto simp: below_def)

lemma below_of_nat: "c < 2 ^ n \<Longrightarrow> below (of_nat c :: 'a::len word) n"
proof -
  assume "c < 2 ^ n"
  then have "\<not> bit c i" if "n \<le> i" for i
    using that by (simp add: bit_nat_def less_le_trans [of c "2 ^ n"] div_less)
  then show ?thesis by (auto simp: below_def bit_simps)
qed

text \<open>Codes are sent most significant bit first.\<close>

definition msb_first :: "nat \<Rightarrow> nat \<Rightarrow> bool list" where
  "msb_first n c = rev (bits_of (of_nat c :: u32) n)"

lemma bits_of_png_rev:
  "m + n \<le> 32 \<Longrightarrow> below r m \<Longrightarrow>
   bits_of (png_rev n r code) (m + n) = rev (bits_of code n) @ bits_of r m \<and> below (png_rev n r code) (m + n)"
proof (induction n arbitrary: m r code)
  case (Suc n)
  let ?r = "push_bit 1 r OR (code AND 1)"
  have bit: "bit ?r i = (if i = 0 then bit code 0 else i < 32 \<and> bit r (i - 1))" for i
    using bit_push_bit_iff [of 1 r i] by (auto simp: bit_or_iff bit_and_iff bit_1_iff)
  have b: "below ?r (Suc m)" using Suc.prems by (auto simp only: below_def bit split: if_splits)
  have r: "bits_of ?r (Suc m) = bit code 0 # bits_of r m"
    using Suc.prems
    by (intro nth_equalityI) (simp_all only: length_Cons bits_of_simps bits_of_nth bit nth_Cons', simp)
  have c: "rev (bits_of code (Suc n)) = rev (bits_of (drop_bit 1 code) n) @ [bit code 0]"
    using bits_of_split [of 1 "Suc n" code] by (simp add: bits_of_def)
  show ?case
    using Suc.IH [of "Suc m" ?r "drop_bit 1 code"] Suc.prems b by (simp add: r [simplified] c)
qed simp

subsection \<open>Encoder output\<close>

definition writes :: "png_writer \<Rightarrow> bool" where
  "writes wr \<longleftrightarrow> (\<forall>f d. wr f d = (length d, f @ d))"

definition idat :: "u8 list \<Rightarrow> u8 list" where
  "idat p = png_be32 (of_nat (length p)) @ tag_IDAT @ p @ png_be32 (png_crc32 (png_crc32 0 tag_IDAT) p)"

definition payload_ok :: "u8 list list \<Rightarrow> bool" where
  "payload_ok ps \<longleftrightarrow> (\<forall>p\<in>set ps. p \<noteq> [] \<and> length p \<le> 256)"

definition enc_rep :: "u8 list \<Rightarrow> png_enc \<Rightarrow> u8 list \<Rightarrow> bool" where
  "enc_rep pre e P \<longleftrightarrow> e_ok e \<and> length (e_out e) \<le> 256 \<and>
     (\<exists>ps. payload_ok ps \<and> e_file e = pre @ concat (map idat ps) \<and> P = concat ps @ e_out e)"

lemma png_flush_idat_rep:
  assumes "writes wr" "enc_rep pre e P"
  shows "enc_rep pre (png_flush_idat wr e) P" "e_out (png_flush_idat wr e) = []"
proof -
  obtain ps where ps: "e_ok e" "length (e_out e) \<le> 256" "payload_ok ps" "e_file e = pre @ concat (map idat ps)"
      "P = concat ps @ e_out e"
    using assms(2) by (auto simp: enc_rep_def)
  show "e_out (png_flush_idat wr e) = []" by (simp add: png_flush_idat_def Let_def)
  show "enc_rep pre (png_flush_idat wr e) P"
  proof (cases "e_out e = []")
    case True
    then show ?thesis using assms by (simp add: png_flush_idat_def)
  next
    case False
    then show ?thesis
      using ps assms(1) unfolding enc_rep_def
      by (intro conjI exI [of _ "ps @ [e_out e]"])
         (simp_all add: png_flush_idat_def png_chunk_begin_def png_chunk_write_def png_chunk_end_def
           png_write_def writes_def Let_def idat_def payload_ok_def ball_Un)
  qed
qed

lemma png_put_byte_rep:
  assumes "writes wr" "enc_rep pre e P" "length (e_out e) < 256"
  shows "enc_rep pre (png_put_byte wr b e) (P @ [b])" "length (e_out (png_put_byte wr b e)) < 256"
proof -
  let ?e = "e\<lparr>e_out := e_out e @ [b]\<rparr>"
  have r: "enc_rep pre ?e (P @ [b])" using assms(2,3) by (auto simp: enc_rep_def)
  show "enc_rep pre (png_put_byte wr b e) (P @ [b])" "length (e_out (png_put_byte wr b e)) < 256"
    using r png_flush_idat_rep [OF assms(1) r] assms(3) by (auto simp: png_put_byte_def Let_def)
qed

definition enc_bits :: "u8 list \<Rightarrow> png_enc \<Rightarrow> bool list \<Rightarrow> bool" where
  "enc_bits pre e B \<longleftrightarrow> e_nbits e < 8 \<and> length (e_out e) < 256 \<and> below (e_bits e) (e_nbits e) \<and>
     (\<exists>P. enc_rep pre e P \<and> B = byte_bits P @ bits_of (e_bits e) (e_nbits e))"

lemma enc_rep_update [simp]:
  "enc_rep pre (e\<lparr>e_bits := x, e_nbits := y\<rparr>) P = enc_rep pre e P"
  by (simp add: enc_rep_def)

lemma png_drain_bits:
  assumes "writes wr"
  shows "enc_rep pre e P \<Longrightarrow> length (e_out e) < 256 \<Longrightarrow> below (e_bits e) (e_nbits e) \<Longrightarrow>
    enc_bits pre (png_drain wr e) (byte_bits P @ bits_of (e_bits e) (e_nbits e))"
proof (induction "e_nbits e" arbitrary: e P rule: less_induct)
  case less
  show ?case
  proof (cases "8 \<le> e_nbits e")
    case True
    let ?b = "ucast (e_bits e AND 0xFF) :: u8"
    let ?e = "(png_put_byte wr ?b e)\<lparr>e_bits := drop_bit 8 (e_bits e), e_nbits := e_nbits e - 8\<rparr>"
    have "enc_bits pre (png_drain wr ?e) (byte_bits (P @ [?b]) @ bits_of (drop_bit 8 (e_bits e)) (e_nbits e - 8))"
      using less.hyps [of ?e "P @ [?b]"] less.prems png_put_byte_rep [OF assms less.prems(1,2)] True by simp
    then show ?thesis
      using True bits_of_split [OF True, of "e_bits e"]
      by (subst png_drain.simps) (simp add: bits_of_byte)
  next
    case False
    then show ?thesis using less.prems by (subst png_drain.simps) (auto simp: enc_bits_def)
  qed
qed

lemma png_put_bits_bits:
  assumes "writes wr" "enc_bits pre e B" "n \<le> 16" "below v n"
  shows "enc_bits pre (png_put_bits wr v n e) (B @ bits_of v n)"
proof -
  obtain P where P: "enc_rep pre e P" "B = byte_bits P @ bits_of (e_bits e) (e_nbits e)" "e_nbits e < 8"
      "length (e_out e) < 256" "below (e_bits e) (e_nbits e)"
    using assms(2) by (auto simp: enc_bits_def)
  let ?e = "e\<lparr>e_bits := e_bits e OR push_bit (e_nbits e) v, e_nbits := e_nbits e + n\<rparr>"
  show ?thesis
    using png_drain_bits [OF assms(1), of pre ?e P] P assms(3,4)
    by (simp add: png_put_bits_def bits_of_or below_or)
qed

lemma png_put_rev_bits:
  assumes "writes wr" "enc_bits pre e B" "n \<le> 16"
  shows "enc_bits pre (png_put_rev wr code n e) (B @ rev (bits_of code n))"
  using png_put_bits_bits [OF assms, of "png_rev n 0 code"] bits_of_png_rev [of 0 n 0 code] assms(3)
  by (simp add: png_put_rev_def)


subsection \<open>Decoder input\<close>

definition dec_rep :: "png_dec \<Rightarrow> u8 list \<Rightarrow> bool" where
  "dec_rep d P \<longleftrightarrow> d_have_chunk d \<and>
     (\<exists>a crc ps tail. length crc = 4 \<and> payload_ok ps \<and> d_chunk_left d = length a \<and>
        d_stream d = a @ crc @ concat (map idat ps) @ tail \<and> P = d_in d @ a @ concat ps)"

lemma length_png_be32 [simp]: "length (png_be32 v) = 4" "length tag_IDAT = 4" "length tag_IHDR = 4"
  "length tag_PLTE = 4" "length tag_IEND = 4" "length png_sig = 8"
  by (simp_all add: png_be32_def tag_IDAT_def tag_IHDR_def tag_PLTE_def tag_IEND_def png_sig_def)

lemma rd_png_be32: "rd_be32 (png_be32 v @ r) = v"
proof (rule bit_word_eqI)
  fix i assume "i < LENGTH(32)"
  then have i: "i < 32" by simp
  consider "i < 8" | "8 \<le> i" "i < 16" | "16 \<le> i" "i < 24" | "24 \<le> i" by linarith
  then show "bit (rd_be32 (png_be32 v @ r)) i = bit v i"
    using i by cases (auto simp: rd_be32_def png_be32_def bit_simps numeral_2_eq_2 numeral_3_eq_3)
qed

lemma png_skip_app: "length a = n \<Longrightarrow> png_skip n (a @ s) = (True, s)"
proof (induction n "a @ s" arbitrary: a rule: png_skip.induct)
  case (1 n)
  let ?k = "if n > 16 then 16 else n"
  have "png_skip (n - ?k) (drop ?k a @ s) = (True, s)" if "n \<noteq> 0"
    using "1.hyps" [of ?k "drop ?k a"] that "1.prems" by auto
  then show ?case using "1.prems" by (subst png_skip.simps) auto
qed

lemma png_next_idat_app:
  assumes "d_have_chunk d \<longrightarrow> length crc = 4" "\<not> d_have_chunk d \<longrightarrow> crc = []"
    "d_stream d = crc @ idat p @ s" "length p \<le> 256"
  shows "png_next_idat d = (True, d\<lparr>d_stream := p @ png_be32 (png_crc32 (png_crc32 0 tag_IDAT) p) @ s,
     d_chunk_left := length p, d_have_chunk := True\<rparr>)"
proof -
  define x where "x = idat p @ s"
  have sk: "(if d_have_chunk d then png_skip 4 (d_stream d) else (True, d_stream d)) = (True, x)"
    using assms png_skip_app [of crc 4 "idat p @ s"] by (auto simp: x_def)
  have t: "take 8 x = png_be32 (of_nat (length p)) @ tag_IDAT"
    "drop 8 x = p @ png_be32 (png_crc32 (png_crc32 0 tag_IDAT) p) @ s" "min (length x) 8 = 8"
    by (simp_all add: idat_def x_def)
  have l: "unat (of_nat (length p) :: u32) = length p"
    using assms(4) by (simp add: unat_of_nat)
  show ?thesis by (subst png_next_idat.simps) (simp add: sk t rd_png_be32 l Let_def)
qed

lemma png_in_byte_rep:
  assumes "dec_rep d (b # P)"
  shows "\<exists>i s c. png_in_byte d = (b, d\<lparr>d_in := i, d_stream := s, d_chunk_left := c\<rparr>)
     \<and> dec_rep (d\<lparr>d_in := i, d_stream := s, d_chunk_left := c\<rparr>) P"
proof -
  obtain a crc ps tail where r: "d_have_chunk d" "length crc = 4" "payload_ok ps" "d_chunk_left d = length a"
      "d_stream d = a @ crc @ concat (map idat ps) @ tail" "b # P = d_in d @ a @ concat ps"
    using assms by (auto simp: dec_rep_def)
  show ?thesis
  proof (cases "d_in d")
    case (Cons x xs)
    then have "png_in_byte d = (b, d\<lparr>d_in := xs, d_stream := d_stream d, d_chunk_left := d_chunk_left d\<rparr>)"
      using r by (simp add: png_in_byte_def)
    moreover have "dec_rep (d\<lparr>d_in := xs, d_stream := d_stream d, d_chunk_left := d_chunk_left d\<rparr>) P"
      using r Cons by (auto simp: dec_rep_def)
    ultimately show ?thesis by blast
  next
    case Nil
    obtain a' crc' ps' where a': "png_seek d = (True, d\<lparr>d_stream := a' @ crc' @ concat (map idat ps') @ tail,
          d_chunk_left := length a', d_have_chunk := True\<rparr>)" "a' \<noteq> []" "length crc' = 4" "payload_ok ps'"
        "b # P = a' @ concat ps'"
    proof (cases "a = []")
      case False
      show ?thesis
      proof (rule that [of a crc ps])
        show "png_seek d = (True, d\<lparr>d_stream := a @ crc @ concat (map idat ps) @ tail,
          d_chunk_left := length a, d_have_chunk := True\<rparr>)"
          using False r by (subst png_seek.simps) (cases d; simp)
      qed (use False r Nil in auto)
    next
      case True
      then obtain p ps' where ps: "ps = p # ps'" using r(6) Nil by (cases ps) auto
      then have p: "p \<noteq> []" "length p \<le> 256" "payload_ok ps'" using r(3) by (auto simp: payload_ok_def)
      have n: "png_next_idat d = (True, d\<lparr>d_stream := p @ png_be32 (png_crc32 (png_crc32 0 tag_IDAT) p) @ concat (map idat ps') @ tail,
          d_chunk_left := length p, d_have_chunk := True\<rparr>)"
        using r True ps p(2) by (intro png_next_idat_app [of d crc]) auto
      show ?thesis
      proof (rule that [of p "png_be32 (png_crc32 (png_crc32 0 tag_IDAT) p)" ps'])
        show "png_seek d = (True, d\<lparr>d_stream := p @ png_be32 (png_crc32 (png_crc32 0 tag_IDAT) p) @ concat (map idat ps') @ tail,
          d_chunk_left := length p, d_have_chunk := True\<rparr>)"
          using True r p n by (subst png_seek.simps) (simp add: png_seek.simps)
      qed (use p r True ps Nil in auto)
    qed
    let ?n = "if length a' > 256 then 256 else length a'"
    have n: "length (take ?n a') = ?n" "0 < ?n" using a'(2) by auto
    let ?d = "d\<lparr>d_in := tl (take ?n a'), d_stream := drop ?n a' @ crc' @ concat (map idat ps') @ tail,
      d_chunk_left := length a' - ?n\<rparr>"
    have "hd (take ?n a') = b" using a'(2,5) by (cases a') auto
    then have "png_in_byte d = (b, ?d)"
      using Nil a'(1) r(1) n by (cases d) (auto simp: png_in_byte_def Let_def)
    moreover have "b # P = take ?n a' @ drop ?n a' @ concat ps'" using a'(5) by simp
    then have "P = tl (take ?n a') @ drop ?n a' @ concat ps'" using n by (cases "take ?n a'") auto
    then have "dec_rep ?d P"
      unfolding dec_rep_def using r(1) a'(3,4)
      by (intro conjI exI [of _ "drop ?n a'"] exI [of _ crc'] exI [of _ ps'] exI [of _ tail]) auto
    ultimately show ?thesis by blast
  qed
qed


definition dec_bits :: "png_dec \<Rightarrow> bool list \<Rightarrow> bool" where
  "dec_bits d B \<longleftrightarrow> below (d_bits d) (d_nbits d) \<and> d_nbits d \<le> 32 \<and>
     (\<exists>P. dec_rep d P \<and> B = bits_of (d_bits d) (d_nbits d) @ byte_bits P)"

text \<open>Two states that differ in the reader only.\<close>

definition same_out :: "png_dec \<Rightarrow> png_dec \<Rightarrow> bool" where
  "same_out d d' \<longleftrightarrow> d_ring d' = d_ring d \<and> d_pos d' = d_pos d \<and> d_row d' = d_row d \<and> d_rowp d' = d_rowp d
     \<and> d_y d' = d_y d \<and> d_err d' = d_err d \<and> d_rows d' = d_rows d"

lemma same_out_simps [simp]: "same_out d d" "same_out d d1 \<Longrightarrow> same_out d1 d2 \<Longrightarrow> same_out d d2"
  by (simp_all add: same_out_def)

lemma dec_rep_update [simp]:
  "dec_rep (d\<lparr>d_bits := x, d_nbits := y\<rparr>) P = dec_rep d P"
  by (simp add: dec_rep_def)

lemma png_fill_bits:
  "dec_bits d B \<Longrightarrow> n \<le> length B \<Longrightarrow> n \<le> 25 \<Longrightarrow>
   dec_bits (png_fill n d) B \<and> same_out d (png_fill n d)"
proof (induction "n - d_nbits d" arbitrary: d rule: less_induct)
  case less
  show ?case
  proof (cases "d_nbits d < n")
    case False
    then show ?thesis using less.prems by (subst (1 2) png_fill.simps) simp
  next
    case True
    obtain P where P: "below (d_bits d) (d_nbits d)" "dec_rep d P" "B = bits_of (d_bits d) (d_nbits d) @ byte_bits P"
      using less.prems by (auto simp: dec_bits_def)
    then obtain b P' where bP: "P = b # P'" using True less.prems(2) by (cases P) auto
    obtain i s c where r: "png_in_byte d = (b, d\<lparr>d_in := i, d_stream := s, d_chunk_left := c\<rparr>)"
        "dec_rep (d\<lparr>d_in := i, d_stream := s, d_chunk_left := c\<rparr>) P'"
      using png_in_byte_rep P(2) bP by blast
    let ?d = "d\<lparr>d_in := i, d_stream := s, d_chunk_left := c,
      d_bits := d_bits d OR push_bit (d_nbits d) (ucast b), d_nbits := d_nbits d + 8\<rparr>"
    have bb: "bits_of (ucast b :: u32) 8 = bits_of b 8" "below (ucast b :: u32) 8"
      by (auto simp: bits_of_def below_def bit_simps dest: bit_imp_le_length)
    have "dec_bits ?d B"
      using P bP r(2) bb True less.prems(3)
      by (auto simp: dec_bits_def bits_of_or intro!: below_or exI [of _ P'])
    then have "dec_bits (png_fill n ?d) B \<and> same_out ?d (png_fill n ?d)"
      using less.hyps [of ?d] less.prems True by simp
    moreover have "png_fill n d = png_fill n ?d" using True r(1) by (subst png_fill.simps) simp
    ultimately show ?thesis by (simp add: same_out_def)
  qed
qed

lemma png_get_bits_bits:
  assumes "dec_bits d (bits_of v n @ B)" "n \<le> 25" "below v n"
  shows "\<exists>d'. png_get_bits n d = (v, d') \<and> dec_bits d' B \<and> same_out d d'"
proof -
  let ?d = "png_fill n d"
  let ?d' = "?d\<lparr>d_bits := drop_bit n (d_bits ?d), d_nbits := d_nbits ?d - n\<rparr>"
  have f: "dec_bits ?d (bits_of v n @ B)" "same_out d ?d" "n \<le> d_nbits ?d"
    using png_fill_bits [OF assms(1)] assms(2) png_fill_advances by auto
  then obtain P where P: "below (d_bits ?d) (d_nbits ?d)" "d_nbits ?d \<le> 32" "dec_rep ?d P"
      "bits_of v n @ B = bits_of (d_bits ?d) (d_nbits ?d) @ byte_bits P"
    by (auto simp: dec_bits_def)
  have split: "bits_of (d_bits ?d) (d_nbits ?d) = bits_of (d_bits ?d) n @ bits_of (drop_bit n (d_bits ?d)) (d_nbits ?d - n)"
    by (rule bits_of_split [OF f(3)])
  have v: "bits_of v n = bits_of (d_bits ?d) n"
    and B: "B = bits_of (drop_bit n (d_bits ?d)) (d_nbits ?d - n) @ byte_bits P"
    using P(4) unfolding split by (auto simp: append_eq_append_conv)
  have "d_bits ?d AND (push_bit n 1 - 1) = v"
  proof (rule bit_word_eqI)
    fix i assume "i < LENGTH(32)"
    moreover have "push_bit n 1 - 1 = (mask n :: u32)" by (simp add: mask_eq_exp_minus_1 push_bit_of_1)
    moreover have "i < n \<Longrightarrow> bit v i = bit (d_bits ?d) i" using v by (metis bits_of_nth)
    ultimately show "bit (d_bits ?d AND (push_bit n 1 - 1)) i = bit v i"
      using assms(3) by (cases "i < n") (auto simp: bit_and_iff bit_mask_iff below_def)
  qed
  moreover have "dec_bits ?d' B" using P B by (auto simp: dec_bits_def)
  moreover have "same_out d ?d'" using f(2) by (simp add: same_out_def)
  ultimately show ?thesis by (auto simp: png_get_bits_def Let_def)
qed

lemma png_get_rev_bits:
  "dec_bits d (rev (bits_of c n) @ B) \<Longrightarrow>
   \<exists>d'. png_get_rev n v d = (push_bit n v OR take_bit n c, d') \<and> dec_bits d' B \<and> same_out d d'"
proof (induction n arbitrary: v d)
  case (Suc n)
  let ?b = "of_bool (bit c n) :: u32"
  have b: "bits_of ?b 1 = [bit c n]" "below ?b 1" by (auto simp: bits_of_def below_def bit_simps)
  have "rev (bits_of c (Suc n)) = bit c n # rev (bits_of c n)" by (simp add: bits_of_def)
  then have "dec_bits d (bits_of ?b 1 @ rev (bits_of c n) @ B)" using Suc.prems b(1) by simp
  then obtain d1 where d1: "png_get_bits 1 d = (?b, d1)" "dec_bits d1 (rev (bits_of c n) @ B)" "same_out d d1"
    using png_get_bits_bits [of d ?b 1] b(2) by auto
  obtain d2 where d2: "png_get_rev n (push_bit 1 v OR ?b) d1 = (push_bit n (push_bit 1 v OR ?b) OR take_bit n c, d2)"
      "dec_bits d2 B" "same_out d1 d2"
    using Suc.IH [OF d1(2)] by blast
  have "push_bit n (push_bit 1 v OR ?b) OR take_bit n c = push_bit (Suc n) v OR take_bit (Suc n) c"
    by (rule bit_word_eqI) (auto simp: bit_simps less_Suc_eq)
  then show ?case using d1 d2 same_out_simps(2) by auto
qed simp

subsection \<open>Symbols\<close>

definition sym_bits :: "nat \<Rightarrow> bool list" where
  "sym_bits s =
     (if s < 144 then msb_first 8 (0x30 + s)
      else if s < 256 then msb_first 9 (0x190 + s - 144)
      else if s < 280 then msb_first 7 (s - 256)
      else msb_first 8 (0xC0 + s - 280))"

lemma png_put_literal_bits:
  "writes wr \<Longrightarrow> enc_bits pre e B \<Longrightarrow> v < 256 \<Longrightarrow> enc_bits pre (png_put_literal wr v e) (B @ sym_bits v)"
  unfolding png_put_literal_def sym_bits_def msb_first_def
  by (auto intro: png_put_rev_bits simp del: of_nat_add of_nat_diff)

lemma png_put_symbol_bits:
  "writes wr \<Longrightarrow> enc_bits pre e B \<Longrightarrow> 256 \<le> s \<Longrightarrow> enc_bits pre (png_put_symbol wr s e) (B @ sym_bits s)"
  unfolding png_put_symbol_def sym_bits_def msb_first_def
  by (auto intro: png_put_rev_bits simp del: of_nat_add of_nat_diff)

lemma msb_first_Suc: "n < 32 \<Longrightarrow> c < 2 ^ 32 \<Longrightarrow> msb_first (Suc n) c = msb_first n (c div 2) @ [odd c]"
proof -
  assume n: "n < 32"
  have d: "drop_bit 1 (of_nat c :: u32) = of_nat (c div 2)" if "c < 2 ^ 32"
    using that by (intro word_unat_eq_iff [THEN iffD2]) (simp add: drop_bit_eq_div unat_div unat_of_nat)
  assume c: "c < 2 ^ 32"
  have "bits_of (of_nat c :: u32) (Suc n) = bits_of (of_nat c :: u32) 1 @ bits_of (drop_bit 1 (of_nat c :: u32)) n"
    using bits_of_split [of 1 "Suc n" "of_nat c :: u32"] by simp
  then show ?thesis using d [OF c] by (simp add: msb_first_def bits_of_def bit_0)
qed

lemma png_get_rev_msb:
  assumes "dec_bits d (msb_first n c @ B)" "c < 2 ^ n" "n \<le> 16"
  shows "\<exists>d'. png_get_rev n 0 d = (of_nat c, d') \<and> dec_bits d' B \<and> same_out d d'"
proof -
  have "take_bit n (of_nat c :: u32) = of_nat c"
    using below_of_nat [OF assms(2), where 'a = 32] by (intro bit_word_eqI) (auto simp: bit_take_bit_iff below_def not_le [symmetric])
  then show ?thesis
    using png_get_rev_bits [of d "of_nat c" n B 0] assms(1) by (simp add: msb_first_def)
qed

lemma png_get_bit_one:
  assumes "dec_bits d (b # B)"
  shows "\<exists>d'. png_get_bits 1 d = (of_bool b, d') \<and> dec_bits d' B \<and> same_out d d'"
proof -
  have b: "bits_of (of_bool b :: u32) 1 = [b]" "below (of_bool b :: u32) 1"
    by (auto simp: bits_of_def below_def bit_simps)
  then show ?thesis using png_get_bits_bits [of d "of_bool b" 1 B] assms by simp
qed

lemma push_or_bit: "c < 2 ^ 30 \<Longrightarrow> push_bit 1 (of_nat c :: u32) OR of_bool b = of_nat (2 * c + of_bool b)"
  by (cases b) (simp_all add: or_one_eq mult.commute)

lemma rev8:
  assumes "dec_bits d (msb_first 8 c @ B')" "c < 256"
  shows "\<exists>d1 d2. png_get_rev 7 0 d = (of_nat (c div 2), d1) \<and> png_get_bits 1 d1 = (of_bool (odd c), d2)
       \<and> dec_bits d2 B' \<and> same_out d d2"
proof -
  have "msb_first 8 c = msb_first 7 (c div 2) @ [odd c]" using msb_first_Suc [of 7 c] assms(2) by simp
  then have "dec_bits d (msb_first 7 (c div 2) @ odd c # B')" using assms(1) by simp
  moreover have "c div 2 < 2 ^ 7" using assms(2) by simp
  ultimately obtain d1 where d1: "png_get_rev 7 0 d = (of_nat (c div 2), d1)" "dec_bits d1 (odd c # B')" "same_out d d1"
    using png_get_rev_msb [of d 7 "c div 2"] by auto
  then show ?thesis using png_get_bit_one [OF d1(2)] by (meson same_out_simps(2))
qed

lemma join_bit: "c < 512 \<Longrightarrow> push_bit 1 (of_nat (c div 2) :: u32) OR of_bool (odd c) = of_nat c"
proof -
  assume "c < 512"
  then have "c div 2 < 2 ^ 30" by simp
  moreover have "2 * (c div 2) + of_bool (odd c) = c" by (cases "even c") simp_all
  ultimately show ?thesis using push_or_bit [of "c div 2" "odd c"] by metis
qed

lemma litlen_seven:
  assumes "dec_bits d (msb_first 7 c @ B)" "c < 24"
  shows "\<exists>d'. png_fixed_litlen d = (256 + c, d') \<and> dec_bits d' B \<and> same_out d d'"
proof -
  obtain d' where "png_get_rev 7 0 d = (of_nat c, d')" "dec_bits d' B" "same_out d d'"
    using png_get_rev_msb [OF assms(1)] assms(2) by auto
  moreover have "unat (of_nat c :: u32) = c" using assms(2) by (simp add: unat_of_nat)
  ultimately show ?thesis using assms(2) by (simp add: png_fixed_litlen_def Let_def)
qed

lemma litlen_eight:
  assumes "dec_bits d (msb_first 8 c @ B)" "48 \<le> c" "c < 200"
  shows "\<exists>d'. png_fixed_litlen d = (if c \<le> 191 then c - 48 else 280 + c - 192, d') \<and> dec_bits d' B \<and> same_out d d'"
proof -
  obtain d1 d2 where d: "png_get_rev 7 0 d = (of_nat (c div 2), d1)" "png_get_bits 1 d1 = (of_bool (odd c), d2)"
      "dec_bits d2 B" "same_out d d2"
    using rev8 [OF assms(1)] assms(3) by auto
  have u: "unat (of_nat (c div 2) :: u32) = c div 2" "unat (of_nat c :: u32) = c" "\<not> c div 2 \<le> 23" "c < 512"
    using assms by (simp_all add: unat_of_nat)
  have "png_fixed_litlen d = (if c \<le> 191 then c - 48 else 280 + c - 192, d2)"
    unfolding png_fixed_litlen_def Let_def d(1) prod.case u(1) if_not_P [OF u(3)] d(2) join_bit [OF u(4)] u(2)
    using assms(2,3) by (cases "c \<le> 191") simp_all
  then show ?thesis using d by blast
qed

lemma litlen_nine:
  assumes "dec_bits d (msb_first 9 c @ B)" "400 \<le> c" "c < 512"
  shows "\<exists>d'. png_fixed_litlen d = (144 + c - 400, d') \<and> dec_bits d' B \<and> same_out d d'"
proof -
  have "msb_first 9 c = msb_first 8 (c div 2) @ [odd c]" using msb_first_Suc [of 8 c] assms(3) by simp
  then have "dec_bits d (msb_first 8 (c div 2) @ odd c # B)" using assms(1) by simp
  moreover have lt: "c div 2 < 256" using assms(3) by simp
  ultimately obtain d1 d2 where d: "png_get_rev 7 0 d = (of_nat (c div 2 div 2), d1)" "png_get_bits 1 d1 = (of_bool (odd (c div 2)), d2)"
      "dec_bits d2 (odd c # B)" "same_out d d2"
    using rev8 [of d "c div 2" "odd c # B"] lt by blast
  obtain d3 where d3: "png_get_bits 1 d2 = (of_bool (odd c), d3)" "dec_bits d3 B" "same_out d2 d3"
    using png_get_bit_one [OF d(3)] by blast
  have u: "unat (of_nat (c div 2 div 2) :: u32) = c div 2 div 2" "unat (of_nat (c div 2) :: u32) = c div 2"
    "unat (of_nat c :: u32) = c" "c div 2 < 512"
    using assms(3) by (simp_all add: unat_of_nat)
  have n: "\<not> c div 2 div 2 \<le> 23" "\<not> (48 \<le> c div 2 \<and> c div 2 \<le> 191)" "\<not> (192 \<le> c div 2 \<and> c div 2 \<le> 199)"
    using assms(2) by auto
  have "png_fixed_litlen d = (144 + c - 400, d3)"
    unfolding png_fixed_litlen_def Let_def d(1) prod.case u(1) if_not_P [OF n(1)] d(2) join_bit [OF u(4)] u(2)
      if_not_P [OF n(2)] if_not_P [OF n(3)] d3(1) join_bit [OF assms(3)] u(3) by (rule refl)
  then show ?thesis using d3 d(4) same_out_simps(2) by blast
qed

lemma png_fixed_litlen_bits:
  assumes "dec_bits d (sym_bits s @ B)" "s < 288"
  shows "\<exists>d'. png_fixed_litlen d = (s, d') \<and> dec_bits d' B \<and> same_out d d'"
proof -
  consider "s < 144" | "144 \<le> s" "s < 256" | "256 \<le> s" "s < 280" | "280 \<le> s" by linarith
  then show ?thesis
  proof cases
    case 1
    then show ?thesis using litlen_eight [of d "48 + s" B] assms by (simp add: sym_bits_def)
  next
    case 2
    then show ?thesis using litlen_nine [of d "0x190 + s - 144" B] assms by (simp add: sym_bits_def)
  next
    case 3
    then show ?thesis using litlen_seven [of d "s - 256" B] assms by (simp add: sym_bits_def)
  next
    case 4
    then obtain k where k: "s = 280 + k" using le_Suc_ex by blast
    show ?thesis using litlen_eight [of d "192 + k" B] assms k by (simp add: sym_bits_def)
  qed
qed

subsection \<open>Tokens\<close>

datatype tok = Lit u8 | Match nat nat

text \<open>Each table entry covers the values up to the next one.\<close>

lemma len_table:
  "list_all (\<lambda>i. png_len_base ! (i + 1) \<le> png_len_base ! i + 2 ^ (png_len_extra ! i) \<and> png_len_extra ! i \<le> 5) [0..<28]"
  by (simp add: png_len_base_def png_len_extra_def upt_conv_Cons)

lemma dist_table:
  "list_all (\<lambda>i. png_dist_base ! (i + 1) \<le> png_dist_base ! i + 2 ^ (png_dist_extra ! i) \<and> png_dist_extra ! i \<le> 13) [0..<29]"
  by (simp add: png_dist_base_def png_dist_extra_def upt_conv_Cons)

lemma base_index_correct:
  "i \<le> mx \<Longrightarrow> base ! i \<le> v \<Longrightarrow>
   base_index base mx v i \<le> mx \<and> base ! base_index base mx v i \<le> v \<and>
   (base_index base mx v i = mx \<or> v < base ! (base_index base mx v i + 1))"
proof (induction base mx v i rule: base_index.induct)
  case (1 base mx v i)
  then show ?case
    by (cases "i < mx \<and> base ! (i + 1) \<le> v") (auto simp: base_index.simps [of base mx v i])
qed

definition len_index :: "nat \<Rightarrow> nat" where "len_index len = base_index png_len_base 28 len 0"
definition dist_index :: "nat \<Rightarrow> nat" where "dist_index dist = base_index png_dist_base 29 dist 0"

lemma len_index:
  assumes "3 \<le> len" "len \<le> 258"
  shows "len_index len \<le> 28" "png_len_base ! len_index len \<le> len"
    "len - png_len_base ! len_index len < 2 ^ (png_len_extra ! len_index len)" "png_len_extra ! len_index len \<le> 5"
proof -
  have b: "len_index len \<le> 28" "png_len_base ! len_index len \<le> len"
    "len_index len = 28 \<or> len < png_len_base ! (len_index len + 1)"
    using base_index_correct [of 0 28 png_len_base len] assms by (auto simp: len_index_def png_len_base_def)
  show "len_index len \<le> 28" "png_len_base ! len_index len \<le> len" by (fact b)+
  have "png_len_base ! 28 = 258" "png_len_extra ! 28 = 0" by (simp_all add: png_len_base_def png_len_extra_def)
  then have "len - png_len_base ! len_index len < 2 ^ (png_len_extra ! len_index len) \<and> png_len_extra ! len_index len \<le> 5"
    using b bspec [OF len_table [unfolded list_all_iff], of "len_index len"] assms
    by (cases "len_index len = 28") auto
  then show "len - png_len_base ! len_index len < 2 ^ (png_len_extra ! len_index len)" "png_len_extra ! len_index len \<le> 5"
    by auto
qed

lemma dist_index:
  assumes "1 \<le> dist" "dist \<le> 512"
  shows "dist_index dist \<le> 29" "png_dist_base ! dist_index dist \<le> dist"
    "dist - png_dist_base ! dist_index dist < 2 ^ (png_dist_extra ! dist_index dist)" "png_dist_extra ! dist_index dist \<le> 13"
proof -
  have b: "dist_index dist \<le> 29" "png_dist_base ! dist_index dist \<le> dist"
    "dist_index dist = 29 \<or> dist < png_dist_base ! (dist_index dist + 1)"
    using base_index_correct [of 0 29 png_dist_base dist] assms by (auto simp: dist_index_def png_dist_base_def)
  show "dist_index dist \<le> 29" "png_dist_base ! dist_index dist \<le> dist" by (fact b)+
  have "png_dist_base ! 29 = 24577" by (simp add: png_dist_base_def)
  then have "dist - png_dist_base ! dist_index dist < 2 ^ (png_dist_extra ! dist_index dist) \<and> png_dist_extra ! dist_index dist \<le> 13"
    using b bspec [OF dist_table [unfolded list_all_iff], of "dist_index dist"] assms
    by (cases "dist_index dist = 29") auto
  then show "dist - png_dist_base ! dist_index dist < 2 ^ (png_dist_extra ! dist_index dist)" "png_dist_extra ! dist_index dist \<le> 13"
    by auto
qed

fun tok_bits :: "tok \<Rightarrow> bool list" where
  "tok_bits (Lit b) = sym_bits (unat b)"
| "tok_bits (Match len dist) =
     sym_bits (257 + len_index len)
     @ bits_of (of_nat (len - png_len_base ! len_index len) :: u32) (png_len_extra ! len_index len)
     @ msb_first 5 (dist_index dist)
     @ bits_of (of_nat (dist - png_dist_base ! dist_index dist) :: u32) (png_dist_extra ! dist_index dist)"

lemma png_put_match_bits:
  assumes w: "writes wr" and e: "enc_bits pre e B" and len: "3 \<le> len" "len \<le> 258" and dist: "1 \<le> dist" "dist \<le> 512"
  shows "enc_bits pre (png_put_match wr len dist e) (B @ tok_bits (Match len dist))"
proof -
  define i d where "i = len_index len" and "d = dist_index dist"
  define v u where "v = (of_nat (len - png_len_base ! i) :: u32)" and "u = (of_nat (dist - png_dist_base ! d) :: u32)"
  let ?e1 = "png_put_symbol wr (257 + i) e"
  let ?e2 = "if png_len_extra ! i \<noteq> 0 then png_put_bits wr v (png_len_extra ! i) ?e1 else ?e1"
  let ?e3 = "png_put_rev wr (of_nat d) 5 ?e2"
  let ?e4 = "if png_dist_extra ! d \<noteq> 0 then png_put_bits wr u (png_dist_extra ! d) ?e3 else ?e3"
  have x: "png_len_extra ! i \<le> 16" "below v (png_len_extra ! i)" "png_dist_extra ! d \<le> 16" "below u (png_dist_extra ! d)"
    using len_index [OF len] dist_index [OF dist] below_of_nat
    by (simp_all add: i_def d_def v_def u_def del: of_nat_diff)
  have "enc_bits pre ?e1 (B @ sym_bits (257 + i))" using png_put_symbol_bits [OF w e] by simp
  then have "enc_bits pre ?e2 ((B @ sym_bits (257 + i)) @ bits_of v (png_len_extra ! i))"
    by (auto intro: png_put_bits_bits [OF w _ x(1,2)] simp del: append_assoc)
  then have "enc_bits pre ?e3 (((B @ sym_bits (257 + i)) @ bits_of v (png_len_extra ! i)) @ msb_first 5 d)"
    unfolding msb_first_def by (rule png_put_rev_bits [OF w]) simp
  then have "enc_bits pre ?e4 ((((B @ sym_bits (257 + i)) @ bits_of v (png_len_extra ! i)) @ msb_first 5 d) @ bits_of u (png_dist_extra ! d))"
    by (auto intro: png_put_bits_bits [OF w _ x(3,4)] simp del: append_assoc)
  moreover have "png_put_match wr len dist e = ?e4"
    by (simp add: png_put_match_def Let_def i_def d_def v_def u_def len_index_def dist_index_def)
  ultimately show ?thesis by (simp add: i_def d_def v_def u_def)
qed

lemma png_pair_bits:
  assumes d: "dec_bits d (bits_of (of_nat (len - png_len_base ! len_index len) :: u32) (png_len_extra ! len_index len)
     @ msb_first 5 (dist_index dist)
     @ bits_of (of_nat (dist - png_dist_base ! dist_index dist) :: u32) (png_dist_extra ! dist_index dist) @ B)"
    and len: "3 \<le> len" "len \<le> 258" and dist: "1 \<le> dist" "dist \<le> 512" "dist \<le> d_pos d"
  shows "\<exists>d'. png_pair (len_index len) d = (Some (len, dist), d') \<and> dec_bits d' B \<and> same_out d d'"
proof -
  note l = len_index [OF len] and t = dist_index [OF dist(1,2)]
  have ul: "unat (of_nat (len - png_len_base ! len_index len) :: u32) = len - png_len_base ! len_index len"
    "unat (of_nat (dist - png_dist_base ! dist_index dist) :: u32) = dist - png_dist_base ! dist_index dist"
    "unat (of_nat (dist_index dist) :: u32) = dist_index dist"
    using len dist t(1) by (auto simp: unat_of_nat)
  obtain d1 where d1: "png_get_bits (png_len_extra ! len_index len) d = (of_nat (len - png_len_base ! len_index len), d1)"
      "dec_bits d1 (msb_first 5 (dist_index dist)
        @ bits_of (of_nat (dist - png_dist_base ! dist_index dist) :: u32) (png_dist_extra ! dist_index dist) @ B)" "same_out d d1"
    using png_get_bits_bits [OF d _ below_of_nat [OF l(3)]] l(4) by auto
  have "dist_index dist < 2 ^ 5" using t(1) by simp
  then obtain d2 where d2: "png_get_rev 5 0 d1 = (of_nat (dist_index dist), d2)"
      "dec_bits d2 (bits_of (of_nat (dist - png_dist_base ! dist_index dist) :: u32) (png_dist_extra ! dist_index dist) @ B)" "same_out d1 d2"
    using png_get_rev_msb [OF d1(2)] by auto
  obtain d3 where d3: "png_get_bits (png_dist_extra ! dist_index dist) d2 = (of_nat (dist - png_dist_base ! dist_index dist), d3)"
      "dec_bits d3 B" "same_out d2 d3"
    using png_get_bits_bits [OF d2(2) _ below_of_nat [OF t(3)]] t(4) by auto
  have s: "same_out d d3" using d1(3) d2(3) d3(3) same_out_simps(2) by blast
  then have "d_pos d3 = d_pos d" by (simp add: same_out_def)
  then have "png_pair (len_index len) d = (Some (len, dist), d3)"
    using l(1,2) t(1,2) dist ul unfolding png_pair_def Let_def d1(1) prod.case d2(1) ul(3) d3(1) by simp
  then show ?thesis using d3(2) s by blast
qed

text \<open>What tokens mean: a match repeats bytes of the output, possibly bytes it has just produced.\<close>

fun copy_bytes :: "nat \<Rightarrow> nat \<Rightarrow> u8 list \<Rightarrow> u8 list" where
  "copy_bytes 0 dist S = S"
| "copy_bytes (Suc len) dist S = copy_bytes len dist (S @ [S ! (length S - dist)])"

fun expand :: "u8 list \<Rightarrow> tok \<Rightarrow> u8 list" where
  "expand S (Lit b) = S @ [b]"
| "expand S (Match len dist) = copy_bytes len dist S"

fun tok_ok :: "u8 list \<Rightarrow> tok \<Rightarrow> bool" where
  "tok_ok S (Lit b) = True"
| "tok_ok S (Match len dist) = (3 \<le> len \<and> len \<le> 258 \<and> 1 \<le> dist \<and> dist \<le> 512 \<and> dist \<le> length S)"

fun toks_ok :: "u8 list \<Rightarrow> tok list \<Rightarrow> bool" where
  "toks_ok S [] = True"
| "toks_ok S (t # ts) = (tok_ok S t \<and> toks_ok (expand S t) ts)"

lemma toks_ok_append [simp]: "toks_ok S (ts @ us) \<longleftrightarrow> toks_ok S ts \<and> toks_ok (foldl expand S ts) us"
  by (induction ts arbitrary: S) auto

lemma copy_bytes_prefix: "\<exists>T. copy_bytes len dist S = S @ T"
proof (induction len arbitrary: S)
  case (Suc len)
  then show ?case by (metis append.assoc copy_bytes.simps(2))
qed simp

lemma expand_prefix: "\<exists>T. foldl expand S ts = S @ T"
proof (induction ts arbitrary: S)
  case (Cons t ts)
  have "\<exists>T. expand S t = S @ T" by (cases t) (auto simp: copy_bytes_prefix)
  then show ?case using Cons [of "expand S t"] by auto
qed simp

end
