(* ===== verification/PngRoundtrip.thy ===== *)
theory PngRoundtrip
  imports PngBits
begin

text \<open>
  The token level and the file level of the PNG codec: the match finder emits tokens that expand to its
  input, the inflater expands them again inside its 512 byte window, and the file written by \<open>save_png\<close> is read
  back by \<open>load_png\<close>.
\<close>

lemma unat_u8_less: "unat (b :: u8) < 256"
proof -
  have "unat b < 2 ^ LENGTH(8)" by (rule unsigned_less)
  then show ?thesis by simp
qed

subsection \<open>The window\<close>

definition ring_rep :: "u8 list \<Rightarrow> u8 list \<Rightarrow> bool" where
  "ring_rep ring S \<longleftrightarrow> length ring = 512 \<and>
     (\<forall>j. j < length S \<longrightarrow> length S \<le> j + 512 \<longrightarrow> ring ! (j mod 512) = S ! j)"

lemma ring_rep_nth:
  "ring_rep ring S \<Longrightarrow> j < length S \<Longrightarrow> length S \<le> j + 512 \<Longrightarrow> ring ! (j mod 512) = S ! j"
  by (simp add: ring_rep_def)

lemma mod_512_neq: "j < n \<Longrightarrow> n < j + 512 \<Longrightarrow> j mod 512 \<noteq> n mod (512 :: nat)"
proof
  assume j: "j < n" "n < j + 512" and "j mod 512 = n mod 512"
  then have "512 dvd n - j" by (metis mod_eq_dvd_iff_nat less_imp_le)
  then show False using j by (auto dest: dvd_imp_le)
qed

lemma ring_rep_snoc:
  assumes "ring_rep ring S"
  shows "ring_rep (ring[length S mod 512 := b]) (S @ [b])"
  unfolding ring_rep_def
proof (intro conjI allI impI)
  show "length (ring[length S mod 512 := b]) = 512" using assms by (simp add: ring_rep_def)
  fix j assume j: "j < length (S @ [b])" "length (S @ [b]) \<le> j + 512"
  show "ring[length S mod 512 := b] ! (j mod 512) = (S @ [b]) ! j"
  proof (cases "j = length S")
    case True
    then show ?thesis using assms by (simp add: ring_rep_def)
  next
    case False
    then have "j mod 512 \<noteq> length S mod 512" using j by (intro mod_512_neq) auto
    then show ?thesis using False j assms by (simp add: nth_append ring_rep_def)
  qed
qed

subsection \<open>Decoder output\<close>

definition scan :: "u8 list list \<Rightarrow> u8 list" where
  "scan rows = concat (map ((#) 0) rows)"

lemma scan_simps [simp]: "scan [] = []" "scan (r # rows) = 0 # r @ scan rows"
  "scan (rows @ rows') = scan rows @ scan rows'"
  by (simp_all add: scan_def)

lemma length_scan: "\<forall>r\<in>set rows. length r = w \<Longrightarrow> length (scan rows) = length rows * (w + 1)"
  by (induction rows) auto

lemma scan_nth:
  "\<forall>r\<in>set rows. length r = w \<Longrightarrow> y < length rows \<Longrightarrow> k \<le> w \<Longrightarrow>
   scan rows ! (y * (w + 1) + k) = (if k = 0 then 0 else rows ! y ! (k - 1))"
proof (induction rows arbitrary: y)
  case (Cons r rows)
  show ?case
  proof (cases y)
    case 0
    then show ?thesis using Cons.prems by (cases k) (auto simp: nth_append)
  next
    case (Suc y')
    have "scan rows ! (y' * (w + 1) + k) = (if k = 0 then 0 else rows ! y' ! (k - 1))"
      using Cons Suc by simp
    moreover have "scan (r # rows) ! (y * (w + 1) + k) = scan rows ! (y' * (w + 1) + k)"
      using Cons.prems(1) Suc by (simp add: nth_append add.assoc)
    ultimately show ?thesis using Suc by simp
  qed
qed simp

definition out_rep :: "nat \<Rightarrow> u8 list list \<Rightarrow> png_dec \<Rightarrow> u8 list \<Rightarrow> bool" where
  "out_rep w rows d S \<longleftrightarrow>
     d_pos d = length S \<and> ring_rep (d_ring d) S \<and> d_err d = 0 \<and> length (d_row d) = w
     \<and> d_rowp d = length S mod (w + 1) \<and> d_y d = length S div (w + 1)
     \<and> d_rows d = zip [0..<d_y d] (take (d_y d) rows)
     \<and> (\<forall>k. k + 1 < d_rowp d \<longrightarrow> d_row d ! k = rows ! d_y d ! k)"

lemma png_out_byte_rep:
  assumes rows: "\<forall>r\<in>set rows. length r = w" "0 < w" and d: "out_rep w rows d S"
    and n: "length S < length (scan rows)" and b: "b = scan rows ! length S"
  shows "out_rep w rows (png_out_byte w (length rows) b d) (S @ [b])"
proof -
  let ?n = "length S" and ?m = "w + 1"
  have rep: "d_pos d = ?n" "ring_rep (d_ring d) S" "d_err d = 0" "length (d_row d) = w" "d_rowp d = ?n mod ?m"
      "d_y d = ?n div ?m" "d_rows d = zip [0..<d_y d] (take (d_y d) rows)"
      "\<And>k. k + 1 < d_rowp d \<Longrightarrow> d_row d ! k = rows ! d_y d ! k"
    using d by (auto simp: out_rep_def)
  have y: "d_y d < length rows"
    using n rep(6) length_scan [OF rows(1)] by (simp add: div_less_iff_less_mult mult.commute)
  have "?n = d_y d * ?m + d_rowp d" using rep(5,6) by (metis div_mult_mod_eq)
  moreover have p: "d_rowp d \<le> w" using rep(5) by (simp add: less_Suc_eq_le [symmetric])
  ultimately have b': "b = (if d_rowp d = 0 then 0 else rows ! d_y d ! (d_rowp d - 1))"
    using scan_nth [OF rows(1) y p] b by simp
  have ring: "ring_rep ((d_ring d)[?n mod 512 := b]) (S @ [b])" by (rule ring_rep_snoc [OF rep(2)])
  consider (zero) "d_rowp d = 0" | (mid) "0 < d_rowp d" "d_rowp d < w" | (last) "d_rowp d = w"
    using p by linarith
  then show ?thesis
  proof cases
    case zero
    then show ?thesis
      using rep b' ring rows(2) by (auto simp: out_rep_def png_out_byte_def Let_def mod_Suc div_Suc)
  next
    case mid
    have "(d_row d)[d_rowp d - 1 := b] ! k = rows ! d_y d ! k" if "k < d_rowp d" for k
      using that mid rep(4,8) b' by (cases "k = d_rowp d - 1") (auto simp: nth_list_update)
    then show ?thesis
      using mid rep b' ring by (auto simp: out_rep_def png_out_byte_def Let_def mod_Suc div_Suc)
  next
    case last
    have "(d_row d)[w - 1 := b] = rows ! d_y d"
    proof (rule nth_equalityI)
      show "length ((d_row d)[w - 1 := b]) = length (rows ! d_y d)" using rep(4) rows(1) y by simp
      fix k assume "k < length ((d_row d)[w - 1 := b])"
      then show "(d_row d)[w - 1 := b] ! k = rows ! d_y d ! k"
        using last rep(4,8) b' rows(2) by (cases "k = w - 1") (auto simp: nth_list_update)
    qed
    moreover have "length (rows ! d_y d) = w" using rows(1) y by simp
    ultimately show ?thesis
      using last rep b' ring rows(2) y
      by (auto simp: out_rep_def png_out_byte_def Let_def mod_Suc div_Suc take_Suc_conv_app_nth)
  qed
qed

lemma dec_bits_out_byte [simp]: "dec_bits (png_out_byte w h b d) B = dec_bits d B"
  by (auto simp: png_out_byte_def Let_def dec_bits_def dec_rep_def)

lemma dec_bits_copy [simp]: "dec_bits (png_copy w h len dist d) B = dec_bits d B"
  by (induction len arbitrary: d) auto

lemma out_rep_same: "same_out d d' \<Longrightarrow> out_rep w rows d' S = out_rep w rows d S"
  by (simp add: same_out_def out_rep_def)

lemma out_repD: "out_rep w rows d S \<Longrightarrow> d_err d = 0" "out_rep w rows d S \<Longrightarrow> d_pos d = length S"
  by (simp_all add: out_rep_def)

lemma prefix_nth: "S @ b # T = F \<Longrightarrow> length S < length F \<and> b = F ! length S"
  by auto

lemma png_copy_rep:
  assumes rows: "\<forall>r\<in>set rows. length r = w" "0 < w"
  shows "out_rep w rows d S \<Longrightarrow> 1 \<le> dist \<Longrightarrow> dist \<le> 512 \<Longrightarrow> dist \<le> length S \<Longrightarrow>
    copy_bytes len dist S @ T = scan rows \<Longrightarrow>
    out_rep w rows (png_copy w (length rows) len dist d) (copy_bytes len dist S)"
proof (induction len arbitrary: d S)
  case (Suc len)
  let ?b = "S ! (length S - dist)"
  have "d_pos d = length S" "ring_rep (d_ring d) S" using Suc.prems(1) by (simp_all add: out_rep_def)
  then have byte: "d_ring d ! ((d_pos d - dist) mod 512) = ?b"
    using ring_rep_nth [of "d_ring d" S "length S - dist"] Suc.prems(2-4) by simp
  obtain U where U: "copy_bytes len dist (S @ [?b]) = (S @ [?b]) @ U"
    using copy_bytes_prefix by blast
  then have "S @ ?b # (U @ T) = scan rows" using Suc.prems(5) by simp
  note n = prefix_nth [OF this]
  have "out_rep w rows (png_out_byte w (length rows) ?b d) (S @ [?b])"
    by (rule png_out_byte_rep [OF rows Suc.prems(1)]) (use n in auto)
  then have "out_rep w rows (png_copy w (length rows) len dist (png_out_byte w (length rows) ?b d)) (copy_bytes len dist (S @ [?b]))"
    by (rule Suc.IH) (use Suc.prems in simp_all)
  then show ?case by (simp add: byte)
qed simp

lemma png_fixed_block_rep:
  assumes rows: "\<forall>r\<in>set rows. length r = w" "0 < w"
  shows "dec_bits d (concat (map tok_bits toks) @ sym_bits 256 @ B) \<Longrightarrow> out_rep w rows d S \<Longrightarrow>
    toks_ok S toks \<Longrightarrow> foldl expand S toks @ T = scan rows \<Longrightarrow>
    \<exists>d'. png_fixed_block w (length rows) d = d' \<and> dec_bits d' B \<and> out_rep w rows d' (foldl expand S toks)"
proof (induction toks arbitrary: d S)
  case Nil
  then obtain d' where d': "png_fixed_litlen d = (256, d')" "dec_bits d' B" "same_out d d'"
    using png_fixed_litlen_bits [of d 256 B] by auto
  then have "d_err d' = 0" using Nil.prems(2) by (simp add: same_out_def out_rep_def)
  then show ?case using d' Nil.prems(2) by (subst png_fixed_block.simps) (simp add: out_rep_same)
next
  case (Cons t toks)
  obtain U where U: "foldl expand (expand S t) toks = expand S t @ U" using expand_prefix by blast
  show ?case
  proof (cases t)
    case (Lit b)
    have "unat b < 288" using unat_u8_less [of b] by simp
    then obtain d1 where d1: "png_fixed_litlen d = (unat b, d1)"
        "dec_bits d1 (concat (map tok_bits toks) @ sym_bits 256 @ B)" "same_out d d1"
      using png_fixed_litlen_bits [of d "unat b"] Cons.prems(1) Lit by auto
    then have o1: "out_rep w rows d1 S" "d_err d1 = 0" using Cons.prems(2) out_rep_same [OF d1(3)] out_repD by auto
    have "S @ b # (U @ T) = scan rows" using Cons.prems(4) U Lit by simp
    note n = prefix_nth [OF this]
    have "out_rep w rows (png_out_byte w (length rows) b d1) (S @ [b])"
      by (rule png_out_byte_rep [OF rows o1(1)]) (use n in auto)
    moreover have "png_fixed_block w (length rows) d = png_fixed_block w (length rows) (png_out_byte w (length rows) b d1)"
      using d1(1) o1(2) unat_u8_less [of b] by (subst png_fixed_block.simps) simp
    ultimately show ?thesis
      using Cons.IH [of "png_out_byte w (length rows) b d1" "S @ [b]"] d1(2) Cons.prems Lit by simp
  next
    case (Match len dist)
    have ok: "3 \<le> len" "len \<le> 258" "1 \<le> dist" "dist \<le> 512" "dist \<le> length S" using Cons.prems(3) Match by auto
    have i: "len_index len \<le> 28" by (rule len_index [OF ok(1,2)])
    then obtain d1 where d1: "png_fixed_litlen d = (257 + len_index len, d1)"
        "dec_bits d1 (bits_of (of_nat (len - png_len_base ! len_index len) :: u32) (png_len_extra ! len_index len)
     @ msb_first 5 (dist_index dist)
     @ bits_of (of_nat (dist - png_dist_base ! dist_index dist) :: u32) (png_dist_extra ! dist_index dist)
     @ (concat (map tok_bits toks) @ sym_bits 256 @ B))" "same_out d d1"
      using png_fixed_litlen_bits [of d "257 + len_index len"] Cons.prems(1) Match by auto
    then have o1: "out_rep w rows d1 S" "d_err d1 = 0" "d_pos d1 = length S"
      using Cons.prems(2) out_rep_same [OF d1(3)] out_repD by auto
    obtain d2 where d2: "png_pair (len_index len) d1 = (Some (len, dist), d2)"
        "dec_bits d2 (concat (map tok_bits toks) @ sym_bits 256 @ B)" "same_out d1 d2"
      using png_pair_bits [OF d1(2) ok(1-4)] ok(5) o1(3) by auto
    then have "out_rep w rows d2 S" using o1(1) out_rep_same by simp
    then have "out_rep w rows (png_copy w (length rows) len dist d2) (copy_bytes len dist S)"
      using png_copy_rep [OF rows, of d2 S dist len "U @ T"] ok Cons.prems(4) U Match by simp
    moreover have "png_fixed_block w (length rows) d = png_fixed_block w (length rows) (png_copy w (length rows) len dist d2)"
      using d1(1) o1(2) d2(1) by (subst png_fixed_block.simps) simp
    ultimately show ?thesis
      using Cons.IH [of "png_copy w (length rows) len dist d2" "copy_bytes len dist S"] d2(2) Cons.prems Match by simp
  qed
qed

subsection \<open>The match finder\<close>

lemma e_keep_writer [simp]:
  "e_ring (png_flush_idat wr e) = e_ring e" "e_ring (png_put_byte wr b e) = e_ring e"
  "e_adler (png_flush_idat wr e) = e_adler e" "e_adler (png_put_byte wr b e) = e_adler e"
  by (simp_all add: png_flush_idat_def png_put_byte_def Let_def)

lemma e_keep_drain [simp]: "e_ring (png_drain wr e) = e_ring e" "e_adler (png_drain wr e) = e_adler e"
  by (induction wr e rule: png_drain.induct) (subst png_drain.simps, simp)+

lemma e_keep_put [simp]:
  "e_ring (png_put_bits wr v n e) = e_ring e" "e_ring (png_put_rev wr v n e) = e_ring e"
  "e_ring (png_put_literal wr m e) = e_ring e" "e_ring (png_put_match wr len dist e) = e_ring e"
  by (simp_all add: png_put_bits_def png_put_rev_def png_put_literal_def png_put_symbol_def
      png_put_match_def Let_def)

lemma enc_bits_update [simp]:
  "enc_bits pre (e\<lparr>e_head := x\<rparr>) B = enc_bits pre e B" "enc_bits pre (e\<lparr>e_ring := y\<rparr>) B = enc_bits pre e B"
  "enc_bits pre (e\<lparr>e_pos := p\<rparr>) B = enc_bits pre e B" "enc_bits pre (e\<lparr>e_adler := a\<rparr>) B = enc_bits pre e B"
  by (simp_all add: enc_bits_def enc_rep_def)

lemma match_len_correct:
  "len \<le> mx \<Longrightarrow> match_len e cand base src k mx len \<le> mx \<and>
   (\<forall>j. len \<le> j \<longrightarrow> j < match_len e cand base src k mx len \<longrightarrow> png_byte_at e (cand + j) base src = src ! (k + j))"
proof (induction e cand base src k mx len rule: match_len.induct)
  case (1 e cand base src k mx len)
  let ?c = "len < mx \<and> png_byte_at e (cand + len) base src = src ! (k + len)"
  show ?case
  proof (cases ?c)
    case True
    then have m: "match_len e cand base src k mx len = match_len e cand base src k mx (Suc len)"
      by (subst match_len.simps) simp
    have ih: "match_len e cand base src k mx (Suc len) \<le> mx"
      "\<And>j. Suc len \<le> j \<Longrightarrow> j < match_len e cand base src k mx (Suc len) \<Longrightarrow> png_byte_at e (cand + j) base src = src ! (k + j)"
      using "1.IH" [OF True] True by simp_all
    have "png_byte_at e (cand + j) base src = src ! (k + j)"
      if "len \<le> j" "j < match_len e cand base src k mx (Suc len)" for j
      using ih(2) [of j] that True by (cases "j = len") auto
    then show ?thesis using ih(1) unfolding m by simp
  next
    case False
    then have "match_len e cand base src k mx len = len"
      by (simp only: match_len.simps [of e cand base src k mx len] if_False)
    then show ?thesis using "1.prems" by simp
  qed
qed

text \<open>\<open>X\<close> is the history followed by the buffer; the window is valid for the last 512 bytes before \<open>pos\<close>.\<close>

lemma png_byte_at_nth:
  assumes "ring_rep (e_ring e) (take (e_pos e) (H @ src))" "length H = base" "base \<le> e_pos e"
    "e_pos e \<le> base + length src" "e_pos e \<le> p + 512" "p < base + length src"
  shows "png_byte_at e p base src = (H @ src) ! p"
proof (cases "base \<le> p")
  case True
  then show ?thesis using assms by (simp add: png_byte_at_def nth_append)
next
  case False
  then show ?thesis
    using ring_rep_nth [OF assms(1), of p] assms by (simp add: png_byte_at_def nth_append)
qed

lemma png_find_correct:
  assumes ring: "ring_rep (e_ring e) (take (e_pos e) (H @ src))" and H: "length H = base" "base \<le> e_pos e"
    and stop: "stop = base + length src" "e_pos e < stop"
    and f: "png_find e base stop src = (best, bestd, head)" "best \<noteq> 0"
  shows "3 \<le> best" "best \<le> 258" "1 \<le> bestd" "bestd \<le> 512" "bestd \<le> e_pos e" "e_pos e + best \<le> stop"
    "\<And>j. j < best \<Longrightarrow> (H @ src) ! (e_pos e - bestd + j) = (H @ src) ! (e_pos e + j)"
proof -
  define k where "k = e_pos e - base"
  define cand where "cand = png_cand (e_head e ! png_hash (src ! k) (src ! (k + 1)) (src ! (k + 2))) (e_pos e)"
  define mx where "mx = (if stop - e_pos e > 258 then 258 else stop - e_pos e)"
  have b: "best = match_len e cand base src k mx 0" "3 \<le> best" "bestd = e_pos e - cand" "cand < e_pos e" "e_pos e - cand \<le> 512"
    using f by (auto simp: png_find_def Let_def k_def cand_def mx_def split: if_splits)
  have m: "best \<le> mx" "\<And>j. j < best \<Longrightarrow> png_byte_at e (cand + j) base src = src ! (k + j)"
    using match_len_correct [of 0 mx e cand base src k] b(1) by auto
  show "3 \<le> best" "1 \<le> bestd" "bestd \<le> 512" "bestd \<le> e_pos e" using b by auto
  show "best \<le> 258" "e_pos e + best \<le> stop" using m(1) stop by (auto simp: mx_def split: if_splits)
  fix j assume j: "j < best"
  have "png_byte_at e (cand + j) base src = (H @ src) ! (cand + j)"
    using j b(4,5) m(1) stop H ring by (intro png_byte_at_nth) (auto simp: mx_def split: if_splits)
  moreover have "src ! (k + j) = (H @ src) ! (e_pos e + j)" using H by (simp add: k_def nth_append)
  ultimately show "(H @ src) ! (e_pos e - bestd + j) = (H @ src) ! (e_pos e + j)"
    using m(2) [OF j] b(3,4) by simp
qed

lemma copy_bytes_take:
  assumes "1 \<le> dist" "dist \<le> n"
  shows "n + len \<le> length X \<Longrightarrow> (\<And>j. j < len \<Longrightarrow> X ! (n - dist + j) = X ! (n + j)) \<Longrightarrow>
    copy_bytes len dist (take n X) = take (n + len) X"
  using assms
proof (induction len arbitrary: n)
  case (Suc len)
  have "take n X ! (n - dist) = X ! n" using Suc.prems(2) [of 0] Suc.prems(1,3,4) by simp
  then have "take n X @ [take n X ! (length (take n X) - dist)] = take (Suc n) X"
    using Suc.prems(1) by (simp add: take_Suc_conv_app_nth)
  moreover have "copy_bytes len dist (take (Suc n) X) = take (Suc n + len) X"
    using Suc.prems(1,3,4) Suc.prems(2) [of "Suc _"] by (intro Suc.IH) (auto simp: Suc_diff_le)
  ultimately show ?case by simp
qed simp

lemma png_consume_ring:
  assumes "length H = base" "stop = base + length src"
  shows "ring_rep (e_ring e) (take (e_pos e) (H @ src)) \<Longrightarrow> base \<le> e_pos e \<Longrightarrow> e_pos e + n \<le> stop \<Longrightarrow>
    ring_rep (e_ring (png_consume n k base stop src e)) (take (e_pos e + n) (H @ src))"
proof (induction n arbitrary: k e)
  case (Suc n)
  define X where "X = H @ src"
  have X: "src ! (e_pos e - base) = X ! e_pos e" "e_pos e < length X"
    using assms Suc.prems by (simp_all add: nth_append X_def)
  then have "take (Suc (e_pos e)) X = take (e_pos e) X @ [src ! (e_pos e - base)]"
    by (simp add: take_Suc_conv_app_nth)
  then have r: "ring_rep ((e_ring e)[e_pos e mod 512 := src ! (e_pos e - base)]) (take (Suc (e_pos e)) X)"
    using ring_rep_snoc [OF Suc.prems(1) [folded X_def], of "src ! (e_pos e - base)"] X(2) by simp
  define e2 where "e2 = (if k \<noteq> 0 \<and> stop - e_pos e \<ge> 3
    then e\<lparr>e_ring := (e_ring e)[e_pos e mod 512 := src ! (e_pos e - base)],
      e_head := (e_head e)[png_hash (src ! (e_pos e - base)) (src ! (e_pos e - base + 1)) (src ! (e_pos e - base + 2)) := e_pos e mod 65536]\<rparr>
    else e\<lparr>e_ring := (e_ring e)[e_pos e mod 512 := src ! (e_pos e - base)]\<rparr>)\<lparr>e_pos := Suc (e_pos e)\<rparr>"
  have step: "png_consume (Suc n) k base stop src e = png_consume n (Suc k) base stop src e2"
    by (simp add: e2_def Let_def)
  have e2: "e_ring e2 = (e_ring e)[e_pos e mod 512 := src ! (e_pos e - base)]" "e_pos e2 = Suc (e_pos e)"
    by (simp_all add: e2_def)
  have "ring_rep (e_ring (png_consume n (Suc k) base stop src e2)) (take (e_pos e2 + n) (H @ src))"
    by (rule Suc.IH) (use e2 r Suc.prems X_def in auto)
  then show ?case unfolding step by (simp add: e2(2))
qed simp


lemma png_lz_loop_correct:
  assumes w: "writes wr" and H: "length H = base" "stop = base + length src"
  shows "enc_bits pre e B \<Longrightarrow> ring_rep (e_ring e) (take (e_pos e) (H @ src)) \<Longrightarrow> base \<le> e_pos e \<Longrightarrow> e_pos e \<le> stop \<Longrightarrow>
    \<exists>toks. enc_bits pre (png_lz_loop wr base stop src e) (B @ concat (map tok_bits toks))
      \<and> ring_rep (e_ring (png_lz_loop wr base stop src e)) (H @ src)
      \<and> e_pos (png_lz_loop wr base stop src e) = stop
      \<and> toks_ok (take (e_pos e) (H @ src)) toks \<and> foldl expand (take (e_pos e) (H @ src)) toks = H @ src"
proof (induction "stop - e_pos e" arbitrary: e B rule: less_induct)
  case less
  show ?case
  proof (cases "e_pos e < stop")
    case False
    then have "png_lz_loop wr base stop src e = e" "e_pos e = stop" using less.prems by (simp_all add: png_lz_loop.simps [of wr base stop src e])
    then show ?thesis using less.prems H by (intro exI [of _ "[]"]) simp
  next
    case True
    obtain best bestd head where f: "png_find e base stop src = (best, bestd, head)" by (metis prod_cases3)
    define t where "t = (if best \<noteq> 0 then Match best bestd else Lit (src ! (e_pos e - base)))"
    define st where "st = (if best \<noteq> 0 then best else 1)"
    define e2 where "e2 = (if best \<noteq> 0 then png_put_match wr best bestd (e\<lparr>e_head := head\<rparr>)
       else png_put_literal wr (unat (src ! (e_pos e - base))) (e\<lparr>e_head := head\<rparr>))"
    let ?e = "png_consume st 0 base stop src e2" and ?X = "H @ src" and ?n = "e_pos e"
    have len: "length (take ?n ?X) = ?n" using True H by simp
    have b: "st \<noteq> 0" "?n + st \<le> stop" "tok_ok (take ?n ?X) t" "expand (take ?n ?X) t = take (?n + st) ?X"
      "enc_bits pre e2 (B @ tok_bits t)"
    proof -
      note fc = png_find_correct [OF less.prems(2) H(1) less.prems(3) H(2) True f]
      show "st \<noteq> 0" by (simp add: st_def)
      show "?n + st \<le> stop" using fc(6) True by (auto simp: st_def)
      show "tok_ok (take ?n ?X) t" using fc(1-5) len by (auto simp: t_def)
      have "copy_bytes best bestd (take ?n ?X) = take (?n + best) ?X" if "best \<noteq> 0"
        using fc(3,5,6,7) [OF that] H by (intro copy_bytes_take) auto
      moreover have "take ?n ?X @ [src ! (?n - base)] = take (?n + 1) ?X"
        using True H less.prems(3) take_Suc_conv_app_nth [of ?n ?X] by (simp add: nth_append)
      ultimately show "expand (take ?n ?X) t = take (?n + st) ?X" by (auto simp: t_def st_def)
      show "enc_bits pre e2 (B @ tok_bits t)"
        using png_put_match_bits [OF w _ fc(1-4)] png_put_literal_bits [OF w] less.prems(1) unat_u8_less
        by (auto simp: e2_def t_def)
    qed
    have e: "e_pos e2 = ?n" "e_ring e2 = e_ring e" by (simp_all add: e2_def)
    have enc: "enc_bits pre (png_consume n k base stop src e') B' = enc_bits pre e' B'" for n k e' B'
      by (induction n arbitrary: k e') (simp_all add: Let_def)
    have step: "png_lz_loop wr base stop src e = png_lz_loop wr base stop src ?e"
      using True f by (subst png_lz_loop.simps) (simp add: Let_def e2_def st_def)
    have ring: "ring_rep (e_ring ?e) (take (e_pos ?e) ?X)"
      using png_consume_ring [OF H, of e2 st 0] less.prems(2,3) e b(2) by simp
    have h: "stop - e_pos ?e < stop - ?n" "enc_bits pre ?e (B @ tok_bits t)" "base \<le> e_pos ?e" "e_pos ?e \<le> stop"
      using b(1,2,5) e(1) less.prems(3) True enc by simp_all
    obtain toks where toks: "enc_bits pre (png_lz_loop wr base stop src ?e) ((B @ tok_bits t) @ concat (map tok_bits toks))"
        "ring_rep (e_ring (png_lz_loop wr base stop src ?e)) ?X" "e_pos (png_lz_loop wr base stop src ?e) = stop"
        "toks_ok (take (e_pos ?e) ?X) toks" "foldl expand (take (e_pos ?e) ?X) toks = ?X"
      using less.hyps [OF h(1) h(2) ring h(3,4)] by blast
    then show ?thesis
      unfolding step using b(3,4) e(1) by (intro exI [of _ "t # toks"]) simp
  qed
qed

lemma png_lz_feed_correct:
  assumes "writes wr" "enc_bits pre e B" "ring_rep (e_ring e) H" "length H = e_pos e"
  shows "\<exists>toks. enc_bits pre (png_lz_feed wr src e) (B @ concat (map tok_bits toks))
      \<and> ring_rep (e_ring (png_lz_feed wr src e)) (H @ src)
      \<and> length (H @ src) = e_pos (png_lz_feed wr src e)
      \<and> toks_ok H toks \<and> foldl expand H toks = H @ src"
  using png_lz_loop_correct [OF assms(1) assms(4) refl assms(2), of src] assms(3,4)
  by (auto simp: png_lz_feed_def)

subsection \<open>The whole file\<close>

fun rows_from :: "png_rows \<Rightarrow> nat list \<Rightarrow> lcd \<times> u16 list \<Rightarrow> (u8 list list \<times> lcd \<times> u16 list) option" where
  "rows_from get_row [] io = Some ([], io)"
| "rows_from get_row (y # ys) io =
     (case get_row y io of
        (None, io1) \<Rightarrow> None
      | (Some row, io1) \<Rightarrow>
          (case rows_from get_row ys io1 of None \<Rightarrow> None | Some (rows, io2) \<Rightarrow> Some (row # rows, io2)))"

lemma png_pass1_supply: "rows_from get_row ys io = Some (rows, io') \<Longrightarrow> png_pass1 get_row ys io = (True, io')"
  by (induction get_row ys io arbitrary: rows rule: rows_from.induct) (auto split: option.splits prod.splits)

lemma png_pass2_supply:
  assumes w: "writes wr"
  shows "rows_from get_row ys io = Some (rows, io') \<Longrightarrow> enc_bits pre e B \<Longrightarrow> ring_rep (e_ring e) H \<Longrightarrow> length H = e_pos e \<Longrightarrow>
   \<exists>e' toks. png_pass2 wr get_row ys io e = (io', Some e') \<and> enc_bits pre e' (B @ concat (map tok_bits toks))
     \<and> toks_ok H toks \<and> foldl expand H toks = H @ scan rows"
proof (induction ys arbitrary: io rows e B H)
  case Nil
  then show ?case by (intro exI [of _ e] exI [of _ "[]"]) simp
next
  case (Cons y ys)
  then obtain row io1 rows1 where r: "get_row y io = (Some row, io1)" "rows_from get_row ys io1 = Some (rows1, io')"
      "rows = row # rows1"
    by (auto split: option.splits prod.splits)
  let ?e1 = "e\<lparr>e_adler := png_adler32 (png_adler32 (e_adler e) [0]) row\<rparr>"
  let ?e2 = "png_lz_feed wr [0] ?e1"
  let ?e3 = "png_lz_feed wr row ?e2"
  obtain t1 where t1: "enc_bits pre ?e2 (B @ concat (map tok_bits t1))" "ring_rep (e_ring ?e2) (H @ [0])"
      "length (H @ [0]) = e_pos ?e2" "toks_ok H t1" "foldl expand H t1 = H @ [0]"
    using png_lz_feed_correct [OF w, of pre ?e1 B H "[0]"] Cons.prems by auto
  obtain t2 where t2: "enc_bits pre ?e3 ((B @ concat (map tok_bits t1)) @ concat (map tok_bits t2))"
      "ring_rep (e_ring ?e3) ((H @ [0]) @ row)" "length ((H @ [0]) @ row) = e_pos ?e3" "toks_ok (H @ [0]) t2"
      "foldl expand (H @ [0]) t2 = (H @ [0]) @ row"
    using png_lz_feed_correct [OF w t1(1-3), of row] by blast
  obtain e' t3 where t3: "png_pass2 wr get_row ys io1 ?e3 = (io', Some e')"
      "enc_bits pre e' (((B @ concat (map tok_bits t1)) @ concat (map tok_bits t2)) @ concat (map tok_bits t3))"
      "toks_ok ((H @ [0]) @ row) t3" "foldl expand ((H @ [0]) @ row) t3 = ((H @ [0]) @ row) @ scan rows1"
    using Cons.IH [OF r(2) t2(1-3)] by blast
  then show ?case
    using r t1(4,5) t2(4,5) by (intro exI [of _ e'] exI [of _ "t1 @ t2 @ t3"]) (simp add: Let_def)
qed

definition chunk :: "u8 list \<Rightarrow> u8 list \<Rightarrow> u8 list" where
  "chunk tag p = png_be32 (of_nat (length p)) @ tag @ p @ png_be32 (png_crc32 (png_crc32 0 tag) p)"

definition ihdr_data :: "nat \<Rightarrow> nat \<Rightarrow> u8 list" where
  "ihdr_data w h = png_be32 (of_nat w) @ png_be32 (of_nat h) @ [8, 3, 0, 0, 0]"

lemma crc32_append: "png_crc32 (png_crc32 c p) q = png_crc32 c (p @ q)"
  by (simp add: png_crc32_def)

lemma chunk_ops:
  assumes "writes wr"
  shows "png_chunk_begin wr tag n c = c\<lparr>c_file := c_file c @ png_be32 (of_nat n) @ tag, c_crc := png_crc32 0 tag\<rparr>"
    "png_chunk_write wr p c = c\<lparr>c_file := c_file c @ p, c_crc := png_crc32 (c_crc c) p\<rparr>"
    "png_chunk_end wr c = c\<lparr>c_file := c_file c @ png_be32 (c_crc c)\<rparr>"
  using assms
  by (cases c; simp add: png_chunk_begin_def png_chunk_write_def png_chunk_end_def png_write_def writes_def Let_def)+

lemma png_plte_fold:
  assumes "writes wr"
  shows "foldl (\<lambda>c v. png_chunk_write wr (png_plte_entry v) c) c pal
    = c\<lparr>c_file := c_file c @ concat (map png_plte_entry pal), c_crc := png_crc32 (c_crc c) (concat (map png_plte_entry pal))\<rparr>"
proof (induction pal arbitrary: c)
  case Nil
  then show ?case by (simp add: png_crc32_def)
next
  case (Cons v pal)
  then show ?case by (simp add: chunk_ops(2) [OF assms] crc32_append)
qed

lemma png_header_file:
  assumes "writes wr"
  shows "png_header wr w h pal f = (True, f @ png_sig @ chunk tag_IHDR (ihdr_data w h)
    @ chunk tag_PLTE (concat (map png_plte_entry pal)))"
proof -
  have l: "length (concat (map png_plte_entry pal)) = length pal * 3"
    by (induction pal) (auto simp: png_plte_entry_def Let_def)
  have wr: "wr f png_sig = (8, f @ png_sig)" using assms by (simp add: writes_def)
  show ?thesis
    unfolding png_header_def wr Let_def prod.case
    unfolding png_plte_fold [OF assms]
    unfolding chunk_ops [OF assms]
    by (simp add: chunk_def ihdr_data_def l)
qed

lemma byte_bits_inject:
  "byte_bits P = byte_bits Q @ R \<Longrightarrow> \<exists>P2. P = Q @ P2 \<and> R = byte_bits P2"
proof (induction Q arbitrary: P)
  case (Cons q Q)
  have "P \<noteq> []" using arg_cong [OF Cons.prems, of length] by auto
  then obtain p P1 where P: "P = p # P1" by (cases P) auto
  have eq: "bits_of p 8 = bits_of q 8" "byte_bits P1 = byte_bits Q @ R"
    using Cons.prems P by (auto simp: append_eq_append_conv)
  have "p = q"
  proof (rule bit_word_eqI)
    fix i assume "i < LENGTH(8)"
    then show "bit p i = bit q i" using arg_cong [OF eq(1), of "\<lambda>l. l ! i"] by simp
  qed
  then show ?case using Cons.IH [OF eq(2)] P by auto
qed simp

lemma png_align_rep:
  assumes "writes wr" "enc_bits pre e B"
  shows "\<exists>P pad. enc_rep pre (png_align_byte wr e) P \<and> byte_bits P = B @ pad \<and> length (e_out (png_align_byte wr e)) < 256"
proof -
  obtain P where P: "enc_rep pre e P" "B = byte_bits P @ bits_of (e_bits e) (e_nbits e)" "e_nbits e < 8" "length (e_out e) < 256"
    using assms(2) by (auto simp: enc_bits_def)
  show ?thesis
  proof (cases "e_nbits e = 0")
    case True
    then show ?thesis using P by (intro exI [of _ P] exI [of _ "[]"]) (simp add: png_align_byte_def)
  next
    case False
    let ?b = "ucast (e_bits e AND 0xFF) :: u8"
    have "byte_bits (P @ [?b]) = B @ bits_of (drop_bit (e_nbits e) (e_bits e)) (8 - e_nbits e)"
      using P bits_of_split [of "e_nbits e" 8 "e_bits e"] by (simp add: bits_of_byte)
    then show ?thesis
      using False png_put_byte_rep [OF assms(1) P(1,4), of ?b]
      by (intro exI [of _ "P @ [?b]"] exI [of _ "bits_of (drop_bit (e_nbits e) (e_bits e)) (8 - e_nbits e)"])
         (simp add: png_align_byte_def)
  qed
qed

lemma png_put_bytes_rep:
  assumes "writes wr"
  shows "enc_rep pre e P \<Longrightarrow> length (e_out e) < 256 \<Longrightarrow>
    enc_rep pre (foldl (\<lambda>e b. png_put_byte wr b e) e bs) (P @ bs)"
proof (induction bs arbitrary: e P)
  case (Cons b bs)
  then show ?case using Cons.IH [OF png_put_byte_rep [OF assms Cons.prems]] by simp
qed simp

text \<open>What \<open>png_encode\<close> writes: header, palette, and IDAT chunks whose payload carries the tokens.\<close>

lemma png_encode_file:
  assumes w: "writes wr" and s1: "rows_from get_row [0..<h] io = Some (rows0, io1)"
    and s2: "rows_from get_row [0..<h] io1 = Some (rows, io2)" and ring: "length ring = 512"
  shows "\<exists>ps toks pad. png_encode wr get_row w h io ring f
      = (True, io2, f @ png_sig @ chunk tag_IHDR (ihdr_data w h)
           @ chunk tag_PLTE (concat (map png_plte_entry (snd io1))) @ concat (map idat ps) @ chunk tag_IEND [])
    \<and> payload_ok ps \<and> toks_ok [] toks \<and> foldl expand [] toks = scan rows
    \<and> byte_bits (concat ps) = byte_bits [0x78, 0x01] @ [True, True, False] @ concat (map tok_bits toks) @ sym_bits 256 @ pad"
proof -
  define pre where "pre = f @ png_sig @ chunk tag_IHDR (ihdr_data w h) @ chunk tag_PLTE (concat (map png_plte_entry (snd io1)))"
  define e0 where "e0 = \<lparr>e_file = pre, e_out = [], e_bits = 0, e_nbits = 0, e_adler = 1, e_ring = ring,
     e_head = replicate 256 0xFFFF, e_pos = 0, e_ok = True\<rparr>"
  define e1 where "e1 = png_put_byte wr 0x01 (png_put_byte wr 0x78 e0)"
  define e2 where "e2 = png_put_bits wr 1 2 (png_put_bits wr 1 1 e1)"
  have r0: "enc_rep pre e0 []" by (auto simp: enc_rep_def e0_def payload_ok_def intro!: exI [of _ "[]"])
  have l0: "length (e_out e0) < 256" by (simp add: e0_def)
  note p1 = png_put_byte_rep [OF w r0 l0, of "0x78"]
  note p2 = png_put_byte_rep [OF w p1, of "0x01"]
  have keep: "e_bits e1 = 0" "e_nbits e1 = 0" "e_pos e1 = 0" "e_ring e1 = ring"
    by (simp_all add: e1_def png_put_byte_def png_flush_idat_def Let_def e0_def)
  have "enc_bits pre e1 (byte_bits [0x78, 0x01])"
    unfolding enc_bits_def using p2 keep by (auto simp: e1_def intro!: exI [of _ "[0x78, 0x01]"])
  then have "enc_bits pre (png_put_bits wr 1 1 e1) (byte_bits [0x78, 0x01] @ bits_of (1 :: u32) 1)"
    by (rule png_put_bits_bits [OF w]) (auto simp: below_def bit_1_iff)
  then have "enc_bits pre e2 ((byte_bits [0x78, 0x01] @ bits_of (1 :: u32) 1) @ bits_of (1 :: u32) 2)"
    unfolding e2_def by (rule png_put_bits_bits [OF w]) (auto simp: below_def bit_1_iff)
  moreover have "bits_of (1 :: u32) 1 = [True]" "bits_of (1 :: u32) 2 = [True, False]"
    by (simp_all add: bits_of_def numeral_2_eq_2 bit_1_iff)
  ultimately have b2: "enc_bits pre e2 (byte_bits [0x78, 0x01] @ [True, True, False])" by (simp del: byte_bits_simps)
  have "ring_rep (e_ring e2) []" "length [] = e_pos e2" using keep ring by (simp_all add: e2_def ring_rep_def)
  then obtain e3 toks where e3: "png_pass2 wr get_row [0..<h] io1 e2 = (io2, Some e3)"
      "enc_bits pre e3 ((byte_bits [0x78, 0x01] @ [True, True, False]) @ concat (map tok_bits toks))"
      "toks_ok [] toks" "foldl expand [] toks = scan rows"
    using png_pass2_supply [OF w s2 b2, of "[]"] by auto
  note b4 = png_put_symbol_bits [OF w e3(2), of 256, simplified]
  define e4 where "e4 = png_align_byte wr (png_put_symbol wr 256 e3)"
  obtain P pad where P: "enc_rep pre e4 P" "length (e_out e4) < 256"
      "byte_bits P = (byte_bits [0x78, 0x01] @ [True, True, False] @ concat (map tok_bits toks) @ sym_bits 256) @ pad"
    using png_align_rep [OF w png_put_symbol_bits [OF w e3(2), of 256]] unfolding e4_def by auto
  define e6 where "e6 = png_flush_idat wr (foldl (\<lambda>e b. png_put_byte wr b e) e4 (png_be32 (e_adler e4)))"
  note r5 = png_put_bytes_rep [OF w P(1,2), of "png_be32 (e_adler e4)"]
  note r6 = png_flush_idat_rep [OF w r5, folded e6_def]
  obtain ps where ps: "payload_ok ps" "e_file e6 = pre @ concat (map idat ps)" "P @ png_be32 (e_adler e4) = concat ps" "e_ok e6"
    using r6 by (auto simp: enc_rep_def)
  have "png_encode wr get_row w h io ring f = (True, io2, pre @ concat (map idat ps) @ chunk tag_IEND [])"
    unfolding png_encode_def
    by (simp only: png_pass1_supply [OF s1] png_header_file [OF w] Let_def prod.case not_True_eq_False if_False
        pre_def [symmetric] e0_def [symmetric] e1_def [symmetric] e2_def [symmetric] e3(1) option.case
        e4_def [symmetric] e6_def [symmetric])
       (simp add: chunk_ops [OF w] chunk_def crc32_append ps)
  then show ?thesis
    using ps(1,3) P(3) e3(3,4)
    by (intro exI [of _ ps] exI [of _ toks] exI [of _ "pad @ byte_bits (png_be32 (e_adler e4))"])
       (simp add: pre_def flip: ps(3) del: byte_bits_simps(2))
qed

lemma plte_pixel: "png_plte_entry v = [r, g, b] \<Longrightarrow> rgb565_of r g b = v"
proof (rule bit_word_eqI)
  fix n assume "png_plte_entry v = [r, g, b]" and n: "n < LENGTH(16)"
  then have eq: "r = ucast (drop_bit 16 (HEXRGB (ucast v)))" "g = ucast (drop_bit 8 (HEXRGB (ucast v)))"
    "b = ucast (HEXRGB (ucast v))"
    by (auto simp: png_plte_entry_def Let_def)
  have "list_all (\<lambda>n. bit (rgb565_of r g b) n = bit v n) [0..<16]"
    unfolding eq rgb565_of_def RGB565_def HEXRGB_def
    by (simp add: halfword_positions bit_simps)
  then show "bit (rgb565_of r g b) n = bit v n" using n by (rule halfword_bits)
qed

lemma png_read_plte_app:
  "png_read_plte (length pal) (concat (map png_plte_entry pal) @ s) = Some (pal, s)"
proof (induction pal)
  case (Cons v pal)
  obtain r g b where e: "png_plte_entry v = [r, g, b]" by (simp add: png_plte_entry_def Let_def)
  show ?case using Cons plte_pixel [OF e] by (simp add: e)
qed simp

lemma png_find_plte_app:
  assumes "pal \<noteq> []" "length pal \<le> 256"
  shows "png_find_plte (chunk tag_PLTE (concat (map png_plte_entry pal)) @ s) = Some (pal, s)"
proof -
  let ?p = "concat (map png_plte_entry pal)"
  have l: "length ?p = 3 * length pal" by (induction pal) (auto simp: png_plte_entry_def Let_def)
  define x where "x = chunk tag_PLTE ?p @ s"
  have t: "take 8 x = png_be32 (of_nat (length ?p)) @ tag_PLTE"
    "drop 8 x = ?p @ png_be32 (png_crc32 (png_crc32 0 tag_PLTE) ?p) @ s" "min (length x) 8 = 8"
    by (simp_all add: x_def chunk_def)
  have un: "unat (of_nat n :: u32) = n" if "n < 2 ^ 32" for n using that by (simp add: unat_of_nat)
  have u: "unat (of_nat (length ?p) :: u32) = 3 * length pal" using un [of "length ?p"] assms(2) l by simp
  then have z: "(of_nat (length ?p) :: u32) \<noteq> 0" using assms(1) by (metis unat_0 length_0_conv mult_is_0 zero_neq_numeral)
  show ?thesis
    unfolding x_def [symmetric]
    by (subst png_find_plte.simps)
       (simp add: t rd_png_be32 u z Let_def assms(1) assms(2) [folded not_less] png_read_plte_app png_skip_app)
qed

lemma png_inflate_rep:
  assumes rows: "\<forall>r\<in>set rows. length r = w" "0 < w"
    and d: "dec_bits d ([True, True, False] @ concat (map tok_bits toks) @ sym_bits 256 @ pad)"
    and o: "out_rep w rows d []" and toks: "toks_ok [] toks" "foldl expand [] toks = scan rows"
  shows "out_rep w rows (png_inflate w (length rows) d) (scan rows)"
proof -
  obtain d1 where d1: "png_get_bits 1 d = (1, d1)"
      "dec_bits d1 ([True, False] @ concat (map tok_bits toks) @ sym_bits 256 @ pad)" "same_out d d1"
    using png_get_bit_one [of d True] d by auto
  have b: "bits_of (1 :: u32) 2 = [True, False]" "below (1 :: u32) 2"
    by (auto simp: bits_of_def numeral_2_eq_2 bit_1_iff below_def)
  obtain d2 where d2: "png_get_bits 2 d1 = (1, d2)" "dec_bits d2 (concat (map tok_bits toks) @ sym_bits 256 @ pad)" "same_out d1 d2"
    using png_get_bits_bits [of d1 1 2] d1(2) b by auto
  have "out_rep w rows d2 []" using o out_rep_same [OF d1(3)] out_rep_same [OF d2(3)] by simp
  then have r: "out_rep w rows (png_fixed_block w (length rows) d2) (scan rows)"
    using png_fixed_block_rep [OF rows d2(2), of "[]" "[]"] toks by auto
  have "png_block w (length rows) d = (True, png_fixed_block w (length rows) d2)"
    unfolding png_block_def d1(1) Let_def prod.case d2(1) by simp
  then have "png_inflate w (length rows) d = png_fixed_block w (length rows) d2"
    using out_repD(1) [OF o] by (subst png_inflate.simps) simp
  then show ?thesis using r by simp
qed

lemma dec_repI:
  assumes "d_have_chunk d" "length crc = 4" "payload_ok ps" "d_chunk_left d = length a"
    "d_stream d = a @ crc @ concat (map idat ps) @ tail" "P = d_in d @ a @ concat ps"
  shows "dec_rep d P"
  using assms by (auto simp: dec_rep_def)

lemma out_rep_done:
  assumes "\<forall>r\<in>set rows. length r = w" "out_rep w rows d (scan rows)"
  shows "d_err d = 0 \<and> d_y d = length rows \<and> d_rows d = zip [0..<length rows] rows"
proof -
  have "length (scan rows) div (w + 1) = length rows"
    unfolding length_scan [OF assms(1)] by (rule nonzero_mult_div_cancel_right) simp
  then show ?thesis using assms(2) unfolding out_rep_def by simp
qed

lemma length_chunk [simp]: "length (chunk tag p) = 8 + length tag + length p"
  by (simp add: chunk_def)

lemma png_decode_file:
  assumes rows: "\<forall>r\<in>set rows. length r = w" "0 < w" "length rows = h" and pal: "pal \<noteq> []" "length pal \<le> 256"
    and ps: "payload_ok ps" and toks: "toks_ok [] toks" "foldl expand [] toks = scan rows"
    and bits: "byte_bits (concat ps) = byte_bits [0x78, 0x01] @ [True, True, False] @ concat (map tok_bits toks) @ sym_bits 256 @ pad"
    and ring: "length ring = 512" "length row = w"
  shows "png_decode w h ring row (png_sig @ chunk tag_IHDR (ihdr_data w h)
    @ chunk tag_PLTE (concat (map png_plte_entry pal)) @ concat (map idat ps) @ tail) = (None, pal, zip [0..<h] rows)"
proof -
  define s1 where "s1 = concat (map idat ps) @ tail"
  define s0 where "s0 = chunk tag_PLTE (concat (map png_plte_entry pal)) @ s1"
  define x where "x = png_sig @ chunk tag_IHDR (ihdr_data w h) @ s0"
  have li: "length (ihdr_data w h) = 13" by (simp add: ihdr_data_def)
  have hd: "take 33 x = png_sig @ chunk tag_IHDR (ihdr_data w h)" "drop 33 x = s0" "min (length x) 33 = 33"
    by (simp_all add: x_def li)
  have f: "png_find_plte s0 = Some (pal, s1)" unfolding s0_def by (rule png_find_plte_app [OF pal])
  define H where "H = png_sig @ chunk tag_IHDR (ihdr_data w h)"
  have H: "length H = 33" "take 8 H = png_sig" "take 4 (drop 12 H) = tag_IHDR" "rd_be32 (drop 16 H) = of_nat w"
    "rd_be32 (drop 20 H) = of_nat h" "H ! 24 = 8" "H ! 25 = 3" "H ! 28 = 0"
    by (simp_all add: H_def li) (simp_all add: chunk_def ihdr_data_def rd_png_be32 nth_append)
  let ?d0 = "\<lparr>d_stream = s1, d_in = [], d_chunk_left = 0, d_have_chunk = False, d_bits = 0,
     d_nbits = 0, d_ring = ring, d_pos = 0, d_row = row, d_rowp = 0, d_y = 0, d_err = 0, d_rows = []\<rparr>"
  obtain P2 where P2: "concat ps = [0x78, 0x01] @ P2"
      "byte_bits P2 = [True, True, False] @ concat (map tok_bits toks) @ sym_bits 256 @ pad"
    using byte_bits_inject [OF bits] by metis
  then obtain p ps' where p: "ps = p # ps'" by (cases ps) auto
  then have p256: "length p \<le> 256" "payload_ok ps'" using ps by (auto simp: payload_ok_def)
  let ?d1 = "?d0\<lparr>d_stream := p @ png_be32 (png_crc32 (png_crc32 0 tag_IDAT) p) @ concat (map idat ps') @ tail,
     d_chunk_left := length p, d_have_chunk := True\<rparr>"
  have n: "png_next_idat ?d0 = (True, ?d1)"
    by (rule png_next_idat_app [of _ "[]"]) (simp_all add: s1_def p p256)
  have "dec_rep ?d1 (concat ps)"
    using p256 by (intro dec_repI [of _ "png_be32 (png_crc32 (png_crc32 0 tag_IDAT) p)" ps' p tail]) (simp_all add: p)
  then have "dec_rep ?d1 (0x78 # 0x01 # P2)" using P2 by simp
  then obtain i s c where d2: "png_in_byte ?d1 = (0x78, ?d1\<lparr>d_in := i, d_stream := s, d_chunk_left := c\<rparr>)"
      "dec_rep (?d1\<lparr>d_in := i, d_stream := s, d_chunk_left := c\<rparr>) (0x01 # P2)"
    using png_in_byte_rep by blast
  let ?d2 = "?d1\<lparr>d_in := i, d_stream := s, d_chunk_left := c\<rparr>"
  obtain i' s' c' where d3: "png_in_byte ?d2 = (0x01, ?d2\<lparr>d_in := i', d_stream := s', d_chunk_left := c'\<rparr>)"
      "dec_rep (?d2\<lparr>d_in := i', d_stream := s', d_chunk_left := c'\<rparr>) P2"
    using png_in_byte_rep [OF d2(2)] by blast
  let ?d3 = "?d2\<lparr>d_in := i', d_stream := s', d_chunk_left := c'\<rparr>"
  have b3: "dec_bits ?d3 ([True, True, False] @ concat (map tok_bits toks) @ sym_bits 256 @ pad)"
    unfolding dec_bits_def using d3(2) P2(2) by auto
  have o3: "out_rep w rows ?d3 []" using ring by (simp add: out_rep_def ring_rep_def)
  have r: "out_rep w rows (png_inflate w h ?d3) (scan rows)"
    using png_inflate_rep [OF rows(1,2) b3 o3 toks] rows(3) by simp
  note fin = out_rep_done [OF rows(1) r, unfolded rows(3)]
  show ?thesis
    unfolding png_decode_def x_def [symmetric, unfolded s0_def s1_def] Let_def hd(1) H_def [symmetric] hd(2) f n d2(1) d3(1)
    by (simp only: H hd(2) f option.case prod.case n d2(1) d3(1)) (use fin in simp)
qed

subsection \<open>Screenshots of the display\<close>

lemma takeWhile_known:
  "v \<in> set pal \<Longrightarrow> length (takeWhile (\<lambda>c. c \<noteq> v) pal) < length pal \<and> pal ! length (takeWhile (\<lambda>c. c \<noteq> v) pal) = v"
  "v \<notin> set pal \<Longrightarrow> length (takeWhile (\<lambda>c. c \<noteq> v) pal) = length pal"
  by (induction pal) auto

lemma png_index_known: "v \<in> set pal \<Longrightarrow> \<exists>i. png_index pal v = (i, pal) \<and> i < length pal \<and> pal ! i = v"
  using takeWhile_known(1) [of v pal] by (simp add: png_index_def Let_def)

lemma png_index_new: "v \<notin> set pal \<Longrightarrow> length pal < 256 \<Longrightarrow> png_index pal v = (length pal, pal @ [v])"
  unfolding png_index_def Let_def takeWhile_known(2) by simp

text \<open>Growing the palette: \<open>C\<close> bounds the colours that can still come.\<close>

definition pal_size :: "u16 set \<Rightarrow> u16 list \<Rightarrow> nat" where
  "pal_size C pal = length pal + card (C - set pal)"

lemma png_index_row_grow:
  assumes "finite C"
  shows "set px \<subseteq> C \<Longrightarrow> pal_size C pal \<le> 256 \<Longrightarrow>
    \<exists>row pal'. png_index_row pal px = (row, pal') \<and> set pal \<subseteq> set pal' \<and> set px \<subseteq> set pal'
      \<and> pal_size C pal' = pal_size C pal"
proof (induction px arbitrary: pal)
  case (Cons v px)
  show ?case
  proof (cases "v \<in> set pal")
    case True
    then obtain i where "png_index pal v = (i, pal)" using png_index_known by blast
    then show ?thesis using Cons.IH [of pal] Cons.prems True by (auto simp: Let_def)
  next
    case False
    have c: "card (C - set pal) = Suc (card (C - set (pal @ [v])))"
    proof -
      have "C - set pal = insert v (C - set (pal @ [v]))" using False Cons.prems(1) by auto
      then show ?thesis using assms by simp
    qed
    then have "length pal < 256" using Cons.prems(2) by (simp add: pal_size_def)
    then have i: "png_index pal v = (length pal, pal @ [v])" using False by (simp add: png_index_new)
    have s: "pal_size C (pal @ [v]) = pal_size C pal" using c by (simp add: pal_size_def)
    obtain row pal' where r: "png_index_row (pal @ [v]) px = (row, pal')" "set (pal @ [v]) \<subseteq> set pal'" "set px \<subseteq> set pal'"
        "pal_size C pal' = pal_size C (pal @ [v])"
      using Cons.IH [of "pal @ [v]"] Cons.prems s by auto
    show ?thesis using i r s by (auto simp: Let_def)
  qed
qed simp

lemma png_index_row_known:
  "set px \<subseteq> set pal \<Longrightarrow> length pal \<le> 256 \<Longrightarrow>
   \<exists>row. png_index_row pal px = (row, pal) \<and> length row = length px
     \<and> map (\<lambda>i. pal ! (if unat i < length pal then unat i else 0)) row = px"
proof (induction px)
  case (Cons v px)
  then obtain i where i: "png_index pal v = (i, pal)" "i < length pal" "pal ! i = v"
    using png_index_known [of v pal] by auto
  then have "unat (of_nat i :: u8) = i" using Cons.prems(2) by (simp add: unat_of_nat)
  then show ?case using Cons i by (auto simp: Let_def)
qed simp

lemma tick_colors:
  assumes "\<forall>row\<in>set lcd. set row \<subseteq> C" "bg \<in> C"
  shows "\<forall>row\<in>set (lcd_tick bg y lcd). set row \<subseteq> C"
proof (cases "y < length lcd")
  case True
  then show ?thesis
    using assms set_update_subset_insert [of "lcd ! y" "LCD_WIDTH - 1" bg]
    by (auto simp: lcd_tick_def dest!: set_update_subset_insert [THEN subsetD])
qed (use assms in \<open>simp add: lcd_tick_def list_update_beyond\<close>)

lemma pass_grow:
  assumes "finite C" "bg \<in> C"
  shows "\<forall>row\<in>set lcd. set row \<subseteq> C \<Longrightarrow> pal_size C pal \<le> 256 \<Longrightarrow> \<forall>y\<in>set ys. y < length lcd \<Longrightarrow>
    \<exists>rows pal'. rows_from (png_lcd_row bg) ys (lcd, pal) = Some (rows, foldl (\<lambda>l y. lcd_tick bg y l) lcd ys, pal')
      \<and> set pal \<subseteq> set pal' \<and> pal_size C pal' = pal_size C pal \<and> (\<forall>y\<in>set ys. set (lcd ! y) \<subseteq> insert bg (set pal'))"
proof (induction ys arbitrary: lcd pal)
  case (Cons y ys)
  obtain row pal1 where r: "png_index_row pal (lcd ! y) = (row, pal1)" "set pal \<subseteq> set pal1" "set (lcd ! y) \<subseteq> set pal1"
      "pal_size C pal1 = pal_size C pal"
    using png_index_row_grow [OF assms(1), of "lcd ! y" pal] Cons.prems by auto
  obtain rows pal' where i: "rows_from (png_lcd_row bg) ys (lcd_tick bg y lcd, pal1)
        = Some (rows, foldl (\<lambda>l y. lcd_tick bg y l) (lcd_tick bg y lcd) ys, pal')" "set pal1 \<subseteq> set pal'"
      "pal_size C pal' = pal_size C pal1" "\<forall>z\<in>set ys. set (lcd_tick bg y lcd ! z) \<subseteq> insert bg (set pal')"
    using Cons.IH [of "lcd_tick bg y lcd" pal1] tick_colors [OF Cons.prems(1) assms(2), of y] Cons.prems r(4)
    by (auto simp: lcd_tick_nth)
  have "set (lcd ! z) \<subseteq> insert bg (set pal')" if "z \<in> set ys" for z
    using i(2) r(3) i(4) [rule_format, OF that] lcd_tick_nth(1) [of z y bg lcd] by (cases "z = y") auto
  moreover have "png_lcd_row bg y (lcd, pal) = (Some row, lcd_tick bg y lcd, pal1)"
    by (simp add: png_lcd_row_def r(1))
  then have "rows_from (png_lcd_row bg) (y # ys) (lcd, pal)
      = Some (row # rows, foldl (\<lambda>l y. lcd_tick bg y l) lcd (y # ys), pal')"
    by (simp add: i(1))
  ultimately show ?case using r i by (intro exI [of _ "row # rows"] exI [of _ pal']) auto
qed (simp add: pal_size_def)

lemma pass_known:
  assumes "length pal \<le> 256" "\<forall>row\<in>set lcd. set row \<subseteq> set pal"
  shows "\<forall>y\<in>set ys. y < length lcd \<and> lcd_tick bg y lcd = lcd \<Longrightarrow>
    \<exists>rows. rows_from (png_lcd_row bg) ys (lcd, pal) = Some (rows, lcd, pal) \<and> length rows = length ys
      \<and> (\<forall>k<length ys. length (rows ! k) = length (lcd ! (ys ! k))
          \<and> map (\<lambda>i. pal ! (if unat i < length pal then unat i else 0)) (rows ! k) = lcd ! (ys ! k))"
proof (induction ys)
  case (Cons y ys)
  obtain row where r: "png_index_row pal (lcd ! y) = (row, pal)" "length row = length (lcd ! y)"
     "map (\<lambda>i. pal ! (if unat i < length pal then unat i else 0)) row = lcd ! y"
    using png_index_row_known [OF _ assms(1), of "lcd ! y"] assms(2) Cons.prems by auto
  then show ?case using Cons by (auto simp: png_lcd_row_def Let_def nth_Cons' less_Suc_eq_0_disj)
qed simp

lemma ticks_all:
  assumes "wf_lcd s"
  shows "foldl (\<lambda>l y. lcd_tick bg y l) s [0..<LCD_HEIGHT] = map (\<lambda>row. row[LCD_WIDTH - 1 := bg]) s"
proof -
  have "k \<le> length s \<Longrightarrow> foldl (\<lambda>l y. lcd_tick bg y l) s [0..<k] = map (\<lambda>row. row[LCD_WIDTH - 1 := bg]) (take k s) @ drop k s" for k
  proof (induction k)
    case (Suc k)
    then show ?case
      by (simp add: lcd_tick_def take_Suc_conv_app_nth list_update_append nth_append flip: Cons_nth_drop_Suc)
  qed simp
  from this [of LCD_HEIGHT] show ?thesis using assms by (simp add: wf_lcd_def)
qed

lemma draw_rows:
  assumes "length rows = length lcd"
  shows "foldl (\<lambda>lcd (y, r). png_lcd_put pal y r lcd) lcd (zip [0..<length rows] rows)
    = map (\<lambda>r. map (\<lambda>i. pal ! (if unat i < length pal then unat i else 0)) r) rows"
proof -
  have "k \<le> length rows \<Longrightarrow> foldl (\<lambda>lcd (y, r). png_lcd_put pal y r lcd) lcd (zip [0..<k] (take k rows))
    = map (\<lambda>r. map (\<lambda>i. pal ! (if unat i < length pal then unat i else 0)) r) (take k rows) @ drop k lcd" for k
  proof (induction k)
    case (Suc k)
    then show ?case
      using assms
      by (simp add: png_lcd_put_def take_Suc_conv_app_nth list_update_append flip: Cons_nth_drop_Suc)
  qed simp
  from this [of "length rows"] show ?thesis using assms by simp
qed

lemma rows_from_length: "rows_from get_row ys io = Some (rows, io') \<Longrightarrow> length rows = length ys"
  by (induction get_row ys io arbitrary: rows rule: rows_from.induct) (auto split: option.splits prod.splits)

lemma png_codec_roundtrip:
  assumes "writes wr" and "rows_from get_row [0..<h] io = Some (rows0, io1)"
    and "rows_from get_row [0..<h] io1 = Some (rows, io2)"
    and "\<forall>r\<in>set rows. length r = w" "0 < w" and "snd io1 \<noteq> []" "length (snd io1) \<le> 256"
    and "length ring = 512" "length ring2 = 512" "length rowbuf = w"
  shows "\<exists>f. png_encode wr get_row w h io ring [] = (True, io2, f)
    \<and> png_decode w h ring2 rowbuf f = (None, snd io1, zip [0..<h] rows)"
proof -
  have l: "length rows = h" using rows_from_length [OF assms(3)] by simp
  obtain ps toks pad where e: "png_encode wr get_row w h io ring []
      = (True, io2, png_sig @ chunk tag_IHDR (ihdr_data w h)
           @ chunk tag_PLTE (concat (map png_plte_entry (snd io1))) @ concat (map idat ps) @ chunk tag_IEND [])"
    "payload_ok ps" "toks_ok [] toks" "foldl expand [] toks = scan rows"
    "byte_bits (concat ps) = byte_bits [0x78, 0x01] @ [True, True, False] @ concat (map tok_bits toks) @ sym_bits 256 @ pad"
    using png_encode_file [OF assms(1-3,8), of w "[]"] by auto
  show ?thesis
    using e(1) png_decode_file [OF assms(4,5) l assms(6,7) e(2-5) assms(9,10)] by blast
qed

text \<open>C3: a screenshot saved as PNG and loaded again shows the display as it was, except for the last
  column: the progress mark drawn by the first of the two passes over the rows is what the second pass stores.
  At most 256 colours may be in use, counting the seed palette, which contains the mark's colour.\<close>

theorem png_screenshot:
  assumes "writes wr" "wf_lcd s" "bg \<in> set pal" and size: "pal_size (set pal \<union> \<Union> (set ` set s)) pal \<le> 256"
    and bufs: "length ring = 512" "length ring2 = 512" "length rowbuf = LCD_WIDTH" "length lcd = LCD_HEIGHT"
  shows "\<exists>lcd' f. save_png wr bg pal ring s [] = (True, lcd', f)
    \<and> load_png ring2 rowbuf f lcd = (None, map (\<lambda>row. row[LCD_WIDTH - 1 := bg]) s)"
proof -
  let ?C = "set pal \<union> \<Union> (set ` set s)" and ?t = "map (\<lambda>row. row[LCD_WIDTH - 1 := bg]) s"
  have len: "length s = LCD_HEIGHT" "length ?t = LCD_HEIGHT" and row: "\<And>r. r \<in> set s \<Longrightarrow> length r = LCD_WIDTH"
    using assms(2) by (auto simp: wf_lcd_def)
  obtain rows0 pal1 where p1: "rows_from (png_lcd_row bg) [0..<LCD_HEIGHT] (s, pal) = Some (rows0, ?t, pal1)"
      "set pal \<subseteq> set pal1" "pal_size ?C pal1 = pal_size ?C pal" "\<forall>y\<in>set [0..<LCD_HEIGHT]. set (s ! y) \<subseteq> insert bg (set pal1)"
  proof -
    have fin: "finite ?C" "bg \<in> ?C" using assms(3) by auto
    have col: "\<forall>row\<in>set s. set row \<subseteq> ?C" "\<forall>y\<in>set [0..<LCD_HEIGHT]. y < length s" using len by auto
    show ?thesis using pass_grow [OF fin col(1) size col(2)] that unfolding ticks_all [OF assms(2)] by blast
  qed
  have pal1: "length pal1 \<le> 256" "pal1 \<noteq> []" "bg \<in> set pal1"
    using p1(2,3) size assms(3) by (auto simp: pal_size_def)
  have sub: "set r \<subseteq> set pal1" if rt: "r \<in> set ?t" for r
  proof -
    obtain r0 where "r0 \<in> set s" "r = r0[LCD_WIDTH - 1 := bg]" using rt by auto
    then obtain y where y: "y < LCD_HEIGHT" "r = (s ! y)[LCD_WIDTH - 1 := bg]"
      using len(1) by (auto simp: in_set_conv_nth)
    then have "set (s ! y) \<subseteq> set pal1" using p1(4) pal1(3) by auto
    then show ?thesis using y pal1(3) set_update_subset_insert [of "s ! y" "LCD_WIDTH - 1" bg] by auto
  qed
  have tick: "lcd_tick bg y ?t = ?t" if "y < LCD_HEIGHT" for y
    using that len by (simp add: lcd_tick_def list_update_same_conv)
  obtain rows where p2: "rows_from (png_lcd_row bg) [0..<LCD_HEIGHT] (?t, pal1) = Some (rows, ?t, pal1)"
      "length rows = LCD_HEIGHT" "\<And>k. k < LCD_HEIGHT \<Longrightarrow> length (rows ! k) = length (?t ! k)
          \<and> map (\<lambda>i. pal1 ! (if unat i < length pal1 then unat i else 0)) (rows ! k) = ?t ! k"
  proof -
    have t: "\<forall>row\<in>set ?t. set row \<subseteq> set pal1" "\<forall>y\<in>set [0..<LCD_HEIGHT]. y < length ?t \<and> lcd_tick bg y ?t = ?t"
      using sub tick len(2) by auto
    obtain rows where r: "rows_from (png_lcd_row bg) [0..<LCD_HEIGHT] (?t, pal1) = Some (rows, ?t, pal1)"
      "length rows = length [0..<LCD_HEIGHT]" "\<forall>k<length [0..<LCD_HEIGHT]. length (rows ! k) = length (?t ! ([0..<LCD_HEIGHT] ! k))
          \<and> map (\<lambda>i. pal1 ! (if unat i < length pal1 then unat i else 0)) (rows ! k) = ?t ! ([0..<LCD_HEIGHT] ! k)"
      using pass_known [OF pal1(1) t] by blast
    show ?thesis by (rule that [OF r(1)]) (use r(2,3) in simp_all)
  qed
  have w: "\<forall>r\<in>set rows. length r = LCD_WIDTH"
    using p2(2,3) len row [OF nth_mem] by (auto simp: in_set_conv_nth)
  have "map (\<lambda>r. map (\<lambda>i. pal1 ! (if unat i < length pal1 then unat i else 0)) r) rows = ?t"
    using p2(2,3) len by (intro nth_equalityI) auto
  then have draw: "foldl (\<lambda>lcd (y, r). png_lcd_put pal1 y r lcd) lcd (zip [0..<LCD_HEIGHT] rows) = ?t"
    using draw_rows [of rows lcd pal1] bufs(4) p2(2) by simp
  obtain f where "png_encode wr (png_lcd_row bg) LCD_WIDTH LCD_HEIGHT (s, pal) ring [] = (True, (?t, pal1), f)"
      "png_decode LCD_WIDTH LCD_HEIGHT ring2 rowbuf f = (None, pal1, zip [0..<LCD_HEIGHT] rows)"
    using png_codec_roundtrip [OF assms(1) p1(1) p2(1) w _ _ _ bufs(1-3)] pal1(1,2) by (auto simp: LCD_WIDTH_def)
  then show ?thesis using draw by (auto simp: save_png_def load_png_def)
qed

theorem png_screenshot_witness:
  "\<exists>lcd' f. save_png (\<lambda>f d. (length d, f @ d)) 7 [5, 7] (replicate 512 0) (replicate LCD_HEIGHT (replicate LCD_WIDTH 5)) [] = (True, lcd', f)
    \<and> load_png (replicate 512 0) (replicate LCD_WIDTH 0) f (replicate LCD_HEIGHT []) =
       (None, map (\<lambda>row. row[LCD_WIDTH - 1 := 7]) (replicate LCD_HEIGHT (replicate LCD_WIDTH 5)))"
proof (rule png_screenshot)
  show "pal_size (set [5, 7] \<union> \<Union> (set ` set (replicate LCD_HEIGHT (replicate LCD_WIDTH 5)))) [5, 7] \<le> 256"
    by (simp add: pal_size_def LCD_HEIGHT_def LCD_WIDTH_def)
qed (simp_all add: writes_def wf_lcd_def)

end
