(* ===== verification/Bands.thy ===== *)
theory Bands
  imports Screenshot
begin

text \<open>
  The amateur band plans of \<^verbatim>\<open>vna_modules/vna_hambands.c\<close> and the band indicator that
  \<^verbatim>\<open>plot.c\<close> paints on the two bottom rows of the grid.  Frequencies are integers in hertz: the
  tables hold values below \<open>2 ^ 31\<close> and the renderer clips before it subtracts, so no unsigned
  subtraction wraps.  A store outside the cell buffer is the value None.
\<close>

subsection \<open>Tables\<close>

datatype ham_band = Band (band_start: int) (band_end: int)

datatype ham_seg_type = HAM_SEG_CW | HAM_SEG_DIGI | HAM_SEG_PHONE

datatype ham_segment = Segment (seg_start: int) (seg_end: int) (seg_type: ham_seg_type)

definition ham_bands_iaru_r1 :: "ham_band list" where
  "ham_bands_iaru_r1 =
   [Band 135700 137800,
    Band 472000 479000,
    Band 1810000 2000000,
    Band 3500000 3800000,
    Band 5351500 5366500,
    Band 7000000 7200000,
    Band 10100000 10150000,
    Band 14000000 14350000,
    Band 18068000 18168000,
    Band 21000000 21450000,
    Band 24890000 24990000,
    Band 28000000 29700000,
    Band 50000000 52000000,
    Band 70000000 70500000,
    Band 144000000 146000000,
    Band 430000000 440000000,
    Band 1240000000 1300000000]"

definition ham_bands_iaru_r2 :: "ham_band list" where
  "ham_bands_iaru_r2 =
   [Band 135700 137800,
    Band 472000 479000,
    Band 1800000 2000000,
    Band 3500000 4000000,
    Band 5330500 5406400,
    Band 7000000 7300000,
    Band 10100000 10150000,
    Band 14000000 14350000,
    Band 18068000 18168000,
    Band 21000000 21450000,
    Band 24890000 24990000,
    Band 28000000 29700000,
    Band 50000000 54000000,
    Band 144000000 148000000,
    Band 222000000 225000000,
    Band 420000000 450000000,
    Band 902000000 928000000,
    Band 1240000000 1300000000]"

definition ham_bands_iaru_r3 :: "ham_band list" where
  "ham_bands_iaru_r3 =
   [Band 135700 137800,
    Band 472000 479000,
    Band 1800000 2000000,
    Band 3500000 3900000,
    Band 5351500 5366500,
    Band 7000000 7200000,
    Band 10100000 10150000,
    Band 14000000 14350000,
    Band 18068000 18168000,
    Band 21000000 21450000,
    Band 24890000 24990000,
    Band 28000000 29700000,
    Band 50000000 54000000,
    Band 144000000 148000000,
    Band 430000000 440000000,
    Band 1240000000 1300000000]"

definition ham_bands_usa :: "ham_band list" where
  "ham_bands_usa =
   [Band 135700 137800,
    Band 472000 479000,
    Band 1800000 2000000,
    Band 3500000 4000000,
    Band 5330500 5406400,
    Band 7000000 7300000,
    Band 10100000 10150000,
    Band 14000000 14350000,
    Band 18068000 18168000,
    Band 21000000 21450000,
    Band 24890000 24990000,
    Band 28000000 29700000,
    Band 50000000 54000000,
    Band 144000000 148000000,
    Band 222000000 225000000,
    Band 420000000 450000000,
    Band 902000000 928000000,
    Band 1240000000 1300000000]"

definition ham_bands_canada :: "ham_band list" where
  "ham_bands_canada =
   [Band 135700 137800,
    Band 472000 479000,
    Band 1800000 2000000,
    Band 3500000 4000000,
    Band 5330500 5406400,
    Band 7000000 7300000,
    Band 10100000 10150000,
    Band 14000000 14350000,
    Band 18068000 18168000,
    Band 21000000 21450000,
    Band 24890000 24990000,
    Band 28000000 29700000,
    Band 50000000 54000000,
    Band 144000000 148000000,
    Band 222000000 225000000,
    Band 430000000 450000000,
    Band 902000000 928000000,
    Band 1240000000 1300000000]"

definition ham_bands_uk :: "ham_band list" where
  "ham_bands_uk =
   [Band 135700 137800,
    Band 472000 479000,
    Band 1810000 2000000,
    Band 3500000 3800000,
    Band 5258500 5406500,
    Band 7000000 7200000,
    Band 10100000 10150000,
    Band 14000000 14350000,
    Band 18068000 18168000,
    Band 21000000 21450000,
    Band 24890000 24990000,
    Band 28000000 29700000,
    Band 50000000 52000000,
    Band 70000000 70500000,
    Band 144000000 146000000,
    Band 430000000 440000000,
    Band 1240000000 1325000000]"

definition ham_bands_germany :: "ham_band list" where
  "ham_bands_germany =
   [Band 135700 137800,
    Band 472000 479000,
    Band 1810000 2000000,
    Band 3500000 3800000,
    Band 5351500 5366500,
    Band 7000000 7200000,
    Band 10100000 10150000,
    Band 14000000 14350000,
    Band 18068000 18168000,
    Band 21000000 21450000,
    Band 24890000 24990000,
    Band 28000000 29700000,
    Band 50000000 52000000,
    Band 144000000 146000000,
    Band 430000000 440000000,
    Band 1240000000 1300000000]"

definition ham_bands_japan :: "ham_band list" where
  "ham_bands_japan =
   [Band 135700 137800,
    Band 472000 479000,
    Band 1800000 1810000,
    Band 1825000 1875000,
    Band 3500000 3580000,
    Band 3662000 3687000,
    Band 3702000 3716000,
    Band 3745000 3770000,
    Band 3791000 3805000,
    Band 7000000 7200000,
    Band 10100000 10150000,
    Band 14000000 14350000,
    Band 18068000 18168000,
    Band 21000000 21450000,
    Band 24890000 24990000,
    Band 28000000 29700000,
    Band 50000000 54000000,
    Band 144000000 146000000,
    Band 430000000 440000000,
    Band 1260000000 1300000000]"

definition ham_bands_australia :: "ham_band list" where
  "ham_bands_australia =
   [Band 135700 137800,
    Band 472000 479000,
    Band 1800000 1875000,
    Band 3500000 3700000,
    Band 3776000 3800000,
    Band 7000000 7300000,
    Band 10100000 10150000,
    Band 14000000 14350000,
    Band 18068000 18168000,
    Band 21000000 21450000,
    Band 24890000 24990000,
    Band 28000000 29700000,
    Band 50000000 54000000,
    Band 144000000 148000000,
    Band 430000000 450000000,
    Band 1240000000 1300000000]"

record ham_region =
  region_name :: string
  region_bands :: "ham_band list"

definition HAM_BANDS_TABLE :: "string \<Rightarrow> ham_band list \<Rightarrow> ham_region" where
  "HAM_BANDS_TABLE nm tbl = \<lparr>region_name = nm, region_bands = tbl\<rparr>"

definition HAM_REGION_COUNT :: nat where
  "HAM_REGION_COUNT = 9"

definition ham_regions :: "ham_region list" where
  "ham_regions =
   [HAM_BANDS_TABLE ''IARU R1'' ham_bands_iaru_r1,
    HAM_BANDS_TABLE ''IARU R2'' ham_bands_iaru_r2,
    HAM_BANDS_TABLE ''IARU R3'' ham_bands_iaru_r3,
    HAM_BANDS_TABLE ''USA'' ham_bands_usa,
    HAM_BANDS_TABLE ''CANADA'' ham_bands_canada,
    HAM_BANDS_TABLE ''UK'' ham_bands_uk,
    HAM_BANDS_TABLE ''GERMANY'' ham_bands_germany,
    HAM_BANDS_TABLE ''JAPAN'' ham_bands_japan,
    HAM_BANDS_TABLE ''AUSTRALIA'' ham_bands_australia]"

definition ham_region_name :: "nat \<Rightarrow> string" where
  "ham_region_name region =
     (if region = 0 \<or> region > HAM_REGION_COUNT then ''OFF'' else region_name (ham_regions ! (region - 1)))"

definition ham_bands_get :: "nat \<Rightarrow> ham_band list option" where
  "ham_bands_get region =
     (if region = 0 \<or> region > HAM_REGION_COUNT then None
      else Some (region_bands (ham_regions ! (region - 1))))"

definition ham_segments_r1 :: "ham_segment list" where
  "ham_segments_r1 =
   [Segment 135700 137400 HAM_SEG_CW,
    Segment 137400 137800 HAM_SEG_DIGI,
    Segment 472000 475000 HAM_SEG_CW,
    Segment 475000 479000 HAM_SEG_DIGI,
    Segment 1810000 1838000 HAM_SEG_CW,
    Segment 1838000 1843000 HAM_SEG_DIGI,
    Segment 1843000 2000000 HAM_SEG_PHONE,
    Segment 3500000 3570000 HAM_SEG_CW,
    Segment 3570000 3600000 HAM_SEG_DIGI,
    Segment 3600000 3800000 HAM_SEG_PHONE,
    Segment 5351500 5354000 HAM_SEG_CW,
    Segment 5354000 5366000 HAM_SEG_PHONE,
    Segment 5366000 5366500 HAM_SEG_DIGI,
    Segment 7000000 7040000 HAM_SEG_CW,
    Segment 7040000 7050000 HAM_SEG_DIGI,
    Segment 7050000 7200000 HAM_SEG_PHONE,
    Segment 10100000 10130000 HAM_SEG_CW,
    Segment 10130000 10150000 HAM_SEG_DIGI,
    Segment 14000000 14070000 HAM_SEG_CW,
    Segment 14070000 14101000 HAM_SEG_DIGI,
    Segment 14101000 14350000 HAM_SEG_PHONE,
    Segment 18068000 18095000 HAM_SEG_CW,
    Segment 18095000 18111000 HAM_SEG_DIGI,
    Segment 18111000 18168000 HAM_SEG_PHONE,
    Segment 21000000 21070000 HAM_SEG_CW,
    Segment 21070000 21151000 HAM_SEG_DIGI,
    Segment 21151000 21450000 HAM_SEG_PHONE,
    Segment 24890000 24915000 HAM_SEG_CW,
    Segment 24915000 24931000 HAM_SEG_DIGI,
    Segment 24931000 24990000 HAM_SEG_PHONE,
    Segment 28000000 28070000 HAM_SEG_CW,
    Segment 28070000 28225000 HAM_SEG_DIGI,
    Segment 28225000 29700000 HAM_SEG_PHONE]"

definition ham_segments_r2 :: "ham_segment list" where
  "ham_segments_r2 =
   [Segment 135700 137400 HAM_SEG_CW,
    Segment 137400 137800 HAM_SEG_DIGI,
    Segment 472000 475000 HAM_SEG_CW,
    Segment 475000 479000 HAM_SEG_DIGI,
    Segment 1800000 1810000 HAM_SEG_DIGI,
    Segment 1810000 1840000 HAM_SEG_CW,
    Segment 1840000 2000000 HAM_SEG_PHONE,
    Segment 3500000 3570000 HAM_SEG_CW,
    Segment 3570000 3600000 HAM_SEG_DIGI,
    Segment 3600000 4000000 HAM_SEG_PHONE,
    Segment 5330500 5406400 HAM_SEG_PHONE,
    Segment 7000000 7040000 HAM_SEG_CW,
    Segment 7040000 7043000 HAM_SEG_DIGI,
    Segment 7043000 7300000 HAM_SEG_PHONE,
    Segment 10100000 10130000 HAM_SEG_CW,
    Segment 10130000 10150000 HAM_SEG_DIGI,
    Segment 14000000 14070000 HAM_SEG_CW,
    Segment 14070000 14101000 HAM_SEG_DIGI,
    Segment 14101000 14350000 HAM_SEG_PHONE,
    Segment 18068000 18095000 HAM_SEG_CW,
    Segment 18095000 18111000 HAM_SEG_DIGI,
    Segment 18111000 18168000 HAM_SEG_PHONE,
    Segment 21000000 21070000 HAM_SEG_CW,
    Segment 21070000 21151000 HAM_SEG_DIGI,
    Segment 21151000 21450000 HAM_SEG_PHONE,
    Segment 24890000 24915000 HAM_SEG_CW,
    Segment 24915000 24931000 HAM_SEG_DIGI,
    Segment 24931000 24990000 HAM_SEG_PHONE,
    Segment 28000000 28070000 HAM_SEG_CW,
    Segment 28070000 28300000 HAM_SEG_DIGI,
    Segment 28300000 29700000 HAM_SEG_PHONE]"

definition ham_segments_r3 :: "ham_segment list" where
  "ham_segments_r3 =
   [Segment 135700 137400 HAM_SEG_CW,
    Segment 137400 137800 HAM_SEG_DIGI,
    Segment 472000 475000 HAM_SEG_CW,
    Segment 475000 479000 HAM_SEG_DIGI,
    Segment 1800000 1838000 HAM_SEG_CW,
    Segment 1838000 1843000 HAM_SEG_DIGI,
    Segment 1843000 2000000 HAM_SEG_PHONE,
    Segment 3500000 3570000 HAM_SEG_CW,
    Segment 3570000 3600000 HAM_SEG_DIGI,
    Segment 3600000 3900000 HAM_SEG_PHONE,
    Segment 5351500 5354000 HAM_SEG_CW,
    Segment 5354000 5366000 HAM_SEG_PHONE,
    Segment 5366000 5366500 HAM_SEG_DIGI,
    Segment 7000000 7025000 HAM_SEG_CW,
    Segment 7025000 7035000 HAM_SEG_DIGI,
    Segment 7035000 7200000 HAM_SEG_PHONE,
    Segment 10100000 10130000 HAM_SEG_CW,
    Segment 10130000 10150000 HAM_SEG_DIGI,
    Segment 14000000 14070000 HAM_SEG_CW,
    Segment 14070000 14101000 HAM_SEG_DIGI,
    Segment 14101000 14350000 HAM_SEG_PHONE,
    Segment 18068000 18095000 HAM_SEG_CW,
    Segment 18095000 18111000 HAM_SEG_DIGI,
    Segment 18111000 18168000 HAM_SEG_PHONE,
    Segment 21000000 21070000 HAM_SEG_CW,
    Segment 21070000 21151000 HAM_SEG_DIGI,
    Segment 21151000 21450000 HAM_SEG_PHONE,
    Segment 24890000 24915000 HAM_SEG_CW,
    Segment 24915000 24931000 HAM_SEG_DIGI,
    Segment 24931000 24990000 HAM_SEG_PHONE,
    Segment 28000000 28070000 HAM_SEG_CW,
    Segment 28070000 28300000 HAM_SEG_DIGI,
    Segment 28300000 29700000 HAM_SEG_PHONE]"

definition ham_region_plan :: "nat list" where
  "ham_region_plan = [1, 2, 3, 2, 2, 1, 1, 3, 3]"

definition ham_seg_tables :: "ham_segment list list" where
  "ham_seg_tables = [ham_segments_r1, ham_segments_r2, ham_segments_r3]"

definition ham_segments_get :: "nat \<Rightarrow> ham_segment list option" where
  "ham_segments_get region =
     (if region = 0 \<or> region > HAM_REGION_COUNT then None
      else Some (ham_seg_tables ! (ham_region_plan ! (region - 1) - 1)))"

subsection \<open>The indicator\<close>

definition WIDTH :: int where "WIDTH = 455"

definition HEIGHT :: int where "HEIGHT = 304"

definition CELLOFFSETX :: int where "CELLOFFSETX = 5"

definition CELLWIDTH :: int where "CELLWIDTH = 32"

definition CELLHEIGHT :: int where "CELLHEIGHT = 32"

fun ham_seg_colors :: "ham_seg_type \<Rightarrow> u16" where
  "ham_seg_colors HAM_SEG_CW = ucast (RGB565 255 96 0)"
| "ham_seg_colors HAM_SEG_DIGI = ucast (RGB565 0 160 255)"
| "ham_seg_colors HAM_SEG_PHONE = ucast (RGB565 0 200 0)"

type_synonym cell = "u16 list"

definition put_pixel :: "int \<Rightarrow> u16 \<Rightarrow> cell \<Rightarrow> cell option" where
  "put_pixel i c buf = (if 0 \<le> i \<and> nat i < length buf then Some (buf[nat i := c]) else None)"

function fill_x :: "int \<Rightarrow> int \<Rightarrow> int \<Rightarrow> u16 \<Rightarrow> cell \<Rightarrow> cell option" where
  "fill_x y x xe c buf =
     (if x \<le> xe then Option.bind (put_pixel (y * CELLWIDTH + x) c buf) (fill_x y (x + 1) xe c)
      else Some buf)"
  by pat_completeness auto
termination
  by (relation "measure (\<lambda>(y, x, xe, c, buf). nat (xe + 1 - x))") auto

function fill_y :: "int \<Rightarrow> int \<Rightarrow> int \<Rightarrow> int \<Rightarrow> u16 \<Rightarrow> cell \<Rightarrow> cell option" where
  "fill_y y y_bottom xs xe c buf =
     (if y \<le> y_bottom then Option.bind (fill_x y xs xe c buf) (fill_y (y + 1) y_bottom xs xe c)
      else Some buf)"
  by pat_completeness auto
termination
  by (relation "measure (\<lambda>(y, yb, xs, xe, c, buf). nat (yb + 1 - y))") auto

declare fill_x.simps [simp del] fill_y.simps [simp del]

definition freq_to_x :: "int \<Rightarrow> int \<Rightarrow> int \<Rightarrow> int \<Rightarrow> int" where
  "freq_to_x fstart fspan x0 f = (f - fstart) * WIDTH div fspan + CELLOFFSETX - x0"

fun seg_loop ::
  "ham_segment list \<Rightarrow> int \<Rightarrow> int \<Rightarrow> int \<Rightarrow> int \<Rightarrow> int \<Rightarrow> int \<Rightarrow> int \<Rightarrow> int \<Rightarrow> cell \<Rightarrow> cell option" where
  "seg_loop [] fstart fspan bs be x0 w y_top y_bottom buf = Some buf"
| "seg_loop (s # segs) fstart fspan bs be x0 w y_top y_bottom buf =
    (let ss = seg_start s; se = seg_end s in
     if se < bs then seg_loop segs fstart fspan bs be x0 w y_top y_bottom buf
     else if ss > be then Some buf
     else
       let ss = (if ss < bs then bs else ss);
           se = (if se > be then be else se);
           sxs = freq_to_x fstart fspan x0 ss;
           sxe = freq_to_x fstart fspan x0 se;
           sxs = (if sxs < 0 then 0 else sxs);
           sxe = (if sxe > w - 1 then w - 1 else sxe) in
       if sxs > sxe then seg_loop segs fstart fspan bs be x0 w y_top y_bottom buf
       else Option.bind (fill_y y_top y_bottom sxs sxe (ham_seg_colors (seg_type s)) buf)
              (seg_loop segs fstart fspan bs be x0 w y_top y_bottom))"

fun band_loop ::
  "ham_band list \<Rightarrow> ham_segment list \<Rightarrow> u16 \<Rightarrow> int \<Rightarrow> int \<Rightarrow> int \<Rightarrow> int \<Rightarrow> int \<Rightarrow> int \<Rightarrow> cell \<Rightarrow> cell option" where
  "band_loop [] segs color fstart fstop x0 w y_top y_bottom buf = Some buf"
| "band_loop (b # bands) segs color fstart fstop x0 w y_top y_bottom buf =
    (let bs = band_start b; be = band_end b; fspan = fstop - fstart in
     if be < fstart then band_loop bands segs color fstart fstop x0 w y_top y_bottom buf
     else if bs > fstop then Some buf
     else
       let bs = (if bs < fstart then fstart else bs);
           be = (if be > fstop then fstop else be);
           xs = freq_to_x fstart fspan x0 bs;
           xe = freq_to_x fstart fspan x0 be;
           xs = (if xs < 0 then 0 else xs);
           xe = (if xe > w - 1 then w - 1 else xe) in
       if xs > xe then band_loop bands segs color fstart fstop x0 w y_top y_bottom buf
       else Option.bind (fill_y y_top y_bottom xs xe color buf) (\<lambda>buf.
            Option.bind (seg_loop segs fstart fspan bs be x0 w y_top y_bottom buf)
              (band_loop bands segs color fstart fstop x0 w y_top y_bottom)))"

definition cell_draw_ham_bands ::
  "nat \<Rightarrow> bool \<Rightarrow> int \<Rightarrow> int \<Rightarrow> u16 \<Rightarrow> int \<Rightarrow> int \<Rightarrow> int \<Rightarrow> int \<Rightarrow> cell \<Rightarrow> cell option" where
  "cell_draw_ham_bands ham_region domain_freq fstart fstop color x0 y0 w h buf =
    (case ham_bands_get ham_region of
       None \<Rightarrow> Some buf
     | Some bands \<Rightarrow>
       if \<not> domain_freq then Some buf
       else
         let y_top = HEIGHT - 1 - y0; y_bottom = HEIGHT - y0 in
         if y_bottom < 0 \<or> y_top \<ge> h then Some buf
         else
           let y_top = (if y_top < 0 then 0 else y_top);
               y_bottom = (if y_bottom > h - 1 then h - 1 else y_bottom) in
           if fstart \<ge> fstop then Some buf
           else case ham_segments_get ham_region of
                  None \<Rightarrow> None
                | Some segs \<Rightarrow> band_loop bands segs color fstart fstop x0 w y_top y_bottom buf)"

subsection \<open>Order of the tables\<close>

text \<open>
  The renderer stops at the first entry past the right edge.  That is sound because every table is
  ascending, which is checked here by evaluation over the tables themselves.
\<close>

fun ascending :: "('a \<Rightarrow> int) \<Rightarrow> ('a \<Rightarrow> int) \<Rightarrow> int \<Rightarrow> 'a list \<Rightarrow> bool" where
  "ascending s e lo [] \<longleftrightarrow> True"
| "ascending s e lo (b # bs) \<longleftrightarrow> lo \<le> s b \<and> s b < e b \<and> ascending s e (e b) bs"

lemma ascending_lower: "ascending s e lo bs \<Longrightarrow> b \<in> set bs \<Longrightarrow> lo \<le> s b"
  by (induction bs arbitrary: lo) (auto, force)

lemma ascending_sorted_wrt: "ascending s e lo bs \<Longrightarrow> sorted_wrt (\<lambda>a b. e a \<le> s b) bs"
  by (induction bs arbitrary: lo) (auto intro: ascending_lower)

lemma ascending_nonempty: "ascending s e lo bs \<Longrightarrow> b \<in> set bs \<Longrightarrow> s b < e b"
  by (induction bs arbitrary: lo) auto

abbreviation bands_ascending :: "ham_band list \<Rightarrow> bool" where
  "bands_ascending \<equiv> ascending band_start band_end 0"

abbreviation segs_ascending :: "ham_segment list \<Rightarrow> bool" where
  "segs_ascending \<equiv> ascending seg_start seg_end 0"

lemmas ham_tables =
  ham_bands_iaru_r1_def ham_bands_iaru_r2_def ham_bands_iaru_r3_def ham_bands_usa_def
  ham_bands_canada_def ham_bands_uk_def ham_bands_germany_def ham_bands_japan_def
  ham_bands_australia_def

lemmas ham_seg_tabs = ham_segments_r1_def ham_segments_r2_def ham_segments_r3_def

lemma ham_region_tables_ascending: "list_all (bands_ascending \<circ> region_bands) ham_regions"
  by (simp add: ham_regions_def HAM_BANDS_TABLE_def ham_tables)

lemma ham_seg_tables_ascending: "list_all segs_ascending ham_seg_tables"
  by (simp add: ham_seg_tables_def ham_seg_tabs)

lemma ham_bands_get_ascending:
  assumes "ham_bands_get region = Some bands"
  shows "bands_ascending bands"
  using assms ham_region_tables_ascending
  by (auto simp: ham_bands_get_def list_all_length HAM_REGION_COUNT_def ham_regions_def split: if_splits)

lemma ham_region_plan_range: "region \<in> {1..9} \<Longrightarrow> ham_region_plan ! (region - 1) - 1 < 3"
proof -
  have "list_all (\<lambda>p. p - 1 < 3) ham_region_plan" by (simp add: ham_region_plan_def)
  then show "region \<in> {1..9} \<Longrightarrow> ham_region_plan ! (region - 1) - 1 < 3"
    by (auto simp: list_all_length ham_region_plan_def)
qed

lemma ham_segments_get_ascending:
  assumes "ham_segments_get region = Some segs"
  shows "segs_ascending segs"
  using assms ham_seg_tables_ascending ham_region_plan_range [of region]
  by (auto simp: ham_segments_get_def list_all_length HAM_REGION_COUNT_def ham_seg_tables_def split: if_splits)

lemma ham_segments_get_total: "ham_bands_get r = None \<longleftrightarrow> ham_segments_get r = None"
  by (simp add: ham_bands_get_def ham_segments_get_def)

subsection \<open>Specification by screen column\<close>

text \<open>
  What the indicator is meant to show is a colour per screen column, whatever cell is being drawn:
  every band of the region that meets the sweep paints its columns, and inside it every segment
  of the plan repaints its own.  The specification looks at all table entries.
\<close>

definition freq_column :: "int \<Rightarrow> int \<Rightarrow> int \<Rightarrow> int" where
  "freq_column fstart fstop f = (f - fstart) * WIDTH div (fstop - fstart) + CELLOFFSETX"

definition covers :: "int \<Rightarrow> int \<Rightarrow> int \<Rightarrow> int \<Rightarrow> int \<Rightarrow> int \<Rightarrow> int \<Rightarrow> bool" where
  "covers fstart fstop lo hi s e X \<longleftrightarrow> lo \<le> e \<and> s \<le> hi \<and>
     freq_column fstart fstop (max s lo) \<le> X \<and> X \<le> freq_column fstart fstop (min e hi)"

definition seg_column :: "int \<Rightarrow> int \<Rightarrow> int \<Rightarrow> int \<Rightarrow> ham_segment list \<Rightarrow> int \<Rightarrow> u16 \<Rightarrow> u16" where
  "seg_column fstart fstop bs be segs X =
     fold (\<lambda>s c. if covers fstart fstop bs be (seg_start s) (seg_end s) X
                 then ham_seg_colors (seg_type s) else c) segs"

definition band_column ::
  "int \<Rightarrow> int \<Rightarrow> u16 \<Rightarrow> ham_band list \<Rightarrow> ham_segment list \<Rightarrow> int \<Rightarrow> u16 \<Rightarrow> u16" where
  "band_column fstart fstop color bands segs X =
     fold (\<lambda>b c. if covers fstart fstop fstart fstop (band_start b) (band_end b) X
                 then seg_column fstart fstop (max (band_start b) fstart) (min (band_end b) fstop) segs X color
                 else c) bands"

definition depicts :: "cell \<Rightarrow> (int \<Rightarrow> int \<Rightarrow> u16) \<Rightarrow> bool" where
  "depicts buf f \<longleftrightarrow> length buf = nat (CELLWIDTH * CELLHEIGHT) \<and>
     (\<forall>x y. 0 \<le> x \<and> x < CELLWIDTH \<and> 0 \<le> y \<and> y < CELLHEIGHT \<longrightarrow> buf ! nat (y * CELLWIDTH + x) = f x y)"

lemma cell_index_inj:
  assumes "0 \<le> x" "x < CELLWIDTH" "0 \<le> x'" "x' < CELLWIDTH" "0 \<le> y" "0 \<le> y'"
  shows "nat (y * CELLWIDTH + x) = nat (y' * CELLWIDTH + x') \<longleftrightarrow> x = x' \<and> y = y'"
proof -
  have "x = (y * CELLWIDTH + x) mod CELLWIDTH" "y = (y * CELLWIDTH + x) div CELLWIDTH"
    "x' = (y' * CELLWIDTH + x') mod CELLWIDTH" "y' = (y' * CELLWIDTH + x') div CELLWIDTH"
    using assms by (simp_all add: CELLWIDTH_def)
  moreover have "0 \<le> y * CELLWIDTH + x" "0 \<le> y' * CELLWIDTH + x'"
    using assms by (simp_all add: CELLWIDTH_def)
  ultimately show ?thesis by (metis eq_nat_nat_iff)
qed

lemma put_pixel_depicts:
  assumes "depicts buf f" "0 \<le> x" "x < CELLWIDTH" "0 \<le> y" "y < CELLHEIGHT"
  shows "\<exists>buf'. put_pixel (y * CELLWIDTH + x) c buf = Some buf' \<and>
           depicts buf' (\<lambda>x' y'. if x' = x \<and> y' = y then c else f x' y')"
proof -
  have r: "0 \<le> y * CELLWIDTH + x" "y * CELLWIDTH + x < CELLWIDTH * CELLHEIGHT"
    using assms by (auto simp: CELLWIDTH_def CELLHEIGHT_def)
  have l: "nat (y * CELLWIDTH + x) < length buf"
    using r assms(1) by (simp add: depicts_def nat_less_iff)
  have "depicts (buf[nat (y * CELLWIDTH + x) := c]) (\<lambda>x' y'. if x' = x \<and> y' = y then c else f x' y')"
    using assms l cell_index_inj [of x _ y] by (auto simp: depicts_def nth_list_update)
  then show ?thesis using r l by (simp add: put_pixel_def)
qed

lemma fill_x_depicts:
  assumes "depicts buf f" "0 \<le> x" "xe < CELLWIDTH" "0 \<le> y" "y < CELLHEIGHT"
  shows "\<exists>buf'. fill_x y x xe c buf = Some buf' \<and>
           depicts buf' (\<lambda>x' y'. if x \<le> x' \<and> x' \<le> xe \<and> y' = y then c else f x' y')"
  using assms
proof (induction y x xe c buf arbitrary: f rule: fill_x.induct)
  case (1 y x xe c buf)
  show ?case
  proof (cases "x \<le> xe")
    case True
    obtain b1 where b1: "put_pixel (y * CELLWIDTH + x) c buf = Some b1"
      "depicts b1 (\<lambda>x' y'. if x' = x \<and> y' = y then c else f x' y')"
      using put_pixel_depicts [OF 1(2)] 1 True by (meson order.strict_trans1)
    from 1(1) [OF True b1] 1 obtain b2 where b2: "fill_x y (x + 1) xe c b1 = Some b2"
      "depicts b2 (\<lambda>x' y'. if x + 1 \<le> x' \<and> x' \<le> xe \<and> y' = y then c
                  else if x' = x \<and> y' = y then c else f x' y')" by auto
    have "(\<lambda>x' y'. if x + 1 \<le> x' \<and> x' \<le> xe \<and> y' = y then c else if x' = x \<and> y' = y then c else f x' y') =
          (\<lambda>x' y'. if x \<le> x' \<and> x' \<le> xe \<and> y' = y then c else f x' y')"
      using True by (intro ext) auto
    then show ?thesis using b1 b2 True by (subst fill_x.simps) simp
  next
    case False
    then have "(\<lambda>x' y'. if x \<le> x' \<and> x' \<le> xe \<and> y' = y then c else f x' y') = f" by (intro ext) auto
    then show ?thesis using False 1(2) by (subst fill_x.simps) simp
  qed
qed

lemma fill_y_depicts:
  assumes "depicts buf f" "0 \<le> xs" "xe < CELLWIDTH" "0 \<le> y" "yb < CELLHEIGHT"
  shows "\<exists>buf'. fill_y y yb xs xe c buf = Some buf' \<and>
           depicts buf' (\<lambda>x' y'. if xs \<le> x' \<and> x' \<le> xe \<and> y \<le> y' \<and> y' \<le> yb then c else f x' y')"
  using assms
proof (induction y yb xs xe c buf arbitrary: f rule: fill_y.induct)
  case (1 y yb xs xe c buf)
  show ?case
  proof (cases "y \<le> yb")
    case True
    obtain b1 where b1: "fill_x y xs xe c buf = Some b1"
      "depicts b1 (\<lambda>x' y'. if xs \<le> x' \<and> x' \<le> xe \<and> y' = y then c else f x' y')"
      using fill_x_depicts [OF 1(2)] 1 True by (meson order.strict_trans1)
    from 1(1) [OF True b1] 1 obtain b2 where b2: "fill_y (y + 1) yb xs xe c b1 = Some b2"
      "depicts b2 (\<lambda>x' y'. if xs \<le> x' \<and> x' \<le> xe \<and> y + 1 \<le> y' \<and> y' \<le> yb then c
                  else if xs \<le> x' \<and> x' \<le> xe \<and> y' = y then c else f x' y')" by auto
    have "(\<lambda>x' y'. if xs \<le> x' \<and> x' \<le> xe \<and> y + 1 \<le> y' \<and> y' \<le> yb then c
                  else if xs \<le> x' \<and> x' \<le> xe \<and> y' = y then c else f x' y') =
          (\<lambda>x' y'. if xs \<le> x' \<and> x' \<le> xe \<and> y \<le> y' \<and> y' \<le> yb then c else f x' y')"
      using True by (intro ext) auto
    then show ?thesis using b1 b2 True by (subst fill_y.simps) simp
  next
    case False
    then have "(\<lambda>x' y'. if xs \<le> x' \<and> x' \<le> xe \<and> y \<le> y' \<and> y' \<le> yb then c else f x' y') = f"
      by (intro ext) auto
    then show ?thesis using False 1(2) by (subst fill_y.simps) simp
  qed
qed

lemma freq_to_x_column: "freq_to_x fstart (fstop - fstart) x0 f = freq_column fstart fstop f - x0"
  by (simp add: freq_to_x_def freq_column_def)

lemma freq_column_mono: "fstart < fstop \<Longrightarrow> f \<le> g \<Longrightarrow> freq_column fstart fstop f \<le> freq_column fstart fstop g"
  by (simp add: freq_column_def WIDTH_def zdiv_mono1)

text \<open>The cell overlay: inside the visible part of the bar rows a column function applies.\<close>

definition bar_overlay ::
  "int \<Rightarrow> int \<Rightarrow> int \<Rightarrow> int \<Rightarrow> (int \<Rightarrow> u16 \<Rightarrow> u16) \<Rightarrow> (int \<Rightarrow> int \<Rightarrow> u16) \<Rightarrow> int \<Rightarrow> int \<Rightarrow> u16" where
  "bar_overlay x0 w yt yb g f x y = (if 0 \<le> x \<and> x < w \<and> yt \<le> y \<and> y \<le> yb then g (x0 + x) (f x y) else f x y)"

lemma depicts_cong:
  assumes "depicts buf f" and "\<And>x y. 0 \<le> x \<Longrightarrow> x < CELLWIDTH \<Longrightarrow> f x y = g x y"
  shows "depicts buf g"
  using assms by (auto simp: depicts_def)

lemma seg_column_past:
  assumes "ascending seg_start seg_end lo segs" "be < lo"
  shows "seg_column fstart fstop bs be segs X c = c"
proof -
  have "\<not> covers fstart fstop bs be (seg_start s) (seg_end s) X" if "s \<in> set segs" for s
    using ascending_lower [OF assms(1) that] assms(2) by (auto simp: covers_def)
  then show ?thesis unfolding seg_column_def by (induction segs) auto
qed

lemma seg_loop_depicts:
  assumes "depicts buf f" "ascending seg_start seg_end lo segs" "fstart < fstop"
    and "0 \<le> yt" "yb < CELLHEIGHT" "w \<le> CELLWIDTH"
  shows "\<exists>buf'. seg_loop segs fstart (fstop - fstart) bs be x0 w yt yb buf = Some buf' \<and>
           depicts buf' (bar_overlay x0 w yt yb (seg_column fstart fstop bs be segs) f)"
  using assms
proof (induction segs arbitrary: buf f lo)
  case Nil
  then show ?case by (auto simp: seg_column_def bar_overlay_def intro: depicts_cong)
next
  case (Cons s segs)
  let ?cov = "covers fstart fstop bs be (seg_start s) (seg_end s)"
  let ?g = "\<lambda>X c. if ?cov X then ham_seg_colors (seg_type s) else c"
  have step: "bar_overlay x0 w yt yb (seg_column fstart fstop bs be (s # segs)) f =
              bar_overlay x0 w yt yb (seg_column fstart fstop bs be segs) (bar_overlay x0 w yt yb ?g f)"
    by (intro ext) (simp add: bar_overlay_def seg_column_def)
  have asc: "ascending seg_start seg_end (seg_end s) segs" using Cons.prems(2) by simp
  have none: "bar_overlay x0 w yt yb ?g f = f" if "\<And>X. 0 \<le> X - x0 \<Longrightarrow> X - x0 < w \<Longrightarrow> \<not> ?cov X"
    using that by (intro ext) (simp add: bar_overlay_def)
  let ?xs = "max (freq_column fstart fstop (max (seg_start s) bs) - x0) 0"
  let ?xe = "min (freq_column fstart fstop (min (seg_end s) be) - x0) (w - 1)"
  consider (skip) "seg_end s < bs" | (past) "bs \<le> seg_end s" "be < seg_start s"
    | (hidden) "bs \<le> seg_end s" "seg_start s \<le> be" "?xe < ?xs"
    | (draw) "bs \<le> seg_end s" "seg_start s \<le> be" "?xs \<le> ?xe" by linarith
  then show ?case
  proof cases
    case skip
    then have "bar_overlay x0 w yt yb ?g f = f" by (intro none) (simp add: covers_def)
    then show ?thesis using Cons.IH [OF Cons.prems(1) asc] Cons.prems skip step by simp
  next
    case past
    have "be < seg_end s" using past Cons.prems(2) by simp
    then have "bar_overlay x0 w yt yb (seg_column fstart fstop bs be (s # segs)) f = f"
      using past seg_column_past [OF asc] unfolding step
      by (intro ext) (simp add: bar_overlay_def covers_def)
    then show ?thesis using past Cons.prems(1) by simp
  next
    case hidden
    then have "bar_overlay x0 w yt yb ?g f = f" by (intro none) (auto simp: covers_def)
    moreover have "seg_loop (s # segs) fstart (fstop - fstart) bs be x0 w yt yb buf =
        seg_loop segs fstart (fstop - fstart) bs be x0 w yt yb buf"
      using hidden by (simp add: Let_def freq_to_x_column clip_lo clip_hi del: max_less_iff_conj min_less_iff_conj max.bounded_iff min.bounded_iff)
    ultimately show ?thesis using Cons.IH [OF Cons.prems(1) asc] Cons.prems step by simp
  next
    case draw
    obtain b1 where b1: "fill_y yt yb ?xs ?xe (ham_seg_colors (seg_type s)) buf = Some b1"
      "depicts b1 (\<lambda>x' y'. if ?xs \<le> x' \<and> x' \<le> ?xe \<and> yt \<le> y' \<and> y' \<le> yb
                    then ham_seg_colors (seg_type s) else f x' y')"
      using fill_y_depicts [OF Cons.prems(1), of ?xs ?xe yt yb] Cons.prems by fastforce
    have b1': "depicts b1 (bar_overlay x0 w yt yb ?g f)"
      using draw by (intro depicts_cong [OF b1(2)]) (auto simp: bar_overlay_def covers_def)
    have "seg_loop (s # segs) fstart (fstop - fstart) bs be x0 w yt yb buf =
        seg_loop segs fstart (fstop - fstart) bs be x0 w yt yb b1"
      using draw b1(1) by (simp add: Let_def freq_to_x_column clip_lo clip_hi del: max_less_iff_conj min_less_iff_conj max.bounded_iff min.bounded_iff)
    then show ?thesis using Cons.IH [OF b1' asc] Cons.prems step by simp
  qed
qed

lemma band_column_past:
  assumes "ascending band_start band_end lo bands" "fstop < lo"
  shows "band_column fstart fstop color bands segs X c = c"
proof -
  have "\<not> covers fstart fstop fstart fstop (band_start b) (band_end b) X" if "b \<in> set bands" for b
    using ascending_lower [OF assms(1) that] assms(2) by (auto simp: covers_def)
  then show ?thesis unfolding band_column_def by (induction bands) auto
qed

lemma seg_column_outside:
  assumes "fstart < fstop"
    and "\<not> (freq_column fstart fstop bs \<le> X \<and> X \<le> freq_column fstart fstop be)"
  shows "seg_column fstart fstop bs be segs X c = c"
proof -
  have "\<not> covers fstart fstop bs be s e X" for s e
    using freq_column_mono [OF assms(1), of bs "max s bs"] freq_column_mono [OF assms(1), of "min e be" be]
      assms(2) by (fastforce simp: covers_def)
  then show ?thesis unfolding seg_column_def by (induction segs) auto
qed

lemma band_loop_depicts:
  assumes "depicts buf f" "ascending band_start band_end lo bands" "segs_ascending segs" "fstart < fstop"
    and "0 \<le> yt" "yb < CELLHEIGHT" "w \<le> CELLWIDTH"
  shows "\<exists>buf'. band_loop bands segs color fstart fstop x0 w yt yb buf = Some buf' \<and>
           depicts buf' (bar_overlay x0 w yt yb (band_column fstart fstop color bands segs) f)"
  using assms
proof (induction bands arbitrary: buf f lo)
  case Nil
  then show ?case by (auto simp: band_column_def bar_overlay_def intro: depicts_cong)
next
  case (Cons b bands)
  let ?bs = "max (band_start b) fstart" and ?be = "min (band_end b) fstop"
  let ?cov = "covers fstart fstop fstart fstop (band_start b) (band_end b)"
  let ?seg = "seg_column fstart fstop ?bs ?be segs"
  let ?g = "\<lambda>X c. if ?cov X then ?seg X color else c"
  have step: "bar_overlay x0 w yt yb (band_column fstart fstop color (b # bands) segs) f =
              bar_overlay x0 w yt yb (band_column fstart fstop color bands segs) (bar_overlay x0 w yt yb ?g f)"
    by (intro ext) (simp add: bar_overlay_def band_column_def)
  have asc: "ascending band_start band_end (band_end b) bands" using Cons.prems(2) by simp
  have none: "bar_overlay x0 w yt yb ?g f = f" if "\<And>X. 0 \<le> X - x0 \<Longrightarrow> X - x0 < w \<Longrightarrow> \<not> ?cov X"
    using that by (intro ext) (simp add: bar_overlay_def)
  let ?xs = "max (freq_column fstart fstop ?bs - x0) 0"
  let ?xe = "min (freq_column fstart fstop ?be - x0) (w - 1)"
  consider (skip) "band_end b < fstart" | (past) "fstart \<le> band_end b" "fstop < band_start b"
    | (hidden) "fstart \<le> band_end b" "band_start b \<le> fstop" "?xe < ?xs"
    | (draw) "fstart \<le> band_end b" "band_start b \<le> fstop" "?xs \<le> ?xe" by linarith
  then show ?case
  proof cases
    case skip
    then have "bar_overlay x0 w yt yb ?g f = f" by (intro none) (simp add: covers_def)
    then show ?thesis using Cons.IH [OF Cons.prems(1) asc] Cons.prems skip step by simp
  next
    case past
    have "fstop < band_end b" using past Cons.prems(2) by simp
    then have "bar_overlay x0 w yt yb (band_column fstart fstop color (b # bands) segs) f = f"
      using past band_column_past [OF asc] unfolding step
      by (intro ext) (simp add: bar_overlay_def covers_def)
    then show ?thesis using past Cons.prems(1) by simp
  next
    case hidden
    then have "bar_overlay x0 w yt yb ?g f = f" by (intro none) (auto simp: covers_def)
    moreover have "band_loop (b # bands) segs color fstart fstop x0 w yt yb buf =
        band_loop bands segs color fstart fstop x0 w yt yb buf"
      using hidden by (simp add: Let_def freq_to_x_column clip_lo clip_hi del: max_less_iff_conj min_less_iff_conj max.bounded_iff min.bounded_iff)
    ultimately show ?thesis using Cons.IH [OF Cons.prems(1) asc] Cons.prems step by simp
  next
    case draw
    obtain b1 where b1: "fill_y yt yb ?xs ?xe color buf = Some b1"
      "depicts b1 (\<lambda>x' y'. if ?xs \<le> x' \<and> x' \<le> ?xe \<and> yt \<le> y' \<and> y' \<le> yb then color else f x' y')"
      using fill_y_depicts [OF Cons.prems(1), of ?xs ?xe yt yb] Cons.prems by fastforce
    obtain b2 where b2: "seg_loop segs fstart (fstop - fstart) ?bs ?be x0 w yt yb b1 = Some b2"
      "depicts b2 (bar_overlay x0 w yt yb ?seg
         (\<lambda>x' y'. if ?xs \<le> x' \<and> x' \<le> ?xe \<and> yt \<le> y' \<and> y' \<le> yb then color else f x' y'))"
      using seg_loop_depicts [OF b1(2)] Cons.prems by blast
    have b2': "depicts b2 (bar_overlay x0 w yt yb ?g f)"
      using draw seg_column_outside [OF \<open>fstart < fstop\<close>, of ?bs _ ?be]
      by (intro depicts_cong [OF b2(2)]) (auto simp: bar_overlay_def covers_def)
    have "band_loop (b # bands) segs color fstart fstop x0 w yt yb buf =
        band_loop bands segs color fstart fstop x0 w yt yb b2"
      using draw b1(1) b2(1)
      by (simp add: Let_def freq_to_x_column clip_lo clip_hi del: max_less_iff_conj min_less_iff_conj max.bounded_iff min.bounded_iff)
    then show ?thesis using Cons.IH [OF b2' asc] Cons.prems step by simp
  qed
qed

subsection \<open>Properties\<close>

text \<open>C25: Drawing the band indicator never writes outside the cell buffer, and what it leaves there
  is the specification by screen column: on the two bottom grid rows each visible pixel of column
  X gets the colour that all bands of the region and all segments of its plan give to X, although
  the loops stop at the first table entry past the sweep; every other pixel is unchanged.\<close>
theorem cell_draw_ham_bands_correct:
  assumes "ham_bands_get region = Some bands" "ham_segments_get region = Some segs"
    and "depicts buf f" "fstart < fstop" "0 \<le> w" "w \<le> CELLWIDTH" "0 \<le> h" "h \<le> CELLHEIGHT"
  shows "\<exists>buf'. cell_draw_ham_bands region True fstart fstop color x0 y0 w h buf = Some buf' \<and>
    depicts buf' (\<lambda>x y. if x < w \<and> y < h \<and> y0 + y \<in> {HEIGHT - 1, HEIGHT}
      then band_column fstart fstop color bands segs (x0 + x) (f x y) else f x y)"
proof -
  let ?yt = "max (HEIGHT - 1 - y0) 0" and ?yb = "min (HEIGHT - y0) (h - 1)"
  let ?g = "band_column fstart fstop color bands segs"
  let ?spec = "\<lambda>x y. if x < w \<and> y < h \<and> y0 + y \<in> {HEIGHT - 1, HEIGHT} then ?g (x0 + x) (f x y) else f x y"
  have segs: "segs_ascending segs" and bands: "bands_ascending bands"
    using assms(1,2) by (auto dest: ham_segments_get_ascending ham_bands_get_ascending)
  show ?thesis
  proof (cases "HEIGHT - y0 < 0 \<or> HEIGHT - 1 - y0 \<ge> h")
    case True
    then have "depicts buf ?spec" using assms(3) by (auto simp: depicts_def)
    then show ?thesis using True assms(1,2) by (simp add: cell_draw_ham_bands_def)
  next
    case False
    obtain buf' where buf': "band_loop bands segs color fstart fstop x0 w ?yt ?yb buf = Some buf'"
      "depicts buf' (bar_overlay x0 w ?yt ?yb ?g f)"
      using band_loop_depicts [OF assms(3) bands segs assms(4), of ?yt ?yb w] assms(6,8) by fastforce
    have "depicts buf' ?spec"
      using buf'(2) by (auto simp: depicts_def bar_overlay_def)
    moreover have "cell_draw_ham_bands region True fstart fstop color x0 y0 w h buf = Some buf'"
      using False assms(1,2,4) buf'(1) unfolding cell_draw_ham_bands_def Let_def clip_lo clip_hi by simp
    ultimately show ?thesis by blast
  qed
qed

theorem cell_draw_ham_bands_correct_witness:
  "\<exists>buf'. cell_draw_ham_bands 4 True 7000000 7300000 7 0 288 32 32 (replicate 1024 0) = Some buf' \<and>
    depicts buf' (\<lambda>x y. if x < 32 \<and> y < 32 \<and> 288 + y \<in> {HEIGHT - 1, HEIGHT}
      then band_column 7000000 7300000 7 ham_bands_usa ham_segments_r2 (0 + x) 0 else 0)"
proof -
  have "depicts (replicate 1024 0) (\<lambda>x y. 0)"
    by (auto simp: depicts_def CELLWIDTH_def CELLHEIGHT_def nat_less_iff)
  moreover have "ham_bands_get 4 = Some ham_bands_usa" "ham_segments_get 4 = Some ham_segments_r2"
    by (simp_all add: ham_bands_get_def ham_segments_get_def HAM_REGION_COUNT_def ham_regions_def
        HAM_BANDS_TABLE_def ham_seg_tables_def ham_region_plan_def)
  ultimately show ?thesis
    by (intro cell_draw_ham_bands_correct [where f = "\<lambda>x y. 0"]) (simp_all add: CELLWIDTH_def CELLHEIGHT_def)
qed

text \<open>The band plans themselves: for every region setting the lookup of bands and of segments
  succeeds exactly for regions 1 to 9, and then both tables are ascending, free of overlaps and
  free of empty entries, which is what the early exits of the drawing loops rely on.\<close>
theorem ham_tables_sorted:
  "case ham_bands_get region of
     None \<Rightarrow> \<not> (1 \<le> region \<and> region \<le> 9) \<and> ham_segments_get region = None \<and> ham_region_name region = ''OFF''
   | Some bands \<Rightarrow> 1 \<le> region \<and> region \<le> 9 \<and> ham_region_name region \<noteq> ''OFF'' \<and>
       sorted_wrt (\<lambda>a b. band_end a \<le> band_start b) bands \<and> list_all (\<lambda>b. band_start b < band_end b) bands \<and>
       (case ham_segments_get region of None \<Rightarrow> False
        | Some segs \<Rightarrow> sorted_wrt (\<lambda>a b. seg_end a \<le> seg_start b) segs \<and>
            list_all (\<lambda>s. seg_start s < seg_end s) segs)"
proof (cases "1 \<le> region \<and> region \<le> 9")
  case True
  then obtain bands segs where g: "ham_bands_get region = Some bands" "ham_segments_get region = Some segs"
    by (auto simp: ham_bands_get_def ham_segments_get_def HAM_REGION_COUNT_def)
  have "list_all (\<lambda>r. region_name r \<noteq> ''OFF'') ham_regions"
    by (simp add: ham_regions_def HAM_BANDS_TABLE_def)
  then have "ham_region_name region \<noteq> ''OFF''"
    using True by (auto simp: ham_region_name_def HAM_REGION_COUNT_def list_all_length ham_regions_def)
  then show ?thesis
    using True g ham_bands_get_ascending [OF g(1)] ham_segments_get_ascending [OF g(2)]
    by (auto simp: list_all_iff intro: ascending_sorted_wrt ascending_nonempty)
next
  case False
  then show ?thesis
    by (auto simp: ham_bands_get_def ham_segments_get_def ham_region_name_def HAM_REGION_COUNT_def)
qed

end
