(* ===== verification/Coax.thy ===== *)
theory Coax
  imports Complex_Main Prelude
begin

text \<open>
  The matched-loss table of \<^verbatim>\<open>vna_modules/vna_coax.c\<close>.  Floats are real numbers and
  \<^verbatim>\<open>vna_sqrtf\<close> is the real square root.  The search for the table row is a while loop without
  a bound of its own: reading past the table is the value None.
\<close>

definition COAX_FREQS :: nat where "COAX_FREQS = 7"

definition COAX_TYPES :: nat where "COAX_TYPES = 5"

definition coax_freq_10khz :: "real list" where
  "coax_freq_10khz = [180, 360, 710, 1420, 2120, 2840, 5010]"

definition coax_name :: "string list" where
  "coax_name = [''MANUAL'', ''LMR-400'', ''RG-213'', ''RG-8X'', ''RG-58'', ''RG-174/316'']"

definition coax_loss_100m :: "real list list" where
  "coax_loss_100m =
   [[ 52,  75, 105,  151,  184,  213,  285],
    [ 82, 121, 180,  246,  328,  394,  525],
    [161, 223, 328,  459,  558,  623,  820],
    [184, 269, 394,  558,  656,  787, 1050],
    [361, 492, 689, 1017, 1247, 1444, 1936]]"

definition coax_type_name :: "nat \<Rightarrow> string" where
  "coax_type_name type = coax_name ! (if type \<le> COAX_TYPES then type else 0)"

function coax_seek :: "real \<Rightarrow> nat \<Rightarrow> nat option" where
  "coax_seek f i =
     (if i < COAX_FREQS then if f > coax_freq_10khz ! i then coax_seek f (i + 1) else Some i
      else None)"
  by pat_completeness auto
termination
  by (relation "measure (\<lambda>(f, i). COAX_FREQS - i)") auto

declare coax_seek.simps [simp del]

definition coax_loss_db :: "nat \<Rightarrow> real \<Rightarrow> real \<Rightarrow> real option" where
  "coax_loss_db type f_hz len_m =
     (if type = 0 \<or> type > COAX_TYPES \<or> len_m \<le> 0 \<or> f_hz \<le> 0 then Some 0
      else
        let row = coax_loss_100m ! (type - 1);
            f = f_hz * (1 / 10000) in
        map_option (\<lambda>loss. loss * (1 / 100) * len_m * (1 / 100))
         (if f \<le> coax_freq_10khz ! 0 then Some (row ! 0 * sqrt (f / coax_freq_10khz ! 0))
          else if f \<ge> coax_freq_10khz ! (COAX_FREQS - 1) then
            Some (row ! (COAX_FREQS - 1) * sqrt (f / coax_freq_10khz ! (COAX_FREQS - 1)))
          else map_option (\<lambda>i.
             let s0 = sqrt (coax_freq_10khz ! (i - 1));
                 s1 = sqrt (coax_freq_10khz ! i);
                 k = (sqrt f - s0) / (s1 - s0) in
             row ! (i - 1) + (row ! i - row ! (i - 1)) * k) (coax_seek f 1)))"

subsection \<open>The loss curve\<close>

text \<open>The loss of one cable as a function of frequency, without the unit conversions.\<close>

definition loss_curve :: "real list \<Rightarrow> real \<Rightarrow> real" where
  "loss_curve row f =
     (if f \<le> coax_freq_10khz ! 0 then row ! 0 * sqrt (f / coax_freq_10khz ! 0)
      else if f \<ge> coax_freq_10khz ! 6 then row ! 6 * sqrt (f / coax_freq_10khz ! 6)
      else let i = the (coax_seek f 1);
               s0 = sqrt (coax_freq_10khz ! (i - 1));
               s1 = sqrt (coax_freq_10khz ! i) in
           row ! (i - 1) + (row ! i - row ! (i - 1)) * ((sqrt f - s0) / (s1 - s0)))"

lemma coax_freqs_sorted: "i < j \<Longrightarrow> j < 7 \<Longrightarrow> 0 < coax_freq_10khz ! i \<and> coax_freq_10khz ! i < coax_freq_10khz ! j"
proof -
  have "sorted_wrt (<) coax_freq_10khz" "list_all (\<lambda>x. 0 < x) coax_freq_10khz" "length coax_freq_10khz = 7"
    by (simp_all add: coax_freq_10khz_def)
  then show "i < j \<Longrightarrow> j < 7 \<Longrightarrow> 0 < coax_freq_10khz ! i \<and> coax_freq_10khz ! i < coax_freq_10khz ! j"
    by (simp add: sorted_wrt_nth_less list_all_length)
qed

lemma coax_rows_sorted:
  assumes "row \<in> set coax_loss_100m" "i < j" "j < 7"
  shows "0 < row ! i \<and> row ! i < row ! j"
proof -
  have "list_all (\<lambda>r. sorted_wrt (<) r \<and> list_all (\<lambda>x. 0 < x) r \<and> length r = 7) coax_loss_100m"
    by (simp add: coax_loss_100m_def)
  then have "sorted_wrt (<) row" "list_all (\<lambda>x. 0 < x) row" "length row = 7"
    using assms(1) by (auto simp: list_all_iff)
  then show ?thesis using assms(2,3) by (simp add: sorted_wrt_nth_less list_all_length)
qed

lemma coax_seek_spec:
  assumes "1 \<le> i" "i < COAX_FREQS" "coax_freq_10khz ! (i - 1) < f" "f < coax_freq_10khz ! (COAX_FREQS - 1)"
  shows "\<exists>j. coax_seek f i = Some j \<and> 1 \<le> j \<and> j < COAX_FREQS \<and>
           coax_freq_10khz ! (j - 1) < f \<and> f \<le> coax_freq_10khz ! j"
  using assms
proof (induction f i rule: coax_seek.induct)
  case (1 f i)
  show ?case
  proof (cases "f > coax_freq_10khz ! i")
    case True
    then have "i + 1 < COAX_FREQS" using 1(3,5) by (cases "i = COAX_FREQS - 1") auto
    then show ?thesis using 1 True by (subst coax_seek.simps) auto
  next
    case False
    then show ?thesis using 1 by (subst coax_seek.simps) auto
  qed
qed

text \<open>Inside a table interval the curve is affine in the square root of the frequency.\<close>

lemma loss_curve_inside:
  assumes "1 \<le> j" "j < 7" "coax_freq_10khz ! (j - 1) < f" "f \<le> coax_freq_10khz ! j" "f < coax_freq_10khz ! 6"
  shows "loss_curve row f = row ! (j - 1) + (row ! j - row ! (j - 1)) *
           ((sqrt f - sqrt (coax_freq_10khz ! (j - 1))) / (sqrt (coax_freq_10khz ! j) - sqrt (coax_freq_10khz ! (j - 1))))"
proof -
  have lo: "coax_freq_10khz ! 0 < f"
    using assms(2,3) coax_freqs_sorted [of 0 "j - 1"] by (cases "j - 1 = 0") (auto simp: less_imp_diff_less)
  obtain k where k: "coax_seek f 1 = Some k" "1 \<le> k" "k < 7" "coax_freq_10khz ! (k - 1) < f" "f \<le> coax_freq_10khz ! k"
    using coax_seek_spec [of 1 f] lo assms(5) by (auto simp: COAX_FREQS_def)
  have "k = j"
  proof (rule ccontr)
    assume "k \<noteq> j"
    then consider "k < j" | "j < k" by linarith
    then show False
    proof cases
      case 1
      then have "coax_freq_10khz ! k \<le> coax_freq_10khz ! (j - 1)"
        using coax_freqs_sorted [of k "j - 1"] assms(2) by (cases "k = j - 1") force+
      then show False using k(5) assms(3) by simp
    next
      case 2
      then have "coax_freq_10khz ! j \<le> coax_freq_10khz ! (k - 1)"
        using coax_freqs_sorted [of j "k - 1"] k(3) by (cases "j = k - 1") force+
      then show False using k(4) assms(4) by simp
    qed
  qed
  then show ?thesis using k lo assms(5) by (simp add: loss_curve_def Let_def)
qed

lemma coax_loss_db_curve:
  assumes "1 \<le> type" "type \<le> COAX_TYPES" "0 < len" "0 < f"
  shows "coax_loss_db type f len = Some (loss_curve (coax_loss_100m ! (type - 1)) (f / 10000) * len / 10000)"
proof -
  have "coax_seek (f / 10000) 1 \<noteq> None" if "coax_freq_10khz ! 0 < f / 10000" "f / 10000 < coax_freq_10khz ! 6"
    using coax_seek_spec [of 1 "f / 10000"] that by (auto simp: COAX_FREQS_def)
  then show ?thesis using assms by (auto simp: coax_loss_db_def loss_curve_def Let_def COAX_FREQS_def)
qed

lemma loss_curve_between:
  assumes "row \<in> set coax_loss_100m" "1 \<le> j" "j < 7"
    and "coax_freq_10khz ! (j - 1) < f" "f \<le> coax_freq_10khz ! j" "f < coax_freq_10khz ! 6"
  shows "row ! (j - 1) \<le> loss_curve row f \<and> loss_curve row f \<le> row ! j"
proof -
  let ?s0 = "sqrt (coax_freq_10khz ! (j - 1))" and ?s1 = "sqrt (coax_freq_10khz ! j)"
  have "?s0 < ?s1" using coax_freqs_sorted [of "j - 1" j] assms(2,3) by simp
  moreover have "?s0 \<le> sqrt f" "sqrt f \<le> ?s1" using assms(4,5) by simp_all
  ultimately have k: "0 \<le> (sqrt f - ?s0) / (?s1 - ?s0)" "(sqrt f - ?s0) / (?s1 - ?s0) \<le> 1" by simp_all
  have d: "0 \<le> row ! j - row ! (j - 1)" using coax_rows_sorted [OF assms(1), of "j - 1" j] assms(2,3) by simp
  show ?thesis unfolding loss_curve_inside [OF assms(2-6)]
    using mult_nonneg_nonneg [OF d k(1)] mult_left_mono [OF k(2) d] by simp
qed

lemma coax_interval:
  assumes "coax_freq_10khz ! 0 < f" "f < coax_freq_10khz ! 6"
  obtains j where "1 \<le> j" "j < 7" "coax_freq_10khz ! (j - 1) < f" "f \<le> coax_freq_10khz ! j"
  using coax_seek_spec [of 1 f] assms by (auto simp: COAX_FREQS_def)

lemma rows_mono: "row \<in> set coax_loss_100m \<Longrightarrow> i \<le> j \<Longrightarrow> j < 7 \<Longrightarrow> row ! i \<le> row ! j"
  using coax_rows_sorted [of row i j] by (cases "i = j") auto

lemma loss_curve_ends:
  assumes "row \<in> set coax_loss_100m"
  shows "f \<le> coax_freq_10khz ! 0 \<Longrightarrow> 0 \<le> f \<Longrightarrow> loss_curve row f \<le> row ! 0"
    and "coax_freq_10khz ! 6 \<le> f \<Longrightarrow> row ! 6 \<le> loss_curve row f"
proof -
  have p: "0 < row ! 0" "0 < row ! 6" "coax_freq_10khz ! 0 < coax_freq_10khz ! 6" "0 < coax_freq_10khz ! 0"
    using coax_rows_sorted [OF assms, of 0 6] coax_freqs_sorted [of 0 6] by simp_all
  show "loss_curve row f \<le> row ! 0" if "f \<le> coax_freq_10khz ! 0" "0 \<le> f"
    using that p by (simp add: loss_curve_def mult_left_le)
  show "row ! 6 \<le> loss_curve row f" if "coax_freq_10khz ! 6 \<le> f"
  proof -
    have "1 \<le> sqrt (f / coax_freq_10khz ! 6)" using that p by simp
    then have "row ! 6 * 1 \<le> row ! 6 * sqrt (f / coax_freq_10khz ! 6)"
      using p by (intro mult_left_mono) simp_all
    then show ?thesis using that p by (simp add: loss_curve_def)
  qed
qed

lemma loss_curve_low: "coax_freq_10khz ! 0 < f \<Longrightarrow> row \<in> set coax_loss_100m \<Longrightarrow> row ! 0 \<le> loss_curve row f"
proof (cases "f < coax_freq_10khz ! 6")
  case True
  assume a: "coax_freq_10khz ! 0 < f" "row \<in> set coax_loss_100m"
  then obtain j where j: "1 \<le> j" "j < 7" "coax_freq_10khz ! (j - 1) < f" "f \<le> coax_freq_10khz ! j"
    using True coax_interval by blast
  then show ?thesis using loss_curve_between [OF a(2) j True] rows_mono [OF a(2), of 0 "j - 1"] by (auto simp: less_imp_diff_less)
next
  case False
  assume "row \<in> set coax_loss_100m"
  then show ?thesis using loss_curve_ends(2) [of row f] rows_mono [of row 0 6] False by fastforce
qed

lemma loss_curve_mono:
  assumes row: "row \<in> set coax_loss_100m" and fg: "0 < f" "f \<le> g"
  shows "loss_curve row f \<le> loss_curve row g"
proof -
  have p: "0 < row ! 0" "0 < row ! 6" "0 < coax_freq_10khz ! 0" "0 < coax_freq_10khz ! 6"
      "coax_freq_10khz ! 0 < coax_freq_10khz ! 6"
    using coax_rows_sorted [OF row, of 0 6] coax_freqs_sorted [of 0 6] by simp_all
  consider (lo) "g \<le> coax_freq_10khz ! 0" | (cross) "f \<le> coax_freq_10khz ! 0" "coax_freq_10khz ! 0 < g"
    | (hi) "coax_freq_10khz ! 6 \<le> f"
    | (top) "coax_freq_10khz ! 0 < f" "f < coax_freq_10khz ! 6" "coax_freq_10khz ! 6 \<le> g"
    | (mid) "coax_freq_10khz ! 0 < f" "g < coax_freq_10khz ! 6" by linarith
  then show ?thesis
  proof cases
    case lo
    then show ?thesis using fg p by (simp add: loss_curve_def divide_right_mono)
  next
    case cross
    then show ?thesis using loss_curve_ends(1) [OF row] loss_curve_low [OF _ row] fg by fastforce
  next
    case hi
    then show ?thesis using fg p by (simp add: loss_curve_def divide_right_mono)
  next
    case top
    then obtain j where j: "1 \<le> j" "j < 7" "coax_freq_10khz ! (j - 1) < f" "f \<le> coax_freq_10khz ! j"
      using coax_interval by blast
    have "loss_curve row f \<le> row ! j" using loss_curve_between [OF row j] top by simp
    also have "\<dots> \<le> row ! 6" using rows_mono [OF row, of j 6] j by simp
    also have "\<dots> \<le> loss_curve row g" using loss_curve_ends(2) [OF row] top by simp
    finally show ?thesis .
  next
    case mid
    then obtain j where j: "1 \<le> j" "j < 7" "coax_freq_10khz ! (j - 1) < f" "f \<le> coax_freq_10khz ! j"
      using coax_interval [of f] fg by auto
    obtain k where k: "1 \<le> k" "k < 7" "coax_freq_10khz ! (k - 1) < g" "g \<le> coax_freq_10khz ! k"
      using coax_interval [of g] mid fg by auto
    show ?thesis
    proof (cases "g \<le> coax_freq_10khz ! j")
      case True
      have d: "0 \<le> row ! j - row ! (j - 1)" using rows_mono [OF row, of "j - 1" j] j by simp
      have s: "sqrt (coax_freq_10khz ! (j - 1)) < sqrt (coax_freq_10khz ! j)"
        using coax_freqs_sorted [of "j - 1" j] j by simp
      have g': "coax_freq_10khz ! (j - 1) < g" using j(3) fg by simp
      show ?thesis
        unfolding loss_curve_inside [OF j(1,2) g' True mid(2)] loss_curve_inside [OF j(1,2,3,4) order.strict_trans1 [OF fg(2) mid(2)]]
        using s d fg by (intro add_left_mono mult_left_mono divide_right_mono) simp_all
    next
      case False
      have "j < k"
      proof (rule ccontr)
        assume "\<not> j < k"
        then have "coax_freq_10khz ! k \<le> coax_freq_10khz ! j"
          using coax_freqs_sorted [of k j] j(2) by (cases "k = j") (auto intro: less_imp_le)
        then show False using k(4) False by simp
      qed
      have "loss_curve row f \<le> row ! j" using loss_curve_between [OF row j] mid fg by simp
      also have "\<dots> \<le> row ! (k - 1)" using rows_mono [OF row, of j "k - 1"] \<open>j < k\<close> k by simp
      also have "\<dots> \<le> loss_curve row g" using loss_curve_between [OF row k mid(2)] by simp
      finally show ?thesis .
    qed
  qed
qed

lemma loss_curve_at_table:
  assumes "i < 7"
  shows "loss_curve row (coax_freq_10khz ! i) = row ! i"
proof -
  consider "i = 0" | "i = 6" | "1 \<le> i" "i < 6" using assms by linarith
  then show ?thesis
  proof cases
    case 1
    then show ?thesis using coax_freqs_sorted [of 0 6] by (simp add: loss_curve_def)
  next
    case 2
    then show ?thesis using coax_freqs_sorted [of 0 6] by (simp add: loss_curve_def)
  next
    case 3
    have "coax_freq_10khz ! (i - 1) < coax_freq_10khz ! i" "coax_freq_10khz ! i < coax_freq_10khz ! 6"
      using coax_freqs_sorted [of "i - 1" i] coax_freqs_sorted [of i 6] 3 by simp_all
    then show ?thesis using loss_curve_inside [of i "coax_freq_10khz ! i" row] 3 by simp
  qed
qed

subsection \<open>Properties\<close>

text \<open>The cable loss never reads past the table, is exact at every tabulated frequency, and
  does not decrease when the frequency or the length grows: interpolation between the rows and
  extrapolation beyond them join without a downward step, for every cable type.\<close>
theorem coax_loss_correct:
  assumes "1 \<le> type" "type \<le> COAX_TYPES" "0 < f" "f \<le> g" "0 < l" "l \<le> l'" "i < COAX_FREQS"
  shows "coax_loss_db type (coax_freq_10khz ! i * 10000) l = Some (coax_loss_100m ! (type - 1) ! i / 100 * (l / 100)) \<and>
    (\<exists>a b. coax_loss_db type f l = Some a \<and> coax_loss_db type g l' = Some b \<and> 0 \<le> a \<and> a \<le> b)"
proof -
  let ?row = "coax_loss_100m ! (type - 1)"
  have row: "?row \<in> set coax_loss_100m"
    using assms(1,2) by (intro nth_mem) (simp add: coax_loss_100m_def COAX_TYPES_def)
  have fi: "0 < coax_freq_10khz ! i"
    using coax_freqs_sorted [of i 6] coax_freqs_sorted [of 0 6] assms(7)
    by (cases "i = 6") (auto simp: COAX_FREQS_def)
  have "0 \<le> loss_curve ?row (f / 10000)"
  proof (cases "f / 10000 \<le> coax_freq_10khz ! 0")
    case True
    then show ?thesis
      using coax_rows_sorted [OF row, of 0 6] coax_freqs_sorted [of 0 6] assms(3) by (simp add: loss_curve_def)
  next
    case False
    then show ?thesis using loss_curve_low [OF _ row, of "f / 10000"] coax_rows_sorted [OF row, of 0 6] by simp
  qed
  moreover have "loss_curve ?row (f / 10000) \<le> loss_curve ?row (g / 10000)"
    using assms(3,4) by (intro loss_curve_mono [OF row]) simp_all
  ultimately have "0 \<le> loss_curve ?row (f / 10000) * l / 10000 \<and>
      loss_curve ?row (f / 10000) * l / 10000 \<le> loss_curve ?row (g / 10000) * l' / 10000"
    using assms(5,6) by (simp add: mult_mono)
  moreover have "coax_loss_db type f l = Some (loss_curve ?row (f / 10000) * l / 10000)"
    "coax_loss_db type g l' = Some (loss_curve ?row (g / 10000) * l' / 10000)"
    using assms by (intro coax_loss_db_curve; simp)+
  moreover have "coax_loss_db type (coax_freq_10khz ! i * 10000) l = Some (?row ! i / 100 * (l / 100))"
    using coax_loss_db_curve [of type l "coax_freq_10khz ! i * 10000"] loss_curve_at_table [of i ?row] assms fi
    by (simp add: COAX_FREQS_def)
  ultimately show ?thesis by blast
qed

theorem coax_loss_correct_witness:
  "coax_loss_db 2 (coax_freq_10khz ! 3 * 10000) 30 = Some (coax_loss_100m ! (2 - 1) ! 3 / 100 * (30 / 100)) \<and>
    (\<exists>a b. coax_loss_db 2 7000000 30 = Some a \<and> coax_loss_db 2 14200000 40 = Some b \<and> 0 \<le> a \<and> a \<le> b)"
  by (rule coax_loss_correct) (simp_all add: COAX_TYPES_def COAX_FREQS_def)

end
