(* ===== verification/Choke.thy ===== *)
theory Choke
  imports Complex_Main Prelude
begin

text \<open>
  The series-through arithmetic of \<^verbatim>\<open>vna_modules/vna_choke.c\<close>: impedance from S21, removal of
  the test fixture, resolvable limits, verdict tiers and the scans over the sweep.  Floats are real
  numbers; the sample accessors are functions of the index.
\<close>

datatype choke_verdict_t = CHOKE_POOR | CHOKE_WEAK | CHOKE_MARGINAL | CHOKE_GOOD | CHOKE_MEETS
  | CHOKE_HIGHPWR | CHOKE_JIG

definition CHOKE_OPEN :: real where "CHOKE_OPEN = 10 ^ 9"

definition choke_zser :: "real \<Rightarrow> real \<Rightarrow> real \<Rightarrow> real \<times> real" where
  "choke_zser s21_re s21_im z0 =
     (let d = s21_re * s21_re + s21_im * s21_im in
      if d < 1 / 10 ^ 12 then (CHOKE_OPEN, 0)
      else let ir = s21_re / d; ii = - s21_im / d in (2 * z0 * (ir - 1), 2 * z0 * ii))"

definition choke_z2y :: "real \<Rightarrow> real \<Rightarrow> real \<times> real" where
  "choke_z2y r x =
     (let d = r * r + x * x in
      if d < 1 / 10 ^ 12 then (10 ^ 12, 0) else (r / d, - x / d))"

definition choke_deembed :: "real \<Rightarrow> real \<Rightarrow> real \<Rightarrow> real \<Rightarrow> real \<times> real" where
  "choke_deembed rm xm rf xf =
     (let (gm, bm) = choke_z2y rm xm;
          (gf, bf) = choke_z2y rf xf;
          g = gm - gf; b = bm - bf; d = g * g + b * b in
      if d < 1 / 10 ^ 24 then (CHOKE_OPEN, 0) else (g / d, - b / d))"

definition choke_rs_ceiling :: "real \<Rightarrow> real \<Rightarrow> real" where
  "choke_rs_ceiling rf xf =
     (let (gf, bf) = choke_z2y rf xf; bf = \<bar>bf\<bar> in
      if bf < 1 / 10 ^ 12 then CHOKE_OPEN else 1 / (2 * bf))"

definition CHOKE_NULL_REPEAT :: real where "CHOKE_NULL_REPEAT = 5 / 100"

definition choke_rs_ceiling_deembed :: "real \<Rightarrow> real \<Rightarrow> real" where
  "choke_rs_ceiling_deembed rf xf =
     (let c = choke_rs_ceiling rf xf in if c \<ge> CHOKE_OPEN then CHOKE_OPEN else c / CHOKE_NULL_REPEAT)"

definition choke_verdict :: "real \<Rightarrow> real \<Rightarrow> real \<Rightarrow> choke_verdict_t" where
  "choke_verdict rs target ceil =
     (if rs < 0 \<or> rs \<ge> ceil then CHOKE_JIG
      else if rs < 500 then CHOKE_POOR
      else if rs < 1000 then CHOKE_WEAK
      else if rs < 2000 then CHOKE_MARGINAL
      else if rs < target then CHOKE_GOOD
      else if rs < 2 * target then CHOKE_MEETS
      else CHOKE_HIGHPWR)"

definition choke_rungs :: "nat list" where
  "choke_rungs = [160, 80, 60, 40, 30, 20, 17, 15, 12, 10, 6, 4, 2]"

definition rung_ratio :: "real \<Rightarrow> nat \<Rightarrow> real" where
  "rung_ratio lam r = (if lam > real r then lam / real r else real r / lam)"

fun choke_rung_loop :: "real \<Rightarrow> nat list \<Rightarrow> real \<Rightarrow> nat \<Rightarrow> nat" where
  "choke_rung_loop lam [] best out = out"
| "choke_rung_loop lam (r # rs) best out =
     (let ratio = rung_ratio lam r in
      if ratio < best then choke_rung_loop lam rs ratio r else choke_rung_loop lam rs best out)"

definition choke_rung_m :: "real \<Rightarrow> nat" where
  "choke_rung_m f_hz = choke_rung_loop (300 * 10 ^ 6 / f_hz) choke_rungs (10 ^ 9) (choke_rungs ! 0)"

text \<open>The state of the two scans is \<open>None\<close> while nothing was found, then the index and the best value.\<close>

definition choke_band_step ::
  "(nat \<Rightarrow> real) \<Rightarrow> (nat \<Rightarrow> real) \<Rightarrow> real \<Rightarrow> real \<Rightarrow> nat \<Rightarrow> (nat \<times> real) option \<Rightarrow> (nat \<times> real) option" where
  "choke_band_step get_r get_f f_lo f_hi i st =
     (let f = get_f i in
      if f < f_lo \<or> f > f_hi then st
      else let r = get_r i in
        case st of None \<Rightarrow> Some (i, r)
        | Some (idx, best) \<Rightarrow> if r < best then Some (i, r) else st)"

definition choke_band_min ::
  "(nat \<Rightarrow> real) \<Rightarrow> (nat \<Rightarrow> real) \<Rightarrow> nat \<Rightarrow> real \<Rightarrow> real \<Rightarrow> nat option" where
  "choke_band_min get_r get_f n f_lo f_hi =
     map_option fst (fold (choke_band_step get_r get_f f_lo f_hi) [0..<n] None)"

definition choke_zpeak_step ::
  "(nat \<Rightarrow> real) \<Rightarrow> (nat \<Rightarrow> real) \<Rightarrow> nat \<Rightarrow> (nat \<times> real) option \<Rightarrow> (nat \<times> real) option" where
  "choke_zpeak_step get_r get_x i st =
     (let x0 = get_x (i - 1); x1 = get_x (i + 1) in
      if \<not> (x0 > 0 \<and> x1 < 0) then st
      else let r = get_r i; x = get_x i; z = sqrt (r * r + x * x) in
        case st of None \<Rightarrow> Some (i, z)
        | Some (idx, zmag) \<Rightarrow> if z > zmag then Some (i, z) else st)"

definition choke_zpeak :: "(nat \<Rightarrow> real) \<Rightarrow> (nat \<Rightarrow> real) \<Rightarrow> nat \<Rightarrow> (nat \<times> real) option" where
  "choke_zpeak get_r get_x n = fold (choke_zpeak_step get_r get_x) [1..<n - 1] None"

subsection \<open>Complex reading of the arithmetic\<close>

abbreviation as_pair :: "complex \<Rightarrow> real \<times> real" where
  "as_pair z \<equiv> (Re z, Im z)"

lemma inverse_pair: "inverse z = Complex (Re z / (Re z * Re z + Im z * Im z)) (- Im z / (Re z * Re z + Im z * Im z))"
  by (simp add: complex_eq_iff power2_eq_square)

lemma norm_square: "Re z * Re z + Im z * Im z = (cmod z)\<^sup>2"
  by (simp only: cmod_power2 power2_eq_square [of "Re z"] power2_eq_square [of "Im z"])

lemma series_through: "a \<noteq> 0 \<Longrightarrow> a + z \<noteq> 0 \<Longrightarrow> a * (inverse (a / (a + z)) - 1) = (z::complex)"
  by (simp add: field_simps)

lemma choke_zser_complex:
  assumes "1 / 10 ^ 12 \<le> (cmod s)\<^sup>2"
  shows "choke_zser (Re s) (Im s) z0 = as_pair (2 * of_real z0 * (inverse s - 1))"
  using assms by (simp add: choke_zser_def Let_def norm_square inverse_pair)

lemma choke_z2y_complex:
  assumes "1 / 10 ^ 12 \<le> (cmod z)\<^sup>2"
  shows "choke_z2y (Re z) (Im z) = as_pair (inverse z)"
  using assms by (simp add: choke_z2y_def Let_def norm_square inverse_pair)

lemma choke_deembed_complex:
  assumes "1 / 10 ^ 12 \<le> (cmod zm)\<^sup>2" "1 / 10 ^ 12 \<le> (cmod zf)\<^sup>2"
    and "1 / 10 ^ 24 \<le> (cmod (inverse zm - inverse zf))\<^sup>2"
  shows "choke_deembed (Re zm) (Im zm) (Re zf) (Im zf) = as_pair (inverse (inverse zm - inverse zf))"
proof -
  let ?y = "inverse zm - inverse zf"
  have y: "Re (inverse zm) - Re (inverse zf) = Re ?y" "Im (inverse zm) - Im (inverse zf) = Im ?y" by simp_all
  show ?thesis
    unfolding choke_deembed_def choke_z2y_complex [OF assms(1)] choke_z2y_complex [OF assms(2)] Let_def case_prod_conv y
    using assms(3) by (simp add: norm_square inverse_pair [of ?y] del: minus_complex.simps inverse_complex.simps)
qed

text \<open>C35: Fixture removal is exact: when the choke, of impedance z, is measured in series between two
  ports of impedance z0 in a jig whose stray impedance zf shunts it, the de-embedding of the measured
  S21 with the stored S21 of the empty jig returns z, as long as none of the guards against a
  vanishing denominator applies.\<close>
theorem choke_deembed_exact:
  fixes z zf :: complex and z0 :: real
  defines "zm \<equiv> z * zf / (z + zf)"
  defines "sm \<equiv> 2 * of_real z0 / (2 * of_real z0 + zm)" and "sf \<equiv> 2 * of_real z0 / (2 * of_real z0 + zf)"
  assumes "z0 \<noteq> 0" "z \<noteq> 0" "zf \<noteq> 0" "z + zf \<noteq> 0" "2 * of_real z0 + zm \<noteq> 0" "2 * of_real z0 + zf \<noteq> 0"
    and "1 / 10 ^ 12 \<le> (cmod sm)\<^sup>2" "1 / 10 ^ 12 \<le> (cmod sf)\<^sup>2"
    and "1 / 10 ^ 12 \<le> (cmod zm)\<^sup>2" "1 / 10 ^ 12 \<le> (cmod zf)\<^sup>2" "cmod z \<le> 10 ^ 12"
  shows "(case choke_zser (Re sm) (Im sm) z0 of (rm, xm) \<Rightarrow>
          case choke_zser (Re sf) (Im sf) z0 of (rf, xf) \<Rightarrow> choke_deembed rm xm rf xf) = (Re z, Im z)"
proof -
  have m: "2 * of_real z0 * (inverse sm - 1) = zm" and f: "2 * of_real z0 * (inverse sf - 1) = zf"
    using assms(4,8,9) unfolding sm_def sf_def by (simp_all only: series_through of_real_eq_0_iff mult_eq_0_iff
        simp_thms zero_neq_numeral [symmetric])
  have y: "inverse zm - inverse zf = inverse z"
    using assms(5,6,7) unfolding zm_def by (simp add: field_simps)
  have "inverse (10 ^ 12) \<le> cmod (inverse z)"
    using le_imp_inverse_le [OF assms(14)] assms(5) by (simp add: norm_inverse)
  then have "(inverse (10 ^ 12))\<^sup>2 \<le> (cmod (inverse z))\<^sup>2" by (intro power_mono) simp_all
  moreover have "(inverse (10 ^ 12))\<^sup>2 = (1 / 10 ^ 24 :: real)" by (simp add: power2_eq_square)
  ultimately have "1 / 10 ^ 24 \<le> (cmod (inverse zm - inverse zf))\<^sup>2" unfolding y by metis
  then have "choke_deembed (Re zm) (Im zm) (Re zf) (Im zf) = as_pair (inverse (inverse z))"
    using choke_deembed_complex [of zm zf] assms(12,13) unfolding y by simp
  then show ?thesis using choke_zser_complex [of sm z0] choke_zser_complex [of sf z0] assms(10,11) m f by simp
qed

theorem choke_deembed_exact_witness:
  "(case choke_zser (Re (2 * of_real 50 / (2 * of_real 50 + 200 * 200 / (200 + 200)))) (Im (2 * of_real 50 / (2 * of_real 50 + 200 * 200 / (200 + 200)))) 50 of (rm, xm) \<Rightarrow>
    case choke_zser (Re (2 * of_real 50 / (2 * of_real 50 + 200))) (Im (2 * of_real 50 / (2 * of_real 50 + 200))) 50 of (rf, xf) \<Rightarrow>
      choke_deembed rm xm rf xf) = (Re 200, Im 200)"
  by (rule choke_deembed_exact) (simp_all add: norm_divide power2_eq_square)

subsection \<open>Verdict tiers\<close>

primrec verdict_code :: "choke_verdict_t \<Rightarrow> nat" where
  "verdict_code CHOKE_POOR = 0"
| "verdict_code CHOKE_WEAK = 1"
| "verdict_code CHOKE_MARGINAL = 2"
| "verdict_code CHOKE_GOOD = 3"
| "verdict_code CHOKE_MEETS = 4"
| "verdict_code CHOKE_HIGHPWR = 5"
| "verdict_code CHOKE_JIG = 6"

lemma verdict_code_inj: "verdict_code a = verdict_code b \<longleftrightarrow> a = b"
  by (cases a; cases b) simp_all

instantiation choke_verdict_t :: linorder
begin

definition less_eq_choke_verdict_t :: "choke_verdict_t \<Rightarrow> choke_verdict_t \<Rightarrow> bool" where
  "a \<le> b \<longleftrightarrow> verdict_code a \<le> verdict_code b"

definition less_choke_verdict_t :: "choke_verdict_t \<Rightarrow> choke_verdict_t \<Rightarrow> bool" where
  "a < b \<longleftrightarrow> verdict_code a < verdict_code b"

instance
  by standard (auto simp: less_eq_choke_verdict_t_def less_choke_verdict_t_def verdict_code_inj [symmetric])

end

text \<open>The verdict is a tier exactly for readings from 0 up to the resolvable limit, it names the
  jig for every other reading, and a larger series resistance never gets a lower tier, whatever
  target was typed in, also one below the fixed tiers.\<close>
theorem choke_verdict_monotone:
  "(choke_verdict rs target ceil = CHOKE_JIG \<longleftrightarrow> rs < 0 \<or> ceil \<le> rs) \<and>
   (0 \<le> rs \<and> rs \<le> rs' \<and> rs' < ceil \<longrightarrow> choke_verdict rs target ceil \<le> choke_verdict rs' target ceil)"
  by (auto simp: choke_verdict_def less_eq_choke_verdict_t_def)

theorem choke_verdict_monotone_witness:
  "(choke_verdict 6000 5000 100000 = CHOKE_JIG \<longleftrightarrow> (6000::real) < 0 \<or> (100000::real) \<le> 6000) \<and>
   choke_verdict 6000 5000 100000 = CHOKE_MEETS \<and>
   choke_verdict 6000 5000 100000 \<le> choke_verdict 11000 5000 100000"
  using choke_verdict_monotone [of 6000 5000 100000 11000] by (simp add: choke_verdict_def)

subsection \<open>Scans\<close>

interpretation band: best_scan "(<)" "\<lambda>i. f_lo \<le> get_f i \<and> get_f i \<le> f_hi" get_r "choke_band_step get_r get_f f_lo f_hi"
  for get_r get_f :: "nat \<Rightarrow> real" and f_lo f_hi :: real
  by unfold_locales (auto simp: choke_band_step_def Let_def)

interpretation peak: best_scan "(>)" "\<lambda>i. 1 \<le> i \<and> get_x (i - 1) > 0 \<and> get_x (i + 1) < 0"
    "\<lambda>i. sqrt (get_r i * get_r i + get_x i * get_x i)"
    "\<lambda>i st. if 1 \<le> i then choke_zpeak_step get_r get_x i st else st"
  for get_r get_x :: "nat \<Rightarrow> real"
  by unfold_locales (auto simp: choke_zpeak_step_def Let_def)

text \<open>The worst point of a band: the scan returns an index exactly when some swept point lies in
  the band; that index lies in the band, no other point of the band has a smaller value, and no
  earlier one an equal value.\<close>
theorem choke_band_min_correct:
  "case choke_band_min get_r get_f n f_lo f_hi of
     None \<Rightarrow> (\<forall>i<n. \<not> (f_lo \<le> get_f i \<and> get_f i \<le> f_hi))
   | Some idx \<Rightarrow> idx < n \<and> f_lo \<le> get_f idx \<and> get_f idx \<le> f_hi \<and>
       (\<forall>i<n. f_lo \<le> get_f i \<and> get_f i \<le> f_hi \<longrightarrow> get_r idx \<le> get_r i \<and> (i < idx \<longrightarrow> get_r idx < get_r i))"
proof -
  have "best_of (<) (\<lambda>i. f_lo \<le> get_f i \<and> get_f i \<le> f_hi) get_r n (fold (choke_band_step get_r get_f f_lo f_hi) [0..<n] None)"
    by (rule band.scan_best)
  then show ?thesis
    by (auto simp: best_of_def choke_band_min_def not_less split: option.splits prod.splits)
qed

theorem choke_band_min_correct_witness:
  "choke_band_min (nth [9, 4, 7, 4]) (nth [1, 2, 3, 4]) 4 2 4 = Some 1 \<and>
   list_all (\<lambda>i. [9, 4, 7, 4] ! 1 \<le> [9, 4, 7, 4::real] ! i) [1, 2, 3]"
proof -
  have "choke_band_min (nth [9, 4, 7, 4]) (nth [1, 2, 3, 4]) 4 2 4 = Some 1"
    by (simp add: choke_band_min_def choke_band_step_def upt_rec [of _ 4] numeral_eq_Suc)
  then show ?thesis
    using choke_band_min_correct [where get_r = "nth [9, 4, 7, 4]" and get_f = "nth [1, 2, 3, 4]" and n = 4 and f_lo = 2 and f_hi = 4]
    by auto
qed

text \<open>The parallel resonance: the scan succeeds exactly when the reactance goes from inductive to
  capacitive across some inner sample, and then returns the first such sample with the largest
  magnitude of the impedance together with that magnitude.\<close>
theorem choke_zpeak_correct:
  defines "zmag \<equiv> \<lambda>get_r get_x i. sqrt (get_r i * get_r i + get_x i * (get_x i :: real))"
  shows "case choke_zpeak get_r get_x n of
     None \<Rightarrow> (\<forall>i. 1 \<le> i \<and> i + 1 < n \<longrightarrow> \<not> (get_x (i - 1) > 0 \<and> get_x (i + 1) < 0))
   | Some (idx, z) \<Rightarrow> 1 \<le> idx \<and> idx + 1 < n \<and> get_x (idx - 1) > 0 \<and> get_x (idx + 1) < 0 \<and> z = zmag get_r get_x idx \<and>
       (\<forall>i. 1 \<le> i \<and> i + 1 < n \<and> get_x (i - 1) > 0 \<and> get_x (i + 1) < 0 \<longrightarrow>
          zmag get_r get_x i \<le> z \<and> (i < idx \<longrightarrow> zmag get_r get_x i < z))"
proof -
  let ?st = "\<lambda>i st. if 1 \<le> i then choke_zpeak_step get_r get_x i st else st"
  have eq: "fold ?st [1..<n - 1] None = fold (choke_zpeak_step get_r get_x) [1..<n - 1] None"
    by (rule fold_cong) auto
  show ?thesis
  proof (cases "n \<le> 1")
    case True
    then show ?thesis by (auto simp: choke_zpeak_def)
  next
    case False
    have "best_of (>) (\<lambda>i. 1 \<le> i \<and> get_x (i - 1) > 0 \<and> get_x (i + 1) < 0) (zmag get_r get_x) (n - 1)
        (fold ?st [1..<n - 1] None)"
      using False unfolding zmag_def by (intro peak.scan_from) (auto simp: best_of_def)
    then show ?thesis
      using False unfolding eq
      by (auto simp: best_of_def choke_zpeak_def not_less less_diff_conv split: option.splits prod.splits)
  qed
qed

theorem choke_zpeak_correct_witness:
  "choke_zpeak (nth [0, 3, 0]) (nth [5, 4, - 2]) 3 = Some (1, 5)"
proof -
  have "choke_zpeak (nth [0, 3, 0]) (nth [5, 4, - 2]) 3 \<noteq> None"
    by (simp add: choke_zpeak_def choke_zpeak_step_def upt_rec [of _ 2] Let_def)
  then obtain idx z where r: "choke_zpeak (nth [0, 3, 0]) (nth [5, 4, - 2]) 3 = Some (idx, z)"
    by auto
  have "1 \<le> idx \<and> idx + 1 < 3 \<and> z = sqrt ([0, 3, 0] ! idx * [0, 3, 0] ! idx + [5, 4, - 2] ! idx * [5, 4, - 2] ! idx)"
    using choke_zpeak_correct [where get_r = "nth [0, 3, 0]" and get_x = "nth [5, 4, - 2]" and n = 3] unfolding r by simp
  moreover from this have "idx = 1" by simp
  ultimately show ?thesis using r by simp
qed

lemma choke_rung_loop_best:
  "choke_rung_loop lam rs best out = out \<and> (\<forall>r \<in> set rs. best \<le> rung_ratio lam r) \<or>
   choke_rung_loop lam rs best out \<in> set rs \<and> rung_ratio lam (choke_rung_loop lam rs best out) < best \<and>
     (\<forall>r \<in> set rs. rung_ratio lam (choke_rung_loop lam rs best out) \<le> rung_ratio lam r)"
proof (induction rs arbitrary: best out)
  case (Cons r rs)
  show ?case
  proof (cases "rung_ratio lam r < best")
    case True
    then show ?thesis using Cons.IH [of "rung_ratio lam r" r] by (auto simp: Let_def)
  next
    case False
    then show ?thesis using Cons.IH [of best out] by (auto simp: Let_def)
  qed
qed simp

text \<open>The band label: for every frequency a sweep can hold, the wavelength is snapped to the rung
  whose ratio to it is the smallest of the whole ladder.\<close>
theorem choke_rung_nearest:
  assumes "1 \<le> f" "f \<le> 2 ^ 32"
  shows "choke_rung_m f \<in> set choke_rungs \<and>
    list_all (\<lambda>r. rung_ratio (300 * 10 ^ 6 / f) (choke_rung_m f) \<le> rung_ratio (300 * 10 ^ 6 / f) r) choke_rungs"
proof -
  let ?lam = "300 * 10 ^ 6 / f"
  have "rung_ratio ?lam 2 < 10 ^ 9"
    using assms by (simp add: rung_ratio_def field_simps)
  moreover have "2 \<in> set choke_rungs" by (simp add: choke_rungs_def)
  ultimately show ?thesis
    using choke_rung_loop_best [of ?lam choke_rungs "10 ^ 9" "choke_rungs ! 0"]
    unfolding choke_rung_m_def list_all_iff by fastforce
qed

theorem choke_rung_nearest_witness:
  "choke_rung_m 18100000 = 17 \<and>
    list_all (\<lambda>r. rung_ratio (300 * 10 ^ 6 / 18100000) (choke_rung_m 18100000) \<le> rung_ratio (300 * 10 ^ 6 / 18100000) r) choke_rungs"
proof -
  have "choke_rung_m 18100000 = 17"
    by (simp add: choke_rung_m_def choke_rungs_def rung_ratio_def)
  then show ?thesis using choke_rung_nearest [of 18100000] by simp
qed

end
