(* ===== verification/SwrBw.thy ===== *)
theory SwrBw
  imports Complex_Main Prelude
begin

text \<open>
  Dip search and bandwidth analysis of \<^verbatim>\<open>vna_modules/vna_swr_bw.c\<close> over a sampled curve.
  Floats are real numbers and the samples are functions of the index.  The descent loop has no
  bound in the source; its termination is proved from the strictly falling sample value.
\<close>

definition swr_bw_level :: "real list" where "swr_bw_level = [2, 3]"

definition SWR_BW_LEVELS :: nat where "SWR_BW_LEVELS = 2"

record swr_bw_result =
  bw_idx :: nat
  bw_f0 :: real
  bw_swr0 :: real
  bw_f_lo :: "real list"
  bw_f_hi :: "real list"
  bw_q :: real

definition SWR_BW_LOOKAHEAD :: int where "SWR_BW_LOOKAHEAD = 6"

definition dip_step :: "(nat \<Rightarrow> real) \<Rightarrow> nat \<Rightarrow> nat \<Rightarrow> int \<Rightarrow> real \<times> nat \<Rightarrow> real \<times> nat" where
  "dip_step get n idx d = (\<lambda>(v, best).
     if d = 0 then (v, best)
     else let j = int idx + d in
       if j < 0 \<or> j \<ge> int n then (v, best)
       else let vj = get (nat j) in if vj < v then (vj, nat j) else (v, best))"

definition dip_look :: "(nat \<Rightarrow> real) \<Rightarrow> nat \<Rightarrow> nat \<Rightarrow> real \<times> nat" where
  "dip_look get n idx = fold (dip_step get n idx) [- SWR_BW_LOOKAHEAD..SWR_BW_LOOKAHEAD] (get idx, idx)"

definition dip_inv :: "(nat \<Rightarrow> real) \<Rightarrow> nat \<Rightarrow> nat \<Rightarrow> real \<times> nat \<Rightarrow> bool" where
  "dip_inv get n idx = (\<lambda>(v, best). v = get best \<and> (best = idx \<or> best < n \<and> get best < get idx))"

lemma dip_step_inv: "dip_inv get n idx p \<Longrightarrow> dip_inv get n idx (dip_step get n idx d p)"
  by (cases p) (auto simp: dip_inv_def dip_step_def Let_def nat_less_iff)

lemma dip_fold_inv: "dip_inv get n idx p \<Longrightarrow> dip_inv get n idx (fold (dip_step get n idx) ds p)"
  by (induction ds arbitrary: p) (simp_all add: dip_step_inv)

lemma dip_look_moves:
  assumes "snd (dip_look get n idx) \<noteq> idx"
  shows "snd (dip_look get n idx) < n \<and> get (snd (dip_look get n idx)) < get idx"
proof -
  have "dip_inv get n idx (dip_look get n idx)"
    unfolding dip_look_def by (rule dip_fold_inv) (simp add: dip_inv_def)
  then show ?thesis using assms by (auto simp: dip_inv_def)
qed

function dip_walk :: "(nat \<Rightarrow> real) \<Rightarrow> nat \<Rightarrow> nat \<Rightarrow> nat" where
  "dip_walk get n idx =
     (let best = snd (dip_look get n idx) in if best = idx then idx else dip_walk get n best)"
  by pat_completeness auto
termination
proof (relation "measure (\<lambda>(get, n, idx). card {j. j < n \<and> get j < get idx})")
  fix get :: "nat \<Rightarrow> real" and n idx best
  assume b: "best = snd (dip_look get n idx)" "best \<noteq> idx"
  have "best < n" "get best < get idx" using dip_look_moves [of get n idx] b by auto
  then have "{j. j < n \<and> get j < get best} \<subset> {j. j < n \<and> get j < get idx}" by auto
  then show "((get, n, best), get, n, idx) \<in> measure (\<lambda>(get, n, idx). card {j. j < n \<and> get j < get idx})"
    by (simp add: psubset_card_mono)
qed simp

declare dip_walk.simps [simp del]

definition swr_bw_find_dip :: "(nat \<Rightarrow> real) \<Rightarrow> nat \<Rightarrow> nat \<Rightarrow> nat" where
  "swr_bw_find_dip get n idx =
     (if n < 2 then 0 else dip_walk get n (if idx > n - 1 then n - 1 else idx))"

definition min_step :: "(nat \<Rightarrow> real) \<Rightarrow> nat \<Rightarrow> (nat \<times> real) option \<Rightarrow> (nat \<times> real) option" where
  "min_step get i st = (case st of None \<Rightarrow> Some (i, get i)
     | Some (best, vbest) \<Rightarrow> let v = get i in if v < vbest then Some (i, v) else Some (best, vbest))"

text \<open>The scan starts with sample 0 as the best one, also when the sweep is empty.\<close>

definition swr_bw_global_min :: "(nat \<Rightarrow> real) \<Rightarrow> nat \<Rightarrow> nat" where
  "swr_bw_global_min get n = fst (the (fold (min_step get) [1..<n] (Some (0, get 0))))"

text \<open>The direction argument of the crossing search is only ever -1 or +1: it is the flag \<open>down\<close>.\<close>

function cross_loop ::
  "(nat \<Rightarrow> real) \<Rightarrow> (nat \<Rightarrow> real) \<Rightarrow> nat \<Rightarrow> bool \<Rightarrow> real \<Rightarrow> nat \<Rightarrow> real \<Rightarrow> real" where
  "cross_loop get freq n down level idx v0 =
     (if (if down then idx = 0 else idx \<ge> n - 1) then 0
      else let nxt = (if down then idx - 1 else idx + 1); v1 = get nxt in
        if v1 \<ge> level then
          let k = (if v1 = v0 then 0 else (level - v0) / (v1 - v0)) in
          freq idx + (freq nxt - freq idx) * k
        else cross_loop get freq n down level nxt v1)"
  by pat_completeness auto
termination
  by (relation "measure (\<lambda>(get, freq, n, down, level, idx, v0). if down then idx else n - 1 - idx)")
    (auto split: if_splits)

declare cross_loop.simps [simp del]

definition swr_bw_cross :: "(nat \<Rightarrow> real) \<Rightarrow> (nat \<Rightarrow> real) \<Rightarrow> nat \<Rightarrow> nat \<Rightarrow> bool \<Rightarrow> real \<Rightarrow> real" where
  "swr_bw_cross get freq n idx down level =
     (let v0 = get idx in if v0 \<ge> level then 0 else cross_loop get freq n down level idx v0)"

definition swr_bw_q :: "real \<Rightarrow> real \<Rightarrow> real \<Rightarrow> real \<Rightarrow> real \<Rightarrow> real" where
  "swr_bw_q f0 bw s r z0 =
     (if bw \<le> 0 \<or> r \<le> 0 then 0
      else let g = (s - 1) / (s + 1); g2 = g * g;
               x2 = (g2 * (r + z0) * (r + z0) - (r - z0) * (r - z0)) / (1 - g2) in
        if x2 \<le> 0 then 0 else f0 * sqrt x2 / (r * bw))"

fun bw_pick :: "real \<Rightarrow> real \<Rightarrow> nat list \<Rightarrow> swr_bw_result \<Rightarrow> swr_bw_result" where
  "bw_pick r0 z0 [] res = res"
| "bw_pick r0 z0 (i # lv) res =
     (if bw_f_lo res ! i \<noteq> 0 \<and> bw_f_hi res ! i \<noteq> 0 then
        let f0 = sqrt (bw_f_lo res ! i * bw_f_hi res ! i) in
        res\<lparr>bw_f0 := f0, bw_q := swr_bw_q f0 (bw_f_hi res ! i - bw_f_lo res ! i) (swr_bw_level ! i) r0 z0\<rparr>
      else bw_pick r0 z0 lv res)"

definition swr_bw_analyse ::
  "(nat \<Rightarrow> real) \<Rightarrow> (nat \<Rightarrow> real) \<Rightarrow> (nat \<Rightarrow> real) \<Rightarrow> nat \<Rightarrow> int \<Rightarrow> real \<Rightarrow> swr_bw_result" where
  "swr_bw_analyse get freq r_at n start z0 =
     (if n < 3 then \<lparr>bw_idx = 0, bw_f0 = 0, bw_swr0 = 0, bw_f_lo = [0, 0], bw_f_hi = [0, 0], bw_q = 0\<rparr>
      else
        let x = (if start < 0 then swr_bw_global_min get n else swr_bw_find_dip get n (nat start));
            r0 = r_at x in
        bw_pick r0 z0 [0..<SWR_BW_LEVELS]
          \<lparr>bw_idx = x, bw_f0 = freq x, bw_swr0 = get x,
           bw_f_lo = map (\<lambda>i. swr_bw_cross get freq n x True (swr_bw_level ! i)) [0..<SWR_BW_LEVELS],
           bw_f_hi = map (\<lambda>i. swr_bw_cross get freq n x False (swr_bw_level ! i)) [0..<SWR_BW_LEVELS],
           bw_q = 0\<rparr>)"

subsection \<open>Where the descent ends\<close>

lemma dip_fold_min:
  "fst (fold (dip_step get n idx) ds p) \<le> fst p \<and>
   (\<forall>d \<in> set ds. d \<noteq> 0 \<and> 0 \<le> int idx + d \<and> int idx + d < int n \<longrightarrow>
      fst (fold (dip_step get n idx) ds p) \<le> get (nat (int idx + d)))"
proof (induction ds arbitrary: p)
  case (Cons d ds)
  have "fst (dip_step get n idx d p) \<le> fst p \<and>
    (d \<noteq> 0 \<and> 0 \<le> int idx + d \<and> int idx + d < int n \<longrightarrow> fst (dip_step get n idx d p) \<le> get (nat (int idx + d)))"
    by (cases p) (auto simp: dip_step_def Let_def)
  then show ?case using Cons.IH [of "dip_step get n idx d p"] by (auto intro: order_trans)
qed simp

lemma dip_look_stays:
  assumes "snd (dip_look get n idx) = idx" "idx < n" "j < n" "\<bar>int j - int idx\<bar> \<le> SWR_BW_LOOKAHEAD"
  shows "get idx \<le> get j"
proof (cases "j = idx")
  case False
  have "dip_inv get n idx (dip_look get n idx)"
    unfolding dip_look_def by (rule dip_fold_inv) (simp add: dip_inv_def)
  then have "fst (dip_look get n idx) = get idx" using assms(1) by (auto simp: dip_inv_def)
  moreover have "int j - int idx \<in> set [- SWR_BW_LOOKAHEAD..SWR_BW_LOOKAHEAD]" using assms(4) by auto
  then have "fst (dip_look get n idx) \<le> get (nat (int idx + (int j - int idx)))"
    using dip_fold_min [of get n idx "[- SWR_BW_LOOKAHEAD..SWR_BW_LOOKAHEAD]" "(get idx, idx)",
        THEN conjunct2, THEN bspec] assms(3) False
    unfolding dip_look_def by fastforce
  ultimately show ?thesis by simp
qed simp

lemma dip_walk_spec:
  "idx < n \<Longrightarrow> dip_walk get n idx < n \<and> get (dip_walk get n idx) \<le> get idx \<and>
     snd (dip_look get n (dip_walk get n idx)) = dip_walk get n idx"
proof (induction get n idx rule: dip_walk.induct)
  case (1 get n idx)
  show ?case
  proof (cases "snd (dip_look get n idx) = idx")
    case True
    then show ?thesis using 1(2) by (simp add: dip_walk.simps [of get n idx])
  next
    case False
    then show ?thesis
      using 1(1) [OF refl False] dip_look_moves [OF False] by (simp add: dip_walk.simps [of get n idx] Let_def)
  qed
qed

interpretation gmin: best_scan "(<)" "\<lambda>i. True" get "min_step get"
  for get :: "nat \<Rightarrow> real"
  by unfold_locales (auto simp: min_step_def Let_def)

lemma swr_bw_global_min_spec:
  assumes "0 < n"
  shows "swr_bw_global_min get n < n \<and> (\<forall>i<n. get (swr_bw_global_min get n) \<le> get i)"
proof -
  have "best_of (<) (\<lambda>i. True) get n (fold (min_step get) [1..<n] (Some (0, get 0)))"
    using assms by (intro gmin.scan_from) (auto simp: best_of_def)
  then show ?thesis
    using assms by (auto simp: best_of_def swr_bw_global_min_def not_less split: option.splits prod.splits)
qed

text \<open>The dip search always ends, and it ends at an index of the sweep whose sample is not higher
  than the start sample and not higher than any sample within the lookahead distance on either
  side; started with a negative index it returns a global minimum.\<close>
theorem swr_bw_dip_correct:
  fixes get freq r_at :: "nat \<Rightarrow> real" and z0 :: real
  assumes "3 \<le> n"
  defines "dip \<equiv> \<lambda>start. bw_idx (swr_bw_analyse get freq r_at n start z0)"
  shows "dip start < n \<and>
    (if start < 0 then \<forall>i<n. get (dip start) \<le> get i
     else get (dip start) \<le> get (min (nat start) (n - 1)) \<and>
       (\<forall>j<n. \<bar>int j - int (dip start)\<bar> \<le> SWR_BW_LOOKAHEAD \<longrightarrow> get (dip start) \<le> get j))"
proof -
  have pick: "bw_idx (bw_pick r0 z0 lv res) = bw_idx res" for r0 lv res
    by (induction r0 z0 lv res rule: bw_pick.induct) (auto simp: Let_def)
  show ?thesis
  proof (cases "start < 0")
    case True
    then have "dip start = swr_bw_global_min get n"
      using assms(1) by (simp add: dip_def swr_bw_analyse_def Let_def pick)
    then show ?thesis using swr_bw_global_min_spec [of n get] assms(1) True by simp
  next
    case False
    then have d: "dip start = dip_walk get n (min (nat start) (n - 1))"
      using assms(1) by (simp add: dip_def swr_bw_analyse_def Let_def pick swr_bw_find_dip_def clip_hi)
    have "min (nat start) (n - 1) < n" using assms(1) by auto
    then have w: "dip start < n" "get (dip start) \<le> get (min (nat start) (n - 1))"
      "snd (dip_look get n (dip start)) = dip start"
      using dip_walk_spec [of "min (nat start) (n - 1)" n get] unfolding d by auto
    then show ?thesis using False dip_look_stays [OF w(3,1)] by auto
  qed
qed

theorem swr_bw_dip_correct_witness:
  "bw_idx (swr_bw_analyse (\<lambda>i. \<bar>real i - 5\<bar> + 1) real real 11 (- 1) 50) = 5"
proof -
  let ?d = "bw_idx (swr_bw_analyse (\<lambda>i. \<bar>real i - 5\<bar> + 1) real real 11 (- 1) 50)"
  have "\<forall>i<11. \<bar>real ?d - 5\<bar> + 1 \<le> \<bar>real i - 5\<bar> + 1"
    using swr_bw_dip_correct [of 11 "\<lambda>i. \<bar>real i - 5\<bar> + 1" real real "- 1" 50] by simp
  from this [rule_format, of 5] show ?thesis by simp
qed

subsection \<open>Crossings\<close>

definition walk :: "bool \<Rightarrow> nat \<Rightarrow> nat \<Rightarrow> nat" where
  "walk down idx k = (if down then idx - k else idx + k)"

definition room :: "bool \<Rightarrow> nat \<Rightarrow> nat \<Rightarrow> nat" where
  "room down n idx = (if down then idx else n - 1 - idx)"

lemma walk_0 [simp]: "walk down idx 0 = idx"
  by (simp add: walk_def)

lemma walk_walk: "k \<le> room down n idx \<Longrightarrow> walk down (walk down idx (Suc 0)) k = walk down idx (Suc k)"
  by (auto simp: walk_def)

lemma room_walk: "room down n idx \<noteq> 0 \<Longrightarrow> room down n (walk down idx (Suc 0)) = room down n idx - 1"
  by (auto simp: walk_def room_def)

text \<open>The crossing lies between the last sample below the level and the first one not below it.\<close>

definition crossing ::
  "(nat \<Rightarrow> real) \<Rightarrow> (nat \<Rightarrow> real) \<Rightarrow> nat \<Rightarrow> bool \<Rightarrow> real \<Rightarrow> nat \<Rightarrow> nat \<Rightarrow> real \<Rightarrow> bool" where
  "crossing get freq n down level idx k f \<longleftrightarrow> k < room down n idx \<and>
     (\<forall>m\<le>k. get (walk down idx m) < level) \<and> level \<le> get (walk down idx (Suc k)) \<and>
     f = freq (walk down idx k) + (freq (walk down idx (Suc k)) - freq (walk down idx k)) *
          ((level - get (walk down idx k)) / (get (walk down idx (Suc k)) - get (walk down idx k)))"

lemma cross_loop_unfold:
  assumes "get idx < level"
  shows "cross_loop get freq n down level idx (get idx) =
    (if room down n idx = 0 then 0
     else if level \<le> get (walk down idx (Suc 0)) then
       freq idx + (freq (walk down idx (Suc 0)) - freq idx) * ((level - get idx) / (get (walk down idx (Suc 0)) - get idx))
     else cross_loop get freq n down level (walk down idx (Suc 0)) (get (walk down idx (Suc 0))))"
  using assms by (subst cross_loop.simps) (auto simp: Let_def room_def walk_def)

lemma crossing_shift:
  assumes "crossing get freq n down level (walk down idx (Suc 0)) k f" "get idx < level" "room down n idx \<noteq> 0"
  shows "crossing get freq n down level idx (Suc k) f"
proof -
  have k: "k < room down n idx - 1" using assms by (simp add: crossing_def room_walk)
  then have w: "walk down (walk down idx (Suc 0)) m = walk down idx (Suc m)" if "m \<le> Suc k" for m
    using that by (intro walk_walk [where n = n]) simp
  have "get (walk down idx m) < level" if "m \<le> Suc k" for m
    using that assms(1,2) w by (cases m) (auto simp: crossing_def)
  then show ?thesis using assms k w by (auto simp: crossing_def)
qed

lemma cross_loop_spec:
  assumes "get idx < level"
  shows "(\<forall>m\<le>room down n idx. get (walk down idx m) < level) \<and> cross_loop get freq n down level idx (get idx) = 0 \<or>
    (\<exists>k. crossing get freq n down level idx k (cross_loop get freq n down level idx (get idx)))"
  using assms
proof (induction "room down n idx" arbitrary: idx)
  case 0
  then show ?case using cross_loop_unfold [of get idx level freq n down] by simp
next
  case (Suc r)
  then have r: "room down n idx \<noteq> 0" "room down n (walk down idx (Suc 0)) = r" using room_walk [of down n idx] by simp_all
  show ?case
  proof (cases "level \<le> get (walk down idx (Suc 0))")
    case True
    then have "crossing get freq n down level idx 0 (cross_loop get freq n down level idx (get idx))"
      using cross_loop_unfold [of get idx level freq n down, OF Suc.prems] Suc.prems r by (simp add: crossing_def)
    then show ?thesis by blast
  next
    case False
    let ?i = "walk down idx (Suc 0)"
    have eq: "cross_loop get freq n down level idx (get idx) = cross_loop get freq n down level ?i (get ?i)"
      using cross_loop_unfold [of get idx level freq n down, OF Suc.prems] r False by simp
    from Suc.hyps(1) [of ?i] r False consider
        (none) "\<forall>m\<le>r. get (walk down ?i m) < level" "cross_loop get freq n down level ?i (get ?i) = 0"
      | (some) k where "crossing get freq n down level ?i k (cross_loop get freq n down level ?i (get ?i))"
      by auto
    then show ?thesis
    proof cases
      case none
      have "get (walk down idx m) < level" if "m \<le> Suc r" for m
      proof (cases m)
        case 0
        then show ?thesis using Suc.prems by simp
      next
        case (Suc l)
        then have "walk down ?i l = walk down idx m"
          using that \<open>Suc r = room down n idx\<close> by (simp add: walk_walk [of l down n idx])
        moreover have "get (walk down ?i l) < level" using none(1) that Suc by simp
        ultimately show ?thesis by simp
      qed
      then show ?thesis using none(2) Suc.hyps(2) eq by simp
    next
      case some
      then show ?thesis using crossing_shift [of get freq n down level idx, OF _ Suc.prems r(1)] unfolding eq by blast
    qed
  qed
qed

lemma crossing_between:
  assumes "crossing get freq n down level idx k f"
  shows "min (freq (walk down idx k)) (freq (walk down idx (Suc k))) \<le> f \<and>
         f \<le> max (freq (walk down idx k)) (freq (walk down idx (Suc k)))"
proof -
  let ?a = "freq (walk down idx k)" and ?b = "freq (walk down idx (Suc k))"
  let ?k = "(level - get (walk down idx k)) / (get (walk down idx (Suc k)) - get (walk down idx k))"
  have "get (walk down idx k) < level" "level \<le> get (walk down idx (Suc k))" "f = ?a + (?b - ?a) * ?k"
    using assms by (auto simp: crossing_def)
  moreover from this have k: "0 \<le> ?k" "?k \<le> 1" by simp_all
  ultimately have f: "f = ?a * (1 - ?k) + ?b * ?k" by argo
  show ?thesis
  proof (cases "?a \<le> ?b")
    case True
    then show ?thesis unfolding f using k mult_right_mono [OF True k(1)] mult_right_mono [OF True, of "1 - ?k"]
      by (simp add: min_def max_def algebra_simps)
  next
    case False
    then have ba: "?b \<le> ?a" by simp
    show ?thesis unfolding f using False k mult_right_mono [OF ba k(1)] mult_right_mono [OF ba, of "1 - ?k"]
      by (simp add: min_def max_def algebra_simps)
  qed
qed

text \<open>The band edges: the crossing search returns 0 when the start sample is not below the level
  or when every sample up to the end of the sweep is; otherwise it returns the interpolated
  frequency between the last sample below the level and its neighbour, the first one that is not,
  and that frequency lies between those of the two samples.\<close>
theorem swr_bw_cross_correct:
  "level \<le> get idx \<and> swr_bw_cross get freq n idx down level = 0 \<or>
   (\<forall>m\<le>room down n idx. get (walk down idx m) < level) \<and> swr_bw_cross get freq n idx down level = 0 \<or>
   (\<exists>k. crossing get freq n down level idx k (swr_bw_cross get freq n idx down level) \<and>
      min (freq (walk down idx k)) (freq (walk down idx (Suc k))) \<le> swr_bw_cross get freq n idx down level \<and>
      swr_bw_cross get freq n idx down level \<le> max (freq (walk down idx k)) (freq (walk down idx (Suc k))))"
proof (cases "level \<le> get idx")
  case True
  then show ?thesis by (simp add: swr_bw_cross_def)
next
  case False
  then have "swr_bw_cross get freq n idx down level = cross_loop get freq n down level idx (get idx)"
    by (simp add: swr_bw_cross_def Let_def)
  then show ?thesis
    using cross_loop_spec [of get idx level down n freq] False crossing_between [of get freq n down level idx]
    by auto
qed

theorem swr_bw_cross_correct_witness:
  "\<exists>k. crossing (\<lambda>i. real i + 1) real 5 False (5 / 2) 0 k (swr_bw_cross (\<lambda>i. real i + 1) real 5 0 False (5 / 2))"
  using swr_bw_cross_correct [of "5 / 2" "\<lambda>i. real i + 1" 0 real 5 False]
  by (auto simp: room_def walk_def)

subsection \<open>Quality factor\<close>

lemma swr_edge_reactance:
  assumes "1 < s" "cmod (Complex (r - z0) x) = (s - 1) / (s + 1) * cmod (Complex (r + z0) x)"
  defines "g \<equiv> (s - 1) / (s + 1)"
  shows "(g * g * (r + z0) * (r + z0) - (r - z0) * (r - z0)) / (1 - g * g) = x * x"
proof -
  have "0 \<le> g" "g < 1" using assms(1) by (simp_all add: g_def)
  then have "g * g < 1" using mult_strict_mono [of g 1 g 1] by simp
  have "(cmod (Complex (r - z0) x))\<^sup>2 = (g * cmod (Complex (r + z0) x))\<^sup>2" using assms(2) by (simp add: g_def)
  then have "(r - z0)\<^sup>2 + x\<^sup>2 = g\<^sup>2 * ((r + z0)\<^sup>2 + x\<^sup>2)" by (simp add: power_mult_distrib cmod_power2)
  then have "g * g * (r + z0) * (r + z0) - (r - z0) * (r - z0) = x * x * (1 - g * g)"
    by (simp add: power2_eq_square algebra_simps)
  then show ?thesis using \<open>g * g < 1\<close> by simp
qed

text \<open>The quality factor is exact for a series resonator: if the impedance at the upper band edge
  is the one of an RLC circuit with resistance r and quality factor q that resonates at the
  geometric mean of the two edges, and its standing wave ratio there is s, then the formula
  applied to the edges returns q, also when r differs from the reference impedance.\<close>
theorem swr_bw_q_exact:
  fixes f_lo f_hi r z0 s q :: real
  defines "f0 \<equiv> sqrt (f_lo * f_hi)"
  defines "x \<equiv> r * q * (f_hi / f0 - f0 / f_hi)"
  assumes "0 < f_lo" "f_lo < f_hi" "0 < r" "0 < q" "1 < s"
    and "cmod (Complex (r - z0) x) = (s - 1) / (s + 1) * cmod (Complex (r + z0) x)"
  shows "swr_bw_q f0 (f_hi - f_lo) s r z0 = q"
proof -
  have f0: "0 < f0" "f0 * f0 = f_lo * f_hi" using assms(3,4) by (simp_all add: f0_def)
  have "f0 / f_hi = f_lo / f0" using f0 assms(3,4) by (simp add: field_simps)
  then have x: "x = r * q * (f_hi - f_lo) / f0" using f0(1) by (simp add: x_def field_simps)
  then have "0 < x" using assms f0(1) by simp
  have "swr_bw_q f0 (f_hi - f_lo) s r z0 = f0 * sqrt (x * x) / (r * (f_hi - f_lo))"
    using swr_edge_reactance [OF assms(7,8)] mult_pos_pos [OF \<open>0 < x\<close> \<open>0 < x\<close>] assms(4,5) by (simp add: swr_bw_q_def Let_def)
  also have "sqrt (x * x) = x" using \<open>0 < x\<close> by simp
  also have "f0 * x / (r * (f_hi - f_lo)) = q" using f0(1) assms(4,5) by (simp add: x)
  finally show ?thesis .
qed

theorem swr_bw_q_exact_witness: "swr_bw_q (sqrt (1 * 4)) (4 - 1) 4 50 50 = 1"
  by (rule swr_bw_q_exact) (simp_all add: cmod_def real_sqrt_eq_iff)

end
