(* ===== verification/Clock.thy ===== *)
theory Clock
  imports Complex_Main Prelude
begin

text \<open>
  The clock generator driver \<^verbatim>\<open>si5351.c\<close>: band tables, the fraction approximation, the encoding of
  PLL and multisynth registers, and the frequency setting routine with its caches.  Arithmetic is
  kept at the widths of the source.  What the driver sends on the bus, to the codec and to the
  scheduler is recorded in order as a list of events.  Delays are in microseconds.  Reading a band
  table past its end is the value None.
\<close>

subsection \<open>State\<close>

abbreviation (input) "XTALFREQ \<equiv> 26000000 :: u32"
abbreviation (input) "CLK2_FREQUENCY \<equiv> 8000000 :: u32"
abbreviation (input) "PLL_N_2 \<equiv> 32 :: u32"
abbreviation (input) "DRIVE_2MA \<equiv> 0 :: u8"
abbreviation (input) "DRIVE_4MA \<equiv> 1 :: u8"
abbreviation (input) "DRIVE_6MA \<equiv> 2 :: u8"
abbreviation (input) "DRIVE_8MA \<equiv> 3 :: u8"
abbreviation (input) "SI5351_REG_PLL_A \<equiv> 26 :: u8"
abbreviation (input) "SI5351_REG_PLL_B \<equiv> 34 :: u8"
abbreviation (input) "CLK_PLL_SELECT_A \<equiv> 0 :: u8"
abbreviation (input) "CLK_PLL_SELECT_B \<equiv> 32 :: u8"
abbreviation (input) "CLK_INTEGER_MODE \<equiv> 64 :: u8"
abbreviation (input) "CLK_POWERDOWN \<equiv> 128 :: u8"
abbreviation (input) "CLK_INPUT_MULTISYNTH_N \<equiv> 12 :: u8"
abbreviation (input) "DELAY_BAND_1_2 \<equiv> 100 :: nat"
abbreviation (input) "DELAY_BAND_3_4 \<equiv> 120 :: nat"
abbreviation (input) "DELAY_BANDCHANGE \<equiv> 2000 :: nat"
abbreviation (input) "DELAY_CHANNEL_CHANGE \<equiv> 100 :: nat"
abbreviation (input) "DELAY_RESET_PLL_AFTER \<equiv> 4000 :: nat"

datatype band_mode = BAND_NONE | SI5351_FIXED_PLL | SI5351_FIXED_MULT

datatype band_strategy = Strategy (bs_freq: u32) (bs_mode: band_mode) (bs_div: u8) (bs_mul: u32)
  (bs_omul: u32) (bs_pow: u8) (bs_opow: u8) (bs_l_gain: u8) (bs_r_gain: u8) (bs_freq_align: u16)

datatype event = I2C_Write "u8 list" | Set_Gain u8 u8 | Sleep nat | Build_DSP_Table u32

record clock =
  current_band :: nat
  current_power :: u8
  current_freq :: u32
  clk_cache :: "u8 list"
  band_s :: "band_strategy list"
  xtal_freq :: u32
  harmonic_freq_threshold :: u32
  IF_freq :: u32
  events :: "event list"

definition emit :: "event \<Rightarrow> clock \<Rightarrow> clock" where
  "emit e s = s\<lparr>events := events s @ [e]\<rparr>"

definition si5351_reset_cache :: "clock \<Rightarrow> clock" where
  "si5351_reset_cache s = s\<lparr>current_band := 0, current_freq := 0\<rparr>"

definition si5351_get_frequency :: "clock \<Rightarrow> u32" where
  "si5351_get_frequency s = current_freq s"

definition si5351_set_frequency_offset :: "u32 \<Rightarrow> clock \<Rightarrow> clock" where
  "si5351_set_frequency_offset offset s =
     (emit (Build_DSP_Table offset) (si5351_reset_cache s))\<lparr>IF_freq := offset\<rparr>"

definition si5351_bulk_write :: "u8 list \<Rightarrow> clock \<Rightarrow> clock" where
  "si5351_bulk_write buf = emit (I2C_Write buf)"

definition si5351_write :: "u8 \<Rightarrow> u8 \<Rightarrow> clock \<Rightarrow> clock" where
  "si5351_write reg dat = si5351_bulk_write [reg, dat]"

definition si5351_configs :: "u8 list" where
  "si5351_configs =
   [2, 3, 0xff,
    4, 16, CLK_POWERDOWN, CLK_POWERDOWN, CLK_POWERDOWN,
    2, 183, 64,
    2, 3, NOT (1 OR 2 OR 4),
    0]"

definition disable_output :: "u8 list" where
  "disable_output = [16, CLK_POWERDOWN, CLK_POWERDOWN, CLK_POWERDOWN]"

definition msreg_base :: "u8 list" where
  "msreg_base = [42, 50, 58]"

definition si5351_reset_pll :: "u8 \<Rightarrow> clock \<Rightarrow> clock" where
  "si5351_reset_pll m = si5351_write 177 (m OR 0x0C)"

definition si5351_disable_output :: "clock \<Rightarrow> clock" where
  "si5351_disable_output s =
     si5351_reset_cache (si5351_bulk_write disable_output (si5351_write 3 (1 OR 2 OR 4) s))"

definition si5351_enable_output :: "clock \<Rightarrow> clock" where
  "si5351_enable_output s = si5351_reset_cache (si5351_write 3 (NOT (1 OR 2 OR 4)) s)"

definition si5351_set_tcxo :: "u32 \<Rightarrow> clock \<Rightarrow> clock" where
  "si5351_set_tcxo xtal s =
     (let xtal = (if xtal < XTALFREQ - 2000000 \<or> xtal > XTALFREQ + 2000000 then XTALFREQ else xtal) in
      si5351_reset_cache (s\<lparr>xtal_freq := xtal\<rparr>))"

subsection \<open>Registers\<close>

definition pll_regs :: "u8 \<Rightarrow> u32 \<Rightarrow> u32 \<Rightarrow> u32 \<Rightarrow> u8 list" where
  "pll_regs pllSource P1 P2 P3 =
   [pllSource,
    ucast (drop_bit 8 (P3 AND 0x0FF00)),
    ucast (P3 AND 0x000FF),
    ucast (drop_bit 16 (P1 AND 0x30000)),
    ucast (drop_bit 8 (P1 AND 0x0FF00)),
    ucast (P1 AND 0x000FF),
    ucast (drop_bit 12 (P3 AND 0xF0000) OR drop_bit 16 (P2 AND 0xF0000)),
    ucast (drop_bit 8 (P2 AND 0x0FF00)),
    ucast (P2 AND 0x000FF)]"

definition si5351_setupPLL :: "u8 \<Rightarrow> u32 \<Rightarrow> u32 \<Rightarrow> u32 \<Rightarrow> clock \<Rightarrow> clock" where
  "si5351_setupPLL pllSource mult num denom =
     (let P1 = mult - 4 * 128; P2 = num; P3 = denom in si5351_bulk_write (pll_regs pllSource P1 P2 P3))"

definition ms_regs :: "u8 \<Rightarrow> u32 \<Rightarrow> u32 \<Rightarrow> u32 \<Rightarrow> u32 \<Rightarrow> u8 list" where
  "ms_regs base P1 P2 P3 rdiv =
   [base,
    ucast (drop_bit 8 (P3 AND 0x0FF00)),
    ucast (P3 AND 0x000FF),
    ucast (drop_bit 16 (P1 AND 0x30000) OR rdiv),
    ucast (drop_bit 8 (P1 AND 0x0FF00)),
    ucast (P1 AND 0x000FF),
    ucast (drop_bit 12 (P3 AND 0xF0000) OR drop_bit 16 (P2 AND 0xF0000)),
    ucast (drop_bit 8 (P2 AND 0x0FF00)),
    ucast (P2 AND 0x000FF)]"

definition si5351_setupMultisynth ::
  "nat \<Rightarrow> u32 \<Rightarrow> u32 \<Rightarrow> u32 \<Rightarrow> u32 \<Rightarrow> u8 \<Rightarrow> clock \<Rightarrow> clock" where
  "si5351_setupMultisynth channel dv num denom rdiv chctrl s =
     (let P1 = dv - 4 * 128; P2 = num; P3 = denom;
          rdiv = push_bit 4 rdiv;
          rdiv = (if P1 = 0 then rdiv OR 12 else rdiv);
          s = si5351_bulk_write (ms_regs (msreg_base ! channel) P1 P2 P3 rdiv) s;
          chctrl = chctrl OR CLK_INPUT_MULTISYNTH_N;
          chctrl = (if num = 0 then chctrl OR CLK_INTEGER_MODE else chctrl) in
      if clk_cache s ! channel \<noteq> chctrl then
        (si5351_write (16 + of_nat channel) chctrl s)\<lparr>clk_cache := (clk_cache s)[channel := chctrl]\<rparr>
      else s)"

subsection \<open>Fractions\<close>

definition MAX_DENOMINATOR :: u32 where
  "MAX_DENOMINATOR = push_bit 20 1 - 1"

lemma word_sub_div_mult: "(a::'a::len word) - a div b * b = a mod b"
  by (simp add: minus_div_mult_eq_mod)

lemma unat_mod_less: "(b::'a::len word) \<noteq> 0 \<Longrightarrow> unat (a mod b) < unat b"
  by (simp add: unat_mod unat_gt_0)

function approx_loop ::
  "u32 \<Rightarrow> u32 \<Rightarrow> u32 \<Rightarrow> u32 \<Rightarrow> u32 \<Rightarrow> u32 \<Rightarrow> u32 \<Rightarrow> u32 \<times> u32" where
  "approx_loop num denom p0 q0 p1 q1 mx =
     (if num = 0 then (p0, q0)
      else
        let a = denom div num; q1 = q1 + a * q0 in
        if q1 > mx then (p0, q0)
        else
          let denom = denom - a * num; p1 = p1 + a * p0 in
          if denom = 0 then (p1, q1)
          else
            let a = num div denom; q0 = q0 + a * q1 in
            if q0 > mx then (p1, q1)
            else approx_loop (num - a * denom) denom (p0 + a * p1) q0 p1 q1 mx)"
  by pat_completeness auto
termination
proof (relation "measure (\<lambda>(num, denom, p0, q0, p1, q1, mx). unat num)", goal_cases)
  case 1
  then show ?case by simp
next
  case (2 num denom p0 q0 p1 q1 mx a q1' denom' p1' b q0')
  have "num \<noteq> 0" and d: "denom' = denom mod num" using 2 by (simp_all add: word_sub_div_mult)
  have "denom' \<noteq> 0" and n: "num - b * denom' = num mod denom'" using 2 by (simp_all add: word_sub_div_mult)
  then show ?case
    using unat_mod_less [OF \<open>num \<noteq> 0\<close>, of denom] unat_mod_less [OF \<open>denom' \<noteq> 0\<close>, of num] d by simp
qed

declare approx_loop.simps [simp del]

definition approximate_fraction :: "u32 \<Rightarrow> u32 \<Rightarrow> u32 \<Rightarrow> u32 \<times> u32" where
  "approximate_fraction n d mx = approx_loop n d 0 1 1 0 mx"

text \<open>The quotient and remainder of the shifted 64-bit frequency are truncated to 32 bits.\<close>

definition si5351_set_frequency_fixedpll ::
  "nat \<Rightarrow> u64 \<Rightarrow> u32 \<Rightarrow> nat \<Rightarrow> u8 \<Rightarrow> clock \<Rightarrow> clock" where
  "si5351_set_frequency_fixedpll channel pllfreq freq rdiv chctrl =
     (let pllfreq = push_bit (7 - rdiv) pllfreq;
          dv = ucast (pllfreq div ucast freq) :: u32;
          num = ucast (pllfreq mod ucast freq);
          denom = freq;
          (num, denom) = approximate_fraction num denom MAX_DENOMINATOR;
          (num, dv) = (if num = denom then (0, dv + 1) else (num, dv)) in
      si5351_setupMultisynth channel dv num denom (of_nat rdiv) chctrl)"

definition si5351_setupPLL_freq :: "u8 \<Rightarrow> u64 \<Rightarrow> u32 \<Rightarrow> clock \<Rightarrow> clock" where
  "si5351_setupPLL_freq pllSource pllfreq dv s =
     (let pllfreq = push_bit 7 pllfreq;
          xtal = xtal_freq s * dv;
          multi = ucast (pllfreq div ucast xtal) :: u32;
          num = ucast (pllfreq mod ucast xtal);
          denom = xtal;
          (num, denom) = approximate_fraction num denom MAX_DENOMINATOR;
          (num, multi) = (if num = denom then (0, multi + 1) else (num, multi)) in
      si5351_setupPLL pllSource multi num denom s)"

subsection \<open>Bands\<close>

definition band_strategy_33H_SI5351 :: "band_strategy list" where
  "band_strategy_33H_SI5351 =
   [Strategy 0 BAND_NONE 0 0 0 15 15 255 255 1,
    Strategy 26000 SI5351_FIXED_PLL 8 1 1 DRIVE_2MA DRIVE_2MA 0 0 1,
    Strategy 100000000 SI5351_FIXED_PLL 32 1 1 DRIVE_2MA DRIVE_2MA 0 0 1,
    Strategy 130000000 SI5351_FIXED_MULT 8 1 1 DRIVE_8MA DRIVE_6MA 0 0 1,
    Strategy 180000000 SI5351_FIXED_MULT 6 1 1 DRIVE_8MA DRIVE_6MA 0 0 1,
    Strategy 1 SI5351_FIXED_MULT 4 1 1 DRIVE_8MA DRIVE_6MA 0 0 1,
    Strategy 460000000 SI5351_FIXED_MULT 6 3 5 DRIVE_8MA DRIVE_6MA 40 40 (3 * 5 * 4),
    Strategy 600000000 SI5351_FIXED_MULT 4 3 5 DRIVE_8MA DRIVE_6MA 40 40 (3 * 5 * 4),
    Strategy 3 SI5351_FIXED_MULT 4 3 5 DRIVE_8MA DRIVE_6MA 50 50 (3 * 5 * 4),
    Strategy 1200000000 SI5351_FIXED_MULT 4 5 7 DRIVE_8MA DRIVE_6MA 70 70 (5 * 7 * 4),
    Strategy 5 SI5351_FIXED_MULT 4 5 7 DRIVE_8MA DRIVE_6MA 70 70 (5 * 7 * 4),
    Strategy 1800000000 SI5351_FIXED_MULT 4 7 9 DRIVE_8MA DRIVE_8MA 70 70 (7 * 9 * 4),
    Strategy 7 SI5351_FIXED_MULT 4 7 9 DRIVE_8MA DRIVE_8MA 70 70 (7 * 9 * 4),
    Strategy 2400000000 SI5351_FIXED_MULT 4 9 11 DRIVE_8MA DRIVE_8MA 85 85 (9 * 11 * 4),
    Strategy 9 SI5351_FIXED_MULT 4 9 11 DRIVE_8MA DRIVE_8MA 95 95 (9 * 11 * 4),
    Strategy 11 SI5351_FIXED_MULT 4 11 12 DRIVE_8MA DRIVE_8MA 95 95 (11 * 12 * 4)]"

definition band_strategy_H4_SI5351 :: "band_strategy list" where
  "band_strategy_H4_SI5351 =
   [Strategy 0 BAND_NONE 0 0 0 15 15 255 255 1,
    Strategy 26000 SI5351_FIXED_PLL 8 1 1 DRIVE_2MA DRIVE_2MA 0 0 1,
    Strategy 100000000 SI5351_FIXED_PLL 32 1 1 DRIVE_2MA DRIVE_2MA 0 0 1,
    Strategy 130000000 SI5351_FIXED_MULT 8 1 1 DRIVE_4MA DRIVE_4MA 0 0 1,
    Strategy 180000000 SI5351_FIXED_MULT 6 1 1 DRIVE_4MA DRIVE_4MA 0 0 1,
    Strategy 1 SI5351_FIXED_MULT 4 1 1 DRIVE_4MA DRIVE_4MA 0 0 1,
    Strategy 460000000 SI5351_FIXED_MULT 6 3 5 DRIVE_4MA DRIVE_4MA 40 40 (3 * 5 * 4),
    Strategy 600000000 SI5351_FIXED_MULT 4 3 5 DRIVE_4MA DRIVE_4MA 40 40 (3 * 5 * 4),
    Strategy 3 SI5351_FIXED_MULT 4 3 5 DRIVE_8MA DRIVE_4MA 50 50 (3 * 5 * 4),
    Strategy 1200000000 SI5351_FIXED_MULT 4 5 7 DRIVE_8MA DRIVE_6MA 70 70 (5 * 7 * 4),
    Strategy 5 SI5351_FIXED_MULT 4 5 7 DRIVE_8MA DRIVE_6MA 70 70 (5 * 7 * 4),
    Strategy 1800000000 SI5351_FIXED_MULT 4 7 9 DRIVE_8MA DRIVE_8MA 70 70 (7 * 9 * 4),
    Strategy 7 SI5351_FIXED_MULT 4 7 9 DRIVE_8MA DRIVE_8MA 70 70 (7 * 9 * 4),
    Strategy 2400000000 SI5351_FIXED_MULT 4 9 11 DRIVE_8MA DRIVE_8MA 85 85 (9 * 11 * 4),
    Strategy 9 SI5351_FIXED_MULT 4 9 11 DRIVE_8MA DRIVE_8MA 95 95 (9 * 11 * 4),
    Strategy 11 SI5351_FIXED_MULT 4 11 12 DRIVE_8MA DRIVE_8MA 95 95 (11 * 12 * 4)]"

definition band_strategy_36H_MS5351 :: "band_strategy list" where
  "band_strategy_36H_MS5351 =
   [Strategy 0 BAND_NONE 0 0 0 15 15 255 255 1,
    Strategy 26000 SI5351_FIXED_PLL 16 1 1 DRIVE_2MA DRIVE_2MA 0 0 1,
    Strategy 120000000 SI5351_FIXED_PLL 32 1 1 DRIVE_2MA DRIVE_2MA 0 0 1,
    Strategy 1 SI5351_FIXED_MULT 4 1 1 DRIVE_4MA DRIVE_4MA 0 0 1,
    Strategy 400000000 SI5351_FIXED_MULT 8 3 5 DRIVE_8MA DRIVE_6MA 20 20 1,
    Strategy 588000000 SI5351_FIXED_MULT 6 3 5 DRIVE_8MA DRIVE_6MA 20 20 1,
    Strategy 3 SI5351_FIXED_MULT 4 3 5 DRIVE_8MA DRIVE_6MA 30 30 1,
    Strategy 5 SI5351_FIXED_MULT 4 5 7 DRIVE_8MA DRIVE_6MA 60 60 1,
    Strategy 7 SI5351_FIXED_MULT 4 7 9 DRIVE_8MA DRIVE_8MA 75 75 (7 * 9 * 4),
    Strategy 9 SI5351_FIXED_MULT 4 9 11 DRIVE_8MA DRIVE_8MA 80 90 (9 * 11 * 4),
    Strategy 11 SI5351_FIXED_MULT 4 11 13 DRIVE_8MA DRIVE_8MA 95 95 (11 * 12 * 4)]"

definition band_strategy_SWC5351 :: "band_strategy list" where
  "band_strategy_SWC5351 =
   [Strategy 0 BAND_NONE 0 0 0 15 15 255 255 1,
    Strategy 32000 SI5351_FIXED_PLL 6 1 1 DRIVE_8MA DRIVE_4MA 0 0 1,
    Strategy 130000000 SI5351_FIXED_PLL 40 1 1 DRIVE_8MA DRIVE_4MA 0 0 1,
    Strategy 1 SI5351_FIXED_MULT 4 1 1 DRIVE_8MA DRIVE_4MA 0 0 1,
    Strategy 588000000 SI5351_FIXED_MULT 6 3 5 DRIVE_8MA DRIVE_4MA 0 0 (3 * 5 * 4),
    Strategy 3 SI5351_FIXED_MULT 4 3 5 DRIVE_8MA DRIVE_4MA 0 0 (3 * 5 * 4),
    Strategy 5 SI5351_FIXED_MULT 4 5 7 DRIVE_8MA DRIVE_8MA 0 0 (5 * 7 * 4),
    Strategy 7 SI5351_FIXED_MULT 4 7 9 DRIVE_8MA DRIVE_8MA 40 40 (7 * 9 * 4),
    Strategy 9 SI5351_FIXED_MULT 4 9 11 DRIVE_8MA DRIVE_8MA 40 40 (9 * 11 * 4),
    Strategy 11 SI5351_FIXED_MULT 4 11 13 DRIVE_8MA DRIVE_8MA 40 40 (11 * 12 * 4)]"

definition si5351_set_band_mode :: "nat \<Rightarrow> clock \<Rightarrow> clock" where
  "si5351_set_band_mode t s =
     s\<lparr>band_s := [band_strategy_H4_SI5351, band_strategy_36H_MS5351, band_strategy_SWC5351] ! t\<rparr>"

fun harmonic_scan :: "u32 \<Rightarrow> u32 \<Rightarrow> band_strategy list \<Rightarrow> nat \<Rightarrow> nat option" where
  "harmonic_scan thr freq [] i = None"
| "harmonic_scan thr freq (b # bs) i =
     (let f = bs_freq b; f = (if f < 20 then f * thr else f) in
      if freq \<le> f then Some i else harmonic_scan thr freq bs (i + 1))"

definition si5351_get_harmonic_lvl :: "clock \<Rightarrow> u32 \<Rightarrow> nat option" where
  "si5351_get_harmonic_lvl s freq = harmonic_scan (harmonic_freq_threshold s) freq (band_s s) 0"

definition band_at :: "clock \<Rightarrow> nat \<Rightarrow> band_strategy option" where
  "band_at s i = (if i < length (band_s s) then Some (band_s s ! i) else None)"

definition set_fixed_pll ::
  "band_strategy \<Rightarrow> bool \<Rightarrow> u32 \<Rightarrow> u32 \<Rightarrow> nat \<Rightarrow> u8 \<Rightarrow> u8 \<Rightarrow> clock \<Rightarrow> clock" where
  "set_fixed_pll b band_changed freq ofreq rdiv ds ods s =
     (let pll_n = ucast (bs_div b) :: u32;
          s = (if band_changed then
                 si5351_set_frequency_fixedpll 2 (ucast (xtal_freq s * PLL_N_2)) CLK2_FREQUENCY 0 (DRIVE_2MA OR CLK_PLL_SELECT_B)
                  (si5351_setupPLL SI5351_REG_PLL_B (push_bit 7 PLL_N_2) 0 1
                    (si5351_setupPLL SI5351_REG_PLL_A (push_bit 7 pll_n) 0 1 s))
               else s);
          s = si5351_set_frequency_fixedpll 0 (ucast (bs_omul b) * ucast (xtal_freq s) * ucast pll_n) ofreq rdiv
                (ods OR CLK_PLL_SELECT_A) s in
      si5351_set_frequency_fixedpll 1 (ucast (bs_mul b) * ucast (xtal_freq s) * ucast pll_n) freq rdiv
        (ds OR CLK_PLL_SELECT_A) s)"

definition set_fixed_mult ::
  "band_strategy \<Rightarrow> u8 \<Rightarrow> u32 \<Rightarrow> u32 \<Rightarrow> nat \<Rightarrow> u8 \<Rightarrow> u8 \<Rightarrow> clock \<Rightarrow> clock" where
  "set_fixed_mult b current_div freq ofreq rdiv ds ods s =
     (let fdiv = ucast (bs_div b) :: u32;
          s = si5351_setupPLL_freq SI5351_REG_PLL_A (ucast ofreq * ucast fdiv) (bs_omul b) s;
          s = si5351_setupPLL_freq SI5351_REG_PLL_B (ucast freq * ucast fdiv) (bs_mul b) s;
          s = (if current_div \<noteq> bs_div b then
                 si5351_setupMultisynth 1 (push_bit 7 fdiv) 0 1 (of_nat rdiv) (ds OR CLK_PLL_SELECT_B)
                  (si5351_setupMultisynth 0 (push_bit 7 fdiv) 0 1 (of_nat rdiv) (ods OR CLK_PLL_SELECT_A) s)
               else s) in
      si5351_set_frequency_fixedpll 2 (ucast freq * ucast fdiv) (CLK2_FREQUENCY * bs_mul b) rdiv
        (DRIVE_2MA OR CLK_PLL_SELECT_B) s)"

definition select_band :: "u32 \<Rightarrow> u8 \<Rightarrow> clock \<Rightarrow> (nat \<times> u8 \<times> nat) option" where
  "select_band freq drive s =
     Option.bind (band_at s 1) (\<lambda>b1.
       if freq < bs_freq b1 then Some (7, DRIVE_2MA, 1)
       else if freq \<le> 1000000 then Some (4, drive, 2)
       else map_option (\<lambda>band. (0, drive, band)) (si5351_get_harmonic_lvl s freq))"

text \<open>The codec gain and the pause after a band change are part of the routine; the pause before it
  is switched off by its zero length.\<close>

definition program_band ::
  "nat \<Rightarrow> band_strategy \<Rightarrow> band_strategy \<Rightarrow> u32 \<Rightarrow> u32 \<Rightarrow> nat \<Rightarrow> u8 \<Rightarrow> clock \<Rightarrow> clock \<times> nat" where
  "program_band band b cur freq ofreq rdiv drive s =
     (let changed = (current_band s \<noteq> band);
          s = (if changed \<and> (bs_l_gain cur \<noteq> bs_l_gain b \<or> bs_r_gain cur \<noteq> bs_r_gain b)
               then emit (Set_Gain (bs_l_gain b) (bs_r_gain b)) s else s);
          (ds, ods) = (if drive > DRIVE_8MA then (bs_pow b, bs_opow b) else (drive, drive));
          (s, delay) = (case bs_mode b of
              SI5351_FIXED_PLL \<Rightarrow> (set_fixed_pll b changed freq ofreq rdiv ds ods s, DELAY_BAND_1_2)
            | SI5351_FIXED_MULT \<Rightarrow> (set_fixed_mult b (bs_div cur) freq ofreq rdiv ds ods s, DELAY_BAND_3_4)
            | BAND_NONE \<Rightarrow> (s, 0));
          (s, delay) = (if changed then
              ((si5351_reset_pll (32 OR 128) (emit (Sleep DELAY_RESET_PLL_AFTER) s))\<lparr>current_band := band\<rparr>,
               DELAY_BANDCHANGE)
            else (s, delay)) in
      (s\<lparr>current_freq := freq\<rparr>, delay))"

definition si5351_set_frequency :: "u32 \<Rightarrow> u8 \<Rightarrow> clock \<Rightarrow> (clock \<times> nat) option" where
  "si5351_set_frequency freq drive s =
    (if freq = 0 then Some (s, 0)
     else
      let ofreq = freq + IF_freq s in
      Option.bind (select_band freq drive s) (\<lambda>(rdiv, drive, band).
      let s = (if current_power s \<noteq> drive then (si5351_reset_cache s)\<lparr>current_power := drive\<rparr> else s) in
      if freq = current_freq s then Some (s, DELAY_CHANNEL_CHANGE)
      else
      Option.bind (band_at s (current_band s)) (\<lambda>cur.
      Option.bind (band_at s band) (\<lambda>b.
      Some (program_band band b cur freq ofreq rdiv drive s)))))"

definition si5351_set_power :: "u8 \<Rightarrow> clock \<Rightarrow> clock option" where
  "si5351_set_power drive s =
     (if drive = current_power s then Some s
      else map_option fst (si5351_set_frequency (current_freq s) drive s))"

fun init_loop :: "nat \<Rightarrow> u8 list \<Rightarrow> clock \<Rightarrow> clock option" where
  "init_loop 0 p s = None"
| "init_loop (Suc fuel) p s =
     (case p of [] \<Rightarrow> None
      | len # p \<Rightarrow> if len = 0 then Some s
          else init_loop fuel (drop (unat len) p) (si5351_bulk_write (take (unat len) p) s))"

definition si5351_init :: "nat \<Rightarrow> clock \<Rightarrow> clock option" where
  "si5351_init band_mode s =
     Option.bind (init_loop (length si5351_configs) si5351_configs s) (\<lambda>s.
       map_option fst (si5351_set_frequency XTALFREQ 0 (si5351_set_band_mode band_mode s)))"

subsection \<open>Quality of the approximation\<close>

lemma uint_muladd:
  fixes q a b :: "'a::len word"
  assumes "uint q + uint a * uint b < 2 ^ LENGTH('a)"
  shows "uint (q + a * b) = uint q + uint a * uint b"
proof -
  have "uint (q + a * b) = (uint q + uint a * uint b) mod 2 ^ LENGTH('a)"
    by (simp add: uint_word_ariths mod_simps)
  then show ?thesis using assms by simp
qed

lemma step_bound:
  fixes num denom q q' D :: int
  assumes "q' * num + q * denom = D" "0 < num" "0 \<le> denom" "0 \<le> q" "0 \<le> q'"
  shows "(q' + denom div num * q) * num + q * (denom mod num) = D"
    and "(q' + denom div num * q) \<le> D" "(q' + denom div num * q) * num \<le> D"
proof -
  have d: "denom div num * num + denom mod num = denom" by simp
  have "(q' + denom div num * q) * num + q * (denom mod num) = q' * num + q * (denom div num * num + denom mod num)"
    by (simp only: distrib_left distrib_right mult.assoc mult.commute mult.left_commute add.assoc)
  then show eq: "(q' + denom div num * q) * num + q * (denom mod num) = D" using assms(1) d by simp
  have "0 \<le> q * (denom mod num)" using assms by simp
  then show le: "(q' + denom div num * q) * num \<le> D" using eq by linarith
  have "0 \<le> q' + denom div num * q" using assms by (simp add: pos_imp_zdiv_nonneg_iff)
  then have "(q' + denom div num * q) * 1 \<le> (q' + denom div num * q) * num"
    using assms(2) by (intro mult_left_mono) simp_all
  then show "(q' + denom div num * q) \<le> D" using le unfolding mult_1_right by (rule order_trans)
qed

text \<open>The invariant of the loop: both convergents express the original fraction through the
  remainders, and their determinant is 1 or -1.\<close>

definition approx_inv :: "int \<Rightarrow> int \<Rightarrow> int \<Rightarrow> int \<Rightarrow> int \<Rightarrow> int \<Rightarrow> int \<Rightarrow> int \<Rightarrow> bool" where
  "approx_inv N D num denom p0 q0 p1 q1 \<longleftrightarrow>
     q1 * num + q0 * denom = D \<and> p1 * num + p0 * denom = N \<and> \<bar>p1 * q0 - p0 * q1\<bar> = 1 \<and>
     0 \<le> num \<and> 0 \<le> denom \<and> 0 \<le> p0 \<and> 1 \<le> q0 \<and> 0 \<le> p1 \<and> 0 \<le> q1 \<and> (1 \<le> q1 \<or> num \<le> denom)"

definition approx_good :: "int \<Rightarrow> int \<Rightarrow> int \<Rightarrow> int \<Rightarrow> int \<Rightarrow> bool" where
  "approx_good N D mx p q \<longleftrightarrow> 1 \<le> q \<and> q \<le> mx \<and> 0 \<le> p \<and> \<bar>N * q - p * D\<bar> * mx < D"

lemma approx_inv_swap:
  assumes "approx_inv N D num denom p0 q0 p1 q1" "0 < num"
  defines "a \<equiv> denom div num"
  shows "approx_inv N D num (denom mod num) p0 q0 (p1 + a * p0) (q1 + a * q0)" "1 \<le> q1 + a * q0"
proof -
  note i = assms(1)[unfolded approx_inv_def]
  have a: "0 \<le> a" using i assms(2) by (simp add: a_def pos_imp_zdiv_nonneg_iff)
  have "1 \<le> a" if "num \<le> denom" using that assms(2) by (simp add: a_def pos_imp_zdiv_pos_iff int_one_le_iff_zero_less)
  then have "1 \<le> a * q0" if "num \<le> denom" using that i mult_mono [of 1 a 1 q0] by simp
  then show q: "1 \<le> q1 + a * q0"
    using i a by (cases "num \<le> denom") (auto simp: add_increasing add_increasing2)
  have "0 \<le> p1 + a * p0" using i a by simp
  moreover have "(p1 + a * p0) * q0 - p0 * (q1 + a * q0) = p1 * q0 - p0 * q1" by (simp add: algebra_simps)
  ultimately show "approx_inv N D num (denom mod num) p0 q0 (p1 + a * p0) (q1 + a * q0)"
    using i q assms(2) step_bound(1) [of q1 num q0 denom D] step_bound(1) [of p1 num p0 denom N]
    unfolding approx_inv_def a_def by simp
qed

lemma approx_exit:
  assumes "approx_inv N D num denom p0 q0 p1 q1" "q0 \<le> mx" "0 < D" "num = 0 \<or> mx < q1 + denom div num * q0"
  shows "approx_good N D mx p0 q0"
proof (cases "num = 0")
  case True
  then show ?thesis using assms by (auto simp: approx_good_def approx_inv_def)
next
  case False
  note i = assms(1)[unfolded approx_inv_def]
  have N: "N = p1 * num + p0 * denom" and D: "D = q1 * num + q0 * denom" using i by simp_all
  have "N * q0 - p0 * D = num * (p1 * q0 - p0 * q1)" unfolding N D by (simp add: algebra_simps)
  then have e: "\<bar>N * q0 - p0 * D\<bar> = num" using i by (simp add: abs_mult)
  have "num * mx < num * (q1 + denom div num * q0)" using assms(4) False i by simp
  also have "\<dots> \<le> D" using step_bound(3) [of q1 num q0 denom D] i False by (simp add: mult.commute)
  finally show ?thesis using e i assms(2) by (simp add: approx_good_def)
qed

lemma approx_inv_sym:
  "approx_inv N D num denom p0 q0 p1 q1 \<Longrightarrow> 1 \<le> q1 \<Longrightarrow> approx_inv N D denom num p1 q1 p0 q0"
  by (auto simp: approx_inv_def algebra_simps abs_minus_commute)

lemma uint_sub_div: "uint (a - a div b * b) = uint a mod uint (b::'a::len word)"
  by (simp add: word_sub_div_mult uint_mod_distrib)

lemma approx_loop_good:
  assumes "approx_inv N D (uint num) (uint denom) (uint p0) (uint q0) (uint p1) (uint q1)"
    and "uint q0 \<le> uint mx" "0 < D" "D < 2 ^ 32" "N \<le> D"
  shows "case approx_loop num denom p0 q0 p1 q1 mx of (p, q) \<Rightarrow> approx_good N D (uint mx) (uint p) (uint q)"
  using assms
proof (induction num denom p0 q0 p1 q1 mx rule: approx_loop.induct)
  case (1 num denom p0 q0 p1 q1 mx)
  define a q1' p1' denom' where "a = denom div num" and "q1' = q1 + a * q0" and "p1' = p1 + a * p0"
    and "denom' = denom - a * num"
  define b q0' p0' num' where "b = num div denom'" and "q0' = q0 + b * q1'" and "p0' = p0 + b * p1'"
    and "num' = num - b * denom'"
  note defs = a_def q1'_def p1'_def denom'_def b_def q0'_def p0'_def num'_def
  have loop: "approx_loop num denom p0 q0 p1 q1 mx =
     (if num = 0 \<or> mx < q1' then (p0, q0) else if denom' = 0 \<or> mx < q0' then (p1', q1')
      else approx_loop num' denom' p0' q0' p1' q1' mx)"
    by (subst approx_loop.simps) (simp add: Let_def defs)
  show ?case
  proof (cases "num = 0")
    case True
    then show ?thesis using approx_exit [OF 1(2,3,4)] loop by simp
  next
    case False
    then have pos: "0 < uint num" using uint_0_iff [of num] uint_ge_0 [of num] by linarith
    note i = 1(2)[unfolded approx_inv_def]
    have ua: "uint a = uint denom div uint num" by (simp add: a_def uint_div_distrib)
    have q1': "uint q1' = uint q1 + uint denom div uint num * uint q0"
      unfolding q1'_def ua [symmetric] using step_bound(2) [of "uint q1" "uint num" "uint q0" "uint denom" D] i pos 1(5)
      by (intro uint_muladd) (simp add: ua)
    have p1': "uint p1' = uint p1 + uint denom div uint num * uint p0"
      unfolding p1'_def ua [symmetric] using step_bound(2) [of "uint p1" "uint num" "uint p0" "uint denom" N] i pos 1(5,6)
      by (intro uint_muladd) (simp add: ua)
    have denom': "uint denom' = uint denom mod uint num"
      unfolding denom'_def a_def by (rule uint_sub_div)
    have inv: "approx_inv N D (uint num) (uint denom') (uint p0) (uint q0) (uint p1') (uint q1')"
      and q1p: "1 \<le> uint q1'"
      using approx_inv_swap [OF 1(2) pos] by (simp_all add: q1' p1' denom')
    note inv' = approx_inv_sym [OF inv q1p]
    show ?thesis
    proof (cases "mx < q1'")
      case True
      then show ?thesis using approx_exit [OF 1(2,3,4)] loop q1' by (simp add: word_less_def)
    next
      case le: False
      then have q1mx: "uint q1' \<le> uint mx" by (simp add: word_less_def)
      show ?thesis
      proof (cases "denom' = 0")
        case True
        then show ?thesis using approx_exit [OF inv' q1mx 1(4)] loop False le by simp
      next
        case dn: False
        then have pos': "0 < uint denom'" using uint_0_iff [of denom'] uint_ge_0 [of denom'] by linarith
        note i' = inv'[unfolded approx_inv_def]
        have ub: "uint b = uint num div uint denom'" by (simp add: b_def uint_div_distrib)
        have q0': "uint q0' = uint q0 + uint num div uint denom' * uint q1'"
          unfolding q0'_def ub [symmetric] using step_bound(2) [of "uint q0" "uint denom'" "uint q1'" "uint num" D] i' pos' 1(5)
          by (intro uint_muladd) (simp add: ub)
        have p0': "uint p0' = uint p0 + uint num div uint denom' * uint p1'"
          unfolding p0'_def ub [symmetric] using step_bound(2) [of "uint p0" "uint denom'" "uint p1'" "uint num" N] i' pos' 1(5,6)
          by (intro uint_muladd) (simp add: ub)
        have num': "uint num' = uint num mod uint denom'"
          unfolding num'_def b_def by (rule uint_sub_div)
        show ?thesis
        proof (cases "mx < q0'")
          case True
          then show ?thesis using approx_exit [OF inv' q1mx 1(4)] loop False le dn q0' by (simp add: word_less_def)
        next
          case le': False
          have "approx_inv N D (uint num') (uint denom') (uint p0') (uint q0') (uint p1') (uint q1')"
            using approx_inv_sym [OF approx_inv_swap [OF inv' pos']] by (simp add: q0' p0' num')
          then have "case approx_loop num' denom' p0' q0' p1' q1' mx of (p, q) \<Rightarrow> approx_good N D (uint mx) (uint p) (uint q)"
            using 1(1) [OF False a_def q1'_def le denom'_def p1'_def dn b_def q0'_def le'] le' 1(4,5,6)
            by (simp add: p0'_def num'_def word_less_def)
          then show ?thesis using loop False le dn le' by simp
        qed
      qed
    qed
  qed
qed

text \<open>The fraction search of the clock driver always ends without overflow of its 32-bit
  products, returns a denominator between 1 and the limit, never more than 1 as the value, and is
  a best-quality approximation: the error is below one part in denominator times limit.\<close>
theorem approximate_fraction_correct:
  assumes "n < d" "0 < mx"
  shows "case approximate_fraction n d mx of (p, q) \<Rightarrow> 0 < q \<and> q \<le> mx \<and> p \<le> q \<and>
     \<bar>uint n * uint q - uint p * uint d\<bar> * uint mx < uint d"
proof -
  have nd: "uint n < uint d" "0 \<le> uint n" "uint d < 2 ^ 32" using assms(1) uint_lt2p [of d] by (simp_all add: word_less_def)
  then have d0: "0 < uint d" by linarith
  have m: "1 \<le> uint mx" using assms(2) by (simp add: word_less_def)
  have "approx_inv (uint n) (uint d) (uint n) (uint d) (uint (0::u32)) (uint (1::u32)) (uint (1::u32)) (uint (0::u32))"
    using nd by (simp add: approx_inv_def)
  then have "case approximate_fraction n d mx of (p, q) \<Rightarrow> approx_good (uint n) (uint d) (uint mx) (uint p) (uint q)"
    unfolding approximate_fraction_def using nd m d0 by (intro approx_loop_good) simp_all
  then obtain p q where pq: "approximate_fraction n d mx = (p, q)"
    and g: "approx_good (uint n) (uint d) (uint mx) (uint p) (uint q)" by (cases "approximate_fraction n d mx") simp
  have "uint p \<le> uint q"
  proof (rule ccontr)
    assume "\<not> uint p \<le> uint q"
    then have "(uint q + 1) * uint d \<le> uint p * uint d" using nd by (intro mult_right_mono) auto
    moreover have "uint n * uint q \<le> uint d * uint q" using nd by (intro mult_right_mono) auto
    ultimately have "uint d \<le> \<bar>uint n * uint q - uint p * uint d\<bar>" by (simp add: algebra_simps)
    then have "uint d * 1 \<le> \<bar>uint n * uint q - uint p * uint d\<bar> * uint mx" using m nd by (intro mult_mono) auto
    then show False using g by (simp add: approx_good_def)
  qed
  then show ?thesis using g pq by (simp add: approx_good_def word_less_def word_le_def)
qed

theorem approximate_fraction_correct_witness:
  "case approximate_fraction 3141592 10000000 1000 of (p, q) \<Rightarrow> 0 < q \<and> q \<le> 1000 \<and> p \<le> q \<and>
     \<bar>uint (3141592::u32) * uint q - uint p * uint (10000000::u32)\<bar> * uint (1000::u32) < uint (10000000::u32)"
  by (rule approximate_fraction_correct) simp_all

subsection \<open>Register encoding\<close>

text \<open>What the chip reads back out of the eight parameter bytes: the data sheet fields of a PLL or
  multisynth block.\<close>

definition chip_p1 :: "u8 list \<Rightarrow> u32" where
  "chip_p1 r = push_bit 16 (ucast (r ! 3) AND 3) OR push_bit 8 (ucast (r ! 4)) OR ucast (r ! 5)"

definition chip_p2 :: "u8 list \<Rightarrow> u32" where
  "chip_p2 r = push_bit 16 (ucast (r ! 6) AND 15) OR push_bit 8 (ucast (r ! 7)) OR ucast (r ! 8)"

definition chip_p3 :: "u8 list \<Rightarrow> u32" where
  "chip_p3 r = push_bit 16 (drop_bit 4 (ucast (r ! 6))) OR push_bit 8 (ucast (r ! 1)) OR ucast (r ! 2)"

lemma word_masks: "(0x0FF00 :: u32) = push_bit 8 (mask 8)" "(0x000FF :: u32) = mask 8"
  "(0x30000 :: u32) = push_bit 16 (mask 2)" "(0xF0000 :: u32) = push_bit 16 (mask 4)"
  "(3 :: u32) = mask 2" "(15 :: u32) = mask 4" "(12 :: u32) = push_bit 2 (mask 2)"
  by (simp_all add: mask_eq_exp_minus_1)

lemma below_no_bit: "(w::u32) < 2 ^ k \<Longrightarrow> k \<le> n \<Longrightarrow> k < 32 \<Longrightarrow> \<not> bit w n"
  by (metis bit_take_bit_iff less_mask_eq not_le take_bit_eq_mask and.commute)

lemma field_eqI:
  fixes a b :: u32
  assumes "\<And>n. n < 8 \<Longrightarrow> bit a n = bit b n" "\<And>k. k < 8 \<Longrightarrow> bit a (8 + k) = bit b (8 + k)"
    and "\<And>k. k < 4 \<Longrightarrow> bit a (16 + k) = bit b (16 + k)" "\<And>k. k < 12 \<Longrightarrow> bit a (20 + k) = bit b (20 + k)"
  shows "a = b"
proof (rule bit_word_eqI)
  fix n
  assume "n < LENGTH(32)"
  then have "n < 8 \<or> (\<exists>k<8. n = 8 + k) \<or> (\<exists>k<4. n = 16 + k) \<or> (\<exists>k<12. n = 20 + k)"
    by simp presburger
  then show "bit a n = bit b n" using assms by auto
qed

lemma chip_p2_regs:
  assumes "P2 < 2 ^ 20"
  shows "chip_p2 (pll_regs src P1 P2 P3) = P2" "chip_p2 (ms_regs src P1 P2 P3 r) = P2"
  using below_no_bit [OF assms]
  by (auto intro!: field_eqI simp: chip_p2_def pll_regs_def ms_regs_def word_masks bit_simps)

lemma chip_p3_regs:
  assumes "P3 < 2 ^ 20"
  shows "chip_p3 (pll_regs src P1 P2 P3) = P3" "chip_p3 (ms_regs src P1 P2 P3 r) = P3"
  using below_no_bit [OF assms]
  by (auto intro!: field_eqI simp: chip_p3_def pll_regs_def ms_regs_def word_masks bit_simps add.assoc [symmetric])

lemma chip_p1_regs:
  assumes "P1 < 2 ^ 18" "\<not> bit r 0" "\<not> bit r 1"
  shows "chip_p1 (pll_regs src P1 P2 P3) = P1" "chip_p1 (ms_regs src P1 P2 P3 r) = P1"
proof -
  have hi: "k < 2" if "bit P1 (16 + k)" for k
    using below_no_bit [OF assms(1), of "16 + k"] that by fastforce
  have lo: "\<not> bit r k" if "k < 2" for k
    using that assms(2,3) by (cases k) (auto simp: less_Suc_eq)
  show "chip_p1 (pll_regs src P1 P2 P3) = P1" "chip_p1 (ms_regs src P1 P2 P3 r) = P1"
    using below_no_bit [OF assms(1)]
    by (auto intro!: field_eqI simp: chip_p1_def pll_regs_def ms_regs_def word_masks bit_simps dest: hi lo)
qed

definition chip_ratio :: "u8 list \<Rightarrow> real" where
  "chip_ratio r = 512 + real_of_int (uint (chip_p1 r)) + real_of_int (uint (chip_p2 r)) / real_of_int (uint (chip_p3 r))"

definition whole_and_part :: "u32 \<Rightarrow> u32 \<times> u32 \<Rightarrow> u32 \<times> u32 \<times> u32" where
  "whole_and_part k = (\<lambda>(p, q). if p = q then (k + 1, 0, q) else (k, p, q))"

lemma MAX_DENOMINATOR_eq: "MAX_DENOMINATOR = 1048575"
  by (simp add: MAX_DENOMINATOR_def push_bit_eq_mult)

lemma whole_and_part_accurate:
  fixes F :: int and d k :: u32
  assumes "0 < d" "0 \<le> F" "uint k = F div uint d" "F div uint d + 1 < 2 ^ 32"
    and "whole_and_part k (approximate_fraction (word_of_int (F mod uint d)) d MAX_DENOMINATOR) = (k', p, q)"
  shows "(k' = k \<or> k' = k + 1) \<and> p < 2 ^ 20 \<and> q < 2 ^ 20 \<and> 0 < q \<and>
    \<bar>real_of_int F / real_of_int (uint d) - (real_of_int (uint k') + real_of_int (uint p) / real_of_int (uint q))\<bar> * 1048575 < 1"
proof -
  note of_int_uint [simp del]
  let ?n = "word_of_int (F mod uint d) :: u32"
  have d: "0 < uint d" using assms(1) by (simp add: word_less_def)
  have "F mod uint d < 2 ^ 32" using pos_mod_bound [OF d, of F] uint_lt2p [of d] by simp
  then have n: "uint ?n = F mod uint d" using d by (simp add: uint_word_of_int_eq take_bit_int_eq_self)
  then have "?n < d" using pos_mod_bound [OF d, of F] by (simp add: word_less_def)
  obtain a b where ab: "approximate_fraction ?n d MAX_DENOMINATOR = (a, b)" by (cases "approximate_fraction ?n d MAX_DENOMINATOR")
  have g: "0 < b" "b \<le> 1048575" "a \<le> b" "\<bar>(F mod uint d) * uint b - uint a * uint d\<bar> * 1048575 < uint d"
    using approximate_fraction_correct [OF \<open>?n < d\<close>, of MAX_DENOMINATOR] ab n by (simp_all add: MAX_DENOMINATOR_eq)
  have b: "1 \<le> uint b" using g(1) by (simp add: word_less_def)
  have k1: "uint (k + 1) = uint k + 1" using assms(3,4) uint_ge_0 [of k] by (simp add: uint_word_ariths)
  have ratio: "real_of_int (uint k') + real_of_int (uint p) / real_of_int (uint q) =
      real_of_int (F div uint d) + real_of_int (uint a) / real_of_int (uint b)"
    using assms(5) ab k1 assms(3) b by (auto simp: whole_and_part_def simp del: of_int_uint split: if_splits)
  have "real_of_int F = real_of_int (F div uint d) * real_of_int (uint d) + real_of_int (F mod uint d)"
    by (metis div_mult_mod_eq of_int_add of_int_mult)
  then have "real_of_int F / real_of_int (uint d) = real_of_int (F div uint d) + real_of_int (F mod uint d) / real_of_int (uint d)"
    using d by (simp add: field_simps)
  then have e: "real_of_int F / real_of_int (uint d) - (real_of_int (uint k') + real_of_int (uint p) / real_of_int (uint q)) =
      real_of_int ((F mod uint d) * uint b - uint a * uint d) / (real_of_int (uint d) * real_of_int (uint b))"
    unfolding ratio using d b by (simp add: field_simps)
  have "real_of_int (\<bar>(F mod uint d) * uint b - uint a * uint d\<bar> * 1048575) < real_of_int (uint d) * 1"
    using g(4) by linarith
  also have "\<dots> \<le> real_of_int (uint d) * real_of_int (uint b)" using b d by (intro mult_left_mono) simp_all
  finally have "\<bar>real_of_int ((F mod uint d) * uint b - uint a * uint d)\<bar> * 1048575 < real_of_int (uint d) * real_of_int (uint b)"
    by simp
  then have "\<bar>real_of_int F / real_of_int (uint d) - (real_of_int (uint k') + real_of_int (uint p) / real_of_int (uint q))\<bar> * 1048575 < 1"
    unfolding e using d b by (simp add: abs_mult divide_less_eq)
  moreover have "p < 2 ^ 20 \<and> q < 2 ^ 20 \<and> 0 < q \<and> (k' = k \<or> k' = k + 1)"
  proof -
    have "b < 2 ^ 20" "a < 2 ^ 20" using g(2,3) by (simp_all add: word_less_def word_le_def)
    then show ?thesis using assms(5) ab g(1) by (auto simp: whole_and_part_def split: if_splits)
  qed
  ultimately show ?thesis by blast
qed

lemma setupMultisynth_regs:
  assumes "P1 < 2 ^ 18" "num < 2 ^ 20" "denom < 2 ^ 20" "rdiv < 8" "channel < 3"
  shows "\<exists>regs rest. events (si5351_setupMultisynth channel (P1 + 512) num denom rdiv chctrl s) = events s @ I2C_Write regs # rest \<and>
    regs ! 0 = msreg_base ! channel \<and> chip_p1 regs = P1 \<and> chip_p2 regs = num \<and> chip_p3 regs = denom \<and>
    drop_bit 4 (regs ! 3) = ucast rdiv"
proof -
  define r where "r = (if P1 = 0 then push_bit 4 rdiv OR 12 else push_bit 4 rdiv)"
  let ?regs = "ms_regs (msreg_base ! channel) P1 num denom r"
  have r01: "\<not> bit r 0" "\<not> bit r 1" by (simp_all add: r_def bit_simps)
  have P1: "\<not> bit P1 n" if "18 \<le> n" for n using below_no_bit [OF assms(1) that] by simp
  have rd: "\<not> bit rdiv n" if "3 \<le> n" for n using below_no_bit [of rdiv 3 n] assms(4) that by simp
  have rdb: "bit rdiv n \<Longrightarrow> n < 3" for n using rd [of n] by fastforce
  have "drop_bit 4 (?regs ! 3) = ucast rdiv"
  proof (rule bit_word_eqI)
    fix n
    assume "n < LENGTH(8)"
    then show "bit (drop_bit 4 (?regs ! 3)) n \<longleftrightarrow> bit (ucast rdiv :: u8) n"
      using rdb [of n] by (auto simp: ms_regs_def r_def word_masks bit_simps dest: rdb)
  qed
  moreover have "\<exists>rest. events (si5351_setupMultisynth channel (P1 + 512) num denom rdiv chctrl s) = events s @ I2C_Write ?regs # rest"
    by (simp add: si5351_setupMultisynth_def Let_def r_def si5351_bulk_write_def si5351_write_def emit_def)
  moreover have "?regs ! 0 = msreg_base ! channel" by (simp add: ms_regs_def)
  ultimately show ?thesis
    using chip_p1_regs(2) [OF assms(1) r01] chip_p2_regs(2) [OF assms(2)] chip_p3_regs(2) [OF assms(3)] by blast
qed

lemma fixedpll_whole_and_part:
  "si5351_set_frequency_fixedpll channel pllfreq freq rdiv chctrl =
    (case whole_and_part (ucast (push_bit (7 - rdiv) pllfreq div ucast freq))
       (approximate_fraction (ucast (push_bit (7 - rdiv) pllfreq mod ucast freq)) freq MAX_DENOMINATOR) of
     (dv, num, denom) \<Rightarrow> si5351_setupMultisynth channel dv num denom (of_nat rdiv) chctrl)"
  unfolding si5351_set_frequency_fixedpll_def whole_and_part_def Let_def case_prod_beta
  by (simp only: if_distrib [of fst] if_distrib [of snd] fst_conv snd_conv split: if_split) simp

lemma uint_ucast_u64: "uint (ucast (w::u32) :: u64) = uint w"
  by (rule uint_up_ucast) (simp add: is_up)

lemma ucast_of_u64: "(ucast (w::u64) :: u32) = word_of_int (uint w)"
  by (simp only: ucast_eq)

lemma uint_push_bit:
  fixes w :: "'a::len word"
  assumes "uint w * 2 ^ n < 2 ^ LENGTH('a)"
  shows "uint (push_bit n w) = uint w * 2 ^ n"
proof -
  have "uint (push_bit n w) = take_bit LENGTH('a) (uint w * 2 ^ n)"
    unfolding unsigned_push_bit_eq by (simp only: push_bit_eq_mult)
  then show ?thesis using assms by (simp only: take_bit_int_eq_self zero_le_mult_iff uint_ge_0 zero_le_power zero_le_numeral simp_thms)
qed

text \<open>Programming a multisynth for a fixed PLL: as long as the divider fits the chip's field, the
  first bus write of the routine addresses the block of the channel, carries the output divider,
  and the ratio the chip decodes from it differs from the exact ratio of PLL to wanted frequency
  (in units of 1/128 and of the output divider) by less than one part in the largest denominator.\<close>
theorem fixedpll_accurate:
  fixes pllfreq :: u64 and freq :: u32 and rdiv :: nat
  defines "F \<equiv> uint pllfreq * 2 ^ (7 - rdiv)"
  assumes "0 < freq" "rdiv \<le> 7" "channel < 3" "F < 2 ^ 64"
    and "512 \<le> F div uint freq" "F div uint freq + 1 < 512 + 2 ^ 18"
  shows "\<exists>regs rest. events (si5351_set_frequency_fixedpll channel pllfreq freq rdiv chctrl s) = events s @ I2C_Write regs # rest \<and>
    regs ! 0 = msreg_base ! channel \<and> drop_bit 4 (regs ! 3) = of_nat rdiv \<and>
    \<bar>real_of_int F / real_of_int (uint freq) - chip_ratio regs\<bar> * 1048575 < 1"
proof -
  let ?sh = "push_bit (7 - rdiv) pllfreq"
  have F0: "0 \<le> F" by (simp add: F_def)
  have sh: "uint ?sh = F"
    unfolding F_def by (rule uint_push_bit) (use assms(5) in \<open>simp add: F_def\<close>)
  have q: "(ucast (?sh div ucast freq) :: u32) = word_of_int (F div uint freq)"
    "(ucast (?sh mod ucast freq) :: u32) = word_of_int (F mod uint freq)"
    by (simp_all add: ucast_of_u64 uint_div_distrib uint_mod_distrib uint_ucast_u64 sh)
  have k: "uint (word_of_int (F div uint freq) :: u32) = F div uint freq"
    using assms(6,7) by (simp add: uint_word_of_int_eq take_bit_int_eq_self)
  obtain k' p q' where r: "whole_and_part (word_of_int (F div uint freq)) (approximate_fraction (word_of_int (F mod uint freq)) freq MAX_DENOMINATOR) = (k', p, q')"
    by (metis prod_cases3)
  have acc: "k' = word_of_int (F div uint freq) \<or> k' = word_of_int (F div uint freq) + 1" "p < 2 ^ 20" "q' < 2 ^ 20"
    "\<bar>real_of_int F / real_of_int (uint freq) - (real_of_int (uint k') + real_of_int (uint p) / real_of_int (uint q'))\<bar> * 1048575 < 1"
    using whole_and_part_accurate [OF assms(2) F0 k _ r] assms(7) by simp_all
  have k': "512 \<le> uint k'" "uint k' < 512 + 2 ^ 18"
    using acc(1) k assms(6,7) by (auto simp: uint_word_ariths)
  have P1: "uint (k' - 512) = uint k' - 512" using k' by (simp add: uint_word_ariths)
  then have "k' - 512 < 2 ^ 18" using k' by (simp add: word_less_def)
  moreover have "(of_nat rdiv :: u32) < 8" using assms(3) by (simp add: word_less_nat_alt unat_of_nat)
  ultimately obtain regs rest where w: "events (si5351_setupMultisynth channel (k' - 512 + 512) p q' (of_nat rdiv) chctrl s) = events s @ I2C_Write regs # rest"
    "regs ! 0 = msreg_base ! channel" "chip_p1 regs = k' - 512" "chip_p2 regs = p" "chip_p3 regs = q'"
    "drop_bit 4 (regs ! 3) = ucast (of_nat rdiv :: u32)"
    using setupMultisynth_regs [of "k' - 512" p q' "of_nat rdiv" channel chctrl s] acc(2,3) assms(4) by blast
  have "chip_ratio regs = real_of_int (uint k') + real_of_int (uint p) / real_of_int (uint q')"
    using w(3,4,5) P1 by (simp add: chip_ratio_def del: of_int_uint)
  moreover have "si5351_set_frequency_fixedpll channel pllfreq freq rdiv chctrl s = si5351_setupMultisynth channel (k' - 512 + 512) p q' (of_nat rdiv) chctrl s"
    by (simp add: fixedpll_whole_and_part q r)
  moreover have "take_bit 32 rdiv = rdiv" using assms(3) by (simp add: take_bit_nat_eq_self)
  ultimately show ?thesis using w(1,2,6) acc(4) by (auto simp: unsigned_of_nat)
qed

text \<open>The second harmonic band of the default board at 7 MHz: 832 MHz divided by about 118.9.\<close>

theorem fixedpll_accurate_witness:
  "\<exists>regs rest. events (si5351_set_frequency_fixedpll 1 832000000 7000000 0 1
        \<lparr>current_band = 0, current_power = 0, current_freq = 0, clk_cache = [0, 0, 0], band_s = [],
         xtal_freq = 26000000, harmonic_freq_threshold = 300000100, IF_freq = 12000, events = []\<rparr>) = [] @ I2C_Write regs # rest \<and>
    regs ! 0 = msreg_base ! 1 \<and> drop_bit 4 (regs ! 3) = of_nat 0 \<and>
    \<bar>real_of_int (uint (832000000::u64) * 2 ^ (7 - 0)) / real_of_int (uint (7000000::u32)) - chip_ratio regs\<bar> * 1048575 < 1"
  using fixedpll_accurate [of 7000000 0 1 832000000 1
     "\<lparr>current_band = 0, current_power = 0, current_freq = 0, clk_cache = [0, 0, 0], band_s = [],
         xtal_freq = 26000000, harmonic_freq_threshold = 300000100, IF_freq = 12000, events = []\<rparr>"]
  by simp

subsection \<open>Band selection\<close>

definition band_limit :: "u32 \<Rightarrow> band_strategy \<Rightarrow> u32" where
  "band_limit thr b = (if bs_freq b < 20 then bs_freq b * thr else bs_freq b)"

lemma harmonic_scan_spec:
  "case harmonic_scan thr freq bs i of
     None \<Rightarrow> (\<forall>b \<in> set bs. band_limit thr b < freq)
   | Some j \<Rightarrow> i \<le> j \<and> j < i + length bs \<and> freq \<le> band_limit thr (bs ! (j - i)) \<and>
       (\<forall>m < j - i. band_limit thr (bs ! m) < freq)"
proof (induction bs arbitrary: i)
  case (Cons b bs)
  show ?case
  proof (cases "freq \<le> band_limit thr b")
    case True
    then show ?thesis by (simp add: band_limit_def Let_def)
  next
    case False
    then have "harmonic_scan thr freq (b # bs) i = harmonic_scan thr freq bs (i + 1)"
      by (simp add: band_limit_def Let_def)
    then show ?thesis
      using Cons.IH [of "i + 1"] False
      by (auto simp: not_le nth_Cons' less_diff_conv split: option.splits)
  qed
qed simp

lemma band_tables_last:
  "t < 3 \<Longrightarrow> band_s (si5351_set_band_mode t s) \<noteq> [] \<and> band_limit 300000100 (last (band_s (si5351_set_band_mode t s))) = 3300001100"
  by (auto simp: si5351_set_band_mode_def less_Suc_eq numeral_3_eq_3 band_limit_def
      band_strategy_H4_SI5351_def band_strategy_36H_MS5351_def band_strategy_SWC5351_def)

text \<open>With the default harmonic threshold, the unbounded search for the band of a frequency stops
  inside each of the three tables for every frequency up to the instrument's maximum, at the first
  band whose limit is not below the frequency.\<close>
theorem harmonic_lvl_found:
  assumes "t < 3" "freq \<le> 2700000000" "harmonic_freq_threshold s = 300000100"
  defines "s' \<equiv> si5351_set_band_mode t s"
  shows "\<exists>i < length (band_s s'). si5351_get_harmonic_lvl s' freq = Some i \<and>
    freq \<le> band_limit 300000100 (band_s s' ! i) \<and> (\<forall>j<i. band_limit 300000100 (band_s s' ! j) < freq)"
proof -
  have thr: "harmonic_freq_threshold s' = 300000100" by (simp add: s'_def si5351_set_band_mode_def assms(3))
  have "\<not> band_limit 300000100 (last (band_s s')) < freq"
    using band_tables_last [OF assms(1), of s] assms(2) by (simp add: s'_def word_less_def word_le_def)
  moreover have "last (band_s s') \<in> set (band_s s')" using band_tables_last [OF assms(1), of s] by (simp add: s'_def)
  ultimately show ?thesis
    using harmonic_scan_spec [where thr = 300000100 and freq = freq and bs = "band_s s'" and i = 0]
    by (auto simp: si5351_get_harmonic_lvl_def thr split: option.splits)
qed

definition clock0 :: clock where
  "clock0 = \<lparr>current_band = 0, current_power = 0, current_freq = 0, clk_cache = [0, 0, 0], band_s = band_strategy_H4_SI5351,
     xtal_freq = 26000000, harmonic_freq_threshold = 300000100, IF_freq = 12000, events = []\<rparr>"

theorem harmonic_lvl_found_witness:
  "\<exists>i < length (band_s (si5351_set_band_mode 2 clock0)). si5351_get_harmonic_lvl (si5351_set_band_mode 2 clock0) 1500000000 = Some i \<and>
    1500000000 \<le> band_limit 300000100 (band_s (si5351_set_band_mode 2 clock0) ! i) \<and>
    (\<forall>j<i. band_limit 300000100 (band_s (si5351_set_band_mode 2 clock0) ! j) < 1500000000)"
  by (rule harmonic_lvl_found) (simp_all add: clock0_def)

subsection \<open>Caching\<close>

text \<open>The bus routines leave everything but the event list and the control register cache alone.\<close>

definition frame :: "clock \<Rightarrow> nat \<times> u8 \<times> u32 \<times> band_strategy list \<times> u32 \<times> u32 \<times> u32" where
  "frame s = (current_band s, current_power s, current_freq s, band_s s, xtal_freq s, harmonic_freq_threshold s, IF_freq s)"

lemma frame_emit [simp]: "frame (emit e s) = frame s"
  by (simp add: frame_def emit_def)

lemma frame_cache [simp]: "frame (clk_cache_update f s) = frame s"
  by (simp add: frame_def)

lemma frame_write [simp]: "frame (si5351_bulk_write buf s) = frame s" "frame (si5351_write r d s) = frame s"
  "frame (si5351_reset_pll m s) = frame s" "frame (si5351_setupPLL a b c e s) = frame s"
  by (simp_all add: si5351_bulk_write_def si5351_write_def si5351_reset_pll_def si5351_setupPLL_def)

lemma frame_multisynth [simp]: "frame (si5351_setupMultisynth c d n e r x s) = frame s"
  by (simp add: si5351_setupMultisynth_def Let_def)

lemma frame_fixedpll [simp]: "frame (si5351_set_frequency_fixedpll c p f r x s) = frame s"
  by (simp add: fixedpll_whole_and_part split: prod.splits)

lemma frame_pllfreq [simp]: "frame (si5351_setupPLL_freq a p d s) = frame s"
  unfolding si5351_setupPLL_freq_def Let_def case_prod_beta by simp

lemma frame_modes [simp]: "frame (set_fixed_pll b c f g r x y s) = frame s" "frame (set_fixed_mult b d f g r x y s) = frame s"
  by (simp_all add: set_fixed_pll_def set_fixed_mult_def Let_def)

lemma select_band_frame: "frame s = frame s' \<Longrightarrow> select_band f d s = select_band f d s'"
  by (simp add: frame_def select_band_def band_at_def si5351_get_harmonic_lvl_def)

lemma program_band_state:
  "frame (fst (program_band band b cur freq ofreq rdiv drive s)) =
     (band, current_power s, freq, band_s s, xtal_freq s, harmonic_freq_threshold s, IF_freq s)"
proof -
  define s1 where "s1 = (if current_band s \<noteq> band \<and> (bs_l_gain cur \<noteq> bs_l_gain b \<or> bs_r_gain cur \<noteq> bs_r_gain b)
    then emit (Set_Gain (bs_l_gain b) (bs_r_gain b)) s else s)"
  define d where "d = (if drive > DRIVE_8MA then (bs_pow b, bs_opow b) else (drive, drive))"
  define s2 where "s2 = (case bs_mode b of
      SI5351_FIXED_PLL \<Rightarrow> set_fixed_pll b (current_band s \<noteq> band) freq ofreq rdiv (fst d) (snd d) s1
    | SI5351_FIXED_MULT \<Rightarrow> set_fixed_mult b (bs_div cur) freq ofreq rdiv (fst d) (snd d) s1
    | BAND_NONE \<Rightarrow> s1)"
  have "frame s2 = frame s" by (simp add: s2_def s1_def split: band_mode.split)
  moreover have "frame (si5351_reset_pll 160 (emit (Sleep 4000) s2)) = frame s2" by simp
  moreover have "fst (program_band band b cur freq ofreq rdiv drive s) =
      (if current_band s \<noteq> band then (si5351_reset_pll 160 (emit (Sleep 4000) s2))\<lparr>current_band := band, current_freq := freq\<rparr>
       else s2\<lparr>current_freq := freq\<rparr>)"
    by (cases "bs_mode b") (simp_all add: program_band_def Let_def s2_def s1_def d_def case_prod_beta)
  ultimately show ?thesis by (simp add: frame_def)
qed

lemma set_frequency_state:
  assumes "si5351_set_frequency freq drive s = Some (s', delay)" "freq \<noteq> 0"
  shows "\<exists>rdiv drive' band. select_band freq drive s = Some (rdiv, drive', band) \<and>
    current_freq s' = freq \<and> current_power s' = drive' \<and>
    band_s s' = band_s s \<and> harmonic_freq_threshold s' = harmonic_freq_threshold s"
proof -
  obtain rdiv drive' band where sel: "select_band freq drive s = Some (rdiv, drive', band)"
    using assms by (cases "select_band freq drive s") (auto simp: si5351_set_frequency_def Let_def)
  define s1 where "s1 = (if current_power s \<noteq> drive' then (si5351_reset_cache s)\<lparr>current_power := drive'\<rparr> else s)"
  have s1: "current_power s1 = drive'" "band_s s1 = band_s s" "harmonic_freq_threshold s1 = harmonic_freq_threshold s"
    by (simp_all add: s1_def si5351_reset_cache_def)
  have eq: "si5351_set_frequency freq drive s = (if freq = current_freq s1 then Some (s1, DELAY_CHANNEL_CHANGE)
     else Option.bind (band_at s1 (current_band s1)) (\<lambda>cur. Option.bind (band_at s1 band) (\<lambda>b.
       Some (program_band band b cur freq (freq + IF_freq s) rdiv drive' s1))))"
    using assms(2) sel by (simp add: si5351_set_frequency_def Let_def s1_def)
  show ?thesis
  proof (cases "freq = current_freq s1")
    case True
    then show ?thesis using eq assms s1 sel by simp
  next
    case False
    then obtain cur b where "program_band band b cur freq (freq + IF_freq s) rdiv drive' s1 = (s', delay)"
      using trans [OF eq [symmetric] assms(1)] by (auto simp: bind_eq_Some_conv)
    then have "frame s' = (band, current_power s1, freq, band_s s1, xtal_freq s1, harmonic_freq_threshold s1, IF_freq s1)"
      using program_band_state [of band b cur freq "freq + IF_freq s" rdiv drive' s1] by simp
    then show ?thesis using s1 sel by (auto simp: frame_def)
  qed
qed

text \<open>Setting a frequency is idempotent on the bus: after a successful call, a second call with the
  same frequency and power changes nothing, sends nothing and asks only for the short channel
  delay.\<close>
theorem set_frequency_cached:
  assumes "si5351_set_frequency freq drive s = Some (s', delay)" "freq \<noteq> 0"
  shows "si5351_set_frequency freq drive s' = Some (s', DELAY_CHANNEL_CHANGE)"
proof -
  obtain rdiv drive' band where sel: "select_band freq drive s = Some (rdiv, drive', band)"
    and s': "current_freq s' = freq" "current_power s' = drive'" "band_s s' = band_s s"
      "harmonic_freq_threshold s' = harmonic_freq_threshold s"
    using set_frequency_state [OF assms] by blast
  have "select_band freq drive s' = select_band freq drive s"
    using s' by (simp add: select_band_def band_at_def si5351_get_harmonic_lvl_def)
  then show ?thesis using assms(2) sel s' by (simp add: si5351_set_frequency_def Let_def)
qed

theorem set_frequency_cached_witness:
  "\<exists>s' delay. si5351_set_frequency 7000000 1 clock0 = Some (s', delay) \<and>
     si5351_set_frequency 7000000 1 s' = Some (s', DELAY_CHANNEL_CHANGE)"
proof -
  have "select_band 7000000 1 clock0 = Some (0, 1, 2)"
    by (simp add: select_band_def band_at_def si5351_get_harmonic_lvl_def clock0_def band_strategy_H4_SI5351_def)
  then have "\<exists>r. si5351_set_frequency 7000000 1 clock0 = Some r"
    by (simp add: si5351_set_frequency_def clock0_def si5351_reset_cache_def band_at_def band_strategy_H4_SI5351_def)
  then show ?thesis using set_frequency_cached [of 7000000 1 clock0] by fastforce
qed

subsection \<open>Tuning is total\<close>

definition clock_ok :: "clock \<Rightarrow> bool" where
  "clock_ok c \<longleftrightarrow> harmonic_freq_threshold c = 300000100 \<and> (\<exists>t<3. band_s c = band_s (si5351_set_band_mode t c)) \<and>
     current_band c < length (band_s c)"

lemma harmonic_lvl_exists:
  assumes "clock_ok c" "freq \<le> 2700000000"
  shows "\<exists>i < length (band_s c). si5351_get_harmonic_lvl c freq = Some i"
proof -
  obtain t where t: "t < 3" "band_s c = band_s (si5351_set_band_mode t c)" using assms(1) by (auto simp: clock_ok_def)
  have thr: "harmonic_freq_threshold c = 300000100" using assms(1) by (simp add: clock_ok_def)
  have "\<not> band_limit 300000100 (last (band_s c)) < freq" "last (band_s c) \<in> set (band_s c)"
    using band_tables_last [OF t(1), of c] assms(2) t(2) by (simp_all add: word_less_def word_le_def)
  then show ?thesis
    using harmonic_scan_spec [where thr = 300000100 and freq = freq and bs = "band_s c" and i = 0]
    by (auto simp: si5351_get_harmonic_lvl_def thr split: option.splits)
qed

lemma band_tables_length: "t < 3 \<Longrightarrow> 3 \<le> length (band_s (si5351_set_band_mode t s))"
  by (auto simp: si5351_set_band_mode_def less_Suc_eq numeral_3_eq_3
      band_strategy_H4_SI5351_def band_strategy_36H_MS5351_def band_strategy_SWC5351_def)

lemma select_band_exists:
  assumes "clock_ok c" "freq \<le> 2700000000"
  shows "\<exists>rdiv drive' band. select_band freq drive c = Some (rdiv, drive', band) \<and> band < length (band_s c)"
proof -
  have "3 \<le> length (band_s c)" using assms(1) band_tables_length by (metis clock_ok_def)
  then show ?thesis
    using harmonic_lvl_exists [OF assms] by (auto simp: select_band_def band_at_def)
qed

lemma set_frequency_total:
  assumes "clock_ok c" "freq \<le> 2700000000"
  shows "\<exists>c' delay. si5351_set_frequency freq drive c = Some (c', delay) \<and> clock_ok c' \<and> (freq \<noteq> 0 \<longrightarrow> current_freq c' = freq)"
proof (cases "freq = 0")
  case False
  obtain rdiv drive' band where sel: "select_band freq drive c = Some (rdiv, drive', band)" "band < length (band_s c)"
    using select_band_exists [OF assms] by blast
  define c1 where "c1 = (if current_power c \<noteq> drive' then (si5351_reset_cache c)\<lparr>current_power := drive'\<rparr> else c)"
  have c1: "current_band c1 < length (band_s c)" "band_s c1 = band_s c" "harmonic_freq_threshold c1 = harmonic_freq_threshold c"
    "clock_ok c1"
    using assms(1) sel by (auto simp: c1_def si5351_reset_cache_def clock_ok_def si5351_set_band_mode_def)
  let ?r = "program_band band (band_s c ! band) (band_s c ! current_band c1) freq (freq + IF_freq c) rdiv drive' c1"
  have eq: "si5351_set_frequency freq drive c = Some (if freq = current_freq c1 then (c1, DELAY_CHANNEL_CHANGE) else ?r)"
    using False sel c1 by (simp add: si5351_set_frequency_def Let_def c1_def [symmetric] band_at_def)
  have "frame (fst ?r) = (band, current_power c1, freq, band_s c1, xtal_freq c1, harmonic_freq_threshold c1, IF_freq c1)"
    by (rule program_band_state)
  then have r: "current_band (fst ?r) = band" "current_freq (fst ?r) = freq" "band_s (fst ?r) = band_s c"
    "harmonic_freq_threshold (fst ?r) = harmonic_freq_threshold c"
    using c1 by (auto simp: frame_def)
  then have "clock_ok (fst ?r)" using assms(1) sel(2) by (auto simp: clock_ok_def si5351_set_band_mode_def)
  then show ?thesis using eq r c1(4) by (cases "freq = current_freq c1"; cases ?r) auto
qed (simp add: si5351_set_frequency_def assms)

text \<open>C19: Tuning never reads outside a band table: as long as the harmonic threshold is the default and the
  band table is one of the three, every frequency up to the instrument's maximum can be set at any
  drive strength from any cached state, and the state afterwards is again such a state and carries
  the frequency.\<close>
theorem set_frequency_invariant:
  assumes "clock_ok c" "freq \<le> 2700000000"
  shows "\<exists>c' delay. si5351_set_frequency freq drive c = Some (c', delay) \<and> clock_ok c' \<and> (freq \<noteq> 0 \<longrightarrow> current_freq c' = freq)"
  using assms by (rule set_frequency_total)

theorem set_frequency_invariant_witness:
  "\<exists>c' delay. si5351_set_frequency 2600000000 3 clock0 = Some (c', delay) \<and> clock_ok c' \<and>
     ((2600000000::u32) \<noteq> 0 \<longrightarrow> current_freq c' = 2600000000)"
  by (rule set_frequency_invariant)
     (auto simp: clock_ok_def clock0_def si5351_set_band_mode_def band_strategy_H4_SI5351_def intro!: exI [of _ 0])

subsection \<open>Settings the driver trusts\<close>

text \<open>The unbounded band search relies on the harmonic threshold, which the shell and the menu
  store unchecked: with a threshold of 100 MHz the search for the instrument's maximum frequency
  finds no band and reads past the table.\<close>
theorem harmonic_lvl_overrun:
  "si5351_get_harmonic_lvl (clock0\<lparr>harmonic_freq_threshold := 100000000\<rparr>) 2700000000 = None"
  by (simp add: si5351_get_harmonic_lvl_def clock0_def band_strategy_H4_SI5351_def)

text \<open>Switching the generator type replaces the band table but keeps the index of the current band:
  after a measurement at 2.6 GHz on the 16-band table, the next frequency set on the 10-band table
  reads the current band past its end.\<close>
theorem band_mode_stale_index:
  "\<exists>s' delay. si5351_set_frequency 2600000000 255 clock0 = Some (s', delay) \<and>
     si5351_set_frequency 1000000000 255 (si5351_set_band_mode 2 s') = None"
proof -
  have sel: "select_band 2600000000 255 clock0 = Some (0, 255, 14)"
    by (simp add: select_band_def band_at_def si5351_get_harmonic_lvl_def clock0_def band_strategy_H4_SI5351_def)
  define c where "c = (si5351_reset_cache clock0)\<lparr>current_power := 255\<rparr>"
  have "si5351_set_frequency 2600000000 255 clock0 =
      Some (program_band 14 (band_strategy_H4_SI5351 ! 14) (band_strategy_H4_SI5351 ! 0) 2600000000 (2600000000 + 12000) 0 255 c)"
    using sel by (simp add: si5351_set_frequency_def clock0_def si5351_reset_cache_def band_at_def c_def)
      (simp add: band_strategy_H4_SI5351_def)
  moreover obtain s' delay where s': "program_band 14 (band_strategy_H4_SI5351 ! 14) (band_strategy_H4_SI5351 ! 0) 2600000000 (2600000000 + 12000) 0 255 c = (s', delay)"
    by (meson surj_pair)
  moreover have "current_band s' = 14" "current_power s' = 255" "current_freq s' = 2600000000" "harmonic_freq_threshold s' = 300000100"
    using program_band_state [of 14 "band_strategy_H4_SI5351 ! 14" "band_strategy_H4_SI5351 ! 0" 2600000000 "2600000000 + 12000" 0 255 c] s'
    by (simp_all add: frame_def c_def clock0_def si5351_reset_cache_def)
  moreover from this have "si5351_set_frequency 1000000000 255 (si5351_set_band_mode 2 s') = None"
    by (simp add: si5351_set_frequency_def si5351_set_band_mode_def select_band_def band_at_def
        si5351_get_harmonic_lvl_def band_strategy_SWC5351_def)
  ultimately show ?thesis by auto
qed

definition bus_regs :: "event list \<Rightarrow> u8 set" where
  "bus_regs es = {hd r |r. I2C_Write r \<in> set es}"

lemma bus_regs_simps [simp]:
  "bus_regs [] = {}" "bus_regs (es @ fs) = bus_regs es \<union> bus_regs fs"
  "bus_regs (e # es) = (case e of I2C_Write r \<Rightarrow> insert (hd r) (bus_regs es) | _ \<Rightarrow> bus_regs es)"
  by (auto simp: bus_regs_def split: event.split)

lemma bus_regs_emit [simp]:
  "bus_regs (events (emit e s)) = (case e of I2C_Write r \<Rightarrow> insert (hd r) (bus_regs (events s)) | _ \<Rightarrow> bus_regs (events s))"
  by (simp add: emit_def split: event.split)

lemma bus_regs_write [simp]:
  "bus_regs (events (si5351_bulk_write buf s)) = insert (hd buf) (bus_regs (events s))"
  "bus_regs (events (si5351_write r d s)) = insert r (bus_regs (events s))"
  "bus_regs (events (si5351_reset_pll m s)) = insert 177 (bus_regs (events s))"
  "bus_regs (events (si5351_setupPLL a b c e s)) = insert a (bus_regs (events s))"
  by (simp_all add: si5351_bulk_write_def si5351_write_def si5351_reset_pll_def si5351_setupPLL_def pll_regs_def Let_def)

lemma bus_regs_multisynth:
  "bus_regs (events (si5351_setupMultisynth c d n e r x s)) \<subseteq> {msreg_base ! c, 16 + of_nat c} \<union> bus_regs (events s)"
  by (auto simp: si5351_setupMultisynth_def Let_def ms_regs_def)

lemma bus_regs_fixedpll:
  "bus_regs (events (si5351_set_frequency_fixedpll c p f r x s)) \<subseteq> {msreg_base ! c, 16 + of_nat c} \<union> bus_regs (events s)"
  using bus_regs_multisynth by (auto simp: fixedpll_whole_and_part split: prod.splits)

lemma bus_regs_pllfreq: "bus_regs (events (si5351_setupPLL_freq a p d s)) = insert a (bus_regs (events s))"
  unfolding si5351_setupPLL_freq_def Let_def case_prod_beta by simp

lemma bus_regs_same_div:
  "bus_regs (events (set_fixed_mult b (bs_div b) f g r x y s)) \<subseteq> {26, 34, 58, 18} \<union> bus_regs (events s)"
proof -
  have "bus_regs (events (set_fixed_mult b (bs_div b) f g r x y s)) \<subseteq> {msreg_base ! 2, 16 + of_nat 2} \<union>
      bus_regs (events (si5351_setupPLL_freq 34 (ucast f * ucast (ucast (bs_div b) :: u32)) (bs_mul b)
        (si5351_setupPLL_freq 26 (ucast g * ucast (ucast (bs_div b) :: u32)) (bs_omul b) s)))"
    unfolding set_fixed_mult_def Let_def simp_thms if_False by (rule bus_regs_fixedpll)
  then show ?thesis by (auto simp: bus_regs_pllfreq msreg_base_def)
qed

text \<open>The divider cache compares the \<open>div\<close> field of the old and the new band, which the old band
  may use for its PLL multiplier: with the drive strength set to 2 mA, going from 10 kHz (PLL
  multiplier 8) straight to 120 MHz (divider 8) leaves the multisynth blocks of both measuring
  outputs at their values for 10 kHz.\<close>
theorem stale_divider:
  "\<exists>s1 s2 d1 d2. si5351_set_frequency 10000 0 clock0 = Some (s1, d1) \<and>
     si5351_set_frequency 120000000 0 (s1\<lparr>events := []\<rparr>) = Some (s2, d2) \<and> current_freq s2 = 120000000 \<and>
     msreg_base ! 0 \<notin> bus_regs (events s2) \<and> msreg_base ! 1 \<notin> bus_regs (events s2)"
proof -
  let ?T = band_strategy_H4_SI5351
  have sel: "select_band 10000 0 clock0 = Some (7, 0, 1)"
    by (simp add: select_band_def band_at_def clock0_def band_strategy_H4_SI5351_def)
  have "si5351_set_frequency 10000 0 clock0 = Some (program_band 1 (?T ! 1) (?T ! 0) 10000 (10000 + 12000) 7 0 clock0)"
    using sel by (simp add: si5351_set_frequency_def clock0_def band_at_def) (simp add: band_strategy_H4_SI5351_def)
  moreover obtain s1 d1 where p1: "program_band 1 (?T ! 1) (?T ! 0) 10000 (10000 + 12000) 7 0 clock0 = (s1, d1)"
    by (meson surj_pair)
  ultimately have one: "si5351_set_frequency 10000 0 clock0 = Some (s1, d1)" by simp
  have s1: "current_band s1 = 1" "current_power s1 = 0" "current_freq s1 = 10000" "band_s s1 = ?T"
    "harmonic_freq_threshold s1 = 300000100" "IF_freq s1 = 12000"
    using program_band_state [of 1 "?T ! 1" "?T ! 0" 10000 "10000 + 12000" 7 0 clock0] p1
    by (simp_all add: frame_def clock0_def)
  let ?s = "s1\<lparr>events := []\<rparr>"
  have b13: "bs_div (?T ! 1) = bs_div (?T ! 3)" "bs_mode (?T ! 3) = SI5351_FIXED_MULT"
    "bs_l_gain (?T ! 1) = bs_l_gain (?T ! 3)" "bs_r_gain (?T ! 1) = bs_r_gain (?T ! 3)" "3 < length ?T"
    by (simp_all add: band_strategy_H4_SI5351_def)
  have "select_band 120000000 0 ?s = Some (0, 0, 3)"
    using s1 by (simp add: select_band_def band_at_def si5351_get_harmonic_lvl_def band_strategy_H4_SI5351_def)
  then have "si5351_set_frequency 120000000 0 ?s = Some (program_band 3 (?T ! 3) (?T ! 1) 120000000 (120000000 + 12000) 0 0 ?s)"
    using s1 b13(5) by (simp add: si5351_set_frequency_def band_at_def)
  moreover obtain s2 d2 where p2: "program_band 3 (?T ! 3) (?T ! 1) 120000000 (120000000 + 12000) 0 0 ?s = (s2, d2)"
    by (meson surj_pair)
  ultimately have two: "si5351_set_frequency 120000000 0 ?s = Some (s2, d2)" by simp
  have "current_freq s2 = 120000000"
    using program_band_state [of 3 "?T ! 3" "?T ! 1" 120000000 "120000000 + 12000" 0 0 ?s] p2 by (simp add: frame_def)
  moreover have "bus_regs (events s2) \<subseteq> insert 177 {26, 34, 58, 18}"
    using p2 b13 s1 bus_regs_same_div [of "?T ! 3" 120000000 "120000000 + 12000" 0 0 0 ?s]
    by (auto simp: program_band_def Let_def)
  ultimately show ?thesis using one two by (fastforce simp: msreg_base_def)
qed

end
