(* ===== verification/Device.thy ===== *)
theory Device
  imports Complex_Main Clock Screenshot
begin

text \<open>
  The state of the instrument: the saved properties and the configuration of \<^verbatim>\<open>nanovna.h\<close>, the
  sweep and measurement globals of \<^verbatim>\<open>main.c\<close> and the clock generator, with the defaults loaded at
  start.  Floats are real numbers, frequencies are 32-bit words, point counts and indices are
  natural numbers.  Requests to redraw are kept as the mask that \<^verbatim>\<open>request_to_redraw\<close> collects.
\<close>

type_synonym cfloat = "real \<times> real"

record trace =
  tr_enabled :: bool
  tr_type :: nat
  tr_channel :: nat
  tr_smith_format :: nat
  tr_scale :: real
  tr_refpos :: real

record marker =
  mk_enabled :: bool
  mk_index :: nat
  mk_frequency :: u32

record properties =
  pr_magic :: u32
  frequency0 :: u32
  frequency1 :: u32
  cal_frequency0 :: u32
  cal_frequency1 :: u32
  var_freq :: u32
  props_mode :: u16
  sweep_points :: nat
  current_trace :: int
  active_marker :: int
  previous_marker :: int
  power :: u8
  cal_power :: u8
  measure_mode :: nat
  cal_sweep_points :: nat
  cal_status :: u16
  traces :: "trace list"
  markers :: "marker list"
  velocity_factor :: nat
  electrical_delay :: "real list"
  var_delay :: real
  s21_offset :: real
  portz :: real
  cal_load_r :: real
  cal_data :: "cfloat list list"

record config =
  cf_magic :: u32
  touch_cal :: "int list"
  vna_mode :: u16
  dac_value :: nat
  vbat_offset :: nat
  bandwidth :: nat
  lever_mode :: nat
  brightness :: nat
  lcd_palette :: "u16 list"
  serial_speed :: u32
  measure_r :: real
  band_mode :: nat
  ham_region :: nat
  marker_search_mode :: nat

record vna =
  props :: properties
  config :: config
  clk :: clock
  lastsaveid :: nat
  sweep_mode :: u8
  p_sweep :: nat
  f_start :: u32
  f_delta :: u32
  f_error :: u32
  f_points :: nat
  measured :: "cfloat list list"
  redraw_request :: u16
  smooth_factor :: nat
  grid_offset :: u16
  grid_width :: u16

definition FREQUENCY_MIN :: u32 where "FREQUENCY_MIN = 600"

definition FREQUENCY_MAX :: u32 where "FREQUENCY_MAX = 2700000000"

definition SWEEP_POINTS_MAX :: nat where "SWEEP_POINTS_MAX = 401"

definition SWEEP_POINTS_MIN :: nat where "SWEEP_POINTS_MIN = 21"

definition POINTS_COUNT_DEFAULT :: nat where "POINTS_COUNT_DEFAULT = SWEEP_POINTS_MAX"

definition MARKERS_MAX :: nat where "MARKERS_MAX = 8"

definition TRACES_MAX :: nat where "TRACES_MAX = 4"

definition SAVEAREA_MAX :: nat where "SAVEAREA_MAX = 7"

definition NO_SAVE_SLOT :: nat where "NO_SAVE_SLOT = 65535"

abbreviation (input) "MARKER_INVALID \<equiv> - 1 :: int"
abbreviation (input) "TRACE_INVALID \<equiv> - 1 :: int"

definition CALSTAT_LOAD :: u16 where "CALSTAT_LOAD = 0x001"
definition CALSTAT_OPEN :: u16 where "CALSTAT_OPEN = 0x002"
definition CALSTAT_SHORT :: u16 where "CALSTAT_SHORT = 0x004"
definition CALSTAT_THRU :: u16 where "CALSTAT_THRU = 0x008"
definition CALSTAT_ISOLN :: u16 where "CALSTAT_ISOLN = 0x010"
definition CALSTAT_ES :: u16 where "CALSTAT_ES = 0x020"
definition CALSTAT_ER :: u16 where "CALSTAT_ER = 0x040"
definition CALSTAT_ET :: u16 where "CALSTAT_ET = 0x080"
definition CALSTAT_APPLY :: u16 where "CALSTAT_APPLY = 0x100"
definition CALSTAT_INTERPOLATED :: u16 where "CALSTAT_INTERPOLATED = 0x200"
definition CALSTAT_ENHANCED_RESPONSE :: u16 where "CALSTAT_ENHANCED_RESPONSE = 0x400"

lemmas calstat_defs = CALSTAT_LOAD_def CALSTAT_OPEN_def CALSTAT_SHORT_def CALSTAT_THRU_def
  CALSTAT_ISOLN_def CALSTAT_ES_def CALSTAT_ER_def CALSTAT_ET_def CALSTAT_APPLY_def
  CALSTAT_INTERPOLATED_def CALSTAT_ENHANCED_RESPONSE_def

definition DOMAIN_MODE :: u16 where "DOMAIN_MODE = 1"
definition DOMAIN_FREQ :: u16 where "DOMAIN_FREQ = 0"
definition DOMAIN_TIME :: u16 where "DOMAIN_TIME = 1"
definition TD_FUNC :: u16 where "TD_FUNC = push_bit 1 3"
definition TD_WINDOW :: u16 where "TD_WINDOW = push_bit 3 3"
definition TD_CENTER_SPAN :: u16 where "TD_CENTER_SPAN = push_bit 6 1"

definition SWEEP_ENABLE :: u8 where "SWEEP_ENABLE = 0x01"
definition SWEEP_ONCE :: u8 where "SWEEP_ONCE = 0x02"
definition SWEEP_FILE_VIEW :: u8 where "SWEEP_FILE_VIEW = 0x04"
definition SWEEP_BINARY :: u8 where "SWEEP_BINARY = 0x08"

definition REDRAW_PLOT :: u16 where "REDRAW_PLOT = push_bit 0 1"
definition REDRAW_AREA :: u16 where "REDRAW_AREA = push_bit 1 1"
definition REDRAW_FREQUENCY :: u16 where "REDRAW_FREQUENCY = push_bit 3 1"
definition REDRAW_CAL_STATUS :: u16 where "REDRAW_CAL_STATUS = push_bit 4 1"
definition REDRAW_MARKER :: u16 where "REDRAW_MARKER = push_bit 5 1"
definition REDRAW_REFERENCE :: u16 where "REDRAW_REFERENCE = push_bit 6 1"
definition REDRAW_GRID_VALUE :: u16 where "REDRAW_GRID_VALUE = push_bit 7 1"
definition REDRAW_BACKUP :: u16 where "REDRAW_BACKUP = push_bit 10 1"

definition request_to_redraw :: "u16 \<Rightarrow> vna \<Rightarrow> vna" where
  "request_to_redraw m s = s\<lparr>redraw_request := redraw_request s OR m\<rparr>"

definition VNA_MODE :: "nat \<Rightarrow> vna \<Rightarrow> bool" where
  "VNA_MODE idx s = has (vna_mode (config s)) (push_bit idx 1)"

definition VNA_MODE_SMOOTH :: nat where "VNA_MODE_SMOOTH = 1"
definition VNA_MODE_DOT_GRID :: nat where "VNA_MODE_DOT_GRID = 5"
definition VNA_MODE_BACKUP :: nat where "VNA_MODE_BACKUP = 6"
definition VNA_MODE_MUTE_PAUSE :: nat where "VNA_MODE_MUTE_PAUSE = 12"

abbreviation on_props :: "(properties \<Rightarrow> properties) \<Rightarrow> vna \<Rightarrow> vna" where
  "on_props f \<equiv> props_update f"

subsection \<open>Defaults\<close>

definition TRC_LOGMAG :: nat where "TRC_LOGMAG = 0"
definition TRC_PHASE :: nat where "TRC_PHASE = 1"
definition TRC_SMITH :: nat where "TRC_SMITH = 3"
definition MS_REIM :: nat where "MS_REIM = 2"
definition MS_RX :: nat where "MS_RX = 3"
definition NGRIDY :: nat where "NGRIDY = 8"

definition def_trace :: "trace list" where
  "def_trace =
   [\<lparr>tr_enabled = True, tr_type = TRC_LOGMAG, tr_channel = 0, tr_smith_format = MS_RX, tr_scale = 10, tr_refpos = real (NGRIDY - 1)\<rparr>,
    \<lparr>tr_enabled = True, tr_type = TRC_LOGMAG, tr_channel = 1, tr_smith_format = MS_REIM, tr_scale = 10, tr_refpos = real (NGRIDY - 1)\<rparr>,
    \<lparr>tr_enabled = True, tr_type = TRC_SMITH, tr_channel = 0, tr_smith_format = MS_RX, tr_scale = 1, tr_refpos = 0\<rparr>,
    \<lparr>tr_enabled = True, tr_type = TRC_PHASE, tr_channel = 1, tr_smith_format = MS_REIM, tr_scale = 90, tr_refpos = real (NGRIDY div 2)\<rparr>]"

definition def_markers :: "marker list" where
  "def_markers =
   [\<lparr>mk_enabled = True, mk_index = 10 * SWEEP_POINTS_MAX div 100 - 1, mk_frequency = 0\<rparr>,
    \<lparr>mk_enabled = False, mk_index = 20 * SWEEP_POINTS_MAX div 100 - 1, mk_frequency = 0\<rparr>,
    \<lparr>mk_enabled = False, mk_index = 30 * SWEEP_POINTS_MAX div 100 - 1, mk_frequency = 0\<rparr>,
    \<lparr>mk_enabled = False, mk_index = 40 * SWEEP_POINTS_MAX div 100 - 1, mk_frequency = 0\<rparr>,
    \<lparr>mk_enabled = False, mk_index = 50 * SWEEP_POINTS_MAX div 100 - 1, mk_frequency = 0\<rparr>,
    \<lparr>mk_enabled = False, mk_index = 60 * SWEEP_POINTS_MAX div 100 - 1, mk_frequency = 0\<rparr>,
    \<lparr>mk_enabled = False, mk_index = 70 * SWEEP_POINTS_MAX div 100 - 1, mk_frequency = 0\<rparr>,
    \<lparr>mk_enabled = False, mk_index = 80 * SWEEP_POINTS_MAX div 100 - 1, mk_frequency = 0\<rparr>]"

definition PROPERTIES_MAGIC :: u32 where "PROPERTIES_MAGIC = 0x434f4e54"

definition CONFIG_MAGIC :: u32 where "CONFIG_MAGIC = 0x434f4e56"

definition load_default_properties :: "properties \<Rightarrow> properties" where
  "load_default_properties p = p
   \<lparr>pr_magic := PROPERTIES_MAGIC,
    frequency0 := 50000,
    frequency1 := 900000000,
    var_freq := 0,
    sweep_points := POINTS_COUNT_DEFAULT,
    cal_frequency0 := 50000,
    cal_frequency1 := 900000000,
    cal_sweep_points := POINTS_COUNT_DEFAULT,
    cal_status := 0,
    traces := def_trace,
    markers := def_markers,
    electrical_delay := [0, 0],
    var_delay := 0,
    s21_offset := 0,
    portz := 50,
    cal_load_r := 50,
    velocity_factor := 70,
    current_trace := 0,
    active_marker := 0,
    previous_marker := MARKER_INVALID,
    props_mode := 0,
    power := 0xFF,
    cal_power := 0xFF,
    measure_mode := 0\<rparr>"

definition LCD_DEFAULT_PALETTE :: "u16 list" where
  "LCD_DEFAULT_PALETTE = map ucast
   [RGB565 0 0 0,
    RGB565 255 255 255,
    RGB565 128 128 128,
    RGB565 230 230 230,
    RGB565 0 0 0,
    RGB565 210 210 210,
    RGB565 255 255 0,
    RGB565 0 255 255,
    RGB565 0 255 0,
    RGB565 255 0 255,
    RGB565 255 0 0,
    RGB565 0 0 255,
    RGB565 31 227 0,
    RGB565 255 0 0,
    RGB565 128 255 128,
    RGB565 255 255 255,
    RGB565 128 128 128,
    RGB565 0 0 255,
    RGB565 196 196 196,
    RGB565 0 0 0,
    RGB565 255 255 255,
    RGB565 255 255 255,
    RGB565 96 96 96,
    RGB565 31 227 0,
    RGB565 255 0 0,
    RGB565 0 0 192,
    RGB565 0 0 0]"

text \<open>Memory before the defaults are loaded is zero, and so is the state built on it.\<close>

definition props0 :: properties where
  "props0 = load_default_properties
   \<lparr>pr_magic = 0, frequency0 = 0, frequency1 = 0, cal_frequency0 = 0, cal_frequency1 = 0, var_freq = 0, props_mode = 0,
    sweep_points = 0, current_trace = 0, active_marker = 0, previous_marker = 0, power = 0, cal_power = 0,
    measure_mode = 0, cal_sweep_points = 0, cal_status = 0, traces = [], markers = [], velocity_factor = 0,
    electrical_delay = [0, 0], var_delay = 0, s21_offset = 0, portz = 0, cal_load_r = 0,
    cal_data = replicate 5 (replicate SWEEP_POINTS_MAX (0, 0))\<rparr>"

definition config0 :: config where
  "config0 = \<lparr>cf_magic = CONFIG_MAGIC, touch_cal = [380, 665, 3600, 3450], vna_mode = 0, dac_value = 1922,
     vbat_offset = 420, bandwidth = 3, lever_mode = 0, brightness = 70, lcd_palette = LCD_DEFAULT_PALETTE @ replicate 5 0,
     serial_speed = 38400, measure_r = 50, band_mode = 0, ham_region = 0, marker_search_mode = 0\<rparr>"

definition device0 :: vna where
  "device0 = \<lparr>props = props0, config = config0, clk = clock0, lastsaveid = 0, sweep_mode = SWEEP_ENABLE, p_sweep = 0,
     f_start = 0, f_delta = 0, f_error = 0, f_points = 0,
     measured = replicate 2 (replicate SWEEP_POINTS_MAX (0, 0)), redraw_request = 0, smooth_factor = 0,
     grid_offset = 0, grid_width = 0\<rparr>"

subsection \<open>Sweep control\<close>

definition pause_sweep :: "vna \<Rightarrow> vna" where
  "pause_sweep s = s\<lparr>sweep_mode := sweep_mode s AND NOT SWEEP_ENABLE\<rparr>"

definition resume_sweep :: "vna \<Rightarrow> vna" where
  "resume_sweep s = s\<lparr>sweep_mode := sweep_mode s OR SWEEP_ENABLE\<rparr>"

definition toggle_sweep :: "vna \<Rightarrow> vna" where
  "toggle_sweep s =
     (let s = s\<lparr>sweep_mode := sweep_mode s XOR SWEEP_ENABLE\<rparr>;
          s = s\<lparr>sweep_mode := sweep_mode s AND NOT SWEEP_FILE_VIEW\<rparr> in
      if \<not> has (sweep_mode s) SWEEP_ENABLE \<and> VNA_MODE VNA_MODE_MUTE_PAUSE s
      then s\<lparr>sweep_mode := sweep_mode s OR SWEEP_ONCE\<rparr> else s)"

definition set_bandwidth :: "nat \<Rightarrow> vna \<Rightarrow> vna" where
  "set_bandwidth bw_count s =
     request_to_redraw (REDRAW_BACKUP OR REDRAW_FREQUENCY) (s\<lparr>config := (config s)\<lparr>bandwidth := bw_count mod 512\<rparr>\<rparr>)"

definition get_bandwidth_frequency :: "nat \<Rightarrow> nat" where
  "get_bandwidth_frequency bw_freq = (192000 div 48) div (bw_freq + 1)"

definition set_smooth_factor :: "nat \<Rightarrow> vna \<Rightarrow> vna" where
  "set_smooth_factor factor s =
     request_to_redraw REDRAW_CAL_STATUS (s\<lparr>smooth_factor := (if factor > 8 then 8 else factor)\<rparr>)"

subsection \<open>Traces\<close>

definition on_trace :: "nat \<Rightarrow> (trace \<Rightarrow> trace) \<Rightarrow> vna \<Rightarrow> vna" where
  "on_trace t f = on_props (\<lambda>p. p\<lparr>traces := (traces p)[t := f (traces p ! t)]\<rparr>)"

definition set_trace_scale :: "nat \<Rightarrow> real \<Rightarrow> vna \<Rightarrow> vna" where
  "set_trace_scale t sc s =
     (if tr_scale (traces (props s) ! t) \<noteq> sc then
        request_to_redraw (REDRAW_MARKER OR REDRAW_GRID_VALUE OR REDRAW_PLOT) (on_trace t (tr_scale_update (\<lambda>_. sc)) s)
      else s)"

definition set_trace_refpos :: "nat \<Rightarrow> real \<Rightarrow> vna \<Rightarrow> vna" where
  "set_trace_refpos t rp s =
     (if tr_refpos (traces (props s) ! t) \<noteq> rp then
        request_to_redraw (REDRAW_REFERENCE OR REDRAW_GRID_VALUE OR REDRAW_PLOT) (on_trace t (tr_refpos_update (\<lambda>_. rp)) s)
      else s)"

definition set_trace_channel :: "nat \<Rightarrow> nat \<Rightarrow> vna \<Rightarrow> vna" where
  "set_trace_channel t channel s =
     (let channel = channel mod 2 in
      if tr_channel (traces (props s) ! t) \<noteq> channel then
        request_to_redraw (REDRAW_MARKER OR REDRAW_PLOT) (on_trace t (tr_channel_update (\<lambda>_. channel)) s)
      else s)"

definition set_active_trace :: "int \<Rightarrow> vna \<Rightarrow> vna" where
  "set_active_trace t s =
     (if current_trace (props s) = t then s
      else request_to_redraw (REDRAW_MARKER OR REDRAW_GRID_VALUE) (on_props (current_trace_update (\<lambda>_. t)) s))"

fun first_enabled :: "nat \<Rightarrow> trace list \<Rightarrow> nat option" where
  "first_enabled i [] = None"
| "first_enabled i (t # ts) = (if tr_enabled t then Some i else first_enabled (i + 1) ts)"

definition set_trace_enable :: "nat \<Rightarrow> bool \<Rightarrow> vna \<Rightarrow> vna" where
  "set_trace_enable t enable s =
     (let s = on_trace t (tr_enabled_update (\<lambda>_. enable)) s;
          s = on_props (current_trace_update (\<lambda>_. if enable then int t else TRACE_INVALID)) s;
          s = (if \<not> enable then
                 case first_enabled 0 (traces (props s)) of None \<Rightarrow> s | Some i \<Rightarrow> set_active_trace (int i) s
               else s) in
      request_to_redraw REDRAW_AREA s)"

definition set_electrical_delay :: "nat \<Rightarrow> real \<Rightarrow> vna \<Rightarrow> vna" where
  "set_electrical_delay ch seconds s =
     (if electrical_delay (props s) ! ch = seconds then s
      else request_to_redraw REDRAW_MARKER
        (on_props (\<lambda>p. p\<lparr>electrical_delay := (electrical_delay p)[ch := seconds]\<rparr>) s))"

definition get_electrical_delay :: "vna \<Rightarrow> real" where
  "get_electrical_delay s =
     (if current_trace (props s) = TRACE_INVALID then 0
      else electrical_delay (props s) ! tr_channel (traces (props s) ! nat (current_trace (props s))))"

definition set_s21_offset :: "real \<Rightarrow> vna \<Rightarrow> vna" where
  "set_s21_offset offset s =
     (if s21_offset (props s) \<noteq> offset then request_to_redraw REDRAW_MARKER (on_props (s21_offset_update (\<lambda>_. offset)) s)
      else s)"

definition set_domain_mode :: "u16 \<Rightarrow> vna \<Rightarrow> vna" where
  "set_domain_mode mode s =
     (if mode \<noteq> (props_mode (props s) AND DOMAIN_MODE) then
        let s = on_props (\<lambda>p. p\<lparr>props_mode := (props_mode p AND NOT DOMAIN_MODE) OR (mode AND DOMAIN_MODE)\<rparr>) s;
            s = request_to_redraw (REDRAW_FREQUENCY OR REDRAW_MARKER) s in
        s\<lparr>config := (config s)\<lparr>lever_mode := 0\<rparr>\<rparr>
      else s)"

definition set_timedomain_func :: "u16 \<Rightarrow> vna \<Rightarrow> vna" where
  "set_timedomain_func func = on_props (\<lambda>p. p\<lparr>props_mode := (props_mode p AND NOT TD_FUNC) OR func\<rparr>)"

definition set_timedomain_window :: "u16 \<Rightarrow> vna \<Rightarrow> vna" where
  "set_timedomain_window func = on_props (\<lambda>p. p\<lparr>props_mode := (props_mode p AND NOT TD_WINDOW) OR func\<rparr>)"

subsection \<open>The selected trace\<close>

lemma first_enabled_spec:
  "case first_enabled i ts of None \<Rightarrow> (\<forall>t \<in> set ts. \<not> tr_enabled t)
   | Some j \<Rightarrow> i \<le> j \<and> j < i + length ts \<and> tr_enabled (ts ! (j - i))"
proof (induction ts arbitrary: i)
  case (Cons t ts)
  show ?case
  proof (cases "tr_enabled t")
    case False
    then show ?thesis using Cons.IH [of "i + 1"] by (auto simp: nth_Cons' split: option.splits)
  qed simp
qed simp

definition trace_selected :: "vna \<Rightarrow> bool" where
  "trace_selected s \<longleftrightarrow> length (traces (props s)) = TRACES_MAX \<and>
     (if current_trace (props s) = TRACE_INVALID then \<forall>t \<in> set (traces (props s)). \<not> tr_enabled t
      else 0 \<le> current_trace (props s) \<and> nat (current_trace (props s)) < TRACES_MAX \<and>
        tr_enabled (traces (props s) ! nat (current_trace (props s))))"

text \<open>Switching a trace on or off always leaves a valid selection: the current trace is an enabled
  one, and it is the invalid index only when every trace is off.\<close>
theorem trace_selection_valid:
  assumes "trace_selected s" "t < TRACES_MAX"
  shows "trace_selected (set_trace_enable t enable s)"
proof (cases enable)
  case True
  then show ?thesis
    using assms by (auto simp: trace_selected_def set_trace_enable_def on_trace_def request_to_redraw_def)
next
  case False
  let ?ts = "(traces (props s))[t := (traces (props s) ! t)\<lparr>tr_enabled := False\<rparr>]"
  have "length ?ts = TRACES_MAX" using assms(1) by (simp add: trace_selected_def)
  then show ?thesis
    using False first_enabled_spec [where i = 0 and ts = "?ts"]
    by (auto simp: trace_selected_def set_trace_enable_def on_trace_def request_to_redraw_def set_active_trace_def
        Let_def split: option.splits)
qed

theorem trace_selection_valid_witness: "trace_selected (set_trace_enable 0 False device0)"
proof (rule trace_selection_valid)
  show "trace_selected device0"
    by (simp add: trace_selected_def device0_def props0_def load_default_properties_def def_trace_def TRACES_MAX_def)
qed (simp add: TRACES_MAX_def)

end
