(* ===== verification/Grid.thy ===== *)
theory Grid
  imports Device Bands
begin

text \<open>
  The grids of \<^verbatim>\<open>plot.c\<close>: layout of the rectangular grid for a frequency range, membership of a
  pixel in the rectangular, polar and Smith grids, and the painting of a plot cell with them.
  Pixel coordinates are integers; the 32-bit conversions of the source are written out.
  A remainder by zero and a write outside the cell are the value None.
\<close>

subsection \<open>Rectangular grid\<close>

definition GRID_BITS :: nat where "GRID_BITS = 7"

definition GRIDY :: int where "GRIDY = HEIGHT div int NGRIDY"

function grid_step :: "u32 \<Rightarrow> u32 \<Rightarrow> u32" where
  "grid_step fspan dgrid =
     (let k = fspan div dgrid; N = 4 in
      if k \<ge> N * 5 then dgrid * 5
      else if k \<ge> N * 2 then dgrid * 2
      else if k \<ge> N * 1 then dgrid * 1
      else if dgrid div 10 = 0 then dgrid
      else grid_step fspan (dgrid div 10))"
  by pat_completeness auto
termination
proof (relation "measure (\<lambda>(fspan, dgrid). unat dgrid)", goal_cases)
  case (2 fspan dgrid)
  have "unat (dgrid div 10) = unat dgrid div 10" by (simp add: unat_div)
  moreover have "unat dgrid div 10 \<noteq> 0" using 2 calculation by (metis unat_eq_zero)
  ultimately show ?case by simp
qed simp

declare grid_step.simps [simp del]

definition update_grid :: "u32 \<Rightarrow> u32 \<Rightarrow> vna \<Rightarrow> vna" where
  "update_grid fstart fstop s =
     (let fspan = fstop - fstart in
      if fspan = 0 then s\<lparr>grid_offset := 0, grid_width := 0\<rparr>
      else
        let grid = grid_step fspan 1000000000;
            scale = word_of_int (WIDTH * 2 ^ GRID_BITS) :: u64 in
        s\<lparr>grid_offset := ucast (ucast (fstart mod grid) * scale div ucast fspan),
          grid_width := ucast (ucast grid * scale div ucast fspan)\<rparr>)"

definition rectangular_grid_x :: "u16 \<Rightarrow> u16 \<Rightarrow> u32 \<Rightarrow> bool option" where
  "rectangular_grid_x offset width x =
     (let x = x - word_of_int CELLOFFSETX in
      if uint x > WIDTH then Some False
      else if x = 0 \<or> uint x = WIDTH then Some True
      else if width = 0 then None
      else Some ((push_bit GRID_BITS x + ucast offset) mod ucast width < push_bit GRID_BITS 1))"

definition rectangular_grid_y :: "u32 \<Rightarrow> bool" where
  "rectangular_grid_y y = (uint y \<le> HEIGHT \<and> uint y mod GRIDY = 0)"

subsection \<open>Polar and Smith grid\<close>

definition P_CENTER_X :: int where "P_CENTER_X = CELLOFFSETX + WIDTH div 2"

definition P_CENTER_Y :: int where "P_CENTER_Y = HEIGHT div 2"

definition P_RADIUS :: int where "P_RADIUS = HEIGHT div 2"

definition as_u32 :: "int \<Rightarrow> int" where
  "as_u32 v = uint (word_of_int v :: u32)"

definition as_s32 :: "int \<Rightarrow> int" where
  "as_s32 v = sint (word_of_int v :: u32)"

definition polar_grid :: "int \<Rightarrow> int \<Rightarrow> bool" where
  "polar_grid x y =
     (let d = as_u32 (x * x + y * y); r = P_RADIUS in
      if d > r * r + r then False
      else if d > r * r - r then True
      else if x = 0 \<or> y = 0 then True
      else if d < r * r div 25 - r div 5 then False
      else if d < r * r div 25 + r div 5 then True
      else if d < r * r * 4 div 25 - r * 2 div 5 then False
      else if d < r * r * 4 div 25 + r * 2 div 5 then True
      else if x = y \<or> x = - y then True
      else if d < r * r * 9 div 25 - r * 3 div 5 then False
      else if d < r * r * 9 div 25 + r * 3 div 5 then True
      else if d < r * r * 16 div 25 - r * 4 div 5 then False
      else if d < r * r * 16 div 25 + r * 4 div 5 then True
      else False)"

definition smith_grid :: "int \<Rightarrow> int \<Rightarrow> bool" where
  "smith_grid x y =
     (let r = P_RADIUS; R = as_u32 (x * x + y * y); d = as_s32 R in
      if d > r * r + r then False
      else if d > r * r - r then True
      else if y = 0 then True
      else
        let y = (if y < 0 then - y else y);
            ry = as_u32 (r * y);
            d3 = as_s32 (R - 2 * r * x - ry + r * r + r div 2);
            d4 = as_s32 (R - (3 * r div 2) * x + r * r div 2 + r div 4);
            d5 = as_s32 (R - 2 * r * x - 2 * ry + r * r + r);
            d6 = as_s32 (R - r * x + r div 2);
            d7 = as_s32 (R - 2 * r * x - 4 * ry + r * r + r * 2);
            d8 = as_s32 (R - x * (r div 2) - r * r div 2 + r * 3 div 4) in
        if x \<ge> 0 \<and> x \<ge> r div 2 \<and> as_u32 d3 \<le> r then True
        else if x \<ge> 0 \<and> x \<ge> r div 2 \<and> d4 < 0 then False
        else if x \<ge> 0 \<and> x \<ge> r div 2 \<and> d4 \<le> r div 2 then True
        else if x \<ge> 0 \<and> as_u32 d5 \<le> 2 * r then True
        else if x \<ge> 0 \<and> d6 < 0 then False
        else if x \<ge> 0 \<and> d6 \<le> r then True
        else if as_u32 d7 \<le> r * 4 then True
        else as_u32 d8 \<le> r * 3 div 2)"

subsection \<open>Painting a cell\<close>

fun paint_loop :: "(int \<Rightarrow> int \<Rightarrow> bool) \<Rightarrow> u16 \<Rightarrow> (int \<times> int) list \<Rightarrow> cell \<Rightarrow> cell option" where
  "paint_loop test c [] buf = Some buf"
| "paint_loop test c ((x, y) # ps) buf =
     Option.bind (if test x y then put_pixel (y * CELLWIDTH + x) c buf else Some buf) (paint_loop test c ps)"

definition by_rows :: "int \<Rightarrow> int \<Rightarrow> (int \<times> int) list" where
  "by_rows w h = concat (map (\<lambda>y. map (\<lambda>x. (x, y)) [0..w - 1]) [0..h - 1])"

definition cell_polar_grid :: "int \<Rightarrow> int \<Rightarrow> int \<Rightarrow> int \<Rightarrow> u16 \<Rightarrow> cell \<Rightarrow> cell option" where
  "cell_polar_grid x0 y0 w h c =
     (let x0 = x0 - P_CENTER_X; y0 = y0 - P_CENTER_Y in
      paint_loop (\<lambda>x y. polar_grid (x + x0) (y + y0)) c (by_rows w h))"

definition cell_smith_grid :: "int \<Rightarrow> int \<Rightarrow> int \<Rightarrow> int \<Rightarrow> u16 \<Rightarrow> cell \<Rightarrow> cell option" where
  "cell_smith_grid x0 y0 w h c =
     (let x0 = x0 - P_CENTER_X; y0 = y0 - P_CENTER_Y in
      paint_loop (\<lambda>x y. smith_grid (x + x0) (y + y0)) c (by_rows w h))"

definition cell_admit_grid :: "int \<Rightarrow> int \<Rightarrow> int \<Rightarrow> int \<Rightarrow> u16 \<Rightarrow> cell \<Rightarrow> cell option" where
  "cell_admit_grid x0 y0 w h c =
     (let x0 = P_CENTER_X - x0; y0 = y0 - P_CENTER_Y in
      paint_loop (\<lambda>x y. smith_grid (- x + x0) (y + y0)) c (by_rows w h))"

definition grid_columns :: "u16 \<Rightarrow> u16 \<Rightarrow> int \<Rightarrow> int \<Rightarrow> int list option" where
  "grid_columns offset width x0 w =
     fold (\<lambda>x r. Option.bind r (\<lambda>xs. map_option (\<lambda>b. if b then xs @ [x] else xs)
            (rectangular_grid_x offset width (word_of_int (x + x0))))) [0..w - 1] (Some [])"

definition every :: "int \<Rightarrow> int \<Rightarrow> int list" where
  "every step n = filter (\<lambda>i. i mod step = 0) [0..n - 1]"

definition cell_rectangular_grid ::
  "bool \<Rightarrow> u16 \<Rightarrow> u16 \<Rightarrow> int \<Rightarrow> int \<Rightarrow> int \<Rightarrow> int \<Rightarrow> u16 \<Rightarrow> cell \<Rightarrow> cell option" where
  "cell_rectangular_grid dotted offset width x0 y0 w h c buf =
     (let step = (if dotted then 2 else 1) in
      Option.bind (grid_columns offset width x0 w) (\<lambda>xs.
      Option.bind (paint_loop (\<lambda>x y. True) c (concat (map (\<lambda>x. map (Pair x) (every step h)) xs)) buf) (\<lambda>buf.
      paint_loop (\<lambda>x y. as_u32 (x + x0 - CELLOFFSETX) \<le> WIDTH) c
        (concat (map (\<lambda>y. map (\<lambda>x. (x, y)) (every step w))
          (filter (\<lambda>y. rectangular_grid_y (word_of_int (y + y0))) [0..h - 1]))) buf)))"

definition RECTANGULAR_GRID_MASK :: u32 where
  "RECTANGULAR_GRID_MASK = fold (\<lambda>t m. m OR push_bit t 1) ([0, 1, 2, 5] @ [6..<31]) 0"

definition ADMIT_MARKER_VALUE :: "nat \<Rightarrow> bool" where
  "ADMIT_MARKER_VALUE v = (v \<in> {5, 6, 7, 8})"

definition trace_type_mask :: "trace list \<Rightarrow> u32" where
  "trace_type_mask ts = fold (\<lambda>t m. if tr_enabled t then
      let m = m OR push_bit (tr_type t) 1 in
      if tr_type t = TRC_SMITH \<and> \<not> ADMIT_MARKER_VALUE (tr_smith_format t) then m OR push_bit 31 1 else m
    else m) ts 0"

abbreviation (input) "TRC_POLAR \<equiv> 4 :: nat"

text \<open>The part of the cell renderer that clears the cell and draws grid and band bar.\<close>

definition draw_cell_grid :: "int \<Rightarrow> int \<Rightarrow> int \<Rightarrow> int \<Rightarrow> vna \<Rightarrow> cell \<Rightarrow> cell option" where
  "draw_cell_grid x0 y0 w h s buf =
     (let p = props s; pal = lcd_palette (config s);
          trace_type = trace_type_mask (traces p);
          buf = replicate (nat (h * CELLWIDTH div 8 * 8)) (pal ! 0) @ drop (nat (h * CELLWIDTH div 8 * 8)) buf;
          c = pal ! 2 in
      Option.bind (if has trace_type RECTANGULAR_GRID_MASK
          then cell_rectangular_grid (VNA_MODE VNA_MODE_DOT_GRID s) (grid_offset s) (grid_width s) x0 y0 w h c buf
          else Some buf) (\<lambda>buf.
      Option.bind (if has trace_type (push_bit TRC_SMITH 1) then
                     if has trace_type (push_bit 31 1) then cell_smith_grid x0 y0 w h c buf
                     else cell_admit_grid x0 y0 w h c buf
                   else if has trace_type (push_bit TRC_POLAR 1) then cell_polar_grid x0 y0 w h c buf
                   else Some buf) (\<lambda>buf.
      if has trace_type RECTANGULAR_GRID_MASK then
        cell_draw_ham_bands (ham_region (config s)) (props_mode p AND DOMAIN_MODE = DOMAIN_FREQ)
          (uint (frequency0 p)) (uint (frequency1 p)) (pal ! 25) x0 y0 w h buf
      else Some buf)))"


subsection \<open>Layout of the rectangular grid\<close>

lemma uint_u32_lt: "uint (w::u32) < 2 ^ 32"
  using uint_lt2p [of w] by simp

lemma as_u32_small: "0 \<le> v \<Longrightarrow> v < 2 ^ 32 \<Longrightarrow> as_u32 v = v"
  by (simp add: as_u32_def unsigned_of_int take_bit_int_eq_self)

lemma uint_ten_power: "e \<le> 9 \<Longrightarrow> uint (10 ^ e :: u32) = 10 ^ e"
proof -
  assume "e \<le> 9"
  then have "(10::int) ^ e \<le> 10 ^ 9" by (intro power_increasing) simp_all
  then have "as_u32 (10 ^ e) = 10 ^ e" by (intro as_u32_small) simp_all
  then show ?thesis by (simp add: as_u32_def)
qed

lemma ten_power_div: "Suc e \<le> 9 \<Longrightarrow> (10 ^ Suc e :: u32) div 10 = 10 ^ e"
proof -
  assume e: "Suc e \<le> 9"
  have "uint ((10 ^ Suc e :: u32) div 10) = uint (10 ^ Suc e :: u32) div 10" by (simp add: uint_div_distrib)
  also have "\<dots> = uint (10 ^ e :: u32)" unfolding uint_ten_power [OF e] using e by (simp add: uint_ten_power)
  finally show ?thesis by (simp only: word_uint_eq_iff)
qed

lemma uint_small_mult: "uint a * uint b < 2 ^ 32 \<Longrightarrow> uint (a * b :: u32) = uint a * uint b"
  by (simp add: uint_word_arith_bintrs take_bit_int_eq_self)

text \<open>A grid step is 1, 2 or 5 times a power of ten and cuts the span into at least four and less than
  ten parts; a span of less than 4 Hz has a step of 1 Hz.\<close>

definition grid_ok :: "int \<Rightarrow> int \<Rightarrow> bool" where
  "grid_ok sp g \<longleftrightarrow> (\<exists>m\<in>{1, 2, 5}. \<exists>j. g = m * 10 ^ j) \<and> sp < 10 * g \<and> (if sp < 4 then g = 1 else 4 * g \<le> sp)"

lemma grid_okI: "m \<in> {1, 2, 5} \<Longrightarrow> sp < 10 * (m * 10 ^ e) \<Longrightarrow> 4 * (m * 10 ^ e) \<le> sp \<Longrightarrow> grid_ok sp (m * 10 ^ e)"
  using zero_less_power [of "10::int" e] by (auto simp: grid_ok_def)

lemma grid_ok_small: "sp < 4 \<Longrightarrow> grid_ok sp 1"
  by (auto simp: grid_ok_def intro!: bexI [of _ 1] exI [of _ 0])

lemma grid_step_unfold:
  assumes "e \<le> 9"
  shows "uint (grid_step fspan (10 ^ e)) = (let k = uint fspan div 10 ^ e in
     if 20 \<le> k then 5 * 10 ^ e else if 8 \<le> k then 2 * 10 ^ e else if 4 \<le> k then 10 ^ e
     else if e = 0 then 1 else uint (grid_step fspan (10 ^ (e - 1))))"
proof -
  define k where "k = fspan div 10 ^ e"
  have k: "uint k = uint fspan div 10 ^ e" using assms by (simp add: k_def uint_div_distrib uint_ten_power)
  have "uint k * 10 ^ e \<le> uint fspan"
    unfolding k using div_mult_mod_eq [of "uint fspan" "10 ^ e"] pos_mod_sign [of "10 ^ e" "uint fspan", OF zero_less_power]
    by linarith
  moreover have "uint fspan < 2 ^ 32" using uint_u32_lt [of fspan] by simp
  ultimately have lt: "uint k * 10 ^ e < 2 ^ 32" by linarith
  have pow: "n * 10 ^ e \<le> uint k * 10 ^ e" if "n \<le> uint k" for n using that by (rule mult_right_mono) simp
  have m: "uint ((10 ^ e :: u32) * 5) = 5 * 10 ^ e" if "20 \<le> uint k"
  proof -
    have "(10::int) ^ e * 5 < 2 ^ 32" using pow [OF that] lt zero_less_power [of "10::int" e] by linarith
    then show ?thesis using uint_small_mult [of "10 ^ e" 5] uint_ten_power [OF assms] by simp
  qed
  have m': "uint ((10 ^ e :: u32) * 2) = 2 * 10 ^ e" if "8 \<le> uint k"
  proof -
    have "(10::int) ^ e * 2 < 2 ^ 32" using pow [OF that] lt zero_less_power [of "10::int" e] by linarith
    then show ?thesis using uint_small_mult [of "10 ^ e" 2] uint_ten_power [OF assms] by simp
  qed
  have c: "20 \<le> k \<longleftrightarrow> 20 \<le> uint k" "8 \<le> k \<longleftrightarrow> 8 \<le> uint k" "4 \<le> k \<longleftrightarrow> 4 \<le> uint k"
    by (simp_all add: word_le_def)
  have z: "(10 ^ e :: u32) div 10 = 0 \<longleftrightarrow> e = 0"
  proof (cases e)
    case (Suc e')
    then show ?thesis using ten_power_div [of e'] uint_ten_power [of e'] assms by (auto simp: word_uint_eq_iff)
  qed simp
  have d: "e \<noteq> 0 \<Longrightarrow> (10 ^ e :: u32) div 10 = 10 ^ (e - 1)" using ten_power_div [of "e - 1"] assms by simp
  show ?thesis
    by (subst grid_step.simps) (auto simp: Let_def k_def [symmetric] k [symmetric] c z d m m' uint_ten_power [OF assms])
qed

lemma grid_step_bounds:
  assumes "e \<le> 9" "uint fspan < 40 * 10 ^ e"
  shows "grid_ok (uint fspan) (uint (grid_step fspan (10 ^ e)))"
  using assms
proof (induction e)
  case 0
  then show ?case
    by (auto simp: grid_step_unfold [of 0, simplified] Let_def intro: grid_okI [where e = 0, simplified] grid_ok_small)
next
  case (Suc e)
  define D :: int where "D = 10 ^ Suc e"
  define k where "k = uint fspan div D"
  have "0 < D" by (simp add: D_def)
  then have k: "k * D \<le> uint fspan" "uint fspan < (k + 1) * D"
    using div_mult_mod_eq [of "uint fspan" D] pos_mod_bound [of D "uint fspan"] pos_mod_sign [of D "uint fspan"]
    unfolding k_def distrib_right by linarith+
  have step: "uint (grid_step fspan (10 ^ Suc e)) = (if 20 \<le> k then 5 * 10 ^ Suc e else if 8 \<le> k then 2 * 10 ^ Suc e
      else if 4 \<le> k then 10 ^ Suc e else uint (grid_step fspan (10 ^ e)))"
    using grid_step_unfold [OF Suc.prems(1), of fspan] by (simp only: Let_def k_def D_def) simp
  have u: "uint fspan < 40 * D" using Suc.prems by (simp add: D_def)
  consider "20 \<le> k" | "8 \<le> k" "k < 20" | "4 \<le> k" "k < 8" | "k < 4" by linarith
  then show ?case
  proof cases
    case 1
    then have "20 * D \<le> uint fspan" using k(1) mult_right_mono [of 20 k D] \<open>0 < D\<close> by linarith
    then show ?thesis using grid_okI [of 5 "uint fspan" "Suc e"] u 1 Suc.prems(1)
      by (simp add: step D_def del: power_Suc)
  next
    case 2
    then have "8 * D \<le> uint fspan" "uint fspan < 20 * D"
      using k mult_right_mono [of 8 k D] mult_right_mono [of "k + 1" 20 D] \<open>0 < D\<close> by linarith+
    then show ?thesis using grid_okI [of 2 "uint fspan" "Suc e"] 2 Suc.prems(1)
      by (simp add: step D_def del: power_Suc)
  next
    case 3
    then have "4 * D \<le> uint fspan" "uint fspan < 8 * D"
      using k mult_right_mono [of 4 k D] mult_right_mono [of "k + 1" 8 D] \<open>0 < D\<close> by linarith+
    then show ?thesis using grid_okI [of 1 "uint fspan" "Suc e"] 3 Suc.prems(1)
      by (simp add: step D_def del: power_Suc)
  next
    case 4
    then have "uint fspan < 4 * D" using k(2) mult_right_mono [of "k + 1" 4 D] \<open>0 < D\<close> by linarith
    then have "uint fspan < 40 * 10 ^ e" by (simp add: D_def)
    then show ?thesis using Suc.IH Suc.prems(1) 4 by (simp add: step D_def del: power_Suc)
  qed
qed

lemma update_grid_frame [simp]:
  "props (update_grid a b s) = props s" "config (update_grid a b s) = config s" "clk (update_grid a b s) = clk s"
  "sweep_mode (update_grid a b s) = sweep_mode s" "measured (update_grid a b s) = measured s"
  "f_start (update_grid a b s) = f_start s" "f_delta (update_grid a b s) = f_delta s"
  "f_error (update_grid a b s) = f_error s" "f_points (update_grid a b s) = f_points s"
  by (simp_all add: update_grid_def Let_def)

text \<open>C29: The rectangular grid has between four and ten divisions over the sweep: for a proper range the
  grid step is 1, 2 or 5 times a power of ten of Hz, and line spacing and offset of the first line
  are the exact fixed-point pixel values of that step, not cut off by their 16-bit width.\<close>
theorem update_grid_divisions:
  assumes "fstart < fstop"
  defines "sp \<equiv> uint fstop - uint fstart"
  shows "\<exists>g. grid_ok sp g \<and>
     uint (grid_width (update_grid fstart fstop s)) = g * (WIDTH * 128) div sp \<and>
     uint (grid_offset (update_grid fstart fstop s)) = uint fstart mod g * (WIDTH * 128) div sp"
proof -
  have "uint (fstop - fstart) = sp"
    using assms(1) uint_sub_lem [of fstart fstop] by (simp add: sp_def word_less_def)
  moreover have "0 < sp" "sp < 2 ^ 32"
    using assms(1) uint_u32_lt [of fstop] uint_ge_0 [of fstart] unfolding sp_def word_less_def by linarith+
  ultimately have sz: "uint (fstop - fstart) = sp" "0 < sp" "sp < 2 ^ 32" by auto
  have ne: "fstop \<noteq> fstart" using assms(1) by simp
  define g where "g = uint (grid_step (fstop - fstart) 1000000000)"
  have ok: "grid_ok sp g" using grid_step_bounds [of 9 "fstop - fstart"] sz by (simp add: g_def)
  then have g: "0 < g" "g \<le> sp" using sz(2) by (auto simp: grid_ok_def split: if_splits)
  have px: "uint (ucast (ucast w * word_of_int (WIDTH * 2 ^ GRID_BITS) div ucast (fstop - fstart) :: u64) :: u16)
      = uint w * (WIDTH * 128) div sp" if "uint w \<le> g" for w :: u32
  proof -
    define v where "v = uint w * 58240 div sp"
    have "uint w * 58240 \<le> 58240 * sp" using that g by simp
    then have "v \<le> 58240 * sp div sp" unfolding v_def using sz(2) by (rule zdiv_mono1)
    moreover have "0 \<le> v" using sz by (simp add: v_def pos_imp_zdiv_nonneg_iff)
    ultimately have v: "0 \<le> v" "v \<le> 58240" using sz by simp_all
    have m: "uint (ucast w * 58240 :: u64) = uint w * 58240"
      using uint_u32_lt [of w] uint_mult_lem [of "ucast w :: u64" 58240] by (simp add: uint_ucast_u64)
    have "uint (ucast w * 58240 div ucast (fstop - fstart) :: u64) = v"
      using sz by (simp add: uint_div_distrib m v_def uint_ucast_u64)
    then show ?thesis using v by (simp add: WIDTH_def GRID_BITS_def unsigned_ucast_eq v_def take_bit_int_eq_self)
  qed
  show ?thesis
  proof (intro exI [of _ g] conjI ok)
    show "uint (grid_width (update_grid fstart fstop s)) = g * (WIDTH * 128) div sp"
      using px [of "grid_step (fstop - fstart) 1000000000"] ne by (simp add: update_grid_def Let_def g_def)
    have "uint (fstart mod grid_step (fstop - fstart) 1000000000) = uint fstart mod g" by (simp add: g_def uint_mod_distrib)
    then show "uint (grid_offset (update_grid fstart fstop s)) = uint fstart mod g * (WIDTH * 128) div sp"
      using px [of "fstart mod grid_step (fstop - fstart) 1000000000"] ne pos_mod_bound [OF g(1), of "uint fstart"]
      by (simp add: update_grid_def Let_def)
  qed
qed

theorem update_grid_divisions_witness:
  "\<exists>g. grid_ok 899950000 g \<and> uint (grid_width (update_grid 50000 900000000 device0)) = g * (WIDTH * 128) div 899950000"
  using update_grid_divisions [of 50000 900000000 device0] by auto

subsection \<open>The Smith grid\<close>

lemma off_square: "(x - cx)\<^sup>2 + (y - cy)\<^sup>2 - q\<^sup>2 = x * x + y * y - 2 * cx * x - 2 * cy * y + (cx\<^sup>2 + cy\<^sup>2 - q\<^sup>2)" for x y :: int
  by (simp add: power2_eq_square algebra_simps)

text \<open>Signed distance measure of a pixel from a circle: zero on the circle, negative inside.\<close>

definition off :: "int \<Rightarrow> int \<Rightarrow> int \<Rightarrow> int \<Rightarrow> int \<Rightarrow> int" where
  "off cx cy q x y = (x - cx)\<^sup>2 + (y - cy)\<^sup>2 - q\<^sup>2"

definition near :: "int \<Rightarrow> int \<Rightarrow> int \<Rightarrow> int \<Rightarrow> int \<Rightarrow> bool" where
  "near cx cy q x y \<longleftrightarrow> \<bar>off cx cy q x y\<bar> \<le> q"

definition inner :: "int \<Rightarrow> int \<Rightarrow> int \<Rightarrow> int \<Rightarrow> int \<Rightarrow> bool" where
  "inner cx cy q x y \<longleftrightarrow> off cx cy q x y < - q"

text \<open>
  The chart as a drawing of circles: the unit circle, the real axis, the reactance circles 2, 1 and
  1/2, mirrored at the axis, and the resistance circles 3, 1 and 1/3; the arcs 1 and 1/2 are cut off
  inside the resistance circle they end at.
\<close>

definition smith_chart :: "int \<Rightarrow> int \<Rightarrow> bool" where
  "smith_chart x y \<longleftrightarrow>
     (let r = P_RADIUS; v = \<bar>y\<bar> in
      off 0 0 r x v \<le> r \<and>
      (- r < off 0 0 r x v \<or> y = 0 \<or>
       r div 2 \<le> x \<and> near r (r div 2) (r div 2) x v \<or>
       \<not> (r div 2 \<le> x \<and> inner (3 * r div 4) 0 (r div 4) x v) \<and>
       (r div 2 \<le> x \<and> near (3 * r div 4) 0 (r div 4) x v \<or>
        0 \<le> x \<and> near r r r x v \<or>
        \<not> (0 \<le> x \<and> inner (r div 2) 0 (r div 2) x v) \<and>
        (0 \<le> x \<and> near (r div 2) 0 (r div 2) x v \<or>
         near r (2 * r) (2 * r) x v \<or> near (r div 4) 0 (3 * r div 4) x v))))"

lemma as_s32_small: "\<bar>v\<bar> < 2 ^ 31 \<Longrightarrow> as_s32 v = v"
  by (simp add: as_s32_def signed_of_int signed_take_bit_int_eq_self)

lemma as_u32_le:
  assumes "0 \<le> k" "k < 2 ^ 31" "\<bar>v\<bar> < 2 ^ 31"
  shows "as_u32 v \<le> k \<longleftrightarrow> 0 \<le> v \<and> v \<le> k"
proof (cases "0 \<le> v")
  case True
  then show ?thesis using assms by (simp add: as_u32_def unsigned_of_int take_bit_int_eq_self)
next
  case False
  have "as_u32 v = (v + 2 ^ 32) mod 2 ^ 32" by (simp add: as_u32_def unsigned_of_int take_bit_eq_mod)
  also have "\<dots> = v + 2 ^ 32" using False assms by (intro mod_pos_pos_trivial) auto
  finally show ?thesis using False assms by auto
qed

lemma off_bound:
  assumes "\<bar>x\<bar> \<le> 1000" "0 \<le> v" "v \<le> 1000" "\<bar>cx\<bar> \<le> 400" "\<bar>cy\<bar> \<le> 400" "\<bar>q\<bar> \<le> 400"
  shows "\<bar>off cx cy q x v + q\<bar> < 2 ^ 31"
proof -
  have "\<bar>x - cx\<bar>\<^sup>2 \<le> 1400\<^sup>2" "\<bar>v - cy\<bar>\<^sup>2 \<le> 1400\<^sup>2" "\<bar>q\<bar>\<^sup>2 \<le> 400\<^sup>2" using assms by (intro power_mono; simp)+
  then have "(x - cx)\<^sup>2 \<le> 1960000" "(v - cy)\<^sup>2 \<le> 1960000" "q\<^sup>2 \<le> 160000" by simp_all
  moreover have "0 \<le> (x - cx)\<^sup>2" "0 \<le> (v - cy)\<^sup>2" "0 \<le> q\<^sup>2" by simp_all
  moreover have "(2::int) ^ 31 = 2147483648" by simp
  ultimately show ?thesis using assms(6) unfolding off_def by linarith
qed

lemma near_u32:
  assumes "\<bar>x\<bar> \<le> 1000" "0 \<le> v" "v \<le> 1000" "\<bar>cx\<bar> \<le> 400" "\<bar>cy\<bar> \<le> 400" "0 \<le> q" "q \<le> 400"
  shows "as_u32 (off cx cy q x v + q) \<le> 2 * q \<longleftrightarrow> near cx cy q x v"
  using as_u32_le [of "2 * q" "off cx cy q x v + q"] off_bound [of x v cx cy q] assms by (auto simp: near_def)

text \<open>C28: The integer arithmetic of the Smith grid, with its signed and unsigned 32-bit conversions, draws
  exactly the pixels of the chart.\<close>
theorem smith_grid_circles:
  assumes "\<bar>x\<bar> \<le> 1000" "\<bar>y\<bar> \<le> 1000"
  shows "smith_grid x y = smith_chart x y"
proof -
  define v where "v = \<bar>y\<bar>"
  have v: "(if y < 0 then - y else y) = v" "y * y = v * v" "0 \<le> v" "v \<le> 1000"
    using assms by (auto simp: v_def)
  have sq: "0 \<le> x * x" "x * x \<le> 1000 * 1000" "0 \<le> v * v" "v * v \<le> 1000 * 1000"
    using mult_mono [of "\<bar>x\<bar>" 1000 "\<bar>x\<bar>" 1000] mult_mono [of v 1000 v 1000] assms v by auto
  have R: "as_u32 (x * x + y * y) = x * x + v * v" unfolding v(2) by (rule as_u32_small) (use sq in simp_all)
  have ry: "as_u32 (152 * v) = 152 * v" by (rule as_u32_small) (use v in simp_all)
  have P: "P_RADIUS = 152" by (simp add: P_RADIUS_def HEIGHT_def)
  have d: "as_s32 w = off cx cy q x v + q"
    if "w = off cx cy q x v + q" "\<bar>cx\<bar> \<le> 400" "\<bar>cy\<bar> \<le> 400" "\<bar>q\<bar> \<le> 400" for w cx cy q
    unfolding that(1) by (rule as_s32_small, rule off_bound) (use assms(1) v that in simp_all)
  note ring = off_def power2_eq_square algebra_simps
  have d2: "as_s32 (x * x + v * v) = off 0 0 152 x v + 152 * 152"
    by (subst as_s32_small) (use sq in \<open>simp_all add: ring\<close>)
  have d3: "as_s32 (x * x + v * v - 2 * 152 * x - 152 * v + 152 * 152 + 152 div 2) = off 152 76 76 x v + 76"
    by (rule d) (simp_all add: ring)
  have d4: "as_s32 (x * x + v * v - (3 * 152 div 2) * x + 152 * 152 div 2 + 152 div 4) = off 114 0 38 x v + 38"
    by (rule d) (simp_all add: ring)
  have d5: "as_s32 (x * x + v * v - 2 * 152 * x - 2 * (152 * v) + 152 * 152 + 152) = off 152 152 152 x v + 152"
    by (rule d) (simp_all add: ring)
  have d6: "as_s32 (x * x + v * v - 152 * x + 152 div 2) = off 76 0 76 x v + 76"
    by (rule d) (simp_all add: ring)
  have d7: "as_s32 (x * x + v * v - 2 * 152 * x - 4 * (152 * v) + 152 * 152 + 152 * 2) = off 152 304 304 x v + 304"
    by (rule d) (simp_all add: ring)
  have d8: "as_s32 (x * x + v * v - x * (152 div 2) - 152 * 152 div 2 + 152 * 3 div 4) = off 38 0 114 x v + 114"
    by (rule d) (simp_all add: ring)
  have n: "as_u32 (off 152 76 76 x v + 76) \<le> 152 \<longleftrightarrow> near 152 76 76 x v"
    "as_u32 (off 152 152 152 x v + 152) \<le> 2 * 152 \<longleftrightarrow> near 152 152 152 x v"
    "as_u32 (off 152 304 304 x v + 304) \<le> 152 * 4 \<longleftrightarrow> near 152 304 304 x v"
    "as_u32 (off 38 0 114 x v + 114) \<le> 152 * 3 div 2 \<longleftrightarrow> near 38 0 114 x v"
    using near_u32 [OF assms(1) v(3,4), of 152 76 76] near_u32 [OF assms(1) v(3,4), of 152 152 152]
      near_u32 [OF assms(1) v(3,4), of 152 304 304] near_u32 [OF assms(1) v(3,4), of 38 0 114] by simp_all
  have c: "off 114 0 38 x v + 38 < 0 \<longleftrightarrow> inner 114 0 38 x v" "off 76 0 76 x v + 76 < 0 \<longleftrightarrow> inner 76 0 76 x v"
    "off 114 0 38 x v + 38 \<le> 152 div 2 \<longleftrightarrow> near 114 0 38 x v \<or> inner 114 0 38 x v"
    "off 76 0 76 x v + 76 \<le> 152 \<longleftrightarrow> near 76 0 76 x v \<or> inner 76 0 76 x v"
    "off 0 0 152 x v + 152 * 152 > 152 * 152 + 152 \<longleftrightarrow> \<not> off 0 0 152 x v \<le> 152"
    "off 0 0 152 x v + 152 * 152 > 152 * 152 - 152 \<longleftrightarrow> - 152 < off 0 0 152 x v"
    by (auto simp: near_def inner_def)
  have k: "(152::int) div 2 = 76" "3 * 152 div 4 = (114::int)" "(152::int) div 4 = 38" "2 * 152 = (304::int)" by simp_all
  have "76 \<le> x \<Longrightarrow> 0 \<le> x" by simp
  then show ?thesis
    unfolding smith_grid_def smith_chart_def Let_def P v(1) R ry v_def [symmetric] d2 d3 d4 d5 d6 d7 d8
    unfolding n c unfolding k by argo
qed


theorem smith_grid_circles_witness: "smith_grid 100 50 = smith_chart 100 50"
  by (rule smith_grid_circles) simp_all

subsection \<open>Painted cells\<close>

text \<open>What a sequence of conditional pixel writes leaves in a cell.\<close>

lemma paint_loop_depicts:
  assumes "depicts buf f" "\<And>x y. (x, y) \<in> set ps \<Longrightarrow> 0 \<le> x \<and> x < CELLWIDTH \<and> 0 \<le> y \<and> y < CELLHEIGHT"
  shows "\<exists>buf'. paint_loop test c ps buf = Some buf' \<and>
     depicts buf' (\<lambda>x y. if (x, y) \<in> set ps \<and> test x y then c else f x y)"
  using assms
proof (induction ps arbitrary: buf f)
  case (Cons p ps)
  obtain x y where p: "p = (x, y)" by (cases p)
  have r: "0 \<le> x" "x < CELLWIDTH" "0 \<le> y" "y < CELLHEIGHT" using Cons.prems(2) [of x y] by (auto simp: p)
  let ?g = "\<lambda>x' y'. if x' = x \<and> y' = y \<and> test x y then c else f x' y'"
  obtain b where b: "(if test x y then put_pixel (y * CELLWIDTH + x) c buf else Some buf) = Some b" "depicts b ?g"
    using put_pixel_depicts [OF Cons.prems(1) r, of c] Cons.prems(1) by (cases "test x y") auto
  obtain b' where b': "paint_loop test c ps b = Some b'"
    "depicts b' (\<lambda>x y. if (x, y) \<in> set ps \<and> test x y then c else ?g x y)"
    using Cons.IH [OF b(2)] Cons.prems(2) by auto
  have "depicts b' (\<lambda>x y. if (x, y) \<in> set (p # ps) \<and> test x y then c else f x y)"
    using b'(2) by (rule depicts_cong) (auto simp: p)
  then show ?case using b(1) b'(1) by (simp add: p)
qed simp

lemma set_by_rows: "(x, y) \<in> set (by_rows w h) \<longleftrightarrow> 0 \<le> x \<and> x < w \<and> 0 \<le> y \<and> y < h"
  by (force simp: by_rows_def)

definition in_cell :: "int \<Rightarrow> int \<Rightarrow> bool" where
  "in_cell w h \<longleftrightarrow> 0 \<le> w \<and> w \<le> CELLWIDTH \<and> 0 \<le> h \<and> h \<le> CELLHEIGHT"

lemma paint_rows:
  assumes "depicts buf f" "in_cell w h"
  shows "\<exists>buf'. paint_loop test c (by_rows w h) buf = Some buf' \<and>
     depicts buf' (\<lambda>x y. if 0 \<le> x \<and> x < w \<and> 0 \<le> y \<and> y < h \<and> test x y then c else f x y)"
  using paint_loop_depicts [OF assms(1), of "by_rows w h" test c] assms(2)
  by (auto simp: set_by_rows in_cell_def conj_assoc)


text \<open>The round grids of a cell: painting the Smith, admittance or polar grid into a cell succeeds for
  every position on the screen and every clipped cell size, gives the grid colour to exactly the
  pixels of the grid, the admittance grid being the mirror image of the Smith grid, and leaves
  every other pixel of the cell as it was.\<close>
theorem cell_round_grids:
  assumes "depicts buf f" "in_cell w h"
  shows "(\<exists>b. cell_smith_grid x0 y0 w h c buf = Some b \<and> depicts b (\<lambda>x y. if 0 \<le> x \<and> x < w \<and> 0 \<le> y \<and> y < h \<and>
        smith_grid (x + x0 - P_CENTER_X) (y + y0 - P_CENTER_Y) then c else f x y)) \<and>
    (\<exists>b. cell_admit_grid x0 y0 w h c buf = Some b \<and> depicts b (\<lambda>x y. if 0 \<le> x \<and> x < w \<and> 0 \<le> y \<and> y < h \<and>
        smith_grid (- (x + x0 - P_CENTER_X)) (y + y0 - P_CENTER_Y) then c else f x y)) \<and>
    (\<exists>b. cell_polar_grid x0 y0 w h c buf = Some b \<and> depicts b (\<lambda>x y. if 0 \<le> x \<and> x < w \<and> 0 \<le> y \<and> y < h \<and>
        polar_grid (x + x0 - P_CENTER_X) (y + y0 - P_CENTER_Y) then c else f x y))"
  using paint_rows [OF assms]
  by (simp add: cell_smith_grid_def cell_admit_grid_def cell_polar_grid_def Let_def algebra_simps)

subsection \<open>Zero span\<close>

lemma bind_fold_None: "fold (\<lambda>x r. Option.bind r (g x)) xs None = None"
  by (induction xs) auto

text \<open>With equal start and stop frequency the line spacing becomes zero, and the renderer takes a
  remainder by it for every cell whose first column lies inside the plot: the grid of a rectangular
  trace has no defined rendering then.\<close>
theorem zero_span_grid:
  assumes "has (trace_type_mask (traces (props s))) RECTANGULAR_GRID_MASK"
    and "CELLOFFSETX < x0" "x0 < CELLOFFSETX + WIDTH" "0 < w"
  shows "draw_cell_grid x0 y0 w h (update_grid f f s) buf = None"
proof -
  let ?x = "word_of_int x0 - word_of_int CELLOFFSETX :: u32"
  have "?x = word_of_int (x0 - CELLOFFSETX)" by simp
  then have x: "uint ?x = x0 - CELLOFFSETX"
    using as_u32_small [of "x0 - CELLOFFSETX"] assms(2,3) by (simp add: as_u32_def WIDTH_def)
  then have "?x \<noteq> 0" using assms(2) unfolding word_uint_eq_iff x by simp
  then have "rectangular_grid_x offset 0 (word_of_int x0) = None" for offset
    using x assms(3) by (simp add: rectangular_grid_x_def Let_def)
  moreover have "[0..w - 1] = 0 # [1..w - 1]" using assms(4) by (simp add: upto_rec1)
  ultimately have "grid_columns offset 0 x0 w = None" for offset
    by (simp add: grid_columns_def bind_fold_None)
  then show ?thesis using assms(1) by (simp add: draw_cell_grid_def update_grid_def cell_rectangular_grid_def Let_def)
qed

theorem zero_span_grid_witness:
  "draw_cell_grid 32 0 32 32 (update_grid 50000 50000 device0) (replicate 1024 0) = None"
  by (rule zero_span_grid)
     (simp_all add: device0_def props0_def load_default_properties_def def_trace_def trace_type_mask_def
       RECTANGULAR_GRID_MASK_def has_def TRC_LOGMAG_def TRC_SMITH_def TRC_PHASE_def upt_rec CELLOFFSETX_def WIDTH_def)

theorem cell_round_grids_witness:
  "\<exists>b. cell_smith_grid 0 0 32 32 7 (replicate 1024 0) = Some b \<and> depicts b (\<lambda>x y. if 0 \<le> x \<and> x < 32 \<and> 0 \<le> y \<and> y < 32 \<and>
        smith_grid (x + 0 - P_CENTER_X) (y + 0 - P_CENTER_Y) then 7 else 0)"
proof -
  have "depicts (replicate 1024 0) (\<lambda>x y. 0)"
    by (auto simp: depicts_def CELLWIDTH_def CELLHEIGHT_def nat_less_iff intro!: nth_replicate)
  moreover have "in_cell 32 32" by (simp add: in_cell_def CELLWIDTH_def CELLHEIGHT_def)
  ultimately show ?thesis using cell_round_grids [of "replicate 1024 0" "\<lambda>x y. 0" 32 32 0 0 7] by blast
qed

end
