(* ===== verification/Sweep.thy ===== *)
theory Sweep
  imports Grid
begin

text \<open>
  The stimulus of \<^verbatim>\<open>main.c\<close>: the frequency list, start, stop, center, span, step and CW setting,
  markers that follow the stimulus, and the interpolation flag of the calibration.  A division by a
  zero number of steps is the value None.
\<close>

datatype sweep_type = ST_START | ST_STOP | ST_CENTER | ST_SPAN | ST_CW | ST_STEP | ST_VAR

definition freq_is_centerspan :: "properties \<Rightarrow> bool" where
  "freq_is_centerspan p = has (props_mode p) TD_CENTER_SPAN"

definition freq_startstop :: "properties \<Rightarrow> properties" where
  "freq_startstop p = p\<lparr>props_mode := props_mode p AND NOT TD_CENTER_SPAN\<rparr>"

definition freq_centerspan :: "properties \<Rightarrow> properties" where
  "freq_centerspan p = p\<lparr>props_mode := props_mode p OR TD_CENTER_SPAN\<rparr>"

fun get_sweep_frequency :: "sweep_type \<Rightarrow> properties \<Rightarrow> u32" where
  "get_sweep_frequency ST_START p = frequency0 p"
| "get_sweep_frequency ST_STOP p = frequency1 p"
| "get_sweep_frequency ST_CENTER p = drop_bit 1 (frequency0 p) + drop_bit 1 (frequency1 p) + (frequency0 p AND 1)"
| "get_sweep_frequency ST_SPAN p = frequency1 p - frequency0 p"
| "get_sweep_frequency ST_CW p = frequency0 p"
| "get_sweep_frequency ST_STEP p = (frequency1 p - frequency0 p) div of_nat (sweep_points p - 1)"
| "get_sweep_frequency ST_VAR p = var_freq p"

definition set_frequencies :: "u32 \<Rightarrow> u32 \<Rightarrow> nat \<Rightarrow> vna \<Rightarrow> vna option" where
  "set_frequencies start stop points s =
     (let span = stop - start; n = points - 1 in
      if n = 0 then None
      else Some (s\<lparr>f_start := start, f_points := n, f_delta := span div of_nat n, f_error := span mod of_nat n\<rparr>))"

definition getFrequency :: "nat \<Rightarrow> vna \<Rightarrow> u32" where
  "getFrequency idx s =
     f_start s + f_delta s * of_nat idx + (of_nat (f_points s div 2) + f_error s * of_nat idx) div of_nat (f_points s)"

definition getFrequencyStep :: "vna \<Rightarrow> u32" where
  "getFrequencyStep s = f_delta s"

definition needInterpolate :: "u32 \<Rightarrow> u32 \<Rightarrow> nat \<Rightarrow> properties \<Rightarrow> bool" where
  "needInterpolate start stop points p \<longleftrightarrow>
     start \<noteq> cal_frequency0 p \<or> stop \<noteq> cal_frequency1 p \<or> points \<noteq> cal_sweep_points p"

subsection \<open>Markers\<close>

definition on_marker :: "nat \<Rightarrow> (marker \<Rightarrow> marker) \<Rightarrow> vna \<Rightarrow> vna" where
  "on_marker m f = on_props (\<lambda>p. p\<lparr>markers := (markers p)[m := f (markers p ! m)]\<rparr>)"

definition set_marker_index :: "int \<Rightarrow> int \<Rightarrow> vna \<Rightarrow> vna" where
  "set_marker_index m idx s =
     (if m = MARKER_INVALID \<or> idx < 0 \<or> idx \<ge> int (sweep_points (props s)) then s
      else
        let s = on_marker (nat m) (mk_frequency_update (\<lambda>_. getFrequency (nat idx) s)) s in
        if mk_index (markers (props s) ! nat m) = nat idx then s
        else request_to_redraw REDRAW_MARKER (on_marker (nat m) (mk_index_update (\<lambda>_. nat idx)) s))"

definition get_marker_frequency :: "int \<Rightarrow> vna \<Rightarrow> u32" where
  "get_marker_frequency m s = (if m < 0 \<or> m \<ge> int MARKERS_MAX then 0 else mk_frequency (markers (props s) ! nat m))"

definition marker_target :: "u32 \<Rightarrow> u32 \<Rightarrow> nat \<Rightarrow> marker \<Rightarrow> int" where
  "marker_target fstart fstop points mk =
     (let f = mk_frequency mk in
      if f = 0 then int (mk_index mk)
      else if f \<le> fstart then 0
      else if f \<ge> fstop then int points - 1
      else let r = real_of_int (uint (f - fstart)) / real_of_int (uint (fstop - fstart)) in
        \<lfloor>r * (real points - 1)\<rfloor>)"

definition update_marker_index :: "u32 \<Rightarrow> u32 \<Rightarrow> nat \<Rightarrow> vna \<Rightarrow> vna" where
  "update_marker_index fstart fstop points =
     fold (\<lambda>m s. set_marker_index (int m) (marker_target fstart fstop points (markers (props s) ! m)) s) [0..<MARKERS_MAX]"

subsection \<open>Stimulus\<close>

definition update_frequencies :: "vna \<Rightarrow> vna option" where
  "update_frequencies s =
     (let start = get_sweep_frequency ST_START (props s);
          stop = get_sweep_frequency ST_STOP (props s);
          points = sweep_points (props s) in
      map_option (\<lambda>s.
        let s = update_grid start stop (update_marker_index start stop points s);
            s = on_props (\<lambda>p. if needInterpolate start stop points p
                   then p\<lparr>cal_status := cal_status p OR CALSTAT_INTERPOLATED\<rparr>
                   else p\<lparr>cal_status := cal_status p AND NOT CALSTAT_INTERPOLATED\<rparr>) s;
            s = request_to_redraw (REDRAW_BACKUP OR REDRAW_PLOT OR REDRAW_CAL_STATUS OR REDRAW_FREQUENCY OR REDRAW_AREA) s in
        s\<lparr>p_sweep := 0\<rparr>) (set_frequencies start stop points s))"

definition set_sweep_points :: "nat \<Rightarrow> vna \<Rightarrow> vna option" where
  "set_sweep_points points s =
     (let points = (if points > SWEEP_POINTS_MAX then SWEEP_POINTS_MAX else points);
          points = (if points < SWEEP_POINTS_MIN then SWEEP_POINTS_MIN else points) in
      if points = sweep_points (props s) then Some s
      else update_frequencies (on_props (sweep_points_update (\<lambda>_. points)) s))"

text \<open>The step input is turned into a stop or a span first; the product may wrap.\<close>

definition step_to_range :: "sweep_type \<Rightarrow> u32 \<Rightarrow> properties \<Rightarrow> sweep_type \<times> u32" where
  "step_to_range type freq p =
     (if type = ST_STEP then
        let freq = freq * of_nat (sweep_points p - 1);
            type = (if freq_is_centerspan p then ST_SPAN else ST_STOP) in
        (type, if type = ST_STOP then freq + frequency0 p else freq)
      else (type, freq))"

fun apply_sweep_frequency :: "sweep_type \<Rightarrow> u32 \<Rightarrow> properties \<Rightarrow> properties" where
  "apply_sweep_frequency ST_START freq p =
     (let p = (freq_startstop p)\<lparr>frequency0 := freq\<rparr> in
      if frequency1 p < freq then p\<lparr>frequency1 := freq\<rparr> else p)"
| "apply_sweep_frequency ST_STOP freq p =
     (let p = (freq_startstop p)\<lparr>frequency1 := freq\<rparr> in
      if frequency0 p > freq then p\<lparr>frequency0 := freq\<rparr> else p)"
| "apply_sweep_frequency ST_CENTER freq p =
     (let p = freq_centerspan p;
          center = freq;
          span = drop_bit 1 (frequency1 p - frequency0 p + 1);
          span = (if span > center - FREQUENCY_MIN then center - FREQUENCY_MIN else span);
          span = (if span > FREQUENCY_MAX - center then FREQUENCY_MAX - center else span) in
      p\<lparr>frequency0 := center - span, frequency1 := center + span\<rparr>)"
| "apply_sweep_frequency ST_SPAN freq p =
     (let p = freq_centerspan p;
          center = get_sweep_frequency ST_CENTER p;
          span = drop_bit 1 freq;
          center = (if center < FREQUENCY_MIN + span then FREQUENCY_MIN + span else center);
          center = (if center > FREQUENCY_MAX - span then FREQUENCY_MAX - span else center) in
      p\<lparr>frequency0 := center - span, frequency1 := center + span\<rparr>)"
| "apply_sweep_frequency ST_CW freq p = (freq_centerspan p)\<lparr>frequency0 := freq, frequency1 := freq\<rparr>"
| "apply_sweep_frequency ST_STEP freq p = p"
| "apply_sweep_frequency ST_VAR freq p = p\<lparr>var_freq := freq\<rparr>"

definition set_sweep_frequency :: "sweep_type \<Rightarrow> u32 \<Rightarrow> vna \<Rightarrow> vna option" where
  "set_sweep_frequency type freq s =
     (let freq = (if type \<in> {ST_START, ST_STOP, ST_CENTER} \<and> freq < FREQUENCY_MIN then FREQUENCY_MIN else freq);
          (type, freq) = step_to_range type freq (props s);
          freq = (if freq > FREQUENCY_MAX then FREQUENCY_MAX else freq);
          s = on_props (apply_sweep_frequency type freq) s in
      if type = ST_VAR then Some (request_to_redraw REDRAW_BACKUP s)
      else map_option (\<lambda>s.
        if has (sweep_mode s) SWEEP_FILE_VIEW
        then resume_sweep (s\<lparr>sweep_mode := sweep_mode s AND NOT SWEEP_FILE_VIEW\<rparr>) else s) (update_frequencies s))"

definition reset_sweep_frequency :: "vna \<Rightarrow> vna option" where
  "reset_sweep_frequency s =
     update_frequencies (on_props (\<lambda>p. p\<lparr>frequency0 := cal_frequency0 p, frequency1 := cal_frequency1 p,
       sweep_points := cal_sweep_points p\<rparr>) s)"

subsection \<open>The frequency list\<close>

lemma uint_of_nat_small: "n < 2 ^ 32 \<Longrightarrow> uint (of_nat n :: u32) = int n"
  by (simp add: unsigned_of_nat take_bit_nat_eq_self)

lemma uint_div_word: "uint (a div b) = uint a div uint (b::'a::len word)"
  by (simp add: uint_div_distrib)

lemma uint_mod_word: "uint (a mod b) = uint a mod uint (b::'a::len word)"
  by (simp add: uint_mod_distrib)

lemma uint_add_small: "uint a + uint b < 2 ^ LENGTH('a) \<Longrightarrow> uint (a + b) = uint a + uint (b::'a::len word)"
  by (simp add: uint_word_ariths)

lemma uint_sub_small: "b \<le> a \<Longrightarrow> uint (a - b) = uint a - uint (b::'a::len word)"
  by (simp add: word_le_def uint_sub_lem)

lemma round_split:
  fixes S N i :: int
  assumes "0 < N"
  shows "S div N * i + (N div 2 + S mod N * i) div N = (S * i + N div 2) div N"
proof -
  have "S * i + N div 2 = (N div 2 + S mod N * i) + N * (S div N * i)"
    by (metis (no_types) add.assoc add.commute distrib_right div_mult_mod_eq mult.assoc mult.commute)
  then have "(S * i + N div 2) div N = ((N div 2 + S mod N * i) + N * (S div N * i)) div N" by (rule arg_cong)
  also have "\<dots> = S div N * i + (N div 2 + S mod N * i) div N" using assms by (intro div_mult_self2) simp
  finally show ?thesis ..
qed

lemma round_le:
  fixes S N i :: int
  assumes "0 < N" "0 \<le> S" "0 \<le> i" "i \<le> N"
  shows "0 \<le> (S * i + N div 2) div N \<and> (S * i + N div 2) div N \<le> S"
proof -
  have "S * i \<le> S * N" using assms by (intro mult_left_mono) auto
  then have "(S * i + N div 2) div N \<le> (S * N + N div 2) div N" using assms by (intro zdiv_mono1) auto
  also have "\<dots> = S" using assms by (simp add: div_add1_eq)
  finally show ?thesis using assms by (simp add: pos_imp_zdiv_nonneg_iff)
qed

lemma round_err:
  fixes A N :: int
  assumes "0 < N"
  shows "2 * \<bar>(A + N div 2) div N * N - A\<bar> \<le> N"
proof -
  obtain x r h where x: "x = (A + N div 2) div N * N" and r: "r = (A + N div 2) mod N" and h: "h = N div 2" by blast
  have "x + r = A + h" unfolding x r h by (rule div_mult_mod_eq)
  moreover have "0 \<le> r" "r < N" using assms by (simp_all add: r)
  moreover have "2 * h \<le> N" "N \<le> 2 * h + 1" by (simp_all add: h)
  ultimately have "2 * (x - A) \<le> N \<and> 2 * (A - x) \<le> N" by presburger
  then have "2 * \<bar>x - A\<bar> \<le> N" by (simp add: abs_if)
  then show ?thesis by (simp add: x)
qed

text \<open>Every point of the list is the exact proportional frequency rounded to the nearest hertz.\<close>

lemma getFrequency_rounds:
  assumes "set_frequencies start stop points s = Some s'" "start \<le> stop" "points \<le> 2 ^ 15" "i < points"
  defines "N \<equiv> int points - 1" and "S \<equiv> uint stop - uint start"
  shows "0 < N \<and> uint (getFrequency i s') = uint start + (S * int i + N div 2) div N"
proof -
  have n: "points - 1 \<noteq> 0" using assms(1) by (auto simp: set_frequencies_def Let_def split: if_splits)
  then have N: "N = int (points - 1)" "0 < N" by (auto simp: N_def)
  have s': "f_start s' = start" "f_points s' = points - 1" "f_delta s' = (stop - start) div of_nat (points - 1)"
    "f_error s' = (stop - start) mod of_nat (points - 1)"
    using assms(1) n by (auto simp: set_frequencies_def Let_def split: if_splits)
  have wN: "uint (of_nat (points - 1) :: u32) = N"
    unfolding N(1) by (rule uint_of_nat_small) (use assms(3) in simp)
  have wi: "uint (of_nat i :: u32) = int i" using assms(3,4) by (simp add: uint_of_nat_small)
  have wS: "uint (stop - start) = S" using assms(2) by (simp add: S_def uint_sub_small)
  have S: "0 \<le> S" "S < 2 ^ 32" using wS uint_lt2p [of "stop - start"] by auto
  have i: "int i \<le> N" using assms(4) N by simp
  have e1: "uint (f_delta s' * of_nat i) = S div N * int i"
  proof -
    have "S div N * int i \<le> S div N * N" using i S N by (intro mult_left_mono) (simp_all add: pos_imp_zdiv_nonneg_iff)
    also have "\<dots> \<le> S" using S N by (metis div_mult_mod_eq le_add_same_cancel1 pos_mod_sign)
    finally have "S div N * int i < 2 ^ 32" using S by simp
    then show ?thesis
      using uint_muladd [of 0 "f_delta s'" "of_nat i"] s' wS wN wi by (simp add: uint_div_word)
  qed
  have e2: "uint (of_nat ((points - 1) div 2) + f_error s' * of_nat i) = N div 2 + S mod N * int i"
  proof -
    have h: "uint (of_nat ((points - 1) div 2) :: u32) = N div 2" using N assms(3) by (simp add: uint_of_nat_small zdiv_int)
    have "S mod N * int i \<le> N * N" using i N(2) by (intro mult_mono) (simp_all add: less_imp_le)
    also have "\<dots> \<le> 2 ^ 15 * 2 ^ 15" using N assms(3) by (intro mult_mono) auto
    finally have "N div 2 + S mod N * int i < 2 ^ 32" using N assms(3) by simp
    then show ?thesis
      using uint_muladd [of "of_nat ((points - 1) div 2)" "f_error s'" "of_nat i"] s' wS wN wi h by (simp add: uint_mod_word)
  qed
  let ?r = "(of_nat ((points - 1) div 2) + f_error s' * of_nat i) div (of_nat (points - 1) :: u32)"
  have r: "uint ?r = (N div 2 + S mod N * int i) div N" by (simp only: uint_div_word e2 wN)
  have tot: "uint (f_delta s' * of_nat i) + uint ?r = (S * int i + N div 2) div N"
    using round_split [OF N(2), of S "int i"] e1 r by simp
  have le: "0 \<le> (S * int i + N div 2) div N" "(S * int i + N div 2) div N \<le> S"
    using round_le [OF N(2) S(1) _ i] by auto
  have "uint start + S < 2 ^ 32" using uint_lt2p [of stop] by (simp add: S_def)
  moreover from this have "(S * int i + N div 2) div N < 2 ^ 32" using le(2) uint_ge_0 [of start] by linarith
  ultimately have "uint (f_delta s' * of_nat i + ?r) = (S * int i + N div 2) div N"
    using tot by (subst uint_add_small) simp_all
  then have "uint (start + (f_delta s' * of_nat i + ?r)) = uint start + (S * int i + N div 2) div N"
    using le \<open>uint start + S < 2 ^ 32\<close> by (subst uint_add_small) auto
  then show ?thesis using N(2) s' by (simp add: getFrequency_def add.assoc)
qed

lemma frequency_list:
  assumes "set_frequencies start stop points s = Some s'" "start \<le> stop" "points \<le> SWEEP_POINTS_MAX"
    and "i \<le> j" "j < points"
  shows "getFrequency 0 s' = start \<and> getFrequency (points - 1) s' = stop \<and> getFrequency i s' \<le> getFrequency j s' \<and>
    2 * \<bar>(uint (getFrequency i s') - uint start) * (int points - 1) - (uint stop - uint start) * int i\<bar> \<le> int points - 1"
proof -
  let ?N = "int points - 1" and ?S = "uint stop - uint start"
  have p: "points \<le> 2 ^ 15" using assms(3) by (simp add: SWEEP_POINTS_MAX_def)
  have g: "0 < ?N" "k < points \<Longrightarrow> uint (getFrequency k s') = uint start + (?S * int k + ?N div 2) div ?N" for k
    using getFrequency_rounds [OF assms(1,2) p, of k] getFrequency_rounds [OF assms(1,2) p, of j] assms(5) by auto
  have S: "0 \<le> ?S" using assms(2) by (simp add: word_le_def)
  have 1: "getFrequency 0 s' = start" using g(2) [of 0] g(1) assms(5) by (simp add: word_uint_eq_iff)
  have "(?S * ?N + ?N div 2) div ?N = ?S" using g(1) by (simp add: div_add1_eq)
  then have 2: "getFrequency (points - 1) s' = stop"
    using g(2) [of "points - 1"] g(1) assms(5) by (simp add: word_uint_eq_iff of_nat_diff)
  have "(?S * int i + ?N div 2) div ?N \<le> (?S * int j + ?N div 2) div ?N"
    using assms(4) S g(1) by (intro zdiv_mono1) (auto intro: mult_left_mono)
  then have 3: "getFrequency i s' \<le> getFrequency j s'" using g(2) [of i] g(2) [of j] assms(4,5) by (simp add: word_le_def)
  let ?q = "(?S * int i + ?N div 2) div ?N"
  have "2 * \<bar>?q * ?N - ?S * int i\<bar> \<le> ?N" by (rule round_err [OF g(1)])
  then have 4: "2 * \<bar>(uint (getFrequency i s') - uint start) * ?N - ?S * int i\<bar> \<le> ?N"
    using g(2) [of i] assms(4,5) by simp
  show ?thesis using 1 2 3 4 by blast
qed

text \<open>C31: The frequency list: for every start not above stop and every legal number of points the
  first point is the start, the last point is the stop, the points never decrease, and each lies
  within half a hertz of its exact proportional place, with no 32-bit overflow on the way.\<close>
theorem frequency_list_correct:
  assumes "set_frequencies start stop points s = Some s'" "start \<le> stop" "points \<le> SWEEP_POINTS_MAX"
    and "i \<le> j" "j < points"
  shows "getFrequency 0 s' = start \<and> getFrequency (points - 1) s' = stop \<and> getFrequency i s' \<le> getFrequency j s' \<and>
    2 * \<bar>(uint (getFrequency i s') - uint start) * (int points - 1) - (uint stop - uint start) * int i\<bar> \<le> int points - 1"
  using assms by (rule frequency_list)

theorem frequency_list_correct_witness:
  "\<exists>s'. set_frequencies 50000 900000000 401 device0 = Some s' \<and>
    getFrequency 0 s' = 50000 \<and> getFrequency (401 - 1) s' = 900000000 \<and> getFrequency 3 s' \<le> getFrequency 5 s' \<and>
    2 * \<bar>(uint (getFrequency 3 s') - uint (50000::u32)) * (int 401 - 1) - (uint (900000000::u32) - uint (50000::u32)) * int 3\<bar> \<le> int 401 - 1"
proof -
  obtain s' where "set_frequencies 50000 900000000 401 device0 = Some s'" by (simp add: set_frequencies_def Let_def)
  then show ?thesis using frequency_list_correct [of 50000 900000000 401 device0 s' 3 5] by (simp add: SWEEP_POINTS_MAX_def)
qed

subsection \<open>Stimulus invariant\<close>

definition stimulus_ok :: "properties \<Rightarrow> bool" where
  "stimulus_ok p \<longleftrightarrow> FREQUENCY_MIN \<le> frequency0 p \<and> frequency0 p \<le> frequency1 p \<and> frequency1 p \<le> FREQUENCY_MAX"

lemma uint_freq_consts: "uint FREQUENCY_MIN = 600" "uint FREQUENCY_MAX = 2700000000"
  by (simp_all add: FREQUENCY_MIN_def FREQUENCY_MAX_def)

lemma uint_half: "uint (drop_bit (Suc 0) w) = uint (w::u32) div 2"
  by (simp add: drop_bit_eq_div uint_div_word)

lemma clipped_sum:
  fixes c sp :: u32
  assumes "FREQUENCY_MIN \<le> c" "c \<le> FREQUENCY_MAX" "sp \<le> c - FREQUENCY_MIN" "sp \<le> FREQUENCY_MAX - c"
  shows "FREQUENCY_MIN \<le> c - sp \<and> c - sp \<le> c + sp \<and> c + sp \<le> FREQUENCY_MAX"
proof -
  have c: "600 \<le> uint c" "uint c \<le> 2700000000" using assms(1,2) by (simp_all add: word_le_def uint_freq_consts)
  have s: "uint sp \<le> uint c - 600" "uint sp \<le> 2700000000 - uint c"
    using assms by (simp_all add: word_le_def [of sp] uint_sub_small uint_freq_consts)
  have "sp \<le> c" using s by (simp add: word_le_def)
  then have "uint (c - sp) = uint c - uint sp" by (rule uint_sub_small)
  moreover have "uint (c + sp) = uint c + uint sp" using s c by (intro uint_add_small) simp
  ultimately show ?thesis using s uint_ge_0 [of sp] by (simp add: word_le_def uint_freq_consts)
qed

lemma apply_center_ok:
  assumes "FREQUENCY_MIN \<le> freq" "freq \<le> FREQUENCY_MAX"
  shows "stimulus_ok (apply_sweep_frequency ST_CENTER freq p)"
proof -
  define sp0 where "sp0 = drop_bit 1 (frequency1 p - frequency0 p + 1)"
  define sp1 where "sp1 = (if sp0 > freq - FREQUENCY_MIN then freq - FREQUENCY_MIN else sp0)"
  define sp where "sp = (if sp1 > FREQUENCY_MAX - freq then FREQUENCY_MAX - freq else sp1)"
  have "sp \<le> freq - FREQUENCY_MIN" "sp \<le> FREQUENCY_MAX - freq"
    by (auto simp: sp_def sp1_def not_less)
  then have "FREQUENCY_MIN \<le> freq - sp \<and> freq - sp \<le> freq + sp \<and> freq + sp \<le> FREQUENCY_MAX"
    by (rule clipped_sum [OF assms])
  moreover have "apply_sweep_frequency ST_CENTER freq p = (freq_centerspan p)\<lparr>frequency0 := freq - sp, frequency1 := freq + sp\<rparr>"
    unfolding apply_sweep_frequency.simps Let_def by (simp add: freq_centerspan_def sp_def sp1_def sp0_def)
  ultimately show ?thesis by (simp add: stimulus_ok_def)
qed

lemma apply_span_ok:
  assumes "stimulus_ok p" "freq \<le> FREQUENCY_MAX - FREQUENCY_MIN"
  shows "stimulus_ok (apply_sweep_frequency ST_SPAN freq p)"
proof -
  define sp where "sp = drop_bit 1 freq"
  define c0 where "c0 = get_sweep_frequency ST_CENTER p"
  define c1 where "c1 = (if c0 < FREQUENCY_MIN + sp then FREQUENCY_MIN + sp else c0)"
  define c where "c = (if c1 > FREQUENCY_MAX - sp then FREQUENCY_MAX - sp else c1)"
  have f: "uint freq \<le> 2699999400"
    using assms(2) by (simp add: word_le_def uint_freq_consts FREQUENCY_MAX_def FREQUENCY_MIN_def)
  then have sp: "uint sp = uint freq div 2" "2 * uint sp \<le> 2699999400" by (simp_all add: sp_def uint_half)
  have add: "uint (FREQUENCY_MIN + sp) = 600 + uint sp"
    using sp by (subst uint_add_small) (simp_all add: uint_freq_consts)
  have sub: "uint (FREQUENCY_MAX - sp) = 2700000000 - uint sp"
    using sp by (subst uint_sub_small) (simp_all add: word_le_def uint_freq_consts)
  have c: "600 + uint sp \<le> uint c" "uint c \<le> 2700000000 - uint sp"
    using add sub sp by (auto simp: c_def c1_def word_less_def not_less)
  have "FREQUENCY_MIN \<le> c - sp \<and> c - sp \<le> c + sp \<and> c + sp \<le> FREQUENCY_MAX"
  proof (rule clipped_sum)
    show "FREQUENCY_MIN \<le> c" "c \<le> FREQUENCY_MAX" using c uint_ge_0 [of sp] unfolding word_le_def uint_freq_consts by linarith+
    then show "sp \<le> c - FREQUENCY_MIN" "sp \<le> FREQUENCY_MAX - c"
      using c by (simp_all add: word_le_def [of sp] uint_sub_small uint_freq_consts)
  qed
  moreover have "apply_sweep_frequency ST_SPAN freq p = (freq_centerspan p)\<lparr>frequency0 := c - sp, frequency1 := c + sp\<rparr>"
    unfolding apply_sweep_frequency.simps Let_def by (simp add: freq_centerspan_def sp_def c_def c1_def c0_def)
  ultimately show ?thesis by (simp add: stimulus_ok_def)
qed

lemma apply_startstop_ok:
  assumes "stimulus_ok p" "FREQUENCY_MIN \<le> freq" "freq \<le> FREQUENCY_MAX"
  shows "stimulus_ok (apply_sweep_frequency ST_START freq p)" "stimulus_ok (apply_sweep_frequency ST_STOP freq p)"
    "stimulus_ok (apply_sweep_frequency ST_CW freq p)"
  using assms by (auto simp: stimulus_ok_def Let_def freq_startstop_def freq_centerspan_def)

text \<open>Requests that keep the stimulus in range; the others are the subject of the errors below.\<close>

fun sweep_request_ok :: "sweep_type \<Rightarrow> u32 \<Rightarrow> properties \<Rightarrow> bool" where
  "sweep_request_ok ST_SPAN freq p \<longleftrightarrow> freq \<le> FREQUENCY_MAX - FREQUENCY_MIN"
| "sweep_request_ok ST_CW freq p \<longleftrightarrow> FREQUENCY_MIN \<le> freq"
| "sweep_request_ok ST_STEP freq p \<longleftrightarrow>
     (if freq_is_centerspan p then uint freq * (int (sweep_points p) - 1) \<le> 2699999400
      else uint freq * (int (sweep_points p) - 1) + uint (frequency0 p) < 2 ^ 32)"
| "sweep_request_ok _ freq p \<longleftrightarrow> True"

definition clip_request :: "sweep_type \<Rightarrow> u32 \<Rightarrow> properties \<Rightarrow> sweep_type \<times> u32" where
  "clip_request type freq p =
     (case step_to_range type (if type \<in> {ST_START, ST_STOP, ST_CENTER} \<and> freq < FREQUENCY_MIN then FREQUENCY_MIN else freq) p of
      (t, f) \<Rightarrow> (t, if f > FREQUENCY_MAX then FREQUENCY_MAX else f))"

lemma set_sweep_frequency_clip:
  "set_sweep_frequency type freq s =
     (case clip_request type freq (props s) of (t, f) \<Rightarrow>
      let s = on_props (apply_sweep_frequency t f) s in
      if t = ST_VAR then Some (request_to_redraw REDRAW_BACKUP s)
      else map_option (\<lambda>s.
        if has (sweep_mode s) SWEEP_FILE_VIEW
        then resume_sweep (s\<lparr>sweep_mode := sweep_mode s AND NOT SWEEP_FILE_VIEW\<rparr>) else s) (update_frequencies s))"
  unfolding set_sweep_frequency_def clip_request_def Let_def case_prod_beta by simp

lemma step_product:
  assumes "uint freq * (int n - 1) < 2 ^ 32" "2 \<le> n" "n \<le> SWEEP_POINTS_MAX"
  shows "uint (freq * of_nat (n - 1) :: u32) = uint freq * (int n - 1)"
proof -
  have "uint (of_nat (n - 1) :: u32) = int n - 1"
    using assms(2,3) by (subst uint_of_nat_small) (auto simp: SWEEP_POINTS_MAX_def)
  then show ?thesis using uint_muladd [of 0 freq "of_nat (n - 1)"] assms(1) by simp
qed

lemma min_le_max: "FREQUENCY_MIN \<le> FREQUENCY_MAX"
  by (simp add: FREQUENCY_MIN_def FREQUENCY_MAX_def)

lemma clip_basic:
  assumes "type \<in> {ST_START, ST_STOP, ST_CENTER}" "clip_request type freq p = (t, f)"
  shows "t = type" "FREQUENCY_MIN \<le> f" "f \<le> FREQUENCY_MAX"
  using assms min_le_max by (auto simp: clip_request_def step_to_range_def not_less split: if_splits)

lemma apply_request_ok:
  assumes "stimulus_ok p" "sweep_request_ok type freq p" "2 \<le> sweep_points p" "sweep_points p \<le> SWEEP_POINTS_MAX"
    and "clip_request type freq p = (t, f)"
  shows "stimulus_ok (apply_sweep_frequency t f p)"
proof (cases type)
  case ST_STEP
  let ?n = "sweep_points p"
  show ?thesis
  proof (cases "freq_is_centerspan p")
    case True
    then have u: "uint (freq * of_nat (?n - 1) :: u32) = uint freq * (int ?n - 1)"
      using assms(2,3,4) ST_STEP by (intro step_product) simp_all
    have "t = ST_SPAN" "f = (if freq * of_nat (?n - 1) > FREQUENCY_MAX then FREQUENCY_MAX else freq * of_nat (?n - 1))"
      using assms(5) ST_STEP True by (auto simp: clip_request_def step_to_range_def Let_def)
    moreover have "f \<le> FREQUENCY_MAX - FREQUENCY_MIN"
      using u assms(2) ST_STEP True calculation(2)
      by (simp add: word_le_def word_less_def uint_freq_consts FREQUENCY_MAX_def FREQUENCY_MIN_def)
    ultimately show ?thesis using apply_span_ok [OF assms(1)] by simp
  next
    case False
    have "uint freq * (int ?n - 1) + uint (frequency0 p) < 2 ^ 32" using assms(2) ST_STEP False by simp
    then have "uint freq * (int ?n - 1) < 2 ^ 32" using uint_ge_0 [of "frequency0 p"] by linarith
    then have u: "uint (freq * of_nat (?n - 1) :: u32) = uint freq * (int ?n - 1)"
      using assms(3,4) by (rule step_product)
    have u': "uint (freq * of_nat (?n - 1) + frequency0 p) = uint freq * (int ?n - 1) + uint (frequency0 p)"
      using u assms(2) ST_STEP False by (subst uint_add_small) simp_all
    have "0 \<le> uint freq * (int ?n - 1)" using assms(3) by simp
    then have ge: "FREQUENCY_MIN \<le> freq * of_nat (?n - 1) + frequency0 p"
      using u' assms(1) by (simp add: stimulus_ok_def word_le_def)
    have "t = ST_STOP" "f = (if freq * of_nat (?n - 1) + frequency0 p > FREQUENCY_MAX then FREQUENCY_MAX else freq * of_nat (?n - 1) + frequency0 p)"
      using assms(5) ST_STEP False by (auto simp: clip_request_def step_to_range_def Let_def)
    moreover have "FREQUENCY_MIN \<le> f" "f \<le> FREQUENCY_MAX"
      using ge calculation(2) by (auto simp: not_less FREQUENCY_MIN_def FREQUENCY_MAX_def)
    ultimately show ?thesis using apply_startstop_ok(2) [OF assms(1)] by simp
  qed
next
  case ST_SPAN
  then have "t = ST_SPAN" "f \<le> FREQUENCY_MAX - FREQUENCY_MIN"
    using assms(2,5) by (auto simp: clip_request_def step_to_range_def FREQUENCY_MIN_def FREQUENCY_MAX_def word_le_def word_less_def split: if_splits)
  then show ?thesis using apply_span_ok [OF assms(1)] by simp
next
  case ST_CW
  then have "t = ST_CW" "FREQUENCY_MIN \<le> f" "f \<le> FREQUENCY_MAX"
    using assms(2,5) min_le_max by (auto simp: clip_request_def step_to_range_def not_less split: if_splits)
  then show ?thesis using apply_startstop_ok(3) [OF assms(1)] by simp
next
  case ST_VAR
  then show ?thesis using assms(1,5) by (simp add: clip_request_def step_to_range_def stimulus_ok_def split: if_splits)
qed (use clip_basic [OF _ assms(5)] apply_startstop_ok [OF assms(1)] apply_center_ok in simp_all)

text \<open>Moving the markers touches nothing but the marker list and the redraw mask.\<close>

definition marker_frame :: "vna \<Rightarrow> vna \<Rightarrow> bool" where
  "marker_frame a b \<longleftrightarrow> (props a)\<lparr>markers := []\<rparr> = (props b)\<lparr>markers := []\<rparr> \<and> config a = config b \<and> clk a = clk b \<and>
     lastsaveid a = lastsaveid b \<and> sweep_mode a = sweep_mode b \<and> f_start a = f_start b \<and> f_delta a = f_delta b \<and>
     f_error a = f_error b \<and> f_points a = f_points b \<and> measured a = measured b"

lemma set_marker_index_frame: "marker_frame (set_marker_index m i s) s"
  by (simp add: set_marker_index_def marker_frame_def on_marker_def request_to_redraw_def Let_def)

lemma update_marker_index_frame: "marker_frame (update_marker_index a b n s) s"
proof -
  have trans: "marker_frame x y \<Longrightarrow> marker_frame y z \<Longrightarrow> marker_frame x z" for x y z
    by (simp add: marker_frame_def)
  have "marker_frame (fold (\<lambda>m s. set_marker_index (int m) (g m s) s) ms s) s" for ms g
  proof (induction ms arbitrary: s)
    case (Cons m ms)
    then show ?case using trans set_marker_index_frame by fastforce
  qed (simp add: marker_frame_def)
  then show ?thesis by (simp add: update_marker_index_def)
qed

lemma marker_frame_props:
  assumes "marker_frame a b"
  shows "frequency0 (props a) = frequency0 (props b)" "frequency1 (props a) = frequency1 (props b)"
    "sweep_points (props a) = sweep_points (props b)" "cal_frequency0 (props a) = cal_frequency0 (props b)"
    "cal_frequency1 (props a) = cal_frequency1 (props b)" "cal_sweep_points (props a) = cal_sweep_points (props b)"
    "cal_status (props a) = cal_status (props b)" "getFrequency i a = getFrequency i b"
proof -
  have e: "(props a)\<lparr>markers := []\<rparr> = (props b)\<lparr>markers := []\<rparr>" using assms by (simp add: marker_frame_def)
  show "frequency0 (props a) = frequency0 (props b)" using arg_cong [OF e, of frequency0] by simp
  show "frequency1 (props a) = frequency1 (props b)" using arg_cong [OF e, of frequency1] by simp
  show "sweep_points (props a) = sweep_points (props b)" using arg_cong [OF e, of sweep_points] by simp
  show "cal_frequency0 (props a) = cal_frequency0 (props b)" using arg_cong [OF e, of cal_frequency0] by simp
  show "cal_frequency1 (props a) = cal_frequency1 (props b)" using arg_cong [OF e, of cal_frequency1] by simp
  show "cal_sweep_points (props a) = cal_sweep_points (props b)" using arg_cong [OF e, of cal_sweep_points] by simp
  show "cal_status (props a) = cal_status (props b)" using arg_cong [OF e, of cal_status] by simp
  show "getFrequency i a = getFrequency i b" using assms by (simp add: marker_frame_def getFrequency_def)
qed

definition sweep_consistent :: "vna \<Rightarrow> bool" where
  "sweep_consistent s \<longleftrightarrow>
     (let p = props s in
      stimulus_ok p \<and> 2 \<le> sweep_points p \<and> sweep_points p \<le> SWEEP_POINTS_MAX \<and>
      getFrequency 0 s = frequency0 p \<and> getFrequency (sweep_points p - 1) s = frequency1 p \<and>
      (has (cal_status p) CALSTAT_INTERPOLATED \<longleftrightarrow> needInterpolate (frequency0 p) (frequency1 p) (sweep_points p) p))"

lemma flag_set: "has (w OR CALSTAT_INTERPOLATED) CALSTAT_INTERPOLATED"
  by (simp add: has_or) (simp add: has_def CALSTAT_INTERPOLATED_def)

lemma flag_clear: "\<not> has (w AND NOT CALSTAT_INTERPOLATED) CALSTAT_INTERPOLATED"
  by (simp add: has_def and.assoc)

lemma update_frequencies_consistent:
  assumes "stimulus_ok (props s)" "2 \<le> sweep_points (props s)" "sweep_points (props s) \<le> SWEEP_POINTS_MAX"
  shows "\<exists>s'. update_frequencies s = Some s' \<and> sweep_consistent s' \<and> sweep_mode s' = sweep_mode s \<and>
    frequency0 (props s') = frequency0 (props s) \<and> frequency1 (props s') = frequency1 (props s) \<and>
    sweep_points (props s') = sweep_points (props s)"
proof -
  let ?f0 = "frequency0 (props s)" and ?f1 = "frequency1 (props s)" and ?n = "sweep_points (props s)"
  obtain s1 where s1: "set_frequencies ?f0 ?f1 ?n s = Some s1" "props s1 = props s" "sweep_mode s1 = sweep_mode s"
    using assms(2) by (auto simp: set_frequencies_def Let_def)
  define s2 where "s2 = update_marker_index ?f0 ?f1 ?n s1"
  have fr: "marker_frame s2 s1" unfolding s2_def by (rule update_marker_index_frame)
  have le: "?f0 \<le> ?f1" using assms(1) by (simp add: stimulus_ok_def)
  have g: "getFrequency 0 s1 = ?f0" "getFrequency (?n - 1) s1 = ?f1"
    using frequency_list [OF s1(1) le assms(3), of 0 0] assms(2) by simp_all
  define s' where "s' = (request_to_redraw (REDRAW_BACKUP OR REDRAW_PLOT OR REDRAW_CAL_STATUS OR REDRAW_FREQUENCY OR REDRAW_AREA)
    (on_props (\<lambda>p. if needInterpolate ?f0 ?f1 ?n p then p\<lparr>cal_status := cal_status p OR CALSTAT_INTERPOLATED\<rparr>
        else p\<lparr>cal_status := cal_status p AND NOT CALSTAT_INTERPOLATED\<rparr>) (update_grid ?f0 ?f1 s2)))\<lparr>p_sweep := 0\<rparr>"
  have "update_frequencies s = Some s'"
    by (simp add: update_frequencies_def s1 s'_def s2_def Let_def)
  moreover have "getFrequency i s' = getFrequency i s2" for i
    by (simp add: s'_def getFrequency_def request_to_redraw_def)
  moreover have "frequency0 (props s') = ?f0" "frequency1 (props s') = ?f1" "sweep_points (props s') = ?n" "sweep_mode s' = sweep_mode s"
    using marker_frame_props [OF fr] fr s1 by (simp_all add: s'_def request_to_redraw_def marker_frame_def)
  moreover have "has (cal_status (props s')) CALSTAT_INTERPOLATED \<longleftrightarrow> needInterpolate ?f0 ?f1 ?n (props s')"
    by (simp add: s'_def request_to_redraw_def needInterpolate_def flag_set flag_clear)
  ultimately show ?thesis
    using assms marker_frame_props(8) [OF fr] g by (simp add: sweep_consistent_def stimulus_ok_def)
qed

text \<open>C6: Every stimulus request that fits the range keeps the stimulus consistent: the routine returns,
  start and stop stay ordered and inside the supported range, the frequency list begins and ends
  at them, and the interpolation flag is set exactly when the stimulus differs from the calibrated
  one.  This holds for start, stop and center inputs of any value.\<close>
theorem sweep_frequency_invariant:
  assumes "sweep_consistent s" "sweep_request_ok type freq (props s)"
  shows "\<exists>s'. set_sweep_frequency type freq s = Some s' \<and> sweep_consistent s'"
proof -
  let ?p = "props s"
  have p: "stimulus_ok ?p" "2 \<le> sweep_points ?p" "sweep_points ?p \<le> SWEEP_POINTS_MAX"
    using assms(1) by (simp_all add: sweep_consistent_def Let_def)
  obtain t f where tf: "clip_request type freq ?p = (t, f)" by (meson surj_pair)
  let ?s = "on_props (apply_sweep_frequency t f) s"
  have ok: "stimulus_ok (props ?s)" using apply_request_ok [OF p(1) assms(2) p(2,3) tf] by simp
  show ?thesis
  proof (cases "t = ST_VAR")
    case True
    then have "set_sweep_frequency type freq s = Some (request_to_redraw REDRAW_BACKUP ?s)"
      by (simp add: set_sweep_frequency_clip tf)
    moreover have g: "getFrequency i (request_to_redraw REDRAW_BACKUP ?s) = getFrequency i s" for i
      by (simp add: request_to_redraw_def getFrequency_def)
    have "sweep_consistent (request_to_redraw REDRAW_BACKUP ?s)"
      using assms(1) True unfolding sweep_consistent_def Let_def g
      by (simp add: request_to_redraw_def needInterpolate_def stimulus_ok_def)
    ultimately show ?thesis by blast
  next
    case False
    have pts: "sweep_points (props ?s) = sweep_points ?p"
      by (cases t) (simp_all add: Let_def freq_startstop_def freq_centerspan_def)
    obtain s1 where s1: "update_frequencies ?s = Some s1" "sweep_consistent s1"
      using update_frequencies_consistent [OF ok] pts p(2,3) by auto
    have "sweep_consistent (x\<lparr>sweep_mode := m\<rparr>) = sweep_consistent x" for x m
      by (simp add: sweep_consistent_def getFrequency_def)
    then show ?thesis using s1 False by (simp add: set_sweep_frequency_clip tf resume_sweep_def)
  qed
qed

lemma device0_updated: "\<exists>s. update_frequencies device0 = Some s \<and> sweep_consistent s \<and> sweep_points (props s) = 401 \<and>
    frequency0 (props s) = 50000 \<and> frequency1 (props s) = 900000000"
proof -
  have "stimulus_ok (props device0)" "sweep_points (props device0) = 401" "frequency0 (props device0) = 50000"
    "frequency1 (props device0) = 900000000"
    by (simp_all add: stimulus_ok_def device0_def props0_def load_default_properties_def POINTS_COUNT_DEFAULT_def
        SWEEP_POINTS_MAX_def FREQUENCY_MIN_def FREQUENCY_MAX_def)
  then show ?thesis using update_frequencies_consistent [of device0] by (auto simp: SWEEP_POINTS_MAX_def)
qed

theorem sweep_frequency_invariant_witness:
  "\<exists>s s'. update_frequencies device0 = Some s \<and> set_sweep_frequency ST_CENTER 7100000 s = Some s' \<and> sweep_consistent s'"
  using device0_updated sweep_frequency_invariant [where type = ST_CENTER and freq = 7100000] by fastforce

text \<open>The remaining requests leave the range: a CW frequency of 0 is accepted as it is, a span of the
  maximum frequency puts the start at 0, and a step of 10737419 Hz over 401 points wraps around 32
  bits so that the stop ends 304 Hz above the start.\<close>
theorem sweep_request_errors:
  "frequency0 (apply_sweep_frequency ST_CW 0 props0) < FREQUENCY_MIN \<and> clip_request ST_CW 0 props0 = (ST_CW, 0) \<and>
   frequency0 (apply_sweep_frequency ST_SPAN FREQUENCY_MAX props0) < FREQUENCY_MIN \<and>
   clip_request ST_SPAN FREQUENCY_MAX props0 = (ST_SPAN, FREQUENCY_MAX) \<and>
   clip_request ST_STEP 10737419 props0 = (ST_STOP, frequency0 props0 + 304)"
  by (simp add: clip_request_def step_to_range_def props0_def load_default_properties_def FREQUENCY_MIN_def
      FREQUENCY_MAX_def freq_centerspan_def freq_is_centerspan_def has_def POINTS_COUNT_DEFAULT_def SWEEP_POINTS_MAX_def Let_def
      drop_bit_eq_div)

subsection \<open>Markers follow the stimulus\<close>

lemma marker_target_range:
  assumes "fstart \<le> fstop" "2 \<le> n" "mk_frequency mk \<noteq> 0 \<or> mk_index mk < n"
  shows "0 \<le> marker_target fstart fstop n mk \<and> marker_target fstart fstop n mk < int n"
proof -
  let ?f = "mk_frequency mk"
  have "0 \<le> \<lfloor>r * (real n - 1)\<rfloor> \<and> \<lfloor>r * (real n - 1)\<rfloor> < int n" if "0 \<le> r" "r \<le> 1" for r :: real
  proof -
    have "r * (real n - 1) \<le> 1 * (real n - 1)" using that assms(2) by (intro mult_right_mono) auto
    also have "\<dots> < real n" by simp
    finally show ?thesis using that assms(2) by (simp add: floor_less_iff)
  qed
  moreover have "0 \<le> real_of_int (uint (?f - fstart)) / real_of_int (uint (fstop - fstart)) \<and>
      real_of_int (uint (?f - fstart)) / real_of_int (uint (fstop - fstart)) \<le> 1" if "fstart < ?f" "?f < fstop"
  proof -
    have a: "uint (?f - fstart) = uint ?f - uint fstart" "uint (fstop - fstart) = uint fstop - uint fstart"
      using that by (simp_all add: uint_sub_small)
    have "uint fstart < uint ?f" "uint ?f < uint fstop" using that by (simp_all add: word_less_def)
    then show ?thesis unfolding a by (simp del: of_int_uint)
  qed
  ultimately have "fstart < ?f \<Longrightarrow> ?f < fstop \<Longrightarrow>
      0 \<le> \<lfloor>real_of_int (uint (?f - fstart)) / real_of_int (uint (fstop - fstart)) * (real n - 1)\<rfloor> \<and>
      \<lfloor>real_of_int (uint (?f - fstart)) / real_of_int (uint (fstop - fstart)) * (real n - 1)\<rfloor> < int n" by blast
  then show ?thesis unfolding marker_target_def Let_def
    using assms(2,3) by (simp add: not_le del: of_int_uint times_divide_eq_left zero_le_floor floor_less_iff)
qed

lemma set_marker_index_markers:
  assumes "m < length (markers (props s))" "0 \<le> idx" "idx < int (sweep_points (props s))"
  shows "markers (props (set_marker_index (int m) idx s)) =
    (markers (props s))[m := (markers (props s) ! m)\<lparr>mk_index := nat idx, mk_frequency := getFrequency (nat idx) s\<rparr>]"
  using assms by (auto simp: set_marker_index_def on_marker_def request_to_redraw_def Let_def list_eq_iff_nth_eq nth_list_update)

lemma update_markers_upto:
  assumes "length (markers (props s)) = MARKERS_MAX" "k \<le> MARKERS_MAX" "a \<le> b" "2 \<le> sweep_points (props s)"
    and "\<forall>m < MARKERS_MAX. mk_frequency (markers (props s) ! m) \<noteq> 0 \<or> mk_index (markers (props s) ! m) < sweep_points (props s)"
  defines "r \<equiv> fold (\<lambda>m s. set_marker_index (int m) (marker_target a b (sweep_points (props s)) (markers (props s) ! m)) s) [0..<k] s"
  shows "marker_frame r s \<and> length (markers (props r)) = MARKERS_MAX \<and>
    (\<forall>m < k. mk_index (markers (props r) ! m) < sweep_points (props s) \<and>
       mk_frequency (markers (props r) ! m) = getFrequency (mk_index (markers (props r) ! m)) s) \<and>
    (\<forall>m. k \<le> m \<and> m < MARKERS_MAX \<longrightarrow> markers (props r) ! m = markers (props s) ! m)"
  using assms(2) unfolding r_def
proof (induction k)
  case 0
  then show ?case using assms(1) by (simp add: marker_frame_def)
next
  case (Suc k)
  define q where "q = fold (\<lambda>m s. set_marker_index (int m) (marker_target a b (sweep_points (props s)) (markers (props s) ! m)) s) [0..<k] s"
  have q: "marker_frame q s" "length (markers (props q)) = MARKERS_MAX"
    "\<And>m. m < k \<Longrightarrow> mk_index (markers (props q) ! m) < sweep_points (props s) \<and>
       mk_frequency (markers (props q) ! m) = getFrequency (mk_index (markers (props q) ! m)) s"
    "\<And>m. k \<le> m \<Longrightarrow> m < MARKERS_MAX \<Longrightarrow> markers (props q) ! m = markers (props s) ! m"
    using Suc unfolding q_def by auto
  note pts = marker_frame_props(3,8) [OF q(1)]
  let ?t = "marker_target a b (sweep_points (props q)) (markers (props q) ! k)"
  have t: "0 \<le> ?t" "?t < int (sweep_points (props q))"
    using marker_target_range [OF assms(3), of "sweep_points (props q)" "markers (props q) ! k"] assms(4,5) q(4) [of k] Suc.prems pts
    by auto
  have k: "k < length (markers (props q))" using Suc.prems q(2) by simp
  have fr: "marker_frame (set_marker_index (int k) ?t q) s"
    using set_marker_index_frame [of "int k" ?t q] q(1) by (simp add: marker_frame_def)
  show ?case
    using fr set_marker_index_markers [OF k t] q(2,3,4) t pts k
    by (auto simp: q_def [symmetric] less_Suc_eq nat_less_iff nth_list_update)
qed

text \<open>C36: After every change of the stimulus each marker sits on a point of the sweep and carries the
  frequency of exactly that point, provided it had a frequency, or an index inside the new sweep,
  before.\<close>
theorem markers_in_sweep:
  assumes "update_frequencies s = Some s'" "frequency0 (props s) \<le> frequency1 (props s)" "2 \<le> sweep_points (props s)"
    and "length (markers (props s)) = MARKERS_MAX"
    and "\<forall>m < MARKERS_MAX. mk_frequency (markers (props s) ! m) \<noteq> 0 \<or> mk_index (markers (props s) ! m) < sweep_points (props s)"
  shows "\<forall>m < MARKERS_MAX. mk_index (markers (props s') ! m) < sweep_points (props s') \<and>
    mk_frequency (markers (props s') ! m) = getFrequency (mk_index (markers (props s') ! m)) s'"
proof -
  let ?f0 = "frequency0 (props s)" and ?f1 = "frequency1 (props s)" and ?n = "sweep_points (props s)"
  obtain s1 where s1: "set_frequencies ?f0 ?f1 ?n s = Some s1" "props s1 = props s"
    using assms(3) by (auto simp: set_frequencies_def Let_def)
  have upd: "update_marker_index ?f0 ?f1 ?n s1 =
      fold (\<lambda>m s. set_marker_index (int m) (marker_target ?f0 ?f1 (sweep_points (props s)) (markers (props s) ! m)) s) [0..<MARKERS_MAX] s1"
  proof -
    have "fold (\<lambda>m s. set_marker_index (int m) (marker_target ?f0 ?f1 ?n (markers (props s) ! m)) s) ms x =
        fold (\<lambda>m s. set_marker_index (int m) (marker_target ?f0 ?f1 (sweep_points (props s)) (markers (props s) ! m)) s) ms x"
      if "sweep_points (props x) = ?n" for ms x
      using that
    proof (induction ms arbitrary: x)
      case (Cons m ms)
      then show ?case using marker_frame_props(3) [OF set_marker_index_frame] by simp
    qed simp
    then show ?thesis using s1 by (simp add: update_marker_index_def)
  qed
  let ?r = "update_marker_index ?f0 ?f1 ?n s1"
  have r: "marker_frame ?r s1" "\<forall>m < MARKERS_MAX. mk_index (markers (props ?r) ! m) < ?n \<and>
      mk_frequency (markers (props ?r) ! m) = getFrequency (mk_index (markers (props ?r) ! m)) s1"
    using update_markers_upto [of s1 MARKERS_MAX ?f0 ?f1] assms(2-5) s1(2) unfolding upd by auto
  have "markers (props s') = markers (props ?r)" "sweep_points (props s') = ?n" "getFrequency i s' = getFrequency i ?r" for i
    using assms(1) s1 marker_frame_props(3) [OF r(1)]
    by (auto simp: update_frequencies_def Let_def request_to_redraw_def getFrequency_def)
  then show ?thesis using r marker_frame_props(8) [OF r(1)] by simp
qed

theorem markers_in_sweep_witness:
  "\<exists>s'. update_frequencies device0 = Some s' \<and> (\<forall>m < MARKERS_MAX. mk_index (markers (props s') ! m) < sweep_points (props s') \<and>
    mk_frequency (markers (props s') ! m) = getFrequency (mk_index (markers (props s') ! m)) s')"
proof -
  obtain s' where s': "update_frequencies device0 = Some s'" using device0_updated by auto
  have "list_all (\<lambda>k. mk_index k < 401) def_markers" by (simp add: def_markers_def SWEEP_POINTS_MAX_def)
  then have "mk_index (def_markers ! m) < 401" if "m < 8" for m
    using that by (simp add: list_all_length def_markers_def)
  then have "\<forall>m < MARKERS_MAX. mk_frequency (markers (props device0) ! m) \<noteq> 0 \<or> mk_index (markers (props device0) ! m) < sweep_points (props device0)"
    by (simp add: device0_def props0_def load_default_properties_def MARKERS_MAX_def POINTS_COUNT_DEFAULT_def SWEEP_POINTS_MAX_def)
  moreover have "frequency0 (props device0) \<le> frequency1 (props device0)" "2 \<le> sweep_points (props device0)"
    "length (markers (props device0)) = MARKERS_MAX"
    by (simp_all add: device0_def props0_def load_default_properties_def MARKERS_MAX_def POINTS_COUNT_DEFAULT_def
        SWEEP_POINTS_MAX_def def_markers_def)
  ultimately show ?thesis using markers_in_sweep [OF s'] s' by blast
qed

end
