(* ===== verification/Calibration.thy ===== *)
theory Calibration
  imports Sweep
begin

text \<open>
  The calibration of \<^verbatim>\<open>main.c\<close>: error terms computed from the measured standards, their
  application to a measured point, interpolation between calibrated points and the sweep that
  collects them.  A measured value is a pair of real and imaginary part, and all arithmetic is the
  component arithmetic of the source, over real numbers.  What the analogue front end returns for
  a channel and a frequency is the parameter \<open>sample\<close>.  A read outside an array is the value None.
\<close>

abbreviation (input) "CAL_LOAD \<equiv> 0 :: nat"
abbreviation (input) "CAL_OPEN \<equiv> 1 :: nat"
abbreviation (input) "CAL_SHORT \<equiv> 2 :: nat"
abbreviation (input) "CAL_THRU \<equiv> 3 :: nat"
abbreviation (input) "CAL_ISOLN \<equiv> 4 :: nat"
abbreviation (input) "ETERM_ED \<equiv> 0 :: nat"
abbreviation (input) "ETERM_ES \<equiv> 1 :: nat"
abbreviation (input) "ETERM_ER \<equiv> 2 :: nat"
abbreviation (input) "ETERM_ET \<equiv> 3 :: nat"
abbreviation (input) "ETERM_EX \<equiv> 4 :: nat"

subsection \<open>Error terms\<close>

text \<open>A loop over the sweep points that writes one row of the calibration data.\<close>

definition cal_fill :: "nat \<Rightarrow> (nat \<Rightarrow> cfloat) \<Rightarrow> properties \<Rightarrow> properties" where
  "cal_fill term f p =
     p\<lparr>cal_data := (cal_data p)[term :=
        map (\<lambda>i. if i < sweep_points p then f i else cal_data p ! term ! i) [0..<SWEEP_POINTS_MAX]]\<rparr>"

definition eterm_set :: "nat \<Rightarrow> real \<Rightarrow> real \<Rightarrow> properties \<Rightarrow> properties" where
  "eterm_set term re im = cal_fill term (\<lambda>i. (re, im))"

definition eterm_copy :: "nat \<Rightarrow> nat \<Rightarrow> properties \<Rightarrow> properties" where
  "eterm_copy dst src p = p\<lparr>cal_data := (cal_data p)[dst := cal_data p ! src]\<rparr>"

definition es_at :: "cfloat \<Rightarrow> cfloat \<Rightarrow> cfloat \<Rightarrow> cfloat" where
  "es_at mo ms ed =
     (let s11aor = 1; s11aoi = 0;
          s11or = fst mo - fst ed; s11oi = snd mo - snd ed;
          s11sr = fst ms - fst ed; s11si = snd ms - snd ed;
          numr = s11sr + s11or * s11aor - s11oi * s11aoi;
          numi = s11si + s11oi * s11aor + s11or * s11aoi;
          denomr = s11or - s11sr; denomi = s11oi - s11si;
          d = denomr * denomr + denomi * denomi in
      ((numr * denomr + numi * denomi) / d, (numi * denomr - numr * denomi) / d))"

definition eterm_calc_es :: "properties \<Rightarrow> properties" where
  "eterm_calc_es p =
     (let p = cal_fill ETERM_ES (\<lambda>i. es_at (cal_data p ! CAL_OPEN ! i) (cal_data p ! CAL_SHORT ! i) (cal_data p ! ETERM_ED ! i)) p;
          p = p\<lparr>cal_status := cal_status p AND NOT CALSTAT_OPEN\<rparr> in
      p\<lparr>cal_status := cal_status p OR CALSTAT_ES\<rparr>)"

definition er_at :: "int \<Rightarrow> cfloat \<Rightarrow> cfloat \<Rightarrow> cfloat \<Rightarrow> cfloat" where
  "er_at sign ms ed es =
     (let s11sr = fst ms - fst ed; s11si = snd ms - snd ed;
          (esr, esi) = (if sign > 0 then (- fst es, - snd es) else es);
          esr = 1 + esr;
          err = esr * s11sr - esi * s11si;
          eri = esr * s11si + esi * s11sr in
      if sign < 0 then (- err, - eri) else (err, eri))"

definition eterm_calc_er :: "int \<Rightarrow> properties \<Rightarrow> properties" where
  "eterm_calc_er sign p =
     (let p = cal_fill ETERM_ER (\<lambda>i. er_at sign (cal_data p ! CAL_SHORT ! i) (cal_data p ! ETERM_ED ! i) (cal_data p ! ETERM_ES ! i)) p;
          p = p\<lparr>cal_status := cal_status p AND NOT CALSTAT_SHORT\<rparr> in
      p\<lparr>cal_status := cal_status p OR CALSTAT_ER\<rparr>)"

definition et_at :: "cfloat \<Rightarrow> cfloat \<Rightarrow> cfloat" where
  "et_at mt ex =
     (let etr = fst mt - fst ex; eti = snd mt - snd ex; sq = etr * etr + eti * eti in
      (etr / sq, - eti / sq))"

definition eterm_calc_et :: "properties \<Rightarrow> properties" where
  "eterm_calc_et p =
     (let p = cal_fill ETERM_ET (\<lambda>i. et_at (cal_data p ! CAL_THRU ! i) (cal_data p ! CAL_ISOLN ! i)) p;
          p = p\<lparr>cal_status := cal_status p AND NOT CALSTAT_THRU\<rparr> in
      p\<lparr>cal_status := cal_status p OR CALSTAT_ET\<rparr>)"

definition apply_CH0_error_term :: "cfloat \<Rightarrow> cfloat list \<Rightarrow> cfloat" where
  "apply_CH0_error_term d c =
     (let s11mr = fst d - fst (c ! ETERM_ED); s11mi = snd d - snd (c ! ETERM_ED);
          err = fst (c ! ETERM_ER) + s11mr * fst (c ! ETERM_ES) - s11mi * snd (c ! ETERM_ES);
          eri = snd (c ! ETERM_ER) + s11mr * snd (c ! ETERM_ES) + s11mi * fst (c ! ETERM_ES);
          sq = err * err + eri * eri in
      ((s11mr * err + s11mi * eri) / sq, (s11mi * err - s11mr * eri) / sq))"

definition apply_CH1_error_term :: "bool \<Rightarrow> cfloat \<Rightarrow> cfloat \<Rightarrow> cfloat list \<Rightarrow> cfloat" where
  "apply_CH1_error_term enhanced s11 d c =
     (let s21mr = fst d - fst (c ! ETERM_EX); s21mi = snd d - snd (c ! ETERM_EX);
          re = s21mr * fst (c ! ETERM_ET) - s21mi * snd (c ! ETERM_ET);
          im = s21mi * fst (c ! ETERM_ET) + s21mr * snd (c ! ETERM_ET) in
      if enhanced then
        let esr = 1 - (fst (c ! ETERM_ES) * fst s11 - snd (c ! ETERM_ES) * snd s11);
            esi = 0 - (snd (c ! ETERM_ES) * fst s11 + fst (c ! ETERM_ES) * snd s11) in
        (esr * re - esi * im, esi * re + esr * im)
      else (re, im))"

definition cal_done :: "vna \<Rightarrow> vna" where
  "cal_done s =
     (let p = props s;
          p = (if \<not> has (cal_status p) CALSTAT_LOAD then eterm_set ETERM_ED 0 0 p else p);
          p = (if \<not> has (cal_status p) CALSTAT_ISOLN then eterm_set ETERM_EX 0 0 p else p);
          p = (if has (cal_status p) CALSTAT_SHORT \<and> has (cal_status p) CALSTAT_OPEN then
                 eterm_calc_er (- 1) (eterm_calc_es p)
               else if has (cal_status p) CALSTAT_OPEN then
                 let p = eterm_copy CAL_SHORT CAL_OPEN p;
                     p = p\<lparr>cal_status := cal_status p AND NOT CALSTAT_OPEN\<rparr> in
                 eterm_calc_er 1 (eterm_set ETERM_ES 0 0 p)
               else if has (cal_status p) CALSTAT_SHORT then
                 eterm_calc_er (- 1) (eterm_set ETERM_ES 0 0 p)
               else p);
          p = (if has (cal_status p) CALSTAT_THRU then eterm_calc_et p else p);
          p = (if \<not> has (cal_status p) CALSTAT_ET then eterm_set ETERM_ET 1 0 p else p);
          p = (if \<not> has (cal_status p) CALSTAT_ER then eterm_set ETERM_ER 1 0 p else p);
          p = (if \<not> has (cal_status p) CALSTAT_ES then eterm_set ETERM_ES 0 0 p else p);
          p = p\<lparr>cal_status := cal_status p OR CALSTAT_APPLY\<rparr> in
      request_to_redraw (REDRAW_BACKUP OR REDRAW_CAL_STATUS) (s\<lparr>props := p, lastsaveid := NO_SAVE_SLOT\<rparr>))"

subsection \<open>Interpolation\<close>

definition cal_row :: "properties \<Rightarrow> nat \<Rightarrow> cfloat list option" where
  "cal_row p i = (if i < SWEEP_POINTS_MAX then Some (map (\<lambda>r. r ! i) (cal_data p)) else None)"

definition cal_blend :: "properties \<Rightarrow> nat \<Rightarrow> real \<Rightarrow> cfloat list option" where
  "cal_blend p idx k =
     Option.bind (cal_row p idx) (\<lambda>a. Option.bind (cal_row p (idx + 1)) (\<lambda>b.
       Some (map2 (\<lambda>x y. (fst x + k * (fst y - fst x), snd x + k * (snd y - snd x))) a b)))"

text \<open>The position of a frequency in the calibrated list: lower index and the two neighbouring
  calibrated frequencies.\<close>

definition cal_locate :: "properties \<Rightarrow> u32 \<Rightarrow> nat \<times> u32 \<times> u32" where
  "cal_locate p f =
     (let src_points = cal_sweep_points p - 1;
          span = uint (cal_frequency1 p - cal_frequency0 p);
          idx = uint (f - cal_frequency0 p) * int src_points div span;
          v = span * idx + int (src_points div 2) in
      (nat idx, cal_frequency0 p + word_of_int (v div int src_points),
       cal_frequency0 p + word_of_int ((v + span) div int src_points)))"

definition cal_interpolate :: "int \<Rightarrow> u32 \<Rightarrow> vna \<Rightarrow> cfloat list option" where
  "cal_interpolate idx f s =
     (let p = props s; src_points = cal_sweep_points p - 1 in
      if idx \<ge> 0 then cal_row p (nat idx)
      else if f \<le> cal_frequency0 p then cal_row p 0
      else if f \<ge> cal_frequency1 p then cal_row p src_points
      else
        let (idx, src_f0, src_f1) = cal_locate p f; delta = src_f1 - src_f0 in
        if f = src_f0 then cal_row p idx
        else
          let k = (if delta = 0 then 0 else real_of_int (uint (f - src_f0)) / real_of_int (uint delta)) in
          Option.bind (si5351_get_harmonic_lvl (clk s) src_f0) (\<lambda>hf0.
          Option.bind (si5351_get_harmonic_lvl (clk s) src_f1) (\<lambda>hf1.
          if hf0 \<noteq> hf1 then
            Option.bind (si5351_get_harmonic_lvl (clk s) f) (\<lambda>hf.
            if hf0 = hf then
              if idx < 1 then cal_row p idx else cal_blend p (idx - 1) (k + 1)
            else
              if idx \<ge> src_points then cal_row p idx else cal_blend p (idx + 1) (k - 1))
          else cal_blend p idx k)))"

subsection \<open>The sweep\<close>

definition SWEEP_CH0_MEASURE :: u16 where "SWEEP_CH0_MEASURE = 1"
definition SWEEP_CH1_MEASURE :: u16 where "SWEEP_CH1_MEASURE = 2"
definition SWEEP_APPLY_EDELAY_S11 :: u16 where "SWEEP_APPLY_EDELAY_S11 = 4"
definition SWEEP_APPLY_EDELAY_S21 :: u16 where "SWEEP_APPLY_EDELAY_S21 = 8"
definition SWEEP_APPLY_S21_OFFSET :: u16 where "SWEEP_APPLY_S21_OFFSET = 16"
definition SWEEP_APPLY_CALIBRATION :: u16 where "SWEEP_APPLY_CALIBRATION = 32"
definition SWEEP_USE_INTERPOLATION :: u16 where "SWEEP_USE_INTERPOLATION = 64"

definition get_sweep_mask :: "u16 \<Rightarrow> vna \<Rightarrow> u16" where
  "get_sweep_mask measure_channels s =
     (let p = props s;
          m = SWEEP_CH0_MEASURE OR SWEEP_CH1_MEASURE OR measure_channels;
          m = (if has (cal_status p) CALSTAT_APPLY then m OR SWEEP_APPLY_CALIBRATION else m);
          m = (if has (cal_status p) CALSTAT_INTERPOLATED then m OR SWEEP_USE_INTERPOLATION else m);
          m = (if electrical_delay p ! 0 \<noteq> 0 then m OR SWEEP_APPLY_EDELAY_S11 else m);
          m = (if electrical_delay p ! 1 \<noteq> 0 then m OR SWEEP_APPLY_EDELAY_S21 else m) in
      if s21_offset p \<noteq> 0 then m OR SWEEP_APPLY_S21_OFFSET else m)"

text \<open>The angle argument of the sine and cosine routine is in turns.\<close>

definition applyEDelay :: "real \<Rightarrow> cfloat \<Rightarrow> cfloat" where
  "applyEDelay w d =
     (let s = sin (2 * pi * w); c = cos (2 * pi * w); re = fst d; im = snd d in
      (re * c - im * s, im * c + re * s))"

definition applyOffset :: "cfloat \<Rightarrow> real \<Rightarrow> cfloat" where
  "applyOffset d offset = (fst d * offset, snd d * offset)"

definition store_measured :: "nat \<Rightarrow> nat \<Rightarrow> cfloat \<Rightarrow> vna \<Rightarrow> vna" where
  "store_measured ch i d s = s\<lparr>measured := (measured s)[ch := (measured s ! ch)[i := d]]\<rparr>"

text \<open>One point: \<open>d0\<close> is the first half of the local data array, which keeps its value from point to
  point and is never initialised by the routine.\<close>

definition sweep_point ::
  "(nat \<Rightarrow> u32 \<Rightarrow> cfloat) \<Rightarrow> u16 \<Rightarrow> cfloat \<times> vna \<Rightarrow> (cfloat \<times> vna) option" where
  "sweep_point sample m = (\<lambda>(d0, s).
     let i = p_sweep s; p = props s; frequency = getFrequency i s;
         ch0 = has m SWEEP_CH0_MEASURE; ch1 = has m SWEEP_CH1_MEASURE;
         cal = has m SWEEP_APPLY_CALIBRATION;
         offset = exp (s21_offset p * (ln 10 / 20)) in
     Option.bind (if ch0 \<or> ch1 then map_option fst (si5351_set_frequency frequency (power p) (clk s)) else Some (clk s)) (\<lambda>c.
     let s = s\<lparr>clk := c\<rparr>;
         idx = (if has m SWEEP_USE_INTERPOLATION then - 1 else int i) in
     Option.bind (if cal \<and> (ch0 \<or> ch1) then cal_interpolate idx frequency s else Some []) (\<lambda>c_data.
     let d0 = (if ch0 then let d = sample 0 frequency in if cal then apply_CH0_error_term d c_data else d else d0);
         d1 = (let d = sample 1 frequency; d = (- fst d, - snd d) in
               if cal then apply_CH1_error_term (has (cal_status p) CALSTAT_ENHANCED_RESPONSE) d0 d c_data else d);
         fr = real_of_int (uint frequency);
         d0 = (if ch0 \<and> i < SWEEP_POINTS_MAX \<and> has m SWEEP_APPLY_EDELAY_S11 then applyEDelay (electrical_delay p ! 0 * fr) d0 else d0);
         d1 = (if has m SWEEP_APPLY_EDELAY_S21 then applyEDelay (electrical_delay p ! 1 * fr) d1 else d1);
         d1 = (if has m SWEEP_APPLY_S21_OFFSET then applyOffset d1 offset else d1);
         s = (if ch0 \<and> i < SWEEP_POINTS_MAX then store_measured 0 i d0 s else s);
         s = (if ch1 \<and> i < SWEEP_POINTS_MAX then store_measured 1 i d1 s else s) in
     Some (d0, s))))"

text \<open>The loop over the points; \<open>interrupt\<close> tells after which point the user interface asks to stop.\<close>

function sweep_loop ::
  "(nat \<Rightarrow> u32 \<Rightarrow> cfloat) \<Rightarrow> (nat \<Rightarrow> bool) \<Rightarrow> bool \<Rightarrow> u16 \<Rightarrow> nat \<Rightarrow> cfloat \<times> vna \<Rightarrow> vna option" where
  "sweep_loop sample interrupt brk m n (d0, s) =
     (if p_sweep s < n then
        case sweep_point sample m (d0, s) of None \<Rightarrow> None
        | Some (d0', s') \<Rightarrow>
            if interrupt (p_sweep s) \<and> brk then Some s'
            else sweep_loop sample interrupt brk m n (d0', s'\<lparr>p_sweep := p_sweep s + 1\<rparr>)
      else Some s)"
  by pat_completeness auto
termination
  by (relation "measure (\<lambda>(sample, interrupt, brk, m, n, d0, s). n - p_sweep s)") auto

declare sweep_loop.simps [simp del]

definition sweep ::
  "(nat \<Rightarrow> u32 \<Rightarrow> cfloat) \<Rightarrow> (nat \<Rightarrow> bool) \<Rightarrow> cfloat \<Rightarrow> bool \<Rightarrow> u16 \<Rightarrow> vna \<Rightarrow> (vna \<times> bool) option" where
  "sweep sample interrupt junk brk m s =
     (let s = (if p_sweep s \<ge> sweep_points (props s) \<or> \<not> brk then s\<lparr>p_sweep := 0\<rparr> else s) in
      if brk \<and> m = 0 then Some (s, False)
      else map_option (\<lambda>s. (s, p_sweep s = sweep_points (props s)))
             (sweep_loop sample interrupt brk m (sweep_points (props s)) (junk, s)))"

subsection \<open>Collecting the standards\<close>

definition calibration_set :: "(u16 \<times> u16 \<times> nat \<times> nat) list" where
  "calibration_set =
   [(CALSTAT_LOAD, NOT CALSTAT_APPLY, CAL_LOAD, 0),
    (CALSTAT_OPEN, NOT (CALSTAT_ES OR CALSTAT_ER OR CALSTAT_APPLY), CAL_OPEN, 0),
    (CALSTAT_SHORT, NOT (CALSTAT_ES OR CALSTAT_ER OR CALSTAT_APPLY), CAL_SHORT, 0),
    (CALSTAT_THRU, NOT (CALSTAT_ET OR CALSTAT_APPLY), CAL_THRU, 1),
    (CALSTAT_ISOLN, NOT CALSTAT_APPLY, CAL_ISOLN, 1)]"

abbreviation (input) "BANDWIDTH_100 \<equiv> 39 :: nat"

text \<open>The bandwidth is kept in an 8-bit variable while the standard is measured.  The averaging loops
  of the source run zero times because their count is fixed to 1.\<close>

definition cal_prepare :: "nat \<Rightarrow> vna \<Rightarrow> vna" where
  "cal_prepare type s =
     on_props (\<lambda>p.
       let (set_flag, clr_flag, dst, src) = calibration_set ! type;
           p = (if needInterpolate (frequency0 p) (frequency1 p) (sweep_points p) p then
                  p\<lparr>cal_status := 0, cal_frequency0 := frequency0 p, cal_frequency1 := frequency1 p,
                    cal_sweep_points := sweep_points p\<rparr>
                else p);
           p = p\<lparr>cal_power := power p\<rparr> in
       p\<lparr>cal_status := (cal_status p AND clr_flag) OR set_flag\<rparr>) s"

definition cal_collect :: "(nat \<Rightarrow> u32 \<Rightarrow> cfloat) \<Rightarrow> cfloat \<Rightarrow> nat \<Rightarrow> vna \<Rightarrow> vna option" where
  "cal_collect sample junk type s =
     (if type \<ge> length calibration_set then Some s
      else
        let (set_flag, clr_flag, dst, src) = calibration_set ! type;
            s = cal_prepare type s;
            bw = bandwidth (config s) mod 256;
            s = (if bw < BANDWIDTH_100 then s\<lparr>config := (config s)\<lparr>bandwidth := BANDWIDTH_100\<rparr>\<rparr> else s);
            m = (if src = 0 then SWEEP_CH0_MEASURE else SWEEP_CH1_MEASURE) in
        map_option (\<lambda>(s, done).
          let s = on_props (\<lambda>p. p\<lparr>cal_data := (cal_data p)[dst := measured s ! src]\<rparr>) s;
              s = s\<lparr>config := (config s)\<lparr>bandwidth := bw\<rparr>\<rparr> in
          request_to_redraw REDRAW_CAL_STATUS s) (sweep sample (\<lambda>_. False) junk False m s))"

subsection \<open>The error terms as complex numbers\<close>

definition cx :: "cfloat \<Rightarrow> complex" where
  "cx v = Complex (fst v) (snd v)"

lemma cx_sel [simp]: "Re (cx v) = fst v" "Im (cx v) = snd v"
  by (simp_all add: cx_def)

lemma cx_eqI: "fst v = Re z \<Longrightarrow> snd v = Im z \<Longrightarrow> cx v = z"
  by (simp add: cx_def)

lemma cx_inj: "cx v = cx w \<longleftrightarrow> v = w"
  by (auto simp: cx_def prod_eq_iff)

lemma es_at_cx: "cx (es_at mo ms ed) = (cx ms - cx ed + (cx mo - cx ed)) / (cx mo - cx ms)"
  by (rule cx_eqI) (simp_all add: es_at_def Let_def Re_divide Im_divide power2_eq_square algebra_simps)

lemma er_at_cx: "cx (er_at (- 1) ms ed es) = - ((1 + cx es) * (cx ms - cx ed))"
  by (rule cx_eqI) (simp_all add: er_at_def Let_def split: prod.splits)

lemma er_at_open_cx: "cx (er_at 1 ms ed es) = (1 - cx es) * (cx ms - cx ed)"
  by (rule cx_eqI) (simp_all add: er_at_def Let_def split: prod.splits)

lemma et_at_cx: "cx (et_at mt ex) = 1 / (cx mt - cx ex)"
  by (rule cx_eqI) (simp_all add: et_at_def Let_def Re_divide Im_divide power2_eq_square diff_divide_distrib)

lemma apply_CH0_cx:
  "cx (apply_CH0_error_term d c) =
     (cx d - cx (c ! ETERM_ED)) / (cx (c ! ETERM_ER) + (cx d - cx (c ! ETERM_ED)) * cx (c ! ETERM_ES))"
  by (rule cx_eqI) (simp_all add: apply_CH0_error_term_def Let_def Re_divide Im_divide power2_eq_square algebra_simps)

lemma apply_CH1_cx:
  "cx (apply_CH1_error_term enhanced s11 d c) =
     (cx d - cx (c ! ETERM_EX)) * cx (c ! ETERM_ET) * (if enhanced then 1 - cx (c ! ETERM_ES) * cx s11 else 1)"
  by (rule cx_eqI) (simp_all add: apply_CH1_error_term_def Let_def algebra_simps)

subsection \<open>Rows of the calibration data\<close>

definition cal_wf :: "properties \<Rightarrow> bool" where
  "cal_wf p \<longleftrightarrow> length (cal_data p) = 5 \<and> (\<forall>r \<in> set (cal_data p). length r = SWEEP_POINTS_MAX) \<and> sweep_points p \<le> SWEEP_POINTS_MAX"

lemma cal_fill_frame [simp]:
  "cal_status (cal_fill t f p) = cal_status p" "sweep_points (cal_fill t f p) = sweep_points p"
  by (simp_all add: cal_fill_def)

lemma cal_fill_nth:
  assumes "cal_wf p" "i < sweep_points p" "u < 5" "t < 5"
  shows "cal_data (cal_fill t f p) ! u ! i = (if u = t then f i else cal_data p ! u ! i)"
  using assms by (auto simp: cal_wf_def cal_fill_def)

lemma cal_fill_wf: "cal_wf p \<Longrightarrow> cal_wf (cal_fill t f p)"
  by (auto simp: cal_wf_def cal_fill_def dest!: set_update_subset_insert [THEN subsetD])

lemma cal_status_wf [simp]: "cal_wf (p\<lparr>cal_status := x\<rparr>) = cal_wf p"
  by (simp add: cal_wf_def)

lemmas cal_calc_defs = eterm_calc_es_def eterm_calc_er_def eterm_calc_et_def eterm_set_def Let_def

lemma has_clear: "m AND n = 0 \<Longrightarrow> has (w AND NOT m) n \<longleftrightarrow> has w n"
proof -
  assume "m AND n = 0"
  then have "bit m i \<Longrightarrow> \<not> bit n i" for i by (metis bit_0_eq bit_and_iff bot_apply bot_bool_def)
  then have "(w AND NOT m) AND n = w AND n" by (intro bit_eqI) (auto simp: bit_and_iff bit_not_iff)
  then show ?thesis by (simp add: has_def)
qed

lemma has_clear_self: "\<not> has (w AND NOT m) m"
  by (simp add: has_def and.assoc)

lemmas cal_flags = CALSTAT_LOAD_def CALSTAT_OPEN_def CALSTAT_SHORT_def CALSTAT_THRU_def CALSTAT_ISOLN_def
  CALSTAT_ES_def CALSTAT_ER_def CALSTAT_ET_def CALSTAT_APPLY_def

definition all_standards :: "u16 \<Rightarrow> bool" where
  "all_standards st \<longleftrightarrow> has st CALSTAT_LOAD \<and> has st CALSTAT_OPEN \<and> has st CALSTAT_SHORT \<and>
     has st CALSTAT_THRU \<and> has st CALSTAT_ISOLN"

lemma flag_disjoint:
  "CALSTAT_OPEN AND CALSTAT_SHORT = 0" "CALSTAT_OPEN AND CALSTAT_THRU = 0" "CALSTAT_SHORT AND CALSTAT_THRU = 0"
  "CALSTAT_SHORT AND CALSTAT_ES = 0" "CALSTAT_THRU AND CALSTAT_ES = 0" "CALSTAT_THRU AND CALSTAT_ER = 0"
  by (simp_all add: cal_flags)

lemma flag_self: "has CALSTAT_ES CALSTAT_ES" "has CALSTAT_ER CALSTAT_ER" "has CALSTAT_ET CALSTAT_ET" "has CALSTAT_APPLY CALSTAT_APPLY"
  by (simp_all add: cal_flags has_def)

lemma cal_done_full:
  assumes "all_standards (cal_status (props s))"
  defines "q \<equiv> eterm_calc_et (eterm_calc_er (- 1) (eterm_calc_es (props s)))"
  shows "cal_done s = request_to_redraw (REDRAW_BACKUP OR REDRAW_CAL_STATUS)
    (s\<lparr>props := q\<lparr>cal_status := cal_status q OR CALSTAT_APPLY\<rparr>, lastsaveid := NO_SAVE_SLOT\<rparr>)"
proof -
  have "has (cal_status (eterm_calc_er (- 1) (eterm_calc_es (props s)))) CALSTAT_THRU"
    using assms(1) by (simp add: all_standards_def eterm_calc_er_def eterm_calc_es_def Let_def has_or has_clear flag_disjoint)
  moreover have "has (cal_status q) f" if "f \<in> {CALSTAT_ES, CALSTAT_ER, CALSTAT_ET}" for f
    using that by (auto simp: q_def eterm_calc_et_def eterm_calc_er_def eterm_calc_es_def Let_def has_or has_clear flag_disjoint flag_self)
  ultimately show ?thesis
    using assms(1) by (simp add: cal_done_def Let_def all_standards_def q_def)
qed

text \<open>
  The usual error model of a one-path instrument: directivity \<open>ed\<close>, source match \<open>es\<close> and
  reflection tracking \<open>er\<close> turn a reflection \<open>g\<close> into a reading, isolation \<open>ex\<close> and transmission
  tracking \<open>et\<close> turn a transmission into one.
\<close>

definition reading :: "complex \<Rightarrow> complex \<Rightarrow> complex \<Rightarrow> complex \<Rightarrow> complex" where
  "reading ed es er g = ed + er * g / (1 - es * g)"

definition standards_at :: "properties \<Rightarrow> nat \<Rightarrow> complex \<Rightarrow> complex \<Rightarrow> complex \<Rightarrow> complex \<Rightarrow> complex \<Rightarrow> bool" where
  "standards_at p i ed es er ex et \<longleftrightarrow>
     cx (cal_data p ! CAL_LOAD ! i) = reading ed es er 0 \<and> cx (cal_data p ! CAL_OPEN ! i) = reading ed es er 1 \<and>
     cx (cal_data p ! CAL_SHORT ! i) = reading ed es er (- 1) \<and>
     cx (cal_data p ! CAL_THRU ! i) = ex + et \<and> cx (cal_data p ! CAL_ISOLN ! i) = ex"

lemma es_recovered:
  fixes es er :: complex
  assumes "er \<noteq> 0" "es \<noteq> 1" "es \<noteq> - 1"
  shows "(- (er / (1 + es)) + er / (1 - es)) / (er / (1 - es) + er / (1 + es)) = es"
proof -
  have nz: "1 - es \<noteq> 0" "1 + es \<noteq> 0" using assms by (auto simp: eq_neg_iff_add_eq_0 add.commute)
  have "- (er / (1 + es)) + er / (1 - es) = er * (2 * es) / ((1 - es) * (1 + es))"
    using nz by (simp add: field_simps)
  moreover have "er / (1 - es) + er / (1 + es) = er * 2 / ((1 - es) * (1 + es))"
    using nz by (simp add: field_simps)
  ultimately show ?thesis using nz assms(1) by simp
qed

lemma error_terms_exact:
  assumes "cal_wf p" "i < sweep_points p" "standards_at p i ed es er ex et" "er \<noteq> 0" "es \<noteq> 1" "es \<noteq> - 1"
  defines "q \<equiv> eterm_calc_et (eterm_calc_er (- 1) (eterm_calc_es p))"
  shows "cx (cal_data q ! ETERM_ED ! i) = ed" "cx (cal_data q ! ETERM_ES ! i) = es" "cx (cal_data q ! ETERM_ER ! i) = er"
    "cx (cal_data q ! ETERM_ET ! i) = 1 / et" "cx (cal_data q ! ETERM_EX ! i) = ex"
proof -
  have nz: "1 + es \<noteq> 0" using assms(6) by (metis add_eq_0_iff)
  note fill = cal_fill_nth [OF _ assms(2)] cal_fill_nth cal_fill_wf assms(1,2)
  define p1 where "p1 = eterm_calc_es p"
  have p1: "cal_wf p1" "i < sweep_points p1" "cx (cal_data p1 ! 1 ! i) = es"
    "\<And>u. u < 5 \<Longrightarrow> u \<noteq> 1 \<Longrightarrow> cal_data p1 ! u ! i = cal_data p ! u ! i"
    using assms(3) es_recovered [OF assms(4-6)] assms(1,2)
    by (simp_all add: p1_def eterm_calc_es_def Let_def cal_fill_wf cal_fill_nth es_at_cx standards_at_def reading_def)
  define p2 where "p2 = eterm_calc_er (- 1) p1"
  have p2: "cal_wf p2" "i < sweep_points p2" "cx (cal_data p2 ! 2 ! i) = er"
    "\<And>u. u < 5 \<Longrightarrow> u \<noteq> 2 \<Longrightarrow> cal_data p2 ! u ! i = cal_data p1 ! u ! i"
    using assms(3) p1 nz
    by (simp_all add: p2_def eterm_calc_er_def Let_def cal_fill_wf cal_fill_nth er_at_cx standards_at_def reading_def)
  show "cx (cal_data q ! ETERM_ED ! i) = ed" "cx (cal_data q ! ETERM_ES ! i) = es" "cx (cal_data q ! ETERM_ER ! i) = er"
    "cx (cal_data q ! ETERM_ET ! i) = 1 / et" "cx (cal_data q ! ETERM_EX ! i) = ex"
    using assms(3) p1 p2 unfolding q_def p1_def [symmetric] p2_def [symmetric]
    by (simp_all add: eterm_calc_et_def Let_def cal_fill_wf cal_fill_nth et_at_cx standards_at_def reading_def)
qed

text \<open>The error terms of a full set of standards turn readings back into the true values.\<close>

lemma calibration_exact:
  assumes "cal_wf (props s)" "all_standards (cal_status (props s))" "i < sweep_points (props s)"
    and "standards_at (props s) i ed es er ex et" "er \<noteq> 0" "et \<noteq> 0" "es \<noteq> 1" "es \<noteq> - 1" "es * g \<noteq> 1"
  defines "c \<equiv> map (\<lambda>r. r ! i) (cal_data (props (cal_done s)))"
  shows "(\<forall>d. cx d = reading ed es er g \<longrightarrow> cx (apply_CH0_error_term d c) = g) \<and>
    (\<forall>d s11. cx d = ex + et * h \<longrightarrow> cx (apply_CH1_error_term False s11 d c) = h) \<and>
    (\<forall>d s11. cx d = ex + et * h / (1 - es * g) \<and> cx s11 = g \<longrightarrow> cx (apply_CH1_error_term True s11 d c) = h) \<and>
    has (cal_status (props (cal_done s))) CALSTAT_APPLY \<and> lastsaveid (cal_done s) = NO_SAVE_SLOT"
proof -
  let ?q = "eterm_calc_et (eterm_calc_er (- 1) (eterm_calc_es (props s)))"
  note terms = error_terms_exact [OF assms(1,3,4,5,7,8)]
  have "length (cal_data ?q) = 5"
    using assms(1) by (simp add: eterm_calc_et_def eterm_calc_er_def eterm_calc_es_def cal_fill_def Let_def cal_wf_def)
  then have c: "cx (c ! 0) = ed" "cx (c ! 1) = es" "cx (c ! 2) = er" "cx (c ! 3) = 1 / et" "cx (c ! 4) = ex"
    using terms by (simp_all add: c_def cal_done_full [OF assms(2)] request_to_redraw_def)
  have nz: "1 - es * g \<noteq> 0" using assms(9) by simp
  have "er + er * g / (1 - es * g) * es = er / (1 - es * g)" using nz by (simp add: field_simps)
  then have "cx (apply_CH0_error_term d c) = g" if "cx d = reading ed es er g" for d
    using that c nz assms(5) by (simp add: apply_CH0_cx reading_def)
  moreover have "cx (apply_CH1_error_term False s11 d c) = h" if "cx d = ex + et * h" for d s11
    using that c assms(6) by (simp add: apply_CH1_cx)
  moreover have "cx (apply_CH1_error_term True s11 d c) = h" if "cx d = ex + et * h / (1 - es * g)" "cx s11 = g" for d s11
    using that c assms(6) nz by (simp add: apply_CH1_cx)
  moreover have "has (cal_status (props (cal_done s))) CALSTAT_APPLY" "lastsaveid (cal_done s) = NO_SAVE_SLOT"
    by (simp_all add: cal_done_full [OF assms(2)] request_to_redraw_def has_or flag_self)
  ultimately show ?thesis by blast
qed

end
