(* ===== verification/CalRun.thy ===== *)
theory CalRun
  imports Calibration
begin

text \<open>
  A calibration as it is run: what a sweep stores in the measurement arrays, what collecting one
  standard leaves in the calibration data and the status word, and the composition of collecting
  all standards, finishing the calibration and sweeping with correction.
\<close>

subsection \<open>What a sweep stores\<close>

definition shaped :: "cfloat list list \<Rightarrow> bool" where
  "shaped ms \<longleftrightarrow> length ms = 2 \<and> (\<forall>r \<in> set ms. length r = SWEEP_POINTS_MAX)"

definition put_point :: "cfloat option \<Rightarrow> cfloat option \<Rightarrow> nat \<Rightarrow> cfloat list list \<Rightarrow> cfloat list list" where
  "put_point a b i ms =
     (let ms = (case a of None \<Rightarrow> ms | Some v \<Rightarrow> ms[0 := (ms ! 0)[i := v]]) in
      case b of None \<Rightarrow> ms | Some v \<Rightarrow> ms[1 := (ms ! 1)[i := v]])"

lemma shaped_put: "shaped ms \<Longrightarrow> shaped (put_point a b i ms)"
  by (auto simp: shaped_def put_point_def Let_def split: option.splits dest!: set_update_subset_insert [THEN subsetD])

lemma put_point_nth:
  assumes "shaped ms" "j < SWEEP_POINTS_MAX"
  shows "put_point a b i ms ! 0 ! j = (if i = j \<and> a \<noteq> None then the a else ms ! 0 ! j)"
    and "put_point a b i ms ! 1 ! j = (if i = j \<and> b \<noteq> None then the b else ms ! 1 ! j)"
  using assms by (auto simp: shaped_def put_point_def Let_def split: option.splits)

definition ready :: "vna \<Rightarrow> bool" where
  "ready s \<longleftrightarrow> clock_ok (clk s) \<and> 2 \<le> sweep_points (props s) \<and> cal_wf (props s) \<and> shaped (measured s) \<and>
     (\<forall>i < sweep_points (props s). getFrequency i s \<le> 2700000000)"

definition at_point :: "clock \<Rightarrow> nat \<Rightarrow> cfloat list list \<Rightarrow> vna \<Rightarrow> vna" where
  "at_point c i ms s = s\<lparr>clk := c, p_sweep := i, measured := ms\<rparr>"

lemma at_point_simps [simp]:
  "p_sweep (at_point c i ms s) = i" "props (at_point c i ms s) = props s" "measured (at_point c i ms s) = ms"
  "clk (at_point c i ms s) = c" "config (at_point c i ms s) = config s" "getFrequency j (at_point c i ms s) = getFrequency j s"
  "(at_point c i ms s)\<lparr>p_sweep := k\<rparr> = at_point c k ms s"
  by (simp_all add: at_point_def getFrequency_def)

definition row_stored :: "(nat \<Rightarrow> cfloat option) \<Rightarrow> nat \<Rightarrow> nat \<Rightarrow> cfloat list \<Rightarrow> cfloat list \<Rightarrow> bool" where
  "row_stored a i n r r' \<longleftrightarrow> (\<forall>j < SWEEP_POINTS_MAX. r' ! j = (if i \<le> j \<and> j < n \<and> a j \<noteq> None then the (a j) else r ! j))"

lemma row_stored_step:
  assumes "row_stored a (Suc i) n r' r''" "\<And>j. j < SWEEP_POINTS_MAX \<Longrightarrow> r' ! j = (if i = j \<and> a i \<noteq> None then the (a i) else r ! j)" "i < n"
  shows "row_stored a i n r r''"
  unfolding row_stored_def
proof (intro allI impI)
  fix j assume j: "j < SWEEP_POINTS_MAX"
  then have "r'' ! j = (if Suc i \<le> j \<and> j < n \<and> a j \<noteq> None then the (a j) else r' ! j)" using assms(1) by (simp add: row_stored_def)
  then show "r'' ! j = (if i \<le> j \<and> j < n \<and> a j \<noteq> None then the (a j) else r ! j)"
    using assms(2) [OF j] assms(3) by (cases "i = j") auto
qed

text \<open>If one point of a sweep measures \<open>a i\<close> and \<open>b i\<close>, the whole sweep stores them at every point.\<close>

lemma sweep_loop_stores:
  assumes "\<And>c d i ms. clock_ok c \<Longrightarrow> i < n \<Longrightarrow> shaped ms \<Longrightarrow>
      \<exists>c' d'. sweep_point sample m (d, at_point c i ms s) = Some (d', at_point c' i (put_point (a i) (b i) i ms) s) \<and> clock_ok c'"
    and "clock_ok c" "i \<le> n" "n \<le> SWEEP_POINTS_MAX" "shaped ms"
  shows "\<exists>c' ms'. sweep_loop sample interrupt False m n (d, at_point c i ms s) = Some (at_point c' n ms' s) \<and>
     clock_ok c' \<and> shaped ms' \<and> row_stored a i n (ms ! 0) (ms' ! 0) \<and> row_stored b i n (ms ! 1) (ms' ! 1)"
  using assms(2-)
proof (induction "n - i" arbitrary: i c d ms)
  case 0
  then have "i = n" by simp
  then have "sweep_loop sample interrupt False m n (d, at_point c i ms s) = Some (at_point c n ms s)"
    by (subst sweep_loop.simps) simp
  moreover have "row_stored f i n r r" for f r using \<open>i = n\<close> by (auto simp: row_stored_def)
  ultimately show ?case using 0 by blast
next
  case (Suc k)
  then have i: "i < n" by simp
  let ?ms = "put_point (a i) (b i) i ms"
  obtain c' d' where p: "sweep_point sample m (d, at_point c i ms s) = Some (d', at_point c' i ?ms s)" "clock_ok c'"
    using assms(1) [OF Suc.prems(1) i Suc.prems(4)] by blast
  have l: "sweep_loop sample interrupt False m n (d, at_point c i ms s) =
      sweep_loop sample interrupt False m n (d', at_point c' (Suc i) ?ms s)"
    using i p(1) by (subst sweep_loop.simps) simp
  have "k = n - Suc i" "Suc i \<le> n" using Suc.hyps(2) i by simp_all
  from Suc.hyps(1) [OF this(1) p(2) this(2) Suc.prems(3) shaped_put [OF Suc.prems(4)], of d' "a i" "b i" i]
  obtain c'' ms' where r: "sweep_loop sample interrupt False m n (d', at_point c' (Suc i) ?ms s) = Some (at_point c'' n ms' s)"
    "clock_ok c''" "shaped ms'" "row_stored a (Suc i) n (?ms ! 0) (ms' ! 0)" "row_stored b (Suc i) n (?ms ! 1) (ms' ! 1)"
    by blast
  have "row_stored a i n (ms ! 0) (ms' ! 0)" "row_stored b i n (ms ! 1) (ms' ! 1)"
    by (rule row_stored_step [OF r(4) put_point_nth(1) [OF Suc.prems(4)] i], assumption)
       (rule row_stored_step [OF r(5) put_point_nth(2) [OF Suc.prems(4)] i], assumption)
  then show ?case using l r by auto
qed

lemma sweep_stores:
  assumes "\<And>c d i ms. clock_ok c \<Longrightarrow> i < n \<Longrightarrow> shaped ms \<Longrightarrow>
      \<exists>c' d'. sweep_point sample m (d, at_point c i ms s) = Some (d', at_point c' i (put_point (a i) (b i) i ms) s) \<and> clock_ok c'"
    and "ready s" "n = sweep_points (props s)"
  shows "\<exists>c' ms'. sweep sample interrupt junk False m s = Some (at_point c' n ms' s, True) \<and>
     clock_ok c' \<and> shaped ms' \<and> row_stored a 0 n (measured s ! 0) (ms' ! 0) \<and> row_stored b 0 n (measured s ! 1) (ms' ! 1)"
proof -
  have "s\<lparr>p_sweep := 0\<rparr> = at_point (clk s) 0 (measured s) s" by (simp add: at_point_def)
  moreover have "n \<le> SWEEP_POINTS_MAX" using assms(2,3) by (simp add: ready_def cal_wf_def)
  ultimately show ?thesis
    using sweep_loop_stores [OF assms(1), where c = "clk s" and i = 0 and ms = "measured s" and interrupt = interrupt and d = junk] assms(2,3)
    by (auto simp: sweep_def ready_def)
qed

subsection \<open>Collecting a standard\<close>

lemmas mask_defs = SWEEP_CH0_MEASURE_def SWEEP_CH1_MEASURE_def SWEEP_APPLY_EDELAY_S11_def SWEEP_APPLY_EDELAY_S21_def
  SWEEP_APPLY_S21_OFFSET_def SWEEP_APPLY_CALIBRATION_def SWEEP_USE_INTERPOLATION_def

definition negated :: "cfloat \<Rightarrow> cfloat" where
  "negated d = (- fst d, - snd d)"

lemma at_point_clk [simp]: "(at_point c i ms s)\<lparr>clk := c'\<rparr> = at_point c' i ms s"
  by (simp add: at_point_def)

lemma store_at_point [simp]:
  "store_measured ch j v (at_point c i ms s) = at_point c i (ms[ch := (ms ! ch)[j := v]]) s"
  by (simp add: store_measured_def at_point_def)

lemma sweep_point_raw:
  assumes "clock_ok c" "getFrequency i s \<le> 2700000000" "i < SWEEP_POINTS_MAX"
  shows "\<exists>c' d'. sweep_point sample SWEEP_CH0_MEASURE (d, at_point c i ms s) =
      Some (d', at_point c' i (put_point (Some (sample 0 (getFrequency i s))) None i ms) s) \<and> clock_ok c'"
    and "\<exists>c' d'. sweep_point sample SWEEP_CH1_MEASURE (d, at_point c i ms s) =
      Some (d', at_point c' i (put_point None (Some (negated (sample 1 (getFrequency i s)))) i ms) s) \<and> clock_ok c'"
proof -
  obtain c' t where c': "si5351_set_frequency (getFrequency i s) (power (props s)) c = Some (c', t)" "clock_ok c'"
    using set_frequency_total [OF assms(1,2)] by blast
  have "sweep_point sample SWEEP_CH0_MEASURE (d, at_point c i ms s) =
      Some (sample 0 (getFrequency i s), at_point c' i (put_point (Some (sample 0 (getFrequency i s))) None i ms) s)"
    using c' assms(3) by (simp add: sweep_point_def Let_def mask_defs has_def put_point_def)
  then show "\<exists>c' d'. sweep_point sample SWEEP_CH0_MEASURE (d, at_point c i ms s) =
      Some (d', at_point c' i (put_point (Some (sample 0 (getFrequency i s))) None i ms) s) \<and> clock_ok c'"
    using c'(2) by blast
  have "sweep_point sample SWEEP_CH1_MEASURE (d, at_point c i ms s) =
      Some (d, at_point c' i (put_point None (Some (negated (sample 1 (getFrequency i s)))) i ms) s)"
    using c' assms(3) by (simp add: sweep_point_def Let_def mask_defs has_def put_point_def negated_def)
  then show "\<exists>c' d'. sweep_point sample SWEEP_CH1_MEASURE (d, at_point c i ms s) =
      Some (d', at_point c' i (put_point None (Some (negated (sample 1 (getFrequency i s)))) i ms) s) \<and> clock_ok c'"
    using c'(2) by blast
qed

text \<open>The reading a standard leaves at a point, by the source channel of the standard.\<close>

definition standard_value :: "(nat \<Rightarrow> u32 \<Rightarrow> cfloat) \<Rightarrow> nat \<Rightarrow> u32 \<Rightarrow> cfloat" where
  "standard_value sample type f = (if type < 3 then sample 0 f else negated (sample 1 f))"

definition cal_src :: "nat \<Rightarrow> nat" where
  "cal_src type = (if type < 3 then 0 else 1)"

lemma calibration_set_nth:
  "type < 5 \<Longrightarrow> \<exists>set_flag clr_flag. calibration_set ! type = (set_flag, clr_flag, type, cal_src type)"
  "length calibration_set = 5"
  by (auto simp: calibration_set_def cal_src_def less_Suc_eq numeral_eq_Suc)

lemma sweep_raw:
  assumes "ready s" "type < 5"
  shows "\<exists>c ms. sweep sample interrupt junk False (if cal_src type = 0 then SWEEP_CH0_MEASURE else SWEEP_CH1_MEASURE) s =
       Some (at_point c (sweep_points (props s)) ms s, True) \<and> clock_ok c \<and> shaped ms \<and>
     (\<forall>i < sweep_points (props s). ms ! cal_src type ! i = standard_value sample type (getFrequency i s))"
proof -
  let ?n = "sweep_points (props s)"
  have n: "?n \<le> SWEEP_POINTS_MAX" "\<And>i. i < ?n \<Longrightarrow> getFrequency i s \<le> 2700000000"
    using assms(1) by (auto simp: ready_def cal_wf_def)
  show ?thesis
  proof (cases "type < 3")
    case True
    have "\<exists>c ms. sweep sample interrupt junk False SWEEP_CH0_MEASURE s = Some (at_point c ?n ms s, True) \<and> clock_ok c \<and>
        shaped ms \<and> row_stored (\<lambda>i. Some (sample 0 (getFrequency i s))) 0 ?n (measured s ! 0) (ms ! 0) \<and>
        row_stored (\<lambda>i. None) 0 ?n (measured s ! 1) (ms ! 1)"
      by (rule sweep_stores [OF _ assms(1) refl], rule sweep_point_raw(1)) (use n in \<open>auto intro: order.strict_trans2\<close>)
    then show ?thesis using True n(1) by (force simp: row_stored_def cal_src_def standard_value_def)
  next
    case False
    have "\<exists>c ms. sweep sample interrupt junk False SWEEP_CH1_MEASURE s = Some (at_point c ?n ms s, True) \<and> clock_ok c \<and>
        shaped ms \<and> row_stored (\<lambda>i. None) 0 ?n (measured s ! 0) (ms ! 0) \<and>
        row_stored (\<lambda>i. Some (negated (sample 1 (getFrequency i s)))) 0 ?n (measured s ! 1) (ms ! 1)"
      by (rule sweep_stores [OF _ assms(1) refl], rule sweep_point_raw(2)) (use n in \<open>auto intro: order.strict_trans2\<close>)
    then show ?thesis using False n(1) by (force simp: row_stored_def cal_src_def standard_value_def)
  qed
qed

definition same_stimulus :: "vna \<Rightarrow> vna \<Rightarrow> bool" where
  "same_stimulus s s' \<longleftrightarrow> frequency0 (props s') = frequency0 (props s) \<and> frequency1 (props s') = frequency1 (props s) \<and>
     sweep_points (props s') = sweep_points (props s) \<and> electrical_delay (props s') = electrical_delay (props s) \<and>
     s21_offset (props s') = s21_offset (props s) \<and> (\<forall>i. getFrequency i s' = getFrequency i s)"

definition calibrated_here :: "vna \<Rightarrow> bool" where
  "calibrated_here s \<longleftrightarrow> \<not> needInterpolate (frequency0 (props s)) (frequency1 (props s)) (sweep_points (props s)) (props s)"

lemma cal_prepare_frame:
  "same_stimulus s (cal_prepare type s)" "calibrated_here (cal_prepare type s)" "cal_data (props (cal_prepare type s)) = cal_data (props s)"
  "clk (cal_prepare type s) = clk s" "measured (cal_prepare type s) = measured s" "config (cal_prepare type s) = config s"
  by (simp_all add: cal_prepare_def same_stimulus_def calibrated_here_def needInterpolate_def getFrequency_def Let_def
      split: prod.splits)

lemma ready_cong:
  assumes "ready s" "same_stimulus s s'" "cal_wf (props s')" "clock_ok (clk s')" "shaped (measured s')"
  shows "ready s'"
  using assms by (simp add: ready_def same_stimulus_def)

lemma cal_collect_spec:
  assumes "ready s" "type < 5"
  shows "\<exists>s'. cal_collect sample junk type s = Some s' \<and> ready s' \<and> same_stimulus s s' \<and> calibrated_here s' \<and>
    (\<forall>i < sweep_points (props s). cal_data (props s') ! type ! i = standard_value sample type (getFrequency i s)) \<and>
    (\<forall>u<5. u \<noteq> type \<longrightarrow> cal_data (props s') ! u = cal_data (props s) ! u) \<and>
    cal_status (props s') = cal_status (props (cal_prepare type s)) \<and>
    bandwidth (config s') = bandwidth (config s) mod 256"
proof -
  define s1 where "s1 = cal_prepare type s"
  define s2 where "s2 = (if bandwidth (config s1) mod 256 < BANDWIDTH_100
    then s1\<lparr>config := (config s1)\<lparr>bandwidth := BANDWIDTH_100\<rparr>\<rparr> else s1)"
  note fr = cal_prepare_frame [where s = s and type = type, folded s1_def]
  have "cal_wf (props s1)" using assms(1) fr(1,3) by (simp add: ready_def cal_wf_def same_stimulus_def)
  then have "ready s1" using ready_cong [OF assms(1) fr(1)] assms(1) fr(4,5) by (simp add: ready_def)
  then have "ready s2" by (simp add: s2_def ready_def getFrequency_def)
  have s2: "props s2 = props s1" "getFrequency i s2 = getFrequency i s" for i
    using fr(1) by (simp_all add: s2_def same_stimulus_def getFrequency_def)
  obtain c ms where sw: "sweep sample (\<lambda>_. False) junk False (if cal_src type = 0 then SWEEP_CH0_MEASURE else SWEEP_CH1_MEASURE) s2 =
       Some (at_point c (sweep_points (props s2)) ms s2, True)" "clock_ok c" "shaped ms"
     "\<forall>i < sweep_points (props s2). ms ! cal_src type ! i = standard_value sample type (getFrequency i s2)"
    using sweep_raw [OF \<open>ready s2\<close> assms(2)] by blast
  define s3 where "s3 = on_props (\<lambda>p. p\<lparr>cal_data := (cal_data p)[type := ms ! cal_src type]\<rparr>) (at_point c (sweep_points (props s2)) ms s2)"
  define s' where "s' = request_to_redraw REDRAW_CAL_STATUS (s3\<lparr>config := (config s3)\<lparr>bandwidth := bandwidth (config s) mod 256\<rparr>\<rparr>)"
  obtain sf cf where set: "calibration_set ! type = (sf, cf, type, cal_src type)" using calibration_set_nth(1) [OF assms(2)] by blast
  have r: "cal_collect sample junk type s = Some s'"
    unfolding cal_collect_def calibration_set_nth(2) set Let_def prod.case s1_def [symmetric] fr(6) s2_def [symmetric, unfolded fr(6)]
    using sw(1) assms(2) by (simp add: s'_def s3_def)
  have p': "props s' = (props s1)\<lparr>cal_data := (cal_data (props s))[type := ms ! cal_src type]\<rparr>"
    using s2 fr(3) by (simp add: s'_def s3_def request_to_redraw_def)
  have g: "getFrequency i s' = getFrequency i s" for i
    using s2(2) [of i] by (simp add: s'_def s3_def request_to_redraw_def getFrequency_def at_point_def)
  have st: "same_stimulus s s'" using fr(1) p' g by (simp add: same_stimulus_def)
  have len: "length (ms ! cal_src type) = SWEEP_POINTS_MAX" using sw(3) by (simp add: shaped_def cal_src_def)
  have cd: "length (cal_data (props s)) = 5" using assms(1) by (simp add: ready_def cal_wf_def)
  show ?thesis
  proof (intro exI [of _ s'] conjI r st)
    show "ready s'"
    proof (rule ready_cong [OF assms(1) st])
      show "cal_wf (props s')" using assms(1) p' fr(1) len
        by (auto simp: ready_def cal_wf_def same_stimulus_def dest!: set_update_subset_insert [THEN subsetD])
      show "clock_ok (clk s')" "shaped (measured s')" using sw by (simp_all add: s'_def s3_def request_to_redraw_def)
    qed
    show "calibrated_here s'" using fr(2) p' by (simp add: calibrated_here_def needInterpolate_def)
    show "\<forall>i < sweep_points (props s). cal_data (props s') ! type ! i = standard_value sample type (getFrequency i s)"
      using sw(4) s2 p' assms(2) fr(1) cd by (simp add: same_stimulus_def)
    show "\<forall>u<5. u \<noteq> type \<longrightarrow> cal_data (props s') ! u = cal_data (props s) ! u" using p' by simp
    show "bandwidth (config s') = bandwidth (config s) mod 256" by (simp add: s'_def request_to_redraw_def)
    show "cal_status (props s') = cal_status (props (cal_prepare type s))" using p' by (simp add: s1_def)
  qed
qed

subsection \<open>A whole calibration\<close>

text \<open>The user measures the standards one after the other; \<open>std t\<close> is what the front end delivers while
  the standard \<open>t\<close> is connected.\<close>

fun collect_all :: "(nat \<Rightarrow> nat \<Rightarrow> u32 \<Rightarrow> cfloat) \<Rightarrow> cfloat \<Rightarrow> nat list \<Rightarrow> vna \<Rightarrow> vna option" where
  "collect_all std junk [] s = Some s"
| "collect_all std junk (t # ts) s = Option.bind (cal_collect (std t) junk t s) (collect_all std junk ts)"

definition std_flag :: "nat \<Rightarrow> u16" where
  "std_flag t = fst (calibration_set ! t)"

definition row_is :: "(nat \<Rightarrow> nat \<Rightarrow> u32 \<Rightarrow> cfloat) \<Rightarrow> vna \<Rightarrow> nat \<Rightarrow> bool" where
  "row_is std s t \<longleftrightarrow> (\<forall>i < sweep_points (props s). cal_data (props s) ! t ! i = standard_value (std t) t (getFrequency i s))"

definition flag_honest :: "vna \<Rightarrow> bool" where
  "flag_honest s \<longleftrightarrow> has (cal_status (props s)) CALSTAT_INTERPOLATED \<longrightarrow> \<not> calibrated_here s"

lemma cal_prepare_status:
  "cal_status (props (cal_prepare t s)) =
     ((if calibrated_here s then cal_status (props s) else 0) AND fst (snd (calibration_set ! t))) OR std_flag t"
  by (simp add: cal_prepare_def calibrated_here_def std_flag_def Let_def split: prod.splits)

lemma each_standard: "(\<forall>t<5. P t) \<longleftrightarrow> P (0::nat) \<and> P 1 \<and> P 2 \<and> P 3 \<and> P 4"
  by (auto simp: eval_nat_numeral less_Suc_eq)

lemma std_flag_simps:
  "std_flag 0 = CALSTAT_LOAD" "std_flag 1 = CALSTAT_OPEN" "std_flag 2 = CALSTAT_SHORT" "std_flag 3 = CALSTAT_THRU" "std_flag 4 = CALSTAT_ISOLN"
  by (simp_all add: std_flag_def calibration_set_def)

lemma clear_mask: "\<forall>t<5. \<exists>m. fst (snd (calibration_set ! t)) = NOT m \<and> (\<forall>u<5. m AND std_flag u = 0) \<and> m AND CALSTAT_INTERPOLATED = 0 \<and> m AND CALSTAT_ENHANCED_RESPONSE = 0"
proof -
  let ?ok = "\<lambda>m. (\<forall>u<5. m AND std_flag u = 0) \<and> m AND CALSTAT_INTERPOLATED = 0 \<and> m AND CALSTAT_ENHANCED_RESPONSE = 0"
  have "?ok CALSTAT_APPLY" "?ok (CALSTAT_ES OR CALSTAT_ER OR CALSTAT_APPLY)" "?ok (CALSTAT_ET OR CALSTAT_APPLY)"
    unfolding each_standard std_flag_simps by (simp_all add: cal_flags CALSTAT_INTERPOLATED_def CALSTAT_ENHANCED_RESPONSE_def)
  moreover have "fst (snd (calibration_set ! 0)) = NOT CALSTAT_APPLY" "fst (snd (calibration_set ! 4)) = NOT CALSTAT_APPLY"
    "fst (snd (calibration_set ! 1)) = NOT (CALSTAT_ES OR CALSTAT_ER OR CALSTAT_APPLY)"
    "fst (snd (calibration_set ! 2)) = NOT (CALSTAT_ES OR CALSTAT_ER OR CALSTAT_APPLY)"
    "fst (snd (calibration_set ! 3)) = NOT (CALSTAT_ET OR CALSTAT_APPLY)"
    by (simp_all add: calibration_set_def)
  ultimately show ?thesis unfolding each_standard [of "\<lambda>t. \<exists>m. fst (snd (calibration_set ! t)) = NOT m \<and> ?ok m"] by blast
qed

lemma std_flag_self: "\<forall>t<5. has (std_flag t) (std_flag t) \<and> \<not> has (std_flag t) CALSTAT_INTERPOLATED \<and>
    \<not> has (std_flag t) CALSTAT_ENHANCED_RESPONSE"
  unfolding each_standard std_flag_simps by (simp add: cal_flags has_def CALSTAT_INTERPOLATED_def CALSTAT_ENHANCED_RESPONSE_def)

definition enhanced :: "vna \<Rightarrow> bool" where
  "enhanced s \<longleftrightarrow> has (cal_status (props s)) CALSTAT_ENHANCED_RESPONSE"

lemma cal_prepare_flags:
  assumes "t < 5"
  shows "has (cal_status (props (cal_prepare t s))) (std_flag t)"
    and "calibrated_here s \<Longrightarrow> u < 5 \<Longrightarrow> has (cal_status (props s)) (std_flag u) \<Longrightarrow> has (cal_status (props (cal_prepare t s))) (std_flag u)"
    and "flag_honest s \<Longrightarrow> \<not> has (cal_status (props (cal_prepare t s))) CALSTAT_INTERPOLATED"
    and "enhanced (cal_prepare t s) \<longleftrightarrow> calibrated_here s \<and> enhanced s"
proof -
  obtain m where m: "fst (snd (calibration_set ! t)) = NOT m" "\<forall>u<5. m AND std_flag u = 0" "m AND CALSTAT_INTERPOLATED = 0" "m AND CALSTAT_ENHANCED_RESPONSE = 0"
    using clear_mask assms by blast
  note st = cal_prepare_status [of t s] m(1) has_or
  show "has (cal_status (props (cal_prepare t s))) (std_flag t)" using std_flag_self assms by (simp add: st)
  show "has (cal_status (props (cal_prepare t s))) (std_flag u)"
    if "calibrated_here s" "u < 5" "has (cal_status (props s)) (std_flag u)"
    using that m(2) by (simp add: st has_clear)
  have z: "\<not> has (0::u16) n" for n by (simp add: has_def)
  then show "\<not> has (cal_status (props (cal_prepare t s))) CALSTAT_INTERPOLATED" if "flag_honest s"
    using that std_flag_self assms has_clear [OF m(3)] by (auto simp: st flag_honest_def)
  show "enhanced (cal_prepare t s) \<longleftrightarrow> calibrated_here s \<and> enhanced s"
    using z std_flag_self assms has_clear [OF m(4)] by (auto simp: st enhanced_def)
qed

lemma collect_all_spec:
  assumes "ready s" "\<forall>t \<in> set ts. t < 5" "flag_honest s"
  shows "\<exists>s'. collect_all std junk ts s = Some s' \<and> ready s' \<and> same_stimulus s s' \<and> flag_honest s' \<and>
    (ts \<noteq> [] \<or> calibrated_here s \<longrightarrow> calibrated_here s') \<and> (enhanced s' \<longleftrightarrow> enhanced s \<and> (ts = [] \<or> calibrated_here s)) \<and>
    (\<forall>t<5. t \<in> set ts \<or> calibrated_here s \<and> has (cal_status (props s)) (std_flag t) \<and> row_is std s t \<longrightarrow>
       has (cal_status (props s')) (std_flag t) \<and> row_is std s' t)"
  using assms
proof (induction ts arbitrary: s)
  case Nil
  then show ?case by (auto simp: same_stimulus_def)
next
  case (Cons t ts)
  then have t: "t < 5" by simp
  obtain s1 where s1: "cal_collect (std t) junk t s = Some s1" "ready s1" "same_stimulus s s1" "calibrated_here s1"
    "\<forall>i < sweep_points (props s). cal_data (props s1) ! t ! i = standard_value (std t) t (getFrequency i s)"
    "\<forall>u<5. u \<noteq> t \<longrightarrow> cal_data (props s1) ! u = cal_data (props s) ! u"
    "cal_status (props s1) = cal_status (props (cal_prepare t s))"
    using cal_collect_spec [OF Cons.prems(1) t, of "std t" junk] by blast
  have h: "flag_honest s1" using cal_prepare_flags(3) [OF t Cons.prems(3)] s1(7) by (simp add: flag_honest_def)
  have keep: "has (cal_status (props s1)) (std_flag u) \<and> row_is std s1 u"
    if "u = t \<or> calibrated_here s \<and> has (cal_status (props s)) (std_flag u) \<and> row_is std s u" "u < 5" for u
  proof (cases "u = t")
    case True
    then show ?thesis using cal_prepare_flags(1) [OF t, of s] s1(3,5,7) by (simp add: row_is_def same_stimulus_def)
  next
    case False
    then show ?thesis using cal_prepare_flags(2) [OF t, of s u] s1(3,6,7) that by (simp add: row_is_def same_stimulus_def)
  qed
  have e: "enhanced s1 \<longleftrightarrow> calibrated_here s \<and> enhanced s" using cal_prepare_flags(4) [OF t, of s] s1(7) by (simp add: enhanced_def)
  obtain s' where s': "collect_all std junk ts s1 = Some s'" "ready s'" "same_stimulus s1 s'" "flag_honest s'" "calibrated_here s'"
    "enhanced s' \<longleftrightarrow> enhanced s1"
    "\<forall>u<5. u \<in> set ts \<or> calibrated_here s1 \<and> has (cal_status (props s1)) (std_flag u) \<and> row_is std s1 u \<longrightarrow>
       has (cal_status (props s')) (std_flag u) \<and> row_is std s' u"
    using Cons.IH [OF s1(2) _ h] Cons.prems(2) s1(4) by auto
  have "same_stimulus s s'" using s1(3) s'(3) by (simp add: same_stimulus_def)
  moreover have "has (cal_status (props s')) (std_flag u) \<and> row_is std s' u"
    if "u \<in> set (t # ts) \<or> calibrated_here s \<and> has (cal_status (props s)) (std_flag u) \<and> row_is std s u" "u < 5" for u
    using s'(7) keep [OF _ that(2)] that s1(4) by auto
  ultimately show ?case using s1(1) s' e by (intro exI [of _ s']) auto
qed

text \<open>The errors of the instrument, as functions of the frequency.\<close>

record errors =
  e_d :: "u32 \<Rightarrow> complex"
  e_s :: "u32 \<Rightarrow> complex"
  e_r :: "u32 \<Rightarrow> complex"
  e_x :: "u32 \<Rightarrow> complex"
  e_t :: "u32 \<Rightarrow> complex"

definition proper :: "errors \<Rightarrow> u32 \<Rightarrow> bool" where
  "proper E f \<longleftrightarrow> e_r E f \<noteq> 0 \<and> e_t E f \<noteq> 0 \<and> e_s E f \<noteq> 1 \<and> e_s E f \<noteq> - 1"

definition reflects :: "errors \<Rightarrow> (nat \<Rightarrow> u32 \<Rightarrow> cfloat) \<Rightarrow> u32 \<Rightarrow> complex \<Rightarrow> bool" where
  "reflects E sample f g \<longleftrightarrow> cx (sample 0 f) = reading (e_d E f) (e_s E f) (e_r E f) g"

definition transmits :: "errors \<Rightarrow> (nat \<Rightarrow> u32 \<Rightarrow> cfloat) \<Rightarrow> u32 \<Rightarrow> complex \<Rightarrow> bool" where
  "transmits E sample f h \<longleftrightarrow> cx (negated (sample 1 f)) = e_x E f + e_t E f * h"

definition connected :: "errors \<Rightarrow> (nat \<Rightarrow> nat \<Rightarrow> u32 \<Rightarrow> cfloat) \<Rightarrow> u32 \<Rightarrow> bool" where
  "connected E std f \<longleftrightarrow> reflects E (std CAL_LOAD) f 0 \<and> reflects E (std CAL_OPEN) f 1 \<and> reflects E (std CAL_SHORT) f (- 1) \<and>
     transmits E (std CAL_THRU) f 1 \<and> transmits E (std CAL_ISOLN) f 0"

definition corrected_mask :: u16 where
  "corrected_mask = SWEEP_CH0_MEASURE OR SWEEP_CH1_MEASURE OR SWEEP_APPLY_CALIBRATION"

lemma sweep_point_corrected:
  fixes sample :: "nat \<Rightarrow> u32 \<Rightarrow> cfloat"
  assumes "clock_ok c" "getFrequency i s \<le> 2700000000" "i < SWEEP_POINTS_MAX"
  defines "row \<equiv> map (\<lambda>r. r ! i) (cal_data (props s))"
    and "a \<equiv> apply_CH0_error_term (sample 0 (getFrequency i s)) (map (\<lambda>r. r ! i) (cal_data (props s)))"
  shows "\<exists>c' d'. sweep_point sample corrected_mask (d, at_point c i ms s) =
      Some (d', at_point c' i (put_point (Some a) (Some (apply_CH1_error_term (has (cal_status (props s)) CALSTAT_ENHANCED_RESPONSE) a
         (negated (sample 1 (getFrequency i s))) row)) i ms) s) \<and> clock_ok c'"
proof -
  obtain c' t where c': "si5351_set_frequency (getFrequency i s) (power (props s)) c = Some (c', t)" "clock_ok c'"
    using set_frequency_total [OF assms(1,2)] by blast
  have m: "has corrected_mask SWEEP_CH0_MEASURE" "has corrected_mask SWEEP_CH1_MEASURE" "has corrected_mask SWEEP_APPLY_CALIBRATION"
    "\<not> has corrected_mask SWEEP_USE_INTERPOLATION" "\<not> has corrected_mask SWEEP_APPLY_EDELAY_S11"
    "\<not> has corrected_mask SWEEP_APPLY_EDELAY_S21" "\<not> has corrected_mask SWEEP_APPLY_S21_OFFSET"
    by (simp_all add: corrected_mask_def mask_defs has_def)
  have "cal_interpolate (int i) f (at_point c' i ms s) = Some row" for f
    using assms(3) by (simp add: cal_interpolate_def cal_row_def row_def)
  then have "sweep_point sample corrected_mask (d, at_point c i ms s) =
      Some (a, at_point c' i (put_point (Some a) (Some (apply_CH1_error_term (has (cal_status (props s)) CALSTAT_ENHANCED_RESPONSE) a
         (negated (sample 1 (getFrequency i s))) row)) i ms) s)"
    using c' assms(3) by (simp add: sweep_point_def Let_def m put_point_def a_def row_def negated_def)
  then show ?thesis using c'(2) by blast
qed

lemma cal_done_frame:
  assumes "all_standards (cal_status (props s))"
  shows "clk (cal_done s) = clk s" "measured (cal_done s) = measured s" "same_stimulus s (cal_done s)"
    "cal_wf (props s) \<Longrightarrow> cal_wf (props (cal_done s))"
    "has (cal_status (props (cal_done s))) CALSTAT_APPLY"
    "\<not> has (cal_status (props s)) CALSTAT_INTERPOLATED \<Longrightarrow> \<not> has (cal_status (props (cal_done s))) CALSTAT_INTERPOLATED"
    "has (cal_status (props (cal_done s))) CALSTAT_ENHANCED_RESPONSE \<longleftrightarrow> has (cal_status (props s)) CALSTAT_ENHANCED_RESPONSE"
proof -
  note d = cal_done_full [OF assms] request_to_redraw_def eterm_calc_et_def eterm_calc_er_def eterm_calc_es_def Let_def
  show "clk (cal_done s) = clk s" "measured (cal_done s) = measured s" by (simp_all add: d)
  show "same_stimulus s (cal_done s)" by (simp add: d same_stimulus_def getFrequency_def cal_fill_def)
  show "cal_wf (props s) \<Longrightarrow> cal_wf (props (cal_done s))" by (simp add: d cal_fill_wf)
  show "has (cal_status (props (cal_done s))) CALSTAT_APPLY" by (simp add: d has_or flag_self)
  have "m AND CALSTAT_INTERPOLATED = 0" "m AND CALSTAT_ENHANCED_RESPONSE = 0"
    if "m \<in> {CALSTAT_OPEN, CALSTAT_SHORT, CALSTAT_THRU, CALSTAT_ES, CALSTAT_ER, CALSTAT_ET, CALSTAT_APPLY}" for m
    using that by (auto simp: cal_flags CALSTAT_INTERPOLATED_def CALSTAT_ENHANCED_RESPONSE_def)
  then show "\<not> has (cal_status (props s)) CALSTAT_INTERPOLATED \<Longrightarrow> \<not> has (cal_status (props (cal_done s))) CALSTAT_INTERPOLATED"
    "has (cal_status (props (cal_done s))) CALSTAT_ENHANCED_RESPONSE \<longleftrightarrow> has (cal_status (props s)) CALSTAT_ENHANCED_RESPONSE"
    by (auto simp: d has_or has_clear has_def [of CALSTAT_ES] has_def [of CALSTAT_ER] has_def [of CALSTAT_ET] has_def [of CALSTAT_APPLY])
qed

lemma corrected_mask:
  assumes "has (cal_status (props s)) CALSTAT_APPLY" "\<not> has (cal_status (props s)) CALSTAT_INTERPOLATED"
    and "electrical_delay (props s) = [0, 0]" "s21_offset (props s) = 0"
  shows "get_sweep_mask 0 s = corrected_mask"
  using assms by (simp add: get_sweep_mask_def corrected_mask_def Let_def or.assoc)

lemma corrected_sweep:
  assumes "ready s" "get_sweep_mask 0 s = corrected_mask"
  shows "\<exists>s'. sweep dut interrupt junk False (get_sweep_mask 0 s) s = Some (s', True) \<and>
    (\<forall>i < sweep_points (props s).
       let f = getFrequency i s; row = map (\<lambda>r. r ! i) (cal_data (props s)); a = apply_CH0_error_term (dut 0 f) row in
       measured s' ! 0 ! i = a \<and> measured s' ! 1 ! i = apply_CH1_error_term (enhanced s) a (negated (dut 1 f)) row)"
proof -
  define row where "row i = map (\<lambda>r. r ! i) (cal_data (props s))" for i
  define a where "a i = apply_CH0_error_term (dut 0 (getFrequency i s)) (row i)" for i
  define b where "b i = apply_CH1_error_term (enhanced s) (a i) (negated (dut 1 (getFrequency i s))) (row i)" for i
  let ?n = "sweep_points (props s)"
  have n: "?n \<le> SWEEP_POINTS_MAX" "\<And>i. i < ?n \<Longrightarrow> getFrequency i s \<le> 2700000000"
    using assms(1) by (auto simp: ready_def cal_wf_def)
  have "\<exists>c ms. sweep dut interrupt junk False corrected_mask s = Some (at_point c ?n ms s, True) \<and> clock_ok c \<and>
      shaped ms \<and> row_stored (\<lambda>i. Some (a i)) 0 ?n (measured s ! 0) (ms ! 0) \<and>
      row_stored (\<lambda>i. Some (b i)) 0 ?n (measured s ! 1) (ms ! 1)"
    unfolding a_def b_def row_def enhanced_def
    by (rule sweep_stores [OF _ assms(1) refl], rule sweep_point_corrected) (use n in \<open>auto intro: order.strict_trans2\<close>)
  then obtain c ms where ms: "sweep dut interrupt junk False corrected_mask s = Some (at_point c ?n ms s, True)"
    "row_stored (\<lambda>i. Some (a i)) 0 ?n (measured s ! 0) (ms ! 0)" "row_stored (\<lambda>i. Some (b i)) 0 ?n (measured s ! 1) (ms ! 1)"
    by blast
  have "ms ! 0 ! i = a i \<and> ms ! 1 ! i = b i" if "i < ?n" for i
    using ms(2,3) that n(1) by (simp add: row_stored_def)
  then show ?thesis using ms(1) by (auto simp: assms(2) Let_def a_def b_def row_def)
qed

lemma collected_standards:
  assumes "row_is std s CAL_LOAD" "row_is std s CAL_OPEN" "row_is std s CAL_SHORT" "row_is std s CAL_THRU" "row_is std s CAL_ISOLN"
    and "i < sweep_points (props s)" "connected E std (getFrequency i s)"
  defines "f \<equiv> getFrequency i s"
  shows "standards_at (props s) i (e_d E f) (e_s E f) (e_r E f) (e_x E f) (e_t E f)"
  using assms by (simp add: row_is_def connected_def standards_at_def reflects_def transmits_def standard_value_def)

lemma collect_everything:
  assumes "ready s" "flag_honest s" "set ts = {CAL_LOAD, CAL_OPEN, CAL_SHORT, CAL_THRU, CAL_ISOLN}"
  shows "\<exists>s1. collect_all std junk ts s = Some s1 \<and> ready s1 \<and> same_stimulus s s1 \<and> all_standards (cal_status (props s1)) \<and>
    \<not> has (cal_status (props s1)) CALSTAT_INTERPOLATED \<and> (enhanced s1 \<longleftrightarrow> enhanced s \<and> calibrated_here s) \<and>
    row_is std s1 CAL_LOAD \<and> row_is std s1 CAL_OPEN \<and> row_is std s1 CAL_SHORT \<and> row_is std s1 CAL_THRU \<and> row_is std s1 CAL_ISOLN"
proof -
  have "\<forall>t \<in> set ts. t < 5" "ts \<noteq> []" using assms(3) by auto
  then obtain s1 where s1: "collect_all std junk ts s = Some s1" "ready s1" "same_stimulus s s1" "flag_honest s1" "calibrated_here s1"
    "enhanced s1 \<longleftrightarrow> enhanced s \<and> calibrated_here s" "\<forall>t<5. t \<in> set ts \<longrightarrow> has (cal_status (props s1)) (std_flag t) \<and> row_is std s1 t"
    using collect_all_spec [OF assms(1) _ assms(2), of ts std junk] by blast
  then show ?thesis
    unfolding each_standard std_flag_simps assms(3) by (auto simp: all_standards_def flag_honest_def)
qed

text \<open>C1: A whole calibration, from the first standard to the corrected sweep.  Let the five standards be
  connected and collected in any order, some perhaps more than once, on an instrument whose errors
  follow the error model.  Then collecting, finishing the calibration and sweeping a device all
  return, and at every point of the sweep the stored values are the true reflection and
  transmission of the device, also when the correction for the source match seen by the device was
  switched on before and the sweep range is the calibrated one.\<close>
theorem full_calibration:
  assumes "ready s" "flag_honest s" "electrical_delay (props s) = [0, 0]" "s21_offset (props s) = 0"
    and "set ts = {CAL_LOAD, CAL_OPEN, CAL_SHORT, CAL_THRU, CAL_ISOLN}"
    and "\<forall>i < sweep_points (props s). let f = getFrequency i s in proper E f \<and> connected E std f \<and> e_s E f * g f \<noteq> 1 \<and>
          reflects E dut f (g f) \<and> transmits E dut f (if enhanced s \<and> calibrated_here s then h f / (1 - e_s E f * g f) else h f)"
  shows "\<exists>s1 s2. collect_all std junk ts s = Some s1 \<and>
    sweep dut interrupt junk False (get_sweep_mask 0 (cal_done s1)) (cal_done s1) = Some (s2, True) \<and>
    (\<forall>i < sweep_points (props s). cx (measured s2 ! 0 ! i) = g (getFrequency i s) \<and> cx (measured s2 ! 1 ! i) = h (getFrequency i s))"
proof -
  obtain s1 where s1: "collect_all std junk ts s = Some s1" "ready s1" "same_stimulus s s1" "all_standards (cal_status (props s1))"
    "\<not> has (cal_status (props s1)) CALSTAT_INTERPOLATED" "enhanced s1 \<longleftrightarrow> enhanced s \<and> calibrated_here s"
    and rows: "row_is std s1 CAL_LOAD" "row_is std s1 CAL_OPEN" "row_is std s1 CAL_SHORT" "row_is std s1 CAL_THRU" "row_is std s1 CAL_ISOLN"
    using collect_everything [OF assms(1,2,5), of std junk] by blast
  note fr = cal_done_frame [OF s1(4)]
  have wf: "cal_wf (props s1)" "clock_ok (clk s1)" "shaped (measured s1)" using s1(2) by (auto simp: ready_def)
  have st: "same_stimulus s (cal_done s1)" using s1(3) fr(3) by (simp add: same_stimulus_def)
  have rd: "ready (cal_done s1)" using ready_cong [OF s1(2) fr(3) fr(4) [OF wf(1)]] fr(1,2) wf by simp
  have mk: "get_sweep_mask 0 (cal_done s1) = corrected_mask"
    using corrected_mask [OF fr(5) fr(6) [OF s1(5)]] st assms(3,4) by (simp add: same_stimulus_def)
  have eq: "sweep_points (props (cal_done s1)) = sweep_points (props s)" "getFrequency i (cal_done s1) = getFrequency i s"
    "sweep_points (props s1) = sweep_points (props s)" "getFrequency i s1 = getFrequency i s" for i
    using st s1(3) by (simp_all add: same_stimulus_def)
  have en: "enhanced (cal_done s1) \<longleftrightarrow> enhanced s \<and> calibrated_here s" using fr(7) s1(6) by (simp add: enhanced_def)
  obtain s2 where s2: "sweep dut interrupt junk False (get_sweep_mask 0 (cal_done s1)) (cal_done s1) = Some (s2, True)"
    "\<forall>i < sweep_points (props s). let f = getFrequency i s; row = map (\<lambda>r. r ! i) (cal_data (props (cal_done s1)));
       a = apply_CH0_error_term (dut 0 f) row in
       measured s2 ! 0 ! i = a \<and> measured s2 ! 1 ! i = apply_CH1_error_term (enhanced (cal_done s1)) a (negated (dut 1 f)) row"
    using corrected_sweep [OF rd mk, of dut interrupt junk] unfolding eq by blast
  have "cx (measured s2 ! 0 ! i) = g (getFrequency i s) \<and> cx (measured s2 ! 1 ! i) = h (getFrequency i s)"
    if i: "i < sweep_points (props s)" for i
  proof -
    define f where "f = getFrequency i s"
    have H: "proper E f" "connected E std f" "e_s E f * g f \<noteq> 1" "reflects E dut f (g f)"
      "transmits E dut f (if enhanced s \<and> calibrated_here s then h f / (1 - e_s E f * g f) else h f)"
      using assms(6) [rule_format, OF i] unfolding Let_def f_def by blast+
    have sa: "standards_at (props s1) i (e_d E f) (e_s E f) (e_r E f) (e_x E f) (e_t E f)"
      using collected_standards [OF rows, of i E] i H(2) eq by (simp add: f_def)
    have i': "i < sweep_points (props s1)" using i eq by simp
    have nz: "e_r E f \<noteq> 0" "e_t E f \<noteq> 0" "e_s E f \<noteq> 1" "e_s E f \<noteq> - 1" using H(1) by (simp_all add: proper_def)
    note ex = calibration_exact [OF wf(1) s1(4) i' sa nz H(3), where h = "h f"]
    define row where "row = map (\<lambda>r. r ! i) (cal_data (props (cal_done s1)))"
    define a where "a = apply_CH0_error_term (dut 0 f) row"
    have m: "measured s2 ! 0 ! i = a" "measured s2 ! 1 ! i = apply_CH1_error_term (enhanced (cal_done s1)) a (negated (dut 1 f)) row"
      using s2(2) [rule_format, OF i] by (simp_all add: Let_def f_def a_def row_def)
    have ga: "cx a = g f" using ex H(4) unfolding a_def row_def reflects_def by blast
    show ?thesis
    proof (cases "enhanced s \<and> calibrated_here s")
      case True
      then have "cx (negated (dut 1 f)) = e_x E f + e_t E f * h f / (1 - e_s E f * g f)" using H(5) by (simp add: transmits_def)
      then have "cx (apply_CH1_error_term True a (negated (dut 1 f)) row) = h f" using ex ga unfolding row_def by blast
      then show ?thesis using m ga en True by (simp add: f_def)
    next
      case False
      then have "cx (negated (dut 1 f)) = e_x E f + e_t E f * h f" using H(5) by (auto simp: transmits_def)
      then have "cx (apply_CH1_error_term False a (negated (dut 1 f)) row) = h f" using ex unfolding row_def by blast
      then show ?thesis using m ga en False by (simp add: f_def)
    qed
  qed
  then show ?thesis using s1(1) s2(1) by blast
qed

definition as_sample :: "complex \<Rightarrow> cfloat" where
  "as_sample z = (Re z, Im z)"

lemma cx_as_sample [simp]: "cx (as_sample z) = z" "cx (negated (negated (as_sample z))) = z"
  by (simp_all add: as_sample_def cx_def negated_def complex_eq_iff)

definition bench_errors :: errors where
  "bench_errors = \<lparr>e_d = \<lambda>f. 1 / 10, e_s = \<lambda>f. 1 / 5, e_r = \<lambda>f. \<i>, e_x = \<lambda>f. 1 / 100, e_t = \<lambda>f. 3\<rparr>"

definition bench :: "complex \<Rightarrow> complex \<Rightarrow> nat \<Rightarrow> u32 \<Rightarrow> cfloat" where
  "bench g h ch f = (if ch = 0 then as_sample (reading (1 / 10) (1 / 5) \<i> g) else negated (as_sample (1 / 100 + 3 * h)))"

lemma bench_samples: "reflects bench_errors (bench g h) f g" "transmits bench_errors (bench g h) f h" "proper bench_errors f"
  by (simp_all add: reflects_def transmits_def bench_def bench_errors_def proper_def complex_eq_iff)

lemma ready_device0:
  assumes "set_frequencies 50000 900000000 401 device0 = Some s"
  shows "ready s" "props s = props0"
proof -
  have s: "props s = props0" "clk s = clock0" "measured s = replicate 2 (replicate SWEEP_POINTS_MAX (0, 0))"
    using assms by (auto simp: set_frequencies_def device0_def Let_def)
  show "props s = props0" by (rule s)
  have "getFrequency i s \<le> 900000000" if "i < 401" for i
  proof -
    have "getFrequency i s \<le> getFrequency 400 s" "getFrequency 400 s = 900000000"
      using frequency_list [OF assms, of i 400] that by (auto simp: SWEEP_POINTS_MAX_def word_le_def)
    then show ?thesis by metis
  qed
  then have "uint (getFrequency i s) \<le> 900000000" if "i < 401" for i using that by (simp add: word_le_def)
  then have "getFrequency i s \<le> 2700000000" if "i < 401" for i using that by (fastforce simp: word_le_def)
  moreover have "clock_ok clock0"
    by (auto simp: clock_ok_def clock0_def si5351_set_band_mode_def band_strategy_H4_SI5351_def intro!: exI [of _ 0])
  ultimately show "ready s"
    by (simp add: ready_def s cal_wf_def shaped_def props0_def load_default_properties_def POINTS_COUNT_DEFAULT_def SWEEP_POINTS_MAX_def)
qed

theorem full_calibration_witness:
  "\<exists>s s1 s2. set_frequencies 50000 900000000 401 device0 = Some s \<and>
    collect_all (\<lambda>t. bench (nth [0, 1, - 1, 0, 0] t) (if t = 3 then 1 else 0)) (0, 0) [2, 0, 4, 1, 3] s = Some s1 \<and>
    sweep (bench (1 / 2) (1 / 3)) (\<lambda>_. False) (0, 0) False (get_sweep_mask 0 (cal_done s1)) (cal_done s1) = Some (s2, True) \<and>
    cx (measured s2 ! 0 ! 7) = 1 / 2 \<and> cx (measured s2 ! 1 ! 7) = 1 / 3"
proof -
  obtain s where s: "set_frequencies 50000 900000000 401 device0 = Some s" by (simp add: set_frequencies_def Let_def)
  note rd = ready_device0 [OF s]
  have p0: "electrical_delay props0 = [0, 0]" "s21_offset props0 = 0" "cal_status props0 = 0" "sweep_points props0 = 401"
    by (simp_all add: props0_def load_default_properties_def POINTS_COUNT_DEFAULT_def SWEEP_POINTS_MAX_def)
  have nf: "\<not> has (cal_status (props s)) m" for m by (simp add: rd p0 has_def)
  have "\<exists>s1 s2. collect_all (\<lambda>t. bench (nth [0, 1, - 1, 0, 0] t) (if t = 3 then 1 else 0)) (0, 0) [2, 0, 4, 1, 3] s = Some s1 \<and>
    sweep (bench (1 / 2) (1 / 3)) (\<lambda>_. False) (0, 0) False (get_sweep_mask 0 (cal_done s1)) (cal_done s1) = Some (s2, True) \<and>
    (\<forall>i < sweep_points (props s). cx (measured s2 ! 0 ! i) = 1 / 2 \<and> cx (measured s2 ! 1 ! i) = 1 / 3)"
  proof (rule full_calibration [where E = bench_errors])
    show "\<forall>i < sweep_points (props s). let f = getFrequency i s in proper bench_errors f \<and>
        connected bench_errors (\<lambda>t. bench (nth [0, 1, - 1, 0, 0] t) (if t = 3 then 1 else 0)) f \<and>
        e_s bench_errors f * (1 / 2) \<noteq> 1 \<and> reflects bench_errors (bench (1 / 2) (1 / 3)) f (1 / 2) \<and>
        transmits bench_errors (bench (1 / 2) (1 / 3)) f (if enhanced s \<and> calibrated_here s then 1 / 3 / (1 - e_s bench_errors f * (1 / 2)) else 1 / 3)"
      using nf by (auto simp: enhanced_def connected_def bench_samples bench_errors_def [THEN arg_cong, of e_s] Let_def)
  qed (use rd nf p0 in \<open>auto simp: flag_honest_def\<close>)
  then show ?thesis using s rd p0 by auto
qed

subsection \<open>Bandwidth\<close>

text \<open>Collecting a standard restores the bandwidth through an 8-bit copy: a setting of 256 or
  more, which the shell command accepts up to 511, comes back as its remainder modulo 256.\<close>
theorem cal_collect_bandwidth:
  assumes "ready s" "type < 5"
  shows "\<exists>s'. cal_collect sample junk type s = Some s' \<and> bandwidth (config s') = bandwidth (config s) mod 256"
  using cal_collect_spec [OF assms] by blast

theorem cal_collect_bandwidth_witness:
  "\<exists>s s'. bandwidth (config s) = 363 \<and> cal_collect (bench 0 0) (0, 0) 0 s = Some s' \<and> bandwidth (config s') = 107"
proof -
  obtain s where s: "set_frequencies 50000 900000000 401 device0 = Some s" by (simp add: set_frequencies_def Let_def)
  let ?s = "s\<lparr>config := (config s)\<lparr>bandwidth := 363\<rparr>\<rparr>"
  have "ready ?s" using ready_device0(1) [OF s] by (simp add: ready_def getFrequency_def)
  then obtain s' where "cal_collect (bench 0 0) (0, 0) 0 ?s = Some s'" "bandwidth (config s') = bandwidth (config ?s) mod 256"
    using cal_collect_bandwidth [of ?s 0 "bench 0 0" "(0, 0)"] by auto
  then show ?thesis by (intro exI [of _ ?s] exI [of _ s']) simp
qed

end
