(* ===== verification/SweepRun.thy ===== *)
theory SweepRun
  imports CalRun
begin

unbundle bit_operations_syntax

text \<open>
  The sweep as a resumable process: the measurement thread calls \<^verbatim>\<open>sweep\<close> again and again, each call may be
  interrupted by the user interface after any point, and the next call goes on at the point where the
  last one stopped, which is measured once more.
\<close>

definition both_channels :: u16 where "both_channels = SWEEP_CH0_MEASURE OR SWEEP_CH1_MEASURE"

text \<open>The states after any number of calls, interrupted at arbitrary points.\<close>

inductive sweep_resumed :: "(nat \<Rightarrow> u32 \<Rightarrow> cfloat) \<Rightarrow> u16 \<Rightarrow> vna \<Rightarrow> vna \<Rightarrow> bool" for sample m s where
  first: "sweep_resumed sample m s s"
| again: "sweep_resumed sample m s s1 \<Longrightarrow> sweep sample interrupt junk True m s1 = Some (s2, finished) \<Longrightarrow> sweep_resumed sample m s s2"

text \<open>A point of both channels without any correction, with or without the interpolation flag.\<close>

definition uncorrected :: "u16 \<Rightarrow> bool" where
  "uncorrected m \<longleftrightarrow> has m SWEEP_CH0_MEASURE \<and> has m SWEEP_CH1_MEASURE \<and> \<not> has m SWEEP_APPLY_CALIBRATION \<and>
     \<not> has m SWEEP_APPLY_EDELAY_S11 \<and> \<not> has m SWEEP_APPLY_EDELAY_S21 \<and> \<not> has m SWEEP_APPLY_S21_OFFSET"

lemma sweep_point_uncorrected:
  assumes "clock_ok c" "getFrequency i s \<le> 2700000000" "i < SWEEP_POINTS_MAX" "uncorrected m"
  shows "\<exists>c' d'. sweep_point sample m (d, at_point c i ms s) =
    Some (d', at_point c' i (put_point (Some (sample 0 (getFrequency i s))) (Some (negated (sample 1 (getFrequency i s)))) i ms) s) \<and> clock_ok c'"
proof -
  obtain c' t where c': "si5351_set_frequency (getFrequency i s) (power (props s)) c = Some (c', t)" "clock_ok c'"
    using set_frequency_total [OF assms(1,2)] by blast
  have "sweep_point sample m (d, at_point c i ms s) = Some (sample 0 (getFrequency i s),
      at_point c' i (put_point (Some (sample 0 (getFrequency i s))) (Some (negated (sample 1 (getFrequency i s)))) i ms) s)"
    using c' assms(3,4) by (simp add: sweep_point_def uncorrected_def Let_def put_point_def negated_def)
  then show ?thesis using c'(2) by blast
qed

lemma both_uncorrected: "uncorrected both_channels"
  by (simp add: uncorrected_def both_channels_def mask_defs has_def)

text \<open>Everything before the current point has been measured with the present settings.\<close>

definition measured_to :: "(nat \<Rightarrow> u32 \<Rightarrow> cfloat) \<Rightarrow> vna \<Rightarrow> vna \<Rightarrow> nat \<Rightarrow> bool" where
  "measured_to sample s s1 k \<longleftrightarrow> (\<exists>c ms. s1 = at_point c k ms s \<and> clock_ok c \<and> shaped ms \<and> k \<le> sweep_points (props s) \<and>
     (\<forall>i<k. ms ! 0 ! i = sample 0 (getFrequency i s) \<and> ms ! 1 ! i = negated (sample 1 (getFrequency i s))))"

lemma at_point_inject [simp]: "at_point c i ms s = at_point c' i' ms' s \<longleftrightarrow> c = c' \<and> i = i' \<and> ms = ms'"
  by (metis at_point_simps(1,3,4))

lemma sweep_loop_progress:
  assumes "ready s" "measured_to sample s s1 k"
  shows "\<exists>s2 k'. sweep_loop sample interrupt True both_channels (sweep_points (props s)) (d, s1) = Some s2 \<and>
    measured_to sample s s2 k' \<and> k \<le> k' \<and> ((\<forall>i. \<not> interrupt i) \<longrightarrow> k' = sweep_points (props s))"
  using assms(2)
proof (induction "sweep_points (props s) - k" arbitrary: k s1 d)
  case 0
  then have "k = sweep_points (props s)" "p_sweep s1 = k" by (auto simp: measured_to_def)
  then show ?case using 0 by (subst sweep_loop.simps) auto
next
  case (Suc x)
  let ?n = "sweep_points (props s)"
  obtain c ms where s1: "s1 = at_point c k ms s" "clock_ok c" "shaped ms" "k \<le> ?n"
    "\<forall>i<k. ms ! 0 ! i = sample 0 (getFrequency i s) \<and> ms ! 1 ! i = negated (sample 1 (getFrequency i s))"
    using Suc.prems by (auto simp: measured_to_def)
  have k: "k < ?n" "?n \<le> SWEEP_POINTS_MAX" "getFrequency k s \<le> 2700000000"
    using Suc.hyps(2) assms(1) by (auto simp: ready_def cal_wf_def)
  let ?ms = "put_point (Some (sample 0 (getFrequency k s))) (Some (negated (sample 1 (getFrequency k s)))) k ms"
  obtain c' d' where p: "sweep_point sample both_channels (d, at_point c k ms s) = Some (d', at_point c' k ?ms s)" "clock_ok c'"
    using sweep_point_uncorrected [OF s1(2) k(3) _ both_uncorrected] k by (meson order.strict_trans2)
  have st: "\<forall>i<j. ?ms ! 0 ! i = sample 0 (getFrequency i s) \<and> ?ms ! 1 ! i = negated (sample 1 (getFrequency i s))" if "j \<le> Suc k" for j
    using put_point_nth [OF s1(3)] s1(5) k that by (auto simp: less_Suc_eq)
  show ?case
  proof (cases "interrupt k")
    case True
    then have "sweep_loop sample interrupt True both_channels ?n (d, s1) = Some (at_point c' k ?ms s)"
      using k p by (subst sweep_loop.simps) (simp add: s1(1))
    moreover have "measured_to sample s (at_point c' k ?ms s) k"
      using p(2) shaped_put [OF s1(3)] s1(4) st [of k] unfolding measured_to_def by auto
    ultimately show ?thesis using True by blast
  next
    case False
    then have l: "sweep_loop sample interrupt True both_channels ?n (d, s1) =
        sweep_loop sample interrupt True both_channels ?n (d', at_point c' (Suc k) ?ms s)"
      using k p by (subst sweep_loop.simps) (simp add: s1(1))
    have "measured_to sample s (at_point c' (Suc k) ?ms s) (Suc k)"
      using p(2) shaped_put [OF s1(3)] k(1) st [of "Suc k"] unfolding measured_to_def by (intro exI [of _ c'] exI [of _ ?ms]) auto
    from Suc.hyps(1) [OF _ this] Suc.hyps(2) show ?thesis unfolding l by (metis Suc_leD diff_Suc_Suc Suc_diff_Suc k(1) nat.inject)
  qed
qed

lemma sweep_call:
  assumes "ready s" "measured_to sample s s1 k"
  shows "\<exists>s2 k' b. sweep sample interrupt junk True both_channels s1 = Some (s2, b) \<and> measured_to sample s s2 k' \<and>
    (b \<longleftrightarrow> k' = sweep_points (props s)) \<and> ((\<forall>i. \<not> interrupt i) \<longrightarrow> b)"
proof -
  let ?s1 = "if p_sweep s1 \<ge> sweep_points (props s1) then s1\<lparr>p_sweep := 0\<rparr> else s1"
  have "measured_to sample s (s1\<lparr>p_sweep := 0\<rparr>) 0" using assms(2) by (auto simp: measured_to_def)
  then obtain k1 where k1: "measured_to sample s ?s1 k1" using assms(2) by (cases "p_sweep s1 \<ge> sweep_points (props s1)") auto
  have pr: "props ?s1 = props s" "props s1 = props s" using assms(2) by (auto simp: measured_to_def)
  have "both_channels \<noteq> 0" by (simp add: both_channels_def mask_defs)
  then have "sweep sample interrupt junk True both_channels s1 =
      map_option (\<lambda>s. (s, p_sweep s = sweep_points (props s))) (sweep_loop sample interrupt True both_channels (sweep_points (props s)) (junk, ?s1))"
    using pr by (simp add: sweep_def Let_def)
  moreover obtain s2 k' where "sweep_loop sample interrupt True both_channels (sweep_points (props s)) (junk, ?s1) = Some s2"
    "measured_to sample s s2 k'" "(\<forall>i. \<not> interrupt i) \<longrightarrow> k' = sweep_points (props s)"
    using sweep_loop_progress [OF assms(1) k1] by blast
  moreover have "p_sweep s2 = k'" "props s2 = props s" using \<open>measured_to sample s s2 k'\<close> by (auto simp: measured_to_def)
  ultimately show ?thesis by auto
qed



end
