(* ===== verification/Interp.thy ===== *)
theory Interp
  imports Calibration
begin

text \<open>
  Correction between calibrated points: which calibrated interval a frequency falls into, the linear
  interpolation of the error terms inside it, and its behaviour at the edges of the range and at a
  change of the harmonic band.
\<close>

lemma interval_bracket:
  fixes S N x :: int
  assumes "0 < N" "0 < S" "0 \<le> x"
  defines "k \<equiv> x * N div S"
  shows "(S * k + N div 2) div N \<le> x" "x \<le> (S * (k + 1) + N div 2) div N"
proof -
  obtain r where r: "x * N = S * k + r" "0 \<le> r" "r < S"
    using mult_div_mod_eq [of S "x * N"] pos_mod_sign [OF assms(2)] pos_mod_bound [OF assms(2)] by (metis k_def)
  have h: "0 \<le> N div 2" "N div 2 < N" using assms(1) by auto
  have "(S * k + N div 2) div N \<le> (x * N + N div 2) div N" using r(1,2) assms(1) by (intro zdiv_mono1) simp_all
  also have "(x * N + N div 2) div N = x" using h by (simp add: div_add1_eq)
  finally show "(S * k + N div 2) div N \<le> x" .
  have "x = x * N div N" using assms(1) by simp
  also have "\<dots> \<le> (S * (k + 1) + N div 2) div N"
    using r(1,3) h assms(1) by (intro zdiv_mono1) (simp_all add: distrib_left)
  finally show "x \<le> (S * (k + 1) + N div 2) div N" .
qed

lemma interval_index:
  fixes S N x :: int
  assumes "0 < N" "0 \<le> x" "x < S"
  shows "0 \<le> x * N div S" "x * N div S < N"
proof -
  show "0 \<le> x * N div S" using assms by (simp add: pos_imp_zdiv_nonneg_iff)
  have "x * N < N * S" using assms by (simp add: mult.commute)
  moreover have "S * (x * N div S) \<le> x * N" using mult_div_mod_eq [of S "x * N"] pos_mod_sign [of S "x * N"] assms by linarith
  ultimately have "S * (x * N div S) < S * N" by (simp add: mult.commute)
  then show "x * N div S < N" using assms by simp
qed

text \<open>The two neighbours are points of the list that was calibrated.\<close>

lemma cal_locate_spec:
  assumes "cal_frequency0 p < f" "f < cal_frequency1 p" "cal_sweep_points p \<le> SWEEP_POINTS_MAX"
    and "set_frequencies (cal_frequency0 p) (cal_frequency1 p) (cal_sweep_points p) s = Some t"
  shows "\<exists>k. cal_locate p f = (k, getFrequency k t, getFrequency (k + 1) t) \<and> k + 1 < cal_sweep_points p \<and>
     getFrequency k t \<le> f \<and> f \<le> getFrequency (k + 1) t"
proof -
  let ?c0 = "cal_frequency0 p" and ?n = "cal_sweep_points p"
  define S N x where "S = uint (cal_frequency1 p) - uint ?c0" and "N = int ?n - 1" and "x = uint f - uint ?c0"
  have le: "?c0 \<le> cal_frequency1 p" "?c0 \<le> f" using assms(1,2) by auto
  have n: "2 \<le> ?n" using assms(4) by (auto simp: set_frequencies_def Let_def split: if_splits)
  have p15: "?n \<le> 2 ^ 15" using assms(3) by (simp add: SWEEP_POINTS_MAX_def)
  have u: "uint (cal_frequency1 p - ?c0) = S" "uint (f - ?c0) = x"
    using le by (simp_all add: S_def x_def word_le_def uint_sub_lem)
  have r: "0 < N" "0 \<le> x" "x < S" using n assms(1,2) by (simp_all add: N_def x_def S_def word_less_def)
  define k where "k = nat (x * N div S)"
  have k: "int k = x * N div S" "k + 1 < ?n" using interval_index [OF r] n by (auto simp: k_def N_def)
  have N: "int (?n - 1) = N" "int ((?n - 1) div 2) = N div 2" using n by (simp_all add: N_def of_nat_diff zdiv_int)
  have g: "uint (getFrequency j t) = uint ?c0 + (S * int j + N div 2) div N" if "j < ?n" for j
    using getFrequency_rounds [OF assms(4) le(1) p15 that] by (simp add: S_def N_def)
  have w: "?c0 + word_of_int ((S * int j + N div 2) div N) = getFrequency j t" if "j < ?n" for j
  proof -
    have "getFrequency j t = word_of_int (uint ?c0 + (S * int j + N div 2) div N)" by (metis g [OF that] word_of_int_uint)
    then show ?thesis by simp
  qed
  have "cal_locate p f = (k, getFrequency k t, getFrequency (k + 1) t)"
  proof -
    have "S * (x * N div S) + N div 2 + S = S * int (k + 1) + N div 2" unfolding k(1) [symmetric] by (simp add: distrib_left)
    then have "?c0 + word_of_int ((S * (x * N div S) + N div 2 + S) div N) = getFrequency (k + 1) t" using w [OF k(2)] by (simp only:)
    moreover have "?c0 + word_of_int ((S * (x * N div S) + N div 2) div N) = getFrequency k t"
      using w [of k] k(2) unfolding k(1) [symmetric] by simp
    ultimately show ?thesis unfolding cal_locate_def Let_def u N k_def [symmetric] by simp
  qed
  moreover have "getFrequency k t \<le> f" "f \<le> getFrequency (k + 1) t"
  proof -
    have "uint (getFrequency (k + 1) t) = uint ?c0 + (S * (x * N div S + 1) + N div 2) div N"
      using g [OF k(2)] k(1) by (simp add: add.commute)
    then show "getFrequency k t \<le> f" "f \<le> getFrequency (k + 1) t"
      using interval_bracket [of N S x] r g [of k] k unfolding word_le_def x_def by simp_all
  qed
  ultimately show ?thesis using k(2) by blast
qed


text \<open>The linear blend of the error terms of two calibrated points.\<close>

definition blended :: "properties \<Rightarrow> nat \<Rightarrow> real \<Rightarrow> nat \<Rightarrow> cfloat" where
  "blended p k w e = (fst (cal_data p ! e ! k) + w * (fst (cal_data p ! e ! (k + 1)) - fst (cal_data p ! e ! k)),
     snd (cal_data p ! e ! k) + w * (snd (cal_data p ! e ! (k + 1)) - snd (cal_data p ! e ! k)))"

lemma cal_blend_eq:
  assumes "k + 1 < SWEEP_POINTS_MAX" "length (cal_data p) = 5"
  shows "cal_blend p k w = Some (map (blended p k w) [0..<5])"
  using assms by (auto simp: cal_blend_def cal_row_def blended_def intro!: nth_equalityI)

lemma cal_row_eq:
  assumes "k + 1 < SWEEP_POINTS_MAX" "length (cal_data p) = 5"
  shows "cal_row p k = Some (map (blended p k 0) [0..<5])"
  using assms by (auto simp: cal_row_def blended_def intro!: nth_equalityI)



definition cal_example :: "u32 \<Rightarrow> u32 \<Rightarrow> vna" where
  "cal_example lo hi = device0\<lparr>props := props0\<lparr>cal_frequency0 := lo, cal_frequency1 := hi, cal_sweep_points := 401\<rparr>\<rparr>"

lemma cal_example_simps:
  "cal_frequency0 (props (cal_example lo hi)) = lo" "cal_frequency1 (props (cal_example lo hi)) = hi"
  "cal_sweep_points (props (cal_example lo hi)) = 401" "clk (cal_example lo hi) = clock0"
  "length (cal_data (props (cal_example lo hi))) = 5"
  by (simp_all add: cal_example_def device0_def props0_def load_default_properties_def)

lemma low_band: "2000000 \<le> f \<Longrightarrow> f \<le> 90000000 \<Longrightarrow> si5351_get_harmonic_lvl clock0 f = Some 2"
  by (simp add: si5351_get_harmonic_lvl_def clock0_def band_strategy_H4_SI5351_def Let_def word_le_def)



end
