(* ===== verification/Storage.thy ===== *)
theory Storage
  imports Sweep
begin

text \<open>
  Settings in non-volatile memory: the flash driver (\<^verbatim>\<open>NANOVNA_STM32_F303/flash.c\<close>), the checksummed
  configuration and calibration slots (\<^verbatim>\<open>data_storage.c\<close>) and the battery-backed registers that
  restore the last state at start (\<^verbatim>\<open>update_backup_data\<close>, \<^verbatim>\<open>load_settings\<close> and \<^verbatim>\<open>load_properties\<close> of
  \<^verbatim>\<open>main.c\<close>).  Flash is a map from start addresses to the structure stored there; erasing a page
  destroys every structure that overlaps it.  The words of a structure in memory are the compiler's
  choice, so they are a parameter of the checksum.  The whole is refined to an abstract store of
  slots without checksums, cache, pages and addresses.
\<close>

subsection \<open>Simulation\<close>

locale forward_simulation =
  fixes step :: "'op \<Rightarrow> 'c \<Rightarrow> ('c \<times> 'r) option"
    and spec :: "'op \<Rightarrow> 'a \<Rightarrow> 'a \<times> 'r"
    and abs :: "'c \<Rightarrow> 'a"
    and inv :: "'c \<Rightarrow> bool"
  assumes sim: "inv c \<Longrightarrow> \<exists>c' r. step p c = Some (c', r) \<and> inv c' \<and> spec p (abs c) = (abs c', r)"

fun run_ops :: "('op \<Rightarrow> 'c \<Rightarrow> ('c \<times> 'r) option) \<Rightarrow> 'op list \<Rightarrow> 'c \<Rightarrow> ('c \<times> 'r list) option" where
  "run_ops step [] c = Some (c, [])"
| "run_ops step (p # ps) c = (case step p c of None \<Rightarrow> None | Some (c', r) \<Rightarrow>
     map_option (\<lambda>(c'', rs). (c'', r # rs)) (run_ops step ps c'))"

fun run_spec :: "('op \<Rightarrow> 'a \<Rightarrow> 'a \<times> 'r) \<Rightarrow> 'op list \<Rightarrow> 'a \<Rightarrow> 'a \<times> 'r list" where
  "run_spec spec [] a = (a, [])"
| "run_spec spec (p # ps) a = (let (a', r) = spec p a; (a'', rs) = run_spec spec ps a' in (a'', r # rs))"

context forward_simulation
begin

lemma run_refines:
  "inv c \<Longrightarrow> \<exists>c' rs. run_ops step ps c = Some (c', rs) \<and> inv c' \<and> run_spec spec ps (abs c) = (abs c', rs)"
proof (induction ps arbitrary: c)
  case (Cons p ps)
  obtain c1 r where s: "step p c = Some (c1, r)" "inv c1" "spec p (abs c) = (abs c1, r)"
    using sim [OF Cons.prems] by blast
  obtain c2 rs where "run_ops step ps c1 = Some (c2, rs)" "inv c2" "run_spec spec ps (abs c1) = (abs c2, rs)"
    using Cons.IH [OF s(2)] by blast
  then show ?case using s by (intro exI [of _ c2] exI [of _ "r # rs"]) simp
qed simp

end

subsection \<open>Flash\<close>

record cfg_image =
  img_config :: config
  img_harmonic_freq_threshold :: u32
  img_IF_freq :: u32
  img_xtal_freq :: u32

datatype image = ConfigImage cfg_image u32 | PropImage properties u32

type_synonym flash_map = "nat \<Rightarrow> image option"

definition FLASH_START_ADDRESS :: nat where "FLASH_START_ADDRESS = 0x08000000"
definition FLASH_TOTAL_SIZE :: nat where "FLASH_TOTAL_SIZE = 256 * 1024"
definition FLASH_PAGESIZE :: nat where "FLASH_PAGESIZE = 0x800"
definition SAVE_CONFIG_SIZE :: nat where "SAVE_CONFIG_SIZE = 0x800"
definition SAVE_PROP_CONFIG_SIZE :: nat where "SAVE_PROP_CONFIG_SIZE = 0x4000"
definition SAVE_FULL_AREA_SIZE :: nat where
  "SAVE_FULL_AREA_SIZE = SAVE_CONFIG_SIZE + SAVEAREA_MAX * SAVE_PROP_CONFIG_SIZE"
definition SAVE_CONFIG_ADDR :: nat where
  "SAVE_CONFIG_ADDR = FLASH_START_ADDRESS + FLASH_TOTAL_SIZE - SAVE_CONFIG_SIZE"
definition SAVE_PROP_CONFIG_ADDR :: nat where
  "SAVE_PROP_CONFIG_ADDR = FLASH_START_ADDRESS + FLASH_TOTAL_SIZE - SAVE_FULL_AREA_SIZE"

lemmas layout_defs = FLASH_START_ADDRESS_def FLASH_TOTAL_SIZE_def FLASH_PAGESIZE_def SAVE_CONFIG_SIZE_def
  SAVE_PROP_CONFIG_SIZE_def SAVE_FULL_AREA_SIZE_def SAVE_CONFIG_ADDR_def SAVE_PROP_CONFIG_ADDR_def SAVEAREA_MAX_def

text \<open>The sizes of \<^verbatim>\<open>config_t\<close> and \<^verbatim>\<open>properties_t\<close>: 32 palette entries, 4 traces of 12 bytes, 8 markers
  of 8 bytes and 5 error terms of 401 complex floats, with the padding of 4-byte alignment.\<close>

definition sizeof_config :: nat where "sizeof_config = 12 + 4 * 2 + 4 * 2 + 2 + 32 * 2 + 2 + 3 * 4 + 4 + 4"

definition sizeof_properties :: nat where
  "sizeof_properties = 6 * 4 + 2 * 2 + 6 + 2 * 2 + 2 + TRACES_MAX * 12 + MARKERS_MAX * 8 + 4 + 6 * 4 + 7 * 4 +
     5 * SWEEP_POINTS_MAX * 8 + 4"

fun image_size :: "image \<Rightarrow> nat" where
  "image_size (ConfigImage _ _) = sizeof_config"
| "image_size (PropImage _ _) = sizeof_properties"

definition flash_erase_page0 :: "nat \<Rightarrow> flash_map \<Rightarrow> flash_map" where
  "flash_erase_page0 page f = (\<lambda>a. case f a of None \<Rightarrow> None
     | Some im \<Rightarrow> if a < page + FLASH_PAGESIZE \<and> page < a + image_size im then None else Some im)"

function erase_loop :: "nat \<Rightarrow> nat \<Rightarrow> flash_map \<Rightarrow> flash_map" where
  "erase_loop page_address sz f =
     (if page_address < sz then erase_loop (page_address + FLASH_PAGESIZE) sz (flash_erase_page0 page_address f) else f)"
  by pat_completeness auto
termination
  by (relation "measure (\<lambda>(p, n, f). n - p)") (auto simp: FLASH_PAGESIZE_def)

declare erase_loop.simps [simp del]

definition flash_erase_pages :: "nat \<Rightarrow> nat \<Rightarrow> flash_map \<Rightarrow> flash_map" where
  "flash_erase_pages page_address sz = erase_loop page_address (sz + page_address)"

definition flash_program_half_word_buffer :: "nat \<Rightarrow> image \<Rightarrow> flash_map \<Rightarrow> flash_map" where
  "flash_program_half_word_buffer dst im f = (flash_erase_pages dst (image_size im) f)(dst := Some im)"

subsection \<open>Saved settings\<close>

record board =
  dev :: vna
  checksum_ok :: u8
  flash :: flash_map
  backup :: "u32 list"
  data_update :: u8

record layout =
  config_words :: "cfg_image \<Rightarrow> u32 list"
  prop_words :: "properties \<Rightarrow> u32 list"

definition calibration_slot_area :: "nat \<Rightarrow> nat" where
  "calibration_slot_area slot = SAVE_PROP_CONFIG_ADDR + slot * SAVE_PROP_CONFIG_SIZE"

definition checksum :: "u32 list \<Rightarrow> u32" where
  "checksum ws = fold (\<lambda>w val. word_rotr 31 val + w) ws 0"

definition config_image :: "vna \<Rightarrow> cfg_image" where
  "config_image s = \<lparr>img_config = config s, img_harmonic_freq_threshold = harmonic_freq_threshold (clk s),
     img_IF_freq = IF_freq (clk s), img_xtal_freq = xtal_freq (clk s)\<rparr>"

definition load_image :: "cfg_image \<Rightarrow> vna \<Rightarrow> vna" where
  "load_image im s = s\<lparr>config := img_config im,
     clk := (clk s)\<lparr>harmonic_freq_threshold := img_harmonic_freq_threshold im, IF_freq := img_IF_freq im,
       xtal_freq := img_xtal_freq im\<rparr>\<rparr>"

definition config_save :: "layout \<Rightarrow> board \<Rightarrow> board \<times> int" where
  "config_save L b =
     (let b = b\<lparr>dev := (dev b)\<lparr>config := (config (dev b))\<lparr>cf_magic := CONFIG_MAGIC\<rparr>\<rparr>\<rparr>;
          im = config_image (dev b) in
      (b\<lparr>flash := flash_program_half_word_buffer SAVE_CONFIG_ADDR
           (ConfigImage im (checksum (config_words L im))) (flash b)\<rparr>, 0))"

definition config_recall :: "layout \<Rightarrow> board \<Rightarrow> board \<times> int" where
  "config_recall L b = (case flash b SAVE_CONFIG_ADDR of
       Some (ConfigImage im c) \<Rightarrow>
         if cf_magic (img_config im) \<noteq> CONFIG_MAGIC \<or> checksum (config_words L im) \<noteq> c then (b, -1)
         else (b\<lparr>dev := load_image im (dev b)\<rparr>, 0)
     | _ \<Rightarrow> (b, -1))"

definition caldata_save :: "layout \<Rightarrow> nat \<Rightarrow> board \<Rightarrow> board \<times> int" where
  "caldata_save L slot b =
     (if slot \<ge> SAVEAREA_MAX then (b, -1)
      else
        let b = b\<lparr>dev := on_props (\<lambda>p. p\<lparr>pr_magic := PROPERTIES_MAGIC\<rparr>) (dev b)\<rparr>;
            p = props (dev b);
            b = b\<lparr>flash := flash_program_half_word_buffer (calibration_slot_area slot)
                   (PropImage p (checksum (prop_words L p))) (flash b)\<rparr> in
        (b\<lparr>dev := (dev b)\<lparr>lastsaveid := slot\<rparr>\<rparr>, 0))"

text \<open>The result of \<^verbatim>\<open>get_properties\<close> is a pointer into flash: the null pointer, or the address whose
  content the caller then reads.\<close>

definition get_properties :: "layout \<Rightarrow> nat \<Rightarrow> board \<Rightarrow> board \<times> nat option" where
  "get_properties L slot b =
     (if slot \<ge> SAVEAREA_MAX then (b, None)
      else
        let src = calibration_slot_area slot in
        if has (checksum_ok b) (push_bit slot 1) then (b, Some src)
        else case flash b src of
            Some (PropImage p c) \<Rightarrow>
              if pr_magic p \<noteq> PROPERTIES_MAGIC \<or> checksum (prop_words L p) \<noteq> c then (b, None)
              else (b\<lparr>checksum_ok := checksum_ok b OR push_bit slot 1\<rparr>, Some src)
          | _ \<Rightarrow> (b, None))"

definition caldata_recall :: "layout \<Rightarrow> nat \<Rightarrow> board \<Rightarrow> (board \<times> int) option" where
  "caldata_recall L slot b =
     (let b = b\<lparr>dev := (dev b)\<lparr>lastsaveid := NO_SAVE_SLOT\<rparr>\<rparr> in
      if slot = NO_SAVE_SLOT then Some (b, 0)
      else case get_properties L slot b of
          (b, None) \<Rightarrow> Some (b, 1)
        | (b, Some src) \<Rightarrow> (case flash b src of
            Some (PropImage p c) \<Rightarrow> Some (b\<lparr>dev := (dev b)\<lparr>lastsaveid := slot, props := p\<rparr>\<rparr>, 0)
          | _ \<Rightarrow> None))"

definition clear_all_config_prop_data :: "board \<Rightarrow> board" where
  "clear_all_config_prop_data b =
     b\<lparr>dev := (dev b)\<lparr>lastsaveid := NO_SAVE_SLOT\<rparr>, checksum_ok := 0,
       flash := flash_erase_pages SAVE_PROP_CONFIG_ADDR SAVE_FULL_AREA_SIZE (flash b)\<rparr>"

subsection \<open>Backup registers\<close>

definition set_backup_data32 :: "nat \<Rightarrow> u32 \<Rightarrow> board \<Rightarrow> board" where
  "set_backup_data32 i d b = b\<lparr>backup := (backup b)[i := d]\<rparr>"

definition get_backup_data32 :: "nat \<Rightarrow> board \<Rightarrow> u32" where
  "get_backup_data32 i b = (if i < 5 then backup b ! i else 0)"

definition backup_0 :: "u32 \<Rightarrow> u32 \<Rightarrow> u32 \<Rightarrow> u32 \<Rightarrow> u32 \<Rightarrow> u32" where
  "backup_0 points bw slot leveler bright =
     take_bit 9 points OR push_bit 9 (take_bit 9 bw) OR push_bit 18 (take_bit 4 slot) OR
     push_bit 22 (take_bit 3 leveler) OR push_bit 25 (take_bit 7 bright)"

definition bk_points :: "u32 \<Rightarrow> nat" where "bk_points v = unat (take_bit 9 v)"
definition bk_bw :: "u32 \<Rightarrow> nat" where "bk_bw v = unat (take_bit 9 (drop_bit 9 v))"
definition bk_id :: "u32 \<Rightarrow> nat" where "bk_id v = unat (take_bit 4 (drop_bit 18 v))"
definition bk_leveler :: "u32 \<Rightarrow> nat" where "bk_leveler v = unat (take_bit 3 (drop_bit 22 v))"
definition bk_brightness :: "u32 \<Rightarrow> nat" where "bk_brightness v = unat (take_bit 7 (drop_bit 25 v))"

definition update_backup_data :: "board \<Rightarrow> board" where
  "update_backup_data b =
     (let s = dev b;
          v = backup_0 (of_nat (sweep_points (props s))) (of_nat (bandwidth (config s))) (of_nat (lastsaveid s))
                (of_nat (lever_mode (config s))) (of_nat (brightness (config s)));
          b = set_backup_data32 0 v b;
          b = set_backup_data32 1 (frequency0 (props s)) b;
          b = set_backup_data32 2 (frequency1 (props s)) b;
          b = set_backup_data32 3 (var_freq (props s)) b in
      set_backup_data32 4 (ucast (vna_mode (config s))) b)"

definition MEASURE_END :: nat where "MEASURE_END = 11"

definition plot_set_measure_mode :: "nat \<Rightarrow> board \<Rightarrow> board" where
  "plot_set_measure_mode m b =
     (if m \<ge> MEASURE_END then b
      else b\<lparr>dev := request_to_redraw REDRAW_AREA (on_props (\<lambda>p. p\<lparr>measure_mode := m\<rparr>) (dev b)), data_update := 0xFF\<rparr>)"

definition refresh_settings :: "board \<Rightarrow> board option" where
  "refresh_settings b = map_option (\<lambda>s. plot_set_measure_mode (measure_mode (props s)) (b\<lparr>dev := s\<rparr>))
     (update_frequencies (dev b))"

definition restore_backup :: "layout \<Rightarrow> u32 \<Rightarrow> board \<Rightarrow> board option" where
  "restore_backup L v b =
     (case (if bk_id v < SAVEAREA_MAX then caldata_recall L (bk_id v) b else Some (b, 1)) of
        None \<Rightarrow> None
      | Some (b, r) \<Rightarrow>
        (case (if bk_id v < SAVEAREA_MAX \<and> r = 0
               then Some (b\<lparr>dev := on_props (\<lambda>p. p\<lparr>sweep_points := bk_points v, frequency0 := get_backup_data32 1 b,
                        frequency1 := get_backup_data32 2 b, var_freq := get_backup_data32 3 b\<rparr>) (dev b)\<rparr>)
               else map_option fst (caldata_recall L 0 b)) of
           None \<Rightarrow> None
         | Some b \<Rightarrow> Some (b\<lparr>dev := set_bandwidth (bk_bw v)
             ((dev b)\<lparr>config := (config (dev b))\<lparr>brightness := bk_brightness v, lever_mode := bk_leveler v,
                vna_mode := ucast (get_backup_data32 4 b) OR push_bit VNA_MODE_BACKUP 1\<rparr>\<rparr>)\<rparr>)))"

definition load_settings :: "layout \<Rightarrow> board \<Rightarrow> board option" where
  "load_settings L b =
     (let b = b\<lparr>dev := on_props load_default_properties (dev b)\<rparr>;
          (b, r) = config_recall L b in
      case (if r = 0 \<and> VNA_MODE VNA_MODE_BACKUP (dev b)
            then let v = get_backup_data32 0 b in
                 if v \<noteq> 0 then restore_backup L v b else map_option fst (caldata_recall L 0 b)
            else map_option fst (caldata_recall L 0 b)) of
        None \<Rightarrow> None
      | Some b \<Rightarrow> refresh_settings b)"

definition load_properties :: "layout \<Rightarrow> nat \<Rightarrow> board \<Rightarrow> (board \<times> int) option" where
  "load_properties L slot b = (case caldata_recall L slot b of
     None \<Rightarrow> None
   | Some (b, r) \<Rightarrow> map_option (\<lambda>b. (b, r)) (refresh_settings b))"


subsection \<open>Erasing and writing\<close>

lemma erase_page_None: "f a = None \<Longrightarrow> flash_erase_page0 p f a = None"
  by (simp add: flash_erase_page0_def)

lemma erase_loop_None: "f a = None \<Longrightarrow> erase_loop p n f a = None"
proof (induction p n f rule: erase_loop.induct)
  case (1 p n f)
  then show ?case by (subst erase_loop.simps) (simp add: erase_page_None)
qed

lemma erase_loop_below:
  "f a = Some im \<Longrightarrow> a + image_size im \<le> p \<Longrightarrow> erase_loop p n f a = Some im"
proof (induction p n f rule: erase_loop.induct)
  case (1 p n f)
  then show ?case by (subst erase_loop.simps) (simp add: flash_erase_page0_def)
qed

lemma erase_loop_above:
  "f a = Some im \<Longrightarrow> n \<le> p + k * FLASH_PAGESIZE \<Longrightarrow> p + k * FLASH_PAGESIZE \<le> a \<Longrightarrow> erase_loop p n f a = Some im"
proof (induction p n f arbitrary: k rule: erase_loop.induct)
  case (1 p n f)
  show ?case
  proof (cases "p < n")
    case True
    then obtain j where k: "k = Suc j" using "1.prems"(2) by (cases k) auto
    have "flash_erase_page0 p f a = Some im" using "1.prems" k by (simp add: flash_erase_page0_def)
    then show ?thesis
      using "1.IH" [OF True, of j] "1.prems" k by (subst erase_loop.simps) (simp add: True algebra_simps)
  next
    case False
    then show ?thesis using "1.prems" by (subst erase_loop.simps) simp
  qed
qed

lemma image_size_pos: "0 < image_size im"
  by (cases im) (simp_all add: sizeof_config_def sizeof_properties_def)

lemma erase_loop_hit: "p \<le> a \<Longrightarrow> a < n \<Longrightarrow> erase_loop p n f a = None"
proof (induction p n f rule: erase_loop.induct)
  case (1 p n f)
  then have pn: "p < n" by simp
  show ?case
  proof (cases "a < p + FLASH_PAGESIZE")
    case True
    then have "flash_erase_page0 p f a = None"
      using "1.prems"(1) image_size_pos by (auto simp: flash_erase_page0_def split: option.split intro: le_less_trans)
    then show ?thesis by (subst erase_loop.simps) (simp add: pn erase_loop_None)
  next
    case False
    then show ?thesis using "1.IH" [OF pn] "1.prems" by (subst erase_loop.simps) (simp add: pn)
  qed
qed

lemma image_fits: "image_size im \<le> 8 * FLASH_PAGESIZE"
  by (cases im) (simp_all add: sizeof_config_def sizeof_properties_def TRACES_MAX_def MARKERS_MAX_def
      SWEEP_POINTS_MAX_def FLASH_PAGESIZE_def)

lemma area_step: "calibration_slot_area j = calibration_slot_area i + (j - i) * (8 * FLASH_PAGESIZE)" if "i \<le> j"
proof -
  have "j * SAVE_PROP_CONFIG_SIZE = i * SAVE_PROP_CONFIG_SIZE + (j - i) * SAVE_PROP_CONFIG_SIZE"
    using that by (metis add_mult_distrib le_add_diff_inverse)
  then show ?thesis by (simp add: calibration_slot_area_def SAVE_PROP_CONFIG_SIZE_def FLASH_PAGESIZE_def)
qed

lemma area_le: "calibration_slot_area i + 8 * FLASH_PAGESIZE \<le> calibration_slot_area j" if "i < j"
  using area_step [of i j] that by (cases "j - i") auto

lemma config_area: "SAVE_CONFIG_ADDR = calibration_slot_area SAVEAREA_MAX"
  by (simp add: calibration_slot_area_def layout_defs)

lemma program_same [simp]: "flash_program_half_word_buffer a im f a = Some im"
  by (simp add: flash_program_half_word_buffer_def)

lemma program_other:
  assumes "i \<noteq> j"
  shows "flash_program_half_word_buffer (calibration_slot_area i) im f (calibration_slot_area j) = f (calibration_slot_area j)"
proof -
  let ?a = "calibration_slot_area i" and ?b = "calibration_slot_area j"
  have ne: "?a \<noteq> ?b" using area_le [of i j] area_le [of j i] assms by (auto simp: FLASH_PAGESIZE_def neq_iff)
  show ?thesis
  proof (cases "f ?b")
    case None
    then show ?thesis using ne by (simp add: flash_program_half_word_buffer_def flash_erase_pages_def erase_loop_None)
  next
    case (Some im')
    have "erase_loop ?a (image_size im + ?a) f ?b = Some im'"
    proof (cases "j < i")
      case True
      then show ?thesis using area_le [OF True] image_fits [of im'] by (intro erase_loop_below Some) simp
    next
      case False
      then have "i < j" using assms by simp
      then show ?thesis using area_le [of i j] image_fits [of im] by (intro erase_loop_above [where k = 8] Some) simp_all
    qed
    then show ?thesis using Some ne by (simp add: flash_program_half_word_buffer_def flash_erase_pages_def)
  qed
qed

lemma program_config_other [simp]: "j < SAVEAREA_MAX \<Longrightarrow>
    flash_program_half_word_buffer SAVE_CONFIG_ADDR im f (calibration_slot_area j) = f (calibration_slot_area j)"
  unfolding config_area by (rule program_other) simp

lemma program_slot_config [simp]: "j < SAVEAREA_MAX \<Longrightarrow>
    flash_program_half_word_buffer (calibration_slot_area j) im f SAVE_CONFIG_ADDR = f SAVE_CONFIG_ADDR"
  unfolding config_area by (rule program_other) simp

lemma erase_all:
  "j < SAVEAREA_MAX \<Longrightarrow> flash_erase_pages SAVE_PROP_CONFIG_ADDR SAVE_FULL_AREA_SIZE f (calibration_slot_area j) = None"
  "flash_erase_pages SAVE_PROP_CONFIG_ADDR SAVE_FULL_AREA_SIZE f SAVE_CONFIG_ADDR = None"
  unfolding flash_erase_pages_def by (rule erase_loop_hit; simp add: calibration_slot_area_def layout_defs)+

subsection \<open>The abstract store\<close>

record store =
  a_slots :: "nat \<Rightarrow> properties option"
  a_config :: "cfg_image option"
  a_props :: properties
  a_cfg :: cfg_image
  a_last :: nat

datatype storage_op = SaveSlot nat | RecallSlot nat | SaveConfig | RecallConfig | ClearAll
  | EditProps properties | EditConfig cfg_image | Restart vna

fun storage_step :: "layout \<Rightarrow> storage_op \<Rightarrow> board \<Rightarrow> (board \<times> int) option" where
  "storage_step L (SaveSlot i) b = Some (caldata_save L i b)"
| "storage_step L (RecallSlot i) b = caldata_recall L i b"
| "storage_step L SaveConfig b = Some (config_save L b)"
| "storage_step L RecallConfig b = Some (config_recall L b)"
| "storage_step L ClearAll b = Some (clear_all_config_prop_data b, 0)"
| "storage_step L (EditProps p) b = Some (b\<lparr>dev := (dev b)\<lparr>props := p\<rparr>\<rparr>, 0)"
| "storage_step L (EditConfig im) b = Some (b\<lparr>dev := load_image im (dev b)\<rparr>, 0)"
| "storage_step L (Restart v) b = Some (b\<lparr>dev := v, checksum_ok := 0\<rparr>, 0)"

fun store_step :: "storage_op \<Rightarrow> store \<Rightarrow> store \<times> int" where
  "store_step (SaveSlot i) a =
     (if i \<ge> SAVEAREA_MAX then (a, -1)
      else let p = (a_props a)\<lparr>pr_magic := PROPERTIES_MAGIC\<rparr> in
           (a\<lparr>a_slots := (a_slots a)(i \<mapsto> p), a_props := p, a_last := i\<rparr>, 0))"
| "store_step (RecallSlot i) a =
     (if i = NO_SAVE_SLOT then (a\<lparr>a_last := NO_SAVE_SLOT\<rparr>, 0)
      else case a_slots a i of None \<Rightarrow> (a\<lparr>a_last := NO_SAVE_SLOT\<rparr>, 1)
        | Some p \<Rightarrow> (a\<lparr>a_props := p, a_last := i\<rparr>, 0))"
| "store_step SaveConfig a =
     (let im = (a_cfg a)\<lparr>img_config := (img_config (a_cfg a))\<lparr>cf_magic := CONFIG_MAGIC\<rparr>\<rparr> in
      (a\<lparr>a_config := Some im, a_cfg := im\<rparr>, 0))"
| "store_step RecallConfig a = (case a_config a of None \<Rightarrow> (a, -1) | Some im \<Rightarrow> (a\<lparr>a_cfg := im\<rparr>, 0))"
| "store_step ClearAll a = (a\<lparr>a_slots := Map.empty, a_config := None, a_last := NO_SAVE_SLOT\<rparr>, 0)"
| "store_step (EditProps p) a = (a\<lparr>a_props := p\<rparr>, 0)"
| "store_step (EditConfig im) a = (a\<lparr>a_cfg := im\<rparr>, 0)"
| "store_step (Restart v) a = (a\<lparr>a_props := props v, a_cfg := config_image v, a_last := lastsaveid v\<rparr>, 0)"

definition slot_value :: "layout \<Rightarrow> flash_map \<Rightarrow> nat \<Rightarrow> properties option" where
  "slot_value L f i = (if i \<ge> SAVEAREA_MAX then None else case f (calibration_slot_area i) of
       Some (PropImage p c) \<Rightarrow> if pr_magic p = PROPERTIES_MAGIC \<and> checksum (prop_words L p) = c then Some p else None
     | _ \<Rightarrow> None)"

definition config_value :: "layout \<Rightarrow> flash_map \<Rightarrow> cfg_image option" where
  "config_value L f = (case f SAVE_CONFIG_ADDR of
       Some (ConfigImage im c) \<Rightarrow>
         if cf_magic (img_config im) = CONFIG_MAGIC \<and> checksum (config_words L im) = c then Some im else None
     | _ \<Rightarrow> None)"

definition store_of :: "layout \<Rightarrow> board \<Rightarrow> store" where
  "store_of L b = \<lparr>a_slots = slot_value L (flash b), a_config = config_value L (flash b),
     a_props = props (dev b), a_cfg = config_image (dev b), a_last = lastsaveid (dev b)\<rparr>"

definition cache_valid :: "layout \<Rightarrow> board \<Rightarrow> bool" where
  "cache_valid L b \<longleftrightarrow> (\<forall>i<SAVEAREA_MAX. bit (checksum_ok b) i \<longrightarrow> slot_value L (flash b) i \<noteq> None)"

lemma has_bit: "has w (push_bit n 1) \<longleftrightarrow> bit w n" "has w (2 ^ n) \<longleftrightarrow> bit w n" for w :: "'a::len word"
  by (simp_all add: has_def push_bit_of_1 and_exp_eq_0_iff_not_bit)

lemma cache_validI:
  "(\<And>i. i < SAVEAREA_MAX \<Longrightarrow> bit (checksum_ok b) i \<Longrightarrow> slot_value L (flash b) i \<noteq> None) \<Longrightarrow> cache_valid L b"
  by (simp add: cache_valid_def)

lemma slot_value_program:
  assumes "i < SAVEAREA_MAX" "pr_magic p = PROPERTIES_MAGIC"
  shows "slot_value L (flash_program_half_word_buffer (calibration_slot_area i)
           (PropImage p (checksum (prop_words L p))) f) = (slot_value L f)(i \<mapsto> p)"
  using assms by (auto simp: slot_value_def program_other fun_eq_iff)

lemma values_other [simp]:
  "slot_value L (flash_program_half_word_buffer SAVE_CONFIG_ADDR im f) = slot_value L f"
  "i < SAVEAREA_MAX \<Longrightarrow> config_value L (flash_program_half_word_buffer (calibration_slot_area i) im f) = config_value L f"
  by (auto simp: slot_value_def config_value_def fun_eq_iff)

lemma values_erased:
  "slot_value L (flash_erase_pages SAVE_PROP_CONFIG_ADDR SAVE_FULL_AREA_SIZE f) = Map.empty"
  "config_value L (flash_erase_pages SAVE_PROP_CONFIG_ADDR SAVE_FULL_AREA_SIZE f) = None"
  by (auto simp: slot_value_def config_value_def erase_all fun_eq_iff)

lemma slot_valueD: "slot_value L f i = Some p \<Longrightarrow>
    i < SAVEAREA_MAX \<and> f (calibration_slot_area i) = Some (PropImage p (checksum (prop_words L p))) \<and> pr_magic p = PROPERTIES_MAGIC"
  by (auto simp: slot_value_def split: if_splits option.splits image.splits)

lemma get_properties_value:
  assumes "cache_valid L b"
  shows "\<exists>c. get_properties L i b = (b\<lparr>checksum_ok := c\<rparr>, map_option (\<lambda>_. calibration_slot_area i) (slot_value L (flash b) i)) \<and>
    cache_valid L (b\<lparr>checksum_ok := c\<rparr>)"
proof (cases "i < SAVEAREA_MAX")
  case True
  show ?thesis
  proof (cases "bit (checksum_ok b) i")
    case c: True
    then obtain p where "slot_value L (flash b) i = Some p" using assms True by (auto simp: cache_valid_def)
    then show ?thesis
      using True c assms by (intro exI [of _ "checksum_ok b"]) (simp add: get_properties_def has_bit Let_def)
  next
    case nc: False
    show ?thesis
    proof (cases "slot_value L (flash b) i")
      case None
      then show ?thesis using True nc assms
        by (intro exI [of _ "checksum_ok b"])
          (auto simp: get_properties_def has_bit Let_def slot_value_def split: option.splits image.splits if_splits)
    next
      case (Some p)
      have "cache_valid L (b\<lparr>checksum_ok := checksum_ok b OR push_bit i 1\<rparr>)"
        using assms Some by (auto simp: cache_valid_def bit_or_iff push_bit_of_1 bit_exp_iff)
      then show ?thesis using True nc Some slot_valueD [OF Some]
        by (intro exI [of _ "checksum_ok b OR push_bit i 1"]) (simp add: get_properties_def has_bit Let_def)
    qed
  qed
next
  case False
  then show ?thesis
    using assms by (intro exI [of _ "checksum_ok b"]) (simp add: get_properties_def slot_value_def)
qed

lemma cache_valid_frame: "flash b' = flash b \<Longrightarrow> checksum_ok b' = checksum_ok b \<Longrightarrow> cache_valid L b' = cache_valid L b"
  by (simp add: cache_valid_def)


lemma config_recall_value:
  "config_recall L b = (case config_value L (flash b) of None \<Rightarrow> (b, -1) | Some im \<Rightarrow> (b\<lparr>dev := load_image im (dev b)\<rparr>, 0))"
  by (simp add: config_recall_def config_value_def split: option.split image.split)

lemma storage_cases:
  assumes "cache_valid L b"
  shows "\<exists>b' r. storage_step L p b = Some (b', r) \<and> cache_valid L b' \<and> store_step p (store_of L b) = (store_of L b', r)"
proof (cases p)
  case (SaveSlot i)
  let ?f = "slot_value L (flash b)" and ?p = "(props (dev b))\<lparr>pr_magic := PROPERTIES_MAGIC\<rparr>"
  show ?thesis
  proof (cases "i < SAVEAREA_MAX")
    case True
    have "cache_valid L (fst (caldata_save L i b))"
      using assms True by (auto simp: caldata_save_def Let_def cache_valid_def slot_value_program)
    then show ?thesis using True SaveSlot
      by (cases "caldata_save L i b")
        (auto simp: caldata_save_def Let_def store_of_def slot_value_program config_image_def)
  next
    case False
    then show ?thesis using SaveSlot assms by (simp add: caldata_save_def store_of_def)
  qed
next
  case (RecallSlot i)
  let ?b = "b\<lparr>dev := (dev b)\<lparr>lastsaveid := NO_SAVE_SLOT\<rparr>\<rparr>"
  have cv: "cache_valid L ?b" using assms by (simp add: cache_valid_def)
  show ?thesis
  proof (cases "i = NO_SAVE_SLOT")
    case True
    then show ?thesis using cv RecallSlot by (simp add: caldata_recall_def store_of_def config_image_def)
  next
    case ne: False
    obtain c where g: "get_properties L i ?b = (?b\<lparr>checksum_ok := c\<rparr>,
        map_option (\<lambda>_. calibration_slot_area i) (slot_value L (flash b) i))" "cache_valid L (?b\<lparr>checksum_ok := c\<rparr>)"
      using get_properties_value [OF cv, of i] by auto
    show ?thesis
    proof (cases "slot_value L (flash b) i")
      case None
      then show ?thesis using g ne RecallSlot by (simp add: caldata_recall_def store_of_def config_image_def)
    next
      case (Some q)
      then show ?thesis using g ne RecallSlot slot_valueD [OF Some]
        by (simp add: caldata_recall_def store_of_def config_image_def cache_valid_def)
    qed
  qed
next
  case SaveConfig
  then show ?thesis using assms
    by (simp add: config_save_def Let_def store_of_def config_image_def config_value_def cache_valid_def)
next
  case RecallConfig
  then show ?thesis using assms
    by (auto simp: config_recall_value store_of_def config_image_def cache_valid_def load_image_def split: option.splits)
next
  case ClearAll
  then show ?thesis
    by (simp add: clear_all_config_prop_data_def store_of_def values_erased cache_valid_def config_image_def)
next
  case (EditProps q)
  then show ?thesis using assms by (simp add: store_of_def cache_valid_def config_image_def)
next
  case (EditConfig im)
  then show ?thesis using assms by (simp add: store_of_def cache_valid_def config_image_def load_image_def)
next
  case (Restart v)
  then show ?thesis by (simp add: store_of_def cache_valid_def)
qed

interpretation slots: forward_simulation "storage_step L" store_step "store_of L" "cache_valid L"
  by unfold_locales (rule storage_cases)

text \<open>C4: Saved settings refine an abstract store.  After a start with any flash content, every sequence
  of saves, recalls, configuration saves and loads, full erases, edits of the live settings and further
  restarts runs without ever copying an erased area, returns the codes that a plain map from slot
  numbers to settings returns, and leaves exactly the contents of that map in flash: no slot and no
  configuration is damaged by writing another one, and the validity bits cached in RAM never report
  a slot valid that is not.\<close>
theorem storage_refines_map:
  assumes "checksum_ok b = 0"
  shows "\<exists>b' rs. run_ops (storage_step L) ps b = Some (b', rs) \<and> cache_valid L b' \<and>
    run_spec store_step ps (store_of L b) = (store_of L b', rs)"
  by (rule slots.run_refines) (simp add: cache_valid_def assms)

subsection \<open>Restart from the backup registers\<close>

definition board0 :: board where
  "board0 = \<lparr>dev = device0, checksum_ok = 0, flash = (\<lambda>_. None), backup = [0, 0, 0, 0, 0], data_update = 0\<rparr>"

definition layout0 :: layout where
  "layout0 = \<lparr>config_words = (\<lambda>im. [cf_magic (img_config im), img_xtal_freq im]),
     prop_words = (\<lambda>p. [pr_magic p, frequency0 p, frequency1 p])\<rparr>"

theorem storage_refines_map_witness:
  "\<exists>b' rs. run_ops (storage_step layout0) [SaveSlot 2, Restart device0, RecallSlot 2, RecallSlot 7] board0 = Some (b', rs) \<and>
     cache_valid layout0 b' \<and>
     run_spec store_step [SaveSlot 2, Restart device0, RecallSlot 2, RecallSlot 7] (store_of layout0 board0) =
       (store_of layout0 b', rs)"
  by (rule storage_refines_map) (simp add: board0_def)

lemma backup_fields:
  "take_bit 9 (backup_0 a b c d e) = take_bit 9 a"
  "take_bit 9 (drop_bit 9 (backup_0 a b c d e)) = take_bit 9 b"
  "take_bit 4 (drop_bit 18 (backup_0 a b c d e)) = take_bit 4 c"
  "take_bit 3 (drop_bit 22 (backup_0 a b c d e)) = take_bit 3 d"
  "take_bit 7 (drop_bit 25 (backup_0 a b c d e)) = take_bit 7 e"
  unfolding backup_0_def by (rule bit_word_eqI; auto simp: bit_simps)+

lemma unat_take_of_nat: "k \<le> 32 \<Longrightarrow> unat (take_bit k (of_nat n :: u32)) = n mod 2 ^ k"
proof -
  assume k: "k \<le> 32"
  have "unat (take_bit k (of_nat n :: u32)) = take_bit k (take_bit 32 n)"
    by (simp only: unsigned_take_bit_eq unsigned_of_nat) simp
  also have "\<dots> = n mod 2 ^ k" using k by (simp add: min_absorb1 take_bit_eq_mod [of k])
  finally show ?thesis .
qed

lemma bk_fields:
  fixes a b c d e :: nat
  defines "v \<equiv> backup_0 (of_nat a) (of_nat b) (of_nat c) (of_nat d) (of_nat e)"
  shows "bk_points v = a mod 512" "bk_bw v = b mod 512" "bk_id v = c mod 16" "bk_leveler v = d mod 8"
    "bk_brightness v = e mod 128"
  by (simp_all add: v_def bk_points_def bk_bw_def bk_id_def bk_leveler_def bk_brightness_def backup_fields unat_take_of_nat)

lemma update_frequencies_frame:
  assumes "update_frequencies s = Some s'"
  shows "(props s')\<lparr>markers := [], cal_status := 0\<rparr> = (props s)\<lparr>markers := [], cal_status := 0\<rparr>"
    "config s' = config s" "lastsaveid s' = lastsaveid s" "clk s' = clk s"
proof -
  let ?f0 = "frequency0 (props s)" and ?f1 = "frequency1 (props s)" and ?n = "sweep_points (props s)"
  obtain s1 where s1: "set_frequencies ?f0 ?f1 ?n s = Some s1"
    using assms by (cases "set_frequencies ?f0 ?f1 ?n s") (simp_all add: update_frequencies_def)
  have p1: "props s1 = props s" "config s1 = config s" "lastsaveid s1 = lastsaveid s" "clk s1 = clk s"
    using s1 by (simp_all add: set_frequencies_def Let_def split: if_splits) auto
  define s2 where "s2 = update_marker_index ?f0 ?f1 ?n s1"
  have fr: "marker_frame s2 s1" unfolding s2_def by (rule update_marker_index_frame)
  have e: "(props s2)\<lparr>markers := []\<rparr> = (props s)\<lparr>markers := []\<rparr>" using fr p1 by (simp add: marker_frame_def)
  have s': "s' = (request_to_redraw (REDRAW_BACKUP OR REDRAW_PLOT OR REDRAW_CAL_STATUS OR REDRAW_FREQUENCY OR REDRAW_AREA)
    (on_props (\<lambda>p. if needInterpolate ?f0 ?f1 ?n p then p\<lparr>cal_status := cal_status p OR CALSTAT_INTERPOLATED\<rparr>
        else p\<lparr>cal_status := cal_status p AND NOT CALSTAT_INTERPOLATED\<rparr>) (update_grid ?f0 ?f1 s2)))\<lparr>p_sweep := 0\<rparr>"
    using assms s1 by (simp add: update_frequencies_def Let_def s2_def)
  have "lastsaveid (update_grid ?f0 ?f1 s2) = lastsaveid s2" by (simp add: update_grid_def Let_def)
  then have "(props s')\<lparr>markers := [], cal_status := 0\<rparr> = (props s2)\<lparr>markers := [], cal_status := 0\<rparr>"
    "config s' = config s2" "lastsaveid s' = lastsaveid s2" "clk s' = clk s2"
    by (simp_all add: s' request_to_redraw_def)
  moreover have "(props s2)\<lparr>markers := [], cal_status := 0\<rparr> = (props s)\<lparr>markers := [], cal_status := 0\<rparr>"
    using arg_cong [OF e, of "\<lambda>p. p\<lparr>cal_status := 0\<rparr>"] by simp
  ultimately show "(props s')\<lparr>markers := [], cal_status := 0\<rparr> = (props s)\<lparr>markers := [], cal_status := 0\<rparr>"
    "config s' = config s" "lastsaveid s' = lastsaveid s" "clk s' = clk s"
    using fr p1 by (auto simp: marker_frame_def)
qed


text \<open>What the live instrument keeps across a power cycle when the backup option is on: everything
  the registers hold, with the calibration of the slot that was in use.\<close>

definition resumed :: "vna \<Rightarrow> properties \<Rightarrow> vna \<Rightarrow> bool" where
  "resumed s p s' \<longleftrightarrow> sweep_consistent s' \<and> lastsaveid s' = lastsaveid s \<and>
     (props s')\<lparr>markers := [], cal_status := 0\<rparr> =
       p\<lparr>sweep_points := sweep_points (props s), frequency0 := frequency0 (props s), frequency1 := frequency1 (props s),
         var_freq := var_freq (props s), markers := [], cal_status := 0\<rparr> \<and>
     bandwidth (config s') = bandwidth (config s) \<and> brightness (config s') = brightness (config s) \<and>
     lever_mode (config s') = lever_mode (config s) \<and>
     vna_mode (config s') = vna_mode (config s) OR push_bit VNA_MODE_BACKUP 1"

definition backup_ready :: "layout \<Rightarrow> board \<Rightarrow> bool" where
  "backup_ready L b \<longleftrightarrow> length (backup b) = 5 \<and>
     (case config_value L (flash b) of None \<Rightarrow> False
      | Some im \<Rightarrow> has (vna_mode (img_config im)) (push_bit VNA_MODE_BACKUP 1)) \<and>
     stimulus_ok (props (dev b)) \<and> 2 \<le> sweep_points (props (dev b)) \<and> sweep_points (props (dev b)) \<le> SWEEP_POINTS_MAX \<and>
     bandwidth (config (dev b)) < 512 \<and> lever_mode (config (dev b)) < 8 \<and> brightness (config (dev b)) < 128"

definition power_cycle :: "vna \<Rightarrow> board \<Rightarrow> board" where
  "power_cycle v b = b\<lparr>dev := v, checksum_ok := 0, data_update := 0\<rparr>"

lemma backup_regs:
  assumes "length (backup b) = 5"
  shows "backup (update_backup_data b) =
    [backup_0 (of_nat (sweep_points (props (dev b)))) (of_nat (bandwidth (config (dev b)))) (of_nat (lastsaveid (dev b)))
       (of_nat (lever_mode (config (dev b)))) (of_nat (brightness (config (dev b)))),
     frequency0 (props (dev b)), frequency1 (props (dev b)), var_freq (props (dev b)), ucast (vna_mode (config (dev b)))]"
proof -
  obtain x0 x1 x2 x3 x4 where "backup b = [x0, x1, x2, x3, x4]"
    using assms by (auto simp: length_Suc_conv eval_nat_numeral)
  then show ?thesis by (simp add: update_backup_data_def set_backup_data32_def Let_def)
qed

lemma update_backup_frame [simp]:
  "flash (update_backup_data b) = flash b" "dev (update_backup_data b) = dev b" "checksum_ok (update_backup_data b) = checksum_ok b"
  by (simp_all add: update_backup_data_def set_backup_data32_def Let_def)

lemma widen_narrow: "(ucast (ucast (w :: u16) :: u32) :: u16) = w"
  by (rule bit_word_eqI) (simp add: bit_simps)

lemma recall_value:
  assumes "cache_valid L b" "slot_value L (flash b) i = Some p"
  shows "\<exists>c. caldata_recall L i b = Some (b\<lparr>dev := (dev b)\<lparr>lastsaveid := i, props := p\<rparr>, checksum_ok := c\<rparr>, 0)"
proof -
  let ?b = "b\<lparr>dev := (dev b)\<lparr>lastsaveid := NO_SAVE_SLOT\<rparr>\<rparr>"
  have "cache_valid L ?b" using assms(1) by (simp add: cache_valid_def)
  then obtain c where "get_properties L i ?b = (?b\<lparr>checksum_ok := c\<rparr>, Some (calibration_slot_area i))"
    using get_properties_value [of L ?b i] assms(2) by auto
  moreover have "i \<noteq> NO_SAVE_SLOT" using slot_valueD [OF assms(2)] by (auto simp: SAVEAREA_MAX_def NO_SAVE_SLOT_def)
  ultimately show ?thesis using slot_valueD [OF assms(2)] by (intro exI [of _ c]) (simp add: caldata_recall_def)
qed

lemma restore_backup_resumes:
  assumes "cache_valid L b" "slot_value L (flash b) (lastsaveid s) = Some p"
    and "backup b = [backup_0 (of_nat (sweep_points (props s))) (of_nat (bandwidth (config s))) (of_nat (lastsaveid s))
         (of_nat (lever_mode (config s))) (of_nat (brightness (config s))),
       frequency0 (props s), frequency1 (props s), var_freq (props s), ucast (vna_mode (config s))]"
    and "stimulus_ok (props s)" "2 \<le> sweep_points (props s)" "sweep_points (props s) \<le> SWEEP_POINTS_MAX"
    and "bandwidth (config s) < 512" "lever_mode (config s) < 8" "brightness (config s) < 128"
  shows "\<exists>b1 b2. restore_backup L (get_backup_data32 0 b) b = Some b1 \<and> refresh_settings b1 = Some b2 \<and> resumed s p (dev b2)"
proof -
  let ?v = "get_backup_data32 0 b"
  have slot: "lastsaveid s < SAVEAREA_MAX" using slot_valueD [OF assms(2)] by simp
  have v: "bk_points ?v = sweep_points (props s)" "bk_bw ?v = bandwidth (config s)" "bk_id ?v = lastsaveid s"
    "bk_leveler ?v = lever_mode (config s)" "bk_brightness ?v = brightness (config s)"
    using assms(6-9) slot by (simp_all add: get_backup_data32_def assms(3) bk_fields SWEEP_POINTS_MAX_def SAVEAREA_MAX_def)
  obtain c where r: "caldata_recall L (lastsaveid s) b =
      Some (b\<lparr>dev := (dev b)\<lparr>lastsaveid := lastsaveid s, props := p\<rparr>, checksum_ok := c\<rparr>, 0)"
    using recall_value [OF assms(1,2)] by blast
  define d where "d = set_bandwidth (bandwidth (config s)) ((dev b)\<lparr>lastsaveid := lastsaveid s,
     props := p\<lparr>sweep_points := sweep_points (props s), frequency0 := frequency0 (props s),
       frequency1 := frequency1 (props s), var_freq := var_freq (props s)\<rparr>,
     config := (config (dev b))\<lparr>brightness := brightness (config s), lever_mode := lever_mode (config s),
       vna_mode := vna_mode (config s) OR push_bit VNA_MODE_BACKUP 1\<rparr>\<rparr>)"
  have rb: "restore_backup L ?v b = Some (b\<lparr>dev := d, checksum_ok := c\<rparr>)"
    by (simp add: restore_backup_def v r slot d_def) (simp add: get_backup_data32_def assms(3) widen_narrow comp_def)
  have pd: "props d = p\<lparr>sweep_points := sweep_points (props s), frequency0 := frequency0 (props s),
       frequency1 := frequency1 (props s), var_freq := var_freq (props s)\<rparr>"
    "lastsaveid d = lastsaveid s" "bandwidth (config d) = bandwidth (config s)" "brightness (config d) = brightness (config s)"
    "lever_mode (config d) = lever_mode (config s)" "vna_mode (config d) = vna_mode (config s) OR push_bit VNA_MODE_BACKUP 1"
    using assms(7) by (simp_all add: d_def set_bandwidth_def request_to_redraw_def)
  have "stimulus_ok (props d)" using assms(4) by (simp add: pd stimulus_ok_def)
  then obtain s' where s': "update_frequencies d = Some s'" "sweep_consistent s'"
    using update_frequencies_consistent [of d] assms(5,6) by (auto simp: pd)
  define b2 where "b2 = plot_set_measure_mode (measure_mode (props s')) ((b\<lparr>dev := d, checksum_ok := c\<rparr>)\<lparr>dev := s'\<rparr>)"
  have b2: "props (dev b2) = props s'" "config (dev b2) = config s'" "lastsaveid (dev b2) = lastsaveid s'"
    "getFrequency i (dev b2) = getFrequency i s'" for i
    by (simp_all add: b2_def plot_set_measure_mode_def request_to_redraw_def getFrequency_def)
  have "refresh_settings (b\<lparr>dev := d, checksum_ok := c\<rparr>) = Some b2"
    unfolding refresh_settings_def b2_def using s'(1) by simp
  moreover have "resumed s p (dev b2)"
    using s'(2) update_frequencies_frame [OF s'(1)] by (simp add: resumed_def b2 sweep_consistent_def pd)
  ultimately show ?thesis using rb by blast
qed

text \<open>C16: With the backup option saved in the configuration and a saved calibration in use, switching
  the instrument off and on loses nothing that the registers hold: \<^verbatim>\<open>load_settings\<close> always returns,
  restores the sweep range, points, leveler frequency step, bandwidth, leveler mode, brightness and
  mode flags that were active, loads the calibration of the slot that was active, and leaves a
  consistent stimulus, whatever the state of RAM was after the reset.\<close>
theorem settings_survive_power_cycle:
  assumes "backup_ready L b" "slot_value L (flash b) (lastsaveid (dev b)) = Some p"
  shows "\<exists>b'. load_settings L (power_cycle v (update_backup_data b)) = Some b' \<and> resumed (dev b) p (dev b')"
proof -
  obtain im where im: "config_value L (flash b) = Some im" "has (vna_mode (img_config im)) (push_bit VNA_MODE_BACKUP 1)"
    using assms(1) by (auto simp: backup_ready_def split: option.splits)
  define b0 where "b0 = (power_cycle v (update_backup_data b))\<lparr>dev := load_image im (on_props load_default_properties v)\<rparr>"
  have b0: "backup b0 = backup (update_backup_data b)" "flash b0 = flash b" "checksum_ok b0 = 0"
    by (simp_all add: b0_def power_cycle_def)
  have r: "length (backup b) = 5" "stimulus_ok (props (dev b))" "2 \<le> sweep_points (props (dev b))"
    "sweep_points (props (dev b)) \<le> SWEEP_POINTS_MAX" "bandwidth (config (dev b)) < 512" "lever_mode (config (dev b)) < 8"
    "brightness (config (dev b)) < 128"
    using assms(1) by (simp_all add: backup_ready_def)
  obtain b1 b2 where b2: "restore_backup L (get_backup_data32 0 b0) b0 = Some b1" "refresh_settings b1 = Some b2"
    "resumed (dev b) p (dev b2)"
    using restore_backup_resumes [of L b0 "dev b" p] assms(2) r backup_regs [OF r(1)] by (auto simp: b0 cache_valid_def)
  have "bk_points (get_backup_data32 0 b0) \<noteq> 0"
    using r by (simp add: b0 get_backup_data32_def backup_regs bk_fields SWEEP_POINTS_MAX_def)
  then have nz: "get_backup_data32 0 b0 \<noteq> 0" by (auto simp: bk_points_def)
  have "VNA_MODE VNA_MODE_BACKUP (dev b0)" using im(2) by (simp add: b0_def VNA_MODE_def load_image_def)
  then show ?thesis using im(1) b2 nz
    by (simp add: load_settings_def config_recall_value power_cycle_def b0_def Let_def)
qed


theorem settings_survive_power_cycle_witness:
  "\<exists>b'. load_settings layout0 (power_cycle device0 (update_backup_data (fst (caldata_save layout0 3 (fst (config_save layout0
       (board0\<lparr>dev := device0\<lparr>config := config0\<lparr>vna_mode := 64\<rparr>\<rparr>\<rparr>))))))) = Some b' \<and>
     resumed (device0\<lparr>config := config0\<lparr>vna_mode := 64\<rparr>, lastsaveid := 3\<rparr>) (props0\<lparr>pr_magic := PROPERTIES_MAGIC\<rparr>) (dev b')"
proof -
  let ?d = "device0\<lparr>config := config0\<lparr>vna_mode := 64\<rparr>\<rparr>"
  let ?b = "fst (caldata_save layout0 3 (fst (config_save layout0 (board0\<lparr>dev := ?d\<rparr>))))"
  have three: "(3::nat) < SAVEAREA_MAX" by (simp add: SAVEAREA_MAX_def)
  have p: "props device0 = props0" "pr_magic props0 = PROPERTIES_MAGIC"
    by (simp_all add: device0_def props0_def load_default_properties_def)
  have c: "config0\<lparr>vna_mode := 64, cf_magic := CONFIG_MAGIC\<rparr> = config0\<lparr>vna_mode := 64\<rparr>" by (simp add: config0_def)
  have d: "dev ?b = ?d\<lparr>props := props0\<lparr>pr_magic := PROPERTIES_MAGIC\<rparr>, lastsaveid := 3\<rparr>"
    using three by (simp add: caldata_save_def config_save_def Let_def p c)
  have sv: "slot_value layout0 (flash ?b) 3 = Some (props0\<lparr>pr_magic := PROPERTIES_MAGIC\<rparr>)"
    using three by (simp add: caldata_save_def config_save_def Let_def slot_value_program p)
  have cv: "config_value layout0 (flash ?b) = Some (config_image ?d)"
    using three by (simp add: caldata_save_def config_save_def Let_def p c config_value_def config_image_def config0_def)
  have "backup_ready layout0 ?b"
    unfolding backup_ready_def cv d
    by (simp add: p config_image_def has_def VNA_MODE_BACKUP_def caldata_save_def config_save_def Let_def board0_def
        config0_def stimulus_ok_def props0_def load_default_properties_def POINTS_COUNT_DEFAULT_def SWEEP_POINTS_MAX_def
        FREQUENCY_MIN_def FREQUENCY_MAX_def)
  moreover have "lastsaveid (dev ?b) = 3" by (simp add: d)
  ultimately have "\<exists>b'. load_settings layout0 (power_cycle device0 (update_backup_data ?b)) = Some b' \<and>
      resumed (dev ?b) (props0\<lparr>pr_magic := PROPERTIES_MAGIC\<rparr>) (dev b')"
    using settings_survive_power_cycle [of layout0 ?b "props0\<lparr>pr_magic := PROPERTIES_MAGIC\<rparr>" device0] sv by simp
  moreover have "resumed (dev ?b) q x = resumed (?d\<lparr>lastsaveid := 3\<rparr>) q x" for q x
    unfolding d by (simp add: resumed_def p)
  ultimately show ?thesis by simp
qed

end
