(* ===== verification/Format.thy ===== *)
theory Format
  imports Storage Coax
begin

text \<open>
  The values shown for a measured point: the conversions of \<^verbatim>\<open>plot.c\<close> from a reflection or
  transmission coefficient to impedance, admittance, equivalent components, standing wave ratio and
  quality factor.  Floats are real numbers; a division by zero, an IEEE infinity or NaN in the
  source, is excluded by the hypotheses of the theorems.  The infinity that \<^verbatim>\<open>swr\<close> returns on
  purpose is a number above every finite ratio it can return.
\<close>

definition INFINITY :: real where "INFINITY = 2 ^ 128"

definition PORT_Z :: "vna \<Rightarrow> real" where "PORT_Z s = portz (props s)"

definition get_l :: "real \<Rightarrow> real \<Rightarrow> real" where "get_l re im = re * re + im * im"
definition get_w :: "vna \<Rightarrow> nat \<Rightarrow> real" where "get_w s i = 2 * pi * real (unat (getFrequency i s))"
definition get_s11_r :: "real \<Rightarrow> real \<Rightarrow> real \<Rightarrow> real" where "get_s11_r re im z = \<bar>2 * z * re / get_l re im - z\<bar>"
definition get_s21_r :: "real \<Rightarrow> real \<Rightarrow> real \<Rightarrow> real" where "get_s21_r re im z = 1 * z * re / get_l re im - z"
definition get_s11_x :: "real \<Rightarrow> real \<Rightarrow> real \<Rightarrow> real" where "get_s11_x re im z = -2 * z * im / get_l re im"
definition get_s21_x :: "real \<Rightarrow> real \<Rightarrow> real \<Rightarrow> real" where "get_s21_x re im z = -1 * z * im / get_l re im"

definition linear_mag :: "cfloat \<Rightarrow> real" where
  "linear_mag v = sqrt (get_l (fst v) (snd v))"

definition swr :: "cfloat \<Rightarrow> real" where
  "swr v = (let x = linear_mag v in if x > 99 / 100 then INFINITY else (1 + x) / (1 - x))"

record cable =
  cable_loss_db :: real
  cable_type :: nat
  real_cable_len :: real

definition cable_type_next :: "cable \<Rightarrow> cable" where
  "cable_type_next c = (let t = cable_type c + 1 in c\<lparr>cable_type := (if t > COAX_TYPES then 0 else t)\<rparr>)"

definition get_cable_loss_at :: "cable \<Rightarrow> u32 \<Rightarrow> real option" where
  "get_cable_loss_at c f =
     (if cable_type c \<noteq> 0 then coax_loss_db (cable_type c) (real (unat f)) (real_cable_len c) else Some (cable_loss_db c))"

definition swr_ant :: "vna \<Rightarrow> cable \<Rightarrow> nat \<Rightarrow> cfloat \<Rightarrow> real option" where
  "swr_ant s c i v = map_option (\<lambda>loss.
     (let x = linear_mag v * exp (loss * (ln 10 / 10)) in
      if x > 99 / 100 then INFINITY else (1 + x) / (1 - x))) (get_cable_loss_at c (getFrequency i s))"

definition resistance :: "vna \<Rightarrow> cfloat \<Rightarrow> real" where
  "resistance s v = get_s11_r (1 - fst v) (- snd v) (PORT_Z s)"

definition reactance :: "vna \<Rightarrow> cfloat \<Rightarrow> real" where
  "reactance s v = get_s11_x (1 - fst v) (- snd v) (PORT_Z s)"

definition mod_z :: "vna \<Rightarrow> cfloat \<Rightarrow> real" where
  "mod_z s v = PORT_Z s * sqrt (get_l (1 + fst v) (snd v) / get_l (1 - fst v) (snd v))"

definition series_c :: "vna \<Rightarrow> nat \<Rightarrow> cfloat \<Rightarrow> real" where
  "series_c s i v = -1 / (get_w s i * reactance s v)"

definition series_l :: "vna \<Rightarrow> nat \<Rightarrow> cfloat \<Rightarrow> real" where
  "series_l s i v = reactance s v / get_w s i"

definition qualityfactor :: "cfloat \<Rightarrow> real" where
  "qualityfactor v = \<bar>2 * snd v / (1 - get_l (fst v) (snd v))\<bar>"

definition conductance :: "vna \<Rightarrow> cfloat \<Rightarrow> real" where
  "conductance s v = get_s11_r (1 + fst v) (snd v) (1 / PORT_Z s)"

definition susceptance :: "vna \<Rightarrow> cfloat \<Rightarrow> real" where
  "susceptance s v = get_s11_x (1 + fst v) (snd v) (1 / PORT_Z s)"

definition parallel_r :: "vna \<Rightarrow> cfloat \<Rightarrow> real" where "parallel_r s v = 1 / conductance s v"

definition parallel_x :: "vna \<Rightarrow> cfloat \<Rightarrow> real" where "parallel_x s v = -1 / susceptance s v"

definition parallel_c :: "vna \<Rightarrow> nat \<Rightarrow> cfloat \<Rightarrow> real" where
  "parallel_c s i v = susceptance s v / get_w s i"

definition parallel_l :: "vna \<Rightarrow> nat \<Rightarrow> cfloat \<Rightarrow> real" where
  "parallel_l s i v = parallel_x s v / get_w s i"

definition mod_y :: "vna \<Rightarrow> cfloat \<Rightarrow> real" where "mod_y s v = 1 / mod_z s v"

definition s21shunt_r :: "vna \<Rightarrow> cfloat \<Rightarrow> real" where
  "s21shunt_r s v = get_s21_r (1 - fst v) (- snd v) (PORT_Z s / 2)"

definition s21shunt_x :: "vna \<Rightarrow> cfloat \<Rightarrow> real" where
  "s21shunt_x s v = get_s21_x (1 - fst v) (- snd v) (PORT_Z s / 2)"

definition s21shunt_z :: "vna \<Rightarrow> cfloat \<Rightarrow> real" where
  "s21shunt_z s v = PORT_Z s / 2 * sqrt (get_l (fst v) (snd v) / get_l (1 - fst v) (snd v))"

definition s21series_r :: "vna \<Rightarrow> cfloat \<Rightarrow> real" where
  "s21series_r s v = get_s21_r (fst v) (snd v) (2 * PORT_Z s)"

definition s21series_x :: "vna \<Rightarrow> cfloat \<Rightarrow> real" where
  "s21series_x s v = get_s21_x (fst v) (snd v) (2 * PORT_Z s)"

definition s21series_z :: "vna \<Rightarrow> cfloat \<Rightarrow> real" where
  "s21series_z s v = 2 * PORT_Z s * sqrt (get_l (1 - fst v) (snd v) / get_l (fst v) (snd v))"

definition s21_qualityfactor :: "cfloat \<Rightarrow> real" where
  "s21_qualityfactor v = \<bar>snd v / (fst v - get_l (fst v) (snd v))\<bar>"

text \<open>Group delay takes the phase of the quotient of two neighbouring points; the arc tangent of
  \<^verbatim>\<open>vna_math.c\<close> is a parameter.\<close>

definition groupdelay :: "(real \<Rightarrow> real \<Rightarrow> real) \<Rightarrow> cfloat \<Rightarrow> cfloat \<Rightarrow> u32 \<Rightarrow> real" where
  "groupdelay atan2f_deg v w deltaf =
     (let r = fst w * fst v + snd w * snd v; i = fst w * snd v - snd w * fst v in
      atan2f_deg i r / (360 * real (unat deltaf)))"

definition groupdelay_from_array :: "(real \<Rightarrow> real \<Rightarrow> real) \<Rightarrow> vna \<Rightarrow> nat \<Rightarrow> cfloat list \<Rightarrow> real" where
  "groupdelay_from_array atan2f_deg s i v =
     (let n = sweep_points (props s);
          bottom = (if i = 0 then 0 else 1);
          top = (if i = n - 1 then 0 else 1);
          deltaf = get_sweep_frequency ST_SPAN (props s) div of_nat ((n - 1) div (top + bottom)) in
      groupdelay atan2f_deg (v ! (i - bottom)) (v ! (i + top)) deltaf)"

subsection \<open>Complex arithmetic of the display\<close>

lemma get_l_cmod: "get_l a b = (cmod (Complex a b))\<^sup>2"
  by (simp add: get_l_def cmod_power2) (simp add: power2_eq_square)

lemma get_l_neg [simp]: "get_l a (- b) = get_l a b"
  by (simp add: get_l_def)

lemma get_l_pos: "(a, b) \<noteq> (0, 0) \<Longrightarrow> 0 < get_l a b"
  by (auto simp: get_l_def sum_squares_gt_zero_iff)

lemma scaled_inverse:
  assumes "(a, b) \<noteq> (0, 0)"
  shows "of_real k / Complex a b = Complex (k * a / get_l a b) (- k * b / get_l a b)"
  using assms by (simp add: complex_eq_iff Re_divide Im_divide get_l_def power2_eq_square)

lemma s11_point:
  assumes "(a, b) \<noteq> (0, 0)"
  shows "get_s11_r a b z = \<bar>Re (of_real (2 * z) / Complex a b - of_real z)\<bar>"
    "get_s11_x a b z = Im (of_real (2 * z) / Complex a b - of_real z)"
  by (simp_all add: scaled_inverse [OF assms] get_s11_r_def get_s11_x_def del: of_real_mult)

lemma s21_point:
  assumes "(a, b) \<noteq> (0, 0)"
  shows "Complex (get_s21_r a b z) (get_s21_x a b z) = of_real z / Complex a b - of_real z"
  by (simp add: scaled_inverse [OF assms] get_s21_r_def get_s21_x_def complex_eq_iff)

definition Gam :: "cfloat \<Rightarrow> complex" where "Gam v = Complex (fst v) (snd v)"

lemma one_minus: "1 - Gam v = Complex (1 - fst v) (- snd v)" "1 + Gam v = Complex (1 + fst v) (snd v)"
  by (simp_all add: Gam_def complex_eq_iff)

lemma Gam_not_one: "Gam v \<noteq> 1 \<longleftrightarrow> (1 - fst v, - snd v) \<noteq> (0, 0)" "Gam v \<noteq> -1 \<longleftrightarrow> (1 + fst v, snd v) \<noteq> (0, 0)"
  "Gam v \<noteq> 0 \<longleftrightarrow> (fst v, snd v) \<noteq> (0, 0)"
  by (auto simp: Gam_def complex_eq_iff prod_eq_iff)

lemma two_over: "S \<noteq> 0 \<Longrightarrow> 2 * k / S - k = k * (2 - S) / S" for S :: complex
  by (simp add: field_simps)

lemma impedance_parts:
  assumes "Gam v \<noteq> 1"
  shows "resistance s v = \<bar>Re (of_real (PORT_Z s) * (1 + Gam v) / (1 - Gam v))\<bar>"
    "reactance s v = Im (of_real (PORT_Z s) * (1 + Gam v) / (1 - Gam v))"
proof -
  have "of_real (PORT_Z s) * (1 + Gam v) / (1 - Gam v) = of_real (2 * PORT_Z s) / (1 - Gam v) - of_real (PORT_Z s)"
    using two_over [of "1 - Gam v" "of_real (PORT_Z s)"] assms by (simp add: algebra_simps)
  then show "resistance s v = \<bar>Re (of_real (PORT_Z s) * (1 + Gam v) / (1 - Gam v))\<bar>"
    "reactance s v = Im (of_real (PORT_Z s) * (1 + Gam v) / (1 - Gam v))"
    using s11_point [of "1 - fst v" "- snd v" "PORT_Z s"] assms Gam_not_one(1) [of v]
    by (simp_all only: resistance_def reactance_def one_minus) simp_all
qed

lemma passive_real_part:
  assumes "Gam v \<noteq> 1" "cmod (Gam v) \<le> 1"
  shows "0 \<le> Re ((1 + Gam v) / (1 - Gam v))"
proof -
  have l: "0 < (cmod (1 - Gam v))\<^sup>2" using assms(1) by simp
  have "Re ((1 + Gam v) / (1 - Gam v)) = (1 - (cmod (Gam v))\<^sup>2) / (cmod (1 - Gam v))\<^sup>2"
    by (simp add: Re_divide' cmod_power2) (simp add: cmod_power2 power2_eq_square algebra_simps)
  moreover have "(cmod (Gam v))\<^sup>2 \<le> 1" using assms(2) by (simp add: power_le_one)
  ultimately show ?thesis using l by simp
qed


lemma impedance_value:
  assumes "0 \<le> PORT_Z s" "Gam v \<noteq> 1" "cmod (Gam v) \<le> 1"
  shows "Complex (resistance s v) (reactance s v) = of_real (PORT_Z s) * (1 + Gam v) / (1 - Gam v)"
proof -
  have "0 \<le> PORT_Z s * Re ((1 + Gam v) / (1 - Gam v))"
    using assms(1) passive_real_part [OF assms(2,3)] by simp
  then have "0 \<le> Re (of_real (PORT_Z s) * (1 + Gam v) / (1 - Gam v))"
    by (simp add: Re_complex_of_real Im_complex_of_real flip: times_divide_eq_right)
  then show ?thesis using impedance_parts [OF assms(2), of s] by (simp add: complex_eq_iff)
qed

definition mirror :: "cfloat \<Rightarrow> cfloat" where "mirror v = (- fst v, - snd v)"

lemma admittance_is_mirror:
  assumes "PORT_Z s' = 1 / PORT_Z s"
  shows "conductance s v = resistance s' (mirror v)" "susceptance s v = reactance s' (mirror v)" "Gam (mirror v) = - Gam v"
  by (simp_all add: conductance_def susceptance_def resistance_def reactance_def mirror_def assms Gam_def complex_eq_iff)

lemma admittance_value:
  assumes "0 < PORT_Z s" "Gam v \<noteq> -1" "cmod (Gam v) \<le> 1"
  shows "Complex (conductance s v) (susceptance s v) = (1 - Gam v) / (of_real (PORT_Z s) * (1 + Gam v))"
proof -
  define s' where "s' = on_props (\<lambda>p. p\<lparr>portz := 1 / PORT_Z s\<rparr>) s"
  have p: "PORT_Z s' = 1 / PORT_Z s" by (simp add: s'_def PORT_Z_def)
  note m = admittance_is_mirror [OF p, of v]
  have "Complex (conductance s v) (susceptance s v) = of_real (PORT_Z s') * (1 + Gam (mirror v)) / (1 - Gam (mirror v))"
    unfolding m(1,2) using assms by (intro impedance_value) (simp_all add: m(3) p minus_equation_iff [of _ 1] eq_commute [of "-1"])
  then show ?thesis by (simp add: m(3) p)
qed

lemma cmod_quotient: "sqrt (get_l a b / get_l c d) = cmod (Complex a b) / cmod (Complex c d)"
  by (simp add: get_l_cmod real_sqrt_divide)

lemma mod_z_value: "0 \<le> PORT_Z s \<Longrightarrow> mod_z s v = cmod (of_real (PORT_Z s) * (1 + Gam v) / (1 - Gam v))"
proof -
  have "cmod (Complex (1 - fst v) (snd v)) = cmod (1 - Gam v)" by (simp add: one_minus cmod_def)
  then show "0 \<le> PORT_Z s \<Longrightarrow> ?thesis"
    by (simp add: mod_z_def cmod_quotient norm_mult norm_divide one_minus(2))
qed

lemma quality_value:
  assumes "cmod (Gam v) < 1" "0 < PORT_Z s"
  shows "qualityfactor v = \<bar>reactance s v / resistance s v\<bar>"
proof -
  have n1: "Gam v \<noteq> 1" using assms(1) by auto
  have l: "0 < get_l (1 - fst v) (snd v)" using n1 by (intro get_l_pos) (simp add: Gam_not_one)
  have "(cmod (Gam v))\<^sup>2 < 1" using assms(1) by (simp add: power_less_one_iff)
  then have g: "get_l (fst v) (snd v) < 1" by (simp add: get_l_cmod Gam_def)
  have "2 * PORT_Z s * (1 - fst v) / get_l (1 - fst v) (snd v) - PORT_Z s =
      PORT_Z s * (1 - get_l (fst v) (snd v)) / get_l (1 - fst v) (snd v)"
    using l by (simp add: field_simps get_l_def)
  then have r: "resistance s v = PORT_Z s * (1 - get_l (fst v) (snd v)) / get_l (1 - fst v) (snd v)"
    using l g assms(2) by (simp add: resistance_def get_s11_r_def)
  have x: "reactance s v = 2 * PORT_Z s * snd v / get_l (1 - fst v) (snd v)"
    by (simp add: reactance_def get_s11_x_def)
  show ?thesis using l g assms(2) by (simp add: qualityfactor_def r x)
qed

text \<open>C34: For every passive reactive load the displayed values agree with each other and with circuit
  theory: resistance and reactance form the impedance \<open>Z = Z0 (1 + S) / (1 - S)\<close>, conductance and
  susceptance its inverse, the moduli and the quality factor are those of \<open>Z\<close>, the series inductance
  and capacitance reproduce the reactance at the frequency of the point, and the parallel resistance
  and reactance, inductance and capacitance reproduce the admittance.\<close>
theorem displayed_impedance:
  assumes "0 < PORT_Z s" "cmod (Gam v) < 1" "snd v \<noteq> 0" "getFrequency i s \<noteq> 0"
    and "Z = of_real (PORT_Z s) * (1 + Gam v) / (1 - Gam v)"
  shows "Complex (resistance s v) (reactance s v) = Z \<and> Complex (conductance s v) (susceptance s v) = 1 / Z \<and>
    mod_z s v = cmod Z \<and> mod_y s v = cmod (1 / Z) \<and> qualityfactor v = \<bar>Im Z / Re Z\<bar> \<and>
    get_w s i * series_l s i v = Im Z \<and> - 1 / (get_w s i * series_c s i v) = Im Z \<and>
    1 / Complex (parallel_r s v) 0 + 1 / Complex 0 (parallel_x s v) = 1 / Z \<and>
    get_w s i * parallel_c s i v = Im (1 / Z) \<and> - 1 / (get_w s i * parallel_l s i v) = Im (1 / Z)"
proof -
  have ne: "Gam v \<noteq> 1" "Gam v \<noteq> -1" using assms(2) by auto
  have Z: "Complex (resistance s v) (reactance s v) = Z"
    unfolding assms(5) using assms(1,2) ne by (intro impedance_value) simp_all
  have Y: "Complex (conductance s v) (susceptance s v) = 1 / Z"
    using assms(1,2,5) ne admittance_value [of s v] by simp
  have l: "0 < get_l (1 + fst v) (snd v)" "0 < get_l (1 - fst v) (snd v)" using assms(3) by (auto intro: get_l_pos)
  have x0: "reactance s v \<noteq> 0" "susceptance s v \<noteq> 0"
    using l assms(1,3) by (simp_all add: reactance_def susceptance_def get_s11_x_def)
  have w: "0 < get_w s i" using assms(4) unfolding get_w_def by (intro mult_pos_pos) (simp_all add: unat_gt_0 del: of_nat_unat)
  have ReZ: "Re Z = resistance s v" "Im Z = reactance s v" and ReY: "Re (1 / Z) = conductance s v" "Im (1 / Z) = susceptance s v"
    by (simp_all flip: Z) (simp_all flip: Y add: Z)
  have "1 / Complex (parallel_r s v) 0 = Complex (conductance s v) 0"
    by (simp add: parallel_r_def complex_eq_iff Re_divide Im_divide power2_eq_square)
  moreover have "1 / Complex 0 (parallel_x s v) = Complex 0 (susceptance s v)"
    using x0 by (simp add: parallel_x_def complex_eq_iff Re_divide Im_divide power2_eq_square)
  ultimately have par: "1 / Complex (parallel_r s v) 0 + 1 / Complex 0 (parallel_x s v) = 1 / Z"
    by (simp flip: Y add: complex_eq_iff)
  have mz: "mod_z s v = cmod Z" unfolding assms(5) by (rule mod_z_value) (use assms(1) in simp)
  then have my: "mod_y s v = cmod (1 / Z)" by (simp add: mod_y_def norm_divide)
  have q: "qualityfactor v = \<bar>Im Z / Re Z\<bar>" using quality_value [OF assms(2,1)] by (simp add: ReZ)
  have rest: "get_w s i * series_l s i v = Im Z" "- 1 / (get_w s i * series_c s i v) = Im Z"
    "get_w s i * parallel_c s i v = Im (1 / Z)" "- 1 / (get_w s i * parallel_l s i v) = Im (1 / Z)"
    unfolding ReZ ReY using w x0 by (simp_all add: series_l_def series_c_def parallel_c_def parallel_l_def parallel_x_def)
  show ?thesis using Z Y mz my q rest par by blast
qed

text \<open>The two transmission fixtures are inverted exactly: the impedance shown from S21 in series
  and in shunt connection is the impedance that was connected, and its modulus is shown as well.\<close>
theorem displayed_s21:
  assumes "PORT_Z s \<noteq> 0" "0 \<le> PORT_Z s" "Z \<noteq> 0" "2 * of_real (PORT_Z s) + Z \<noteq> 0" "2 * Z + of_real (PORT_Z s) \<noteq> 0"
    and "Gam v = 2 * of_real (PORT_Z s) / (2 * of_real (PORT_Z s) + Z)"
    and "Gam u = 2 * Z / (2 * Z + of_real (PORT_Z s))"
  shows "Complex (s21series_r s v) (s21series_x s v) = Z \<and> s21series_z s v = cmod Z \<and>
    Complex (s21shunt_r s u) (s21shunt_x s u) = Z \<and> s21shunt_z s u = cmod Z"
proof -
  let ?z = "of_real (PORT_Z s) :: complex"
  have z: "?z \<noteq> 0" using assms(1) by simp
  have v0: "Gam v \<noteq> 0" using assms(4) z by (simp add: assms(6))
  have u1: "1 - Gam u = ?z / (2 * Z + ?z)" using assms(5) by (simp add: assms(7) field_simps)
  have u0: "Gam u \<noteq> 1" using u1 z assms(5) by (metis cancel_comm_monoid_add_class.diff_cancel divide_eq_0_iff)
  have "Complex (s21series_r s v) (s21series_x s v) = of_real (2 * PORT_Z s) / Gam v - of_real (2 * PORT_Z s)"
    unfolding s21series_r_def s21series_x_def Gam_def using v0 Gam_not_one(3) by (intro s21_point) auto
  also have "\<dots> = Z" using z assms(4) by (simp add: assms(6) field_simps)
  finally have ser: "Complex (s21series_r s v) (s21series_x s v) = Z" .
  have "Complex (s21shunt_r s u) (s21shunt_x s u) = of_real (PORT_Z s / 2) / (1 - Gam u) - of_real (PORT_Z s / 2)"
    unfolding s21shunt_r_def s21shunt_x_def one_minus using u0 by (intro s21_point) (simp add: Gam_not_one)
  also have "\<dots> = Z" using z assms(5) by (simp add: u1 field_simps)
  finally have sh: "Complex (s21shunt_r s u) (s21shunt_x s u) = Z" .
  have neg: "cmod (Complex (1 - fst x) (snd x)) = cmod (1 - Gam x)" "Complex (fst x) (snd x) = Gam x" for x
    by (simp_all add: one_minus cmod_def) (simp add: Gam_def)
  have v1: "1 - Gam v = Z / (2 * ?z + Z)" using assms(4) by (simp add: assms(6) field_simps)
  have vz: "(1 - Gam v) / Gam v = Z / (2 * ?z)" using z assms(4) by (simp add: v1) (simp add: assms(6))
  have uz: "Gam u / (1 - Gam u) = 2 * Z / ?z" using z assms(5) by (simp add: u1) (simp add: assms(7))
  have "s21series_z s v = 2 * PORT_Z s * cmod ((1 - Gam v) / Gam v)"
    by (simp only: s21series_z_def cmod_quotient neg norm_divide)
  also have "\<dots> = cmod Z" using assms(1,2) by (simp add: vz norm_divide norm_mult)
  finally have serz: "s21series_z s v = cmod Z" .
  have "s21shunt_z s u = PORT_Z s / 2 * cmod (Gam u / (1 - Gam u))"
    by (simp only: s21shunt_z_def cmod_quotient neg norm_divide)
  also have "\<dots> = cmod Z" using assms(1,2) by (simp add: uz norm_divide norm_mult)
  finally show ?thesis using ser sh serz by blast
qed


lemma portz_device0 [simp]: "PORT_Z (device0\<lparr>f_start := f\<rparr>) = 50"
  by (simp add: PORT_Z_def device0_def props0_def load_default_properties_def)

theorem displayed_impedance_witness:
  "Complex (resistance (device0\<lparr>f_start := 1000000\<rparr>) (0, 1 / 2)) (reactance (device0\<lparr>f_start := 1000000\<rparr>) (0, 1 / 2)) = Complex 30 40"
proof -
  have f: "getFrequency 0 (device0\<lparr>f_start := 1000000\<rparr>) \<noteq> 0" by (simp add: getFrequency_def device0_def)
  have g: "Gam (0, 1 / 2) = Complex 0 (1 / 2)" by (simp add: Gam_def)
  have c: "cmod (Gam (0, 1 / 2)) < 1" by (simp add: g cmod_def power2_eq_square)
  have "of_real (PORT_Z (device0\<lparr>f_start := 1000000\<rparr>)) * (1 + Gam (0, 1 / 2)) / (1 - Gam (0, 1 / 2)) = Complex 30 40"
    by (simp add: g complex_eq_iff Re_divide Im_divide power2_eq_square)
  then show ?thesis
    using displayed_impedance [of "device0\<lparr>f_start := 1000000\<rparr>" "(0, 1 / 2)" 0, OF _ c _ f refl] by simp
qed

theorem displayed_s21_witness:
  "Complex (s21series_r (device0\<lparr>f_start := 0\<rparr>) (1 / 2, 0)) (s21series_x (device0\<lparr>f_start := 0\<rparr>) (1 / 2, 0)) = 100"
proof -
  have "Gam (1 / 2, 0) = 2 * of_real (PORT_Z (device0\<lparr>f_start := 0\<rparr>)) / (2 * of_real (PORT_Z (device0\<lparr>f_start := 0\<rparr>)) + 100)"
    "Gam (4 / 5, 0) = 2 * 100 / (2 * 100 + of_real (PORT_Z (device0\<lparr>f_start := 0\<rparr>)))"
    by (simp_all add: Gam_def complex_eq_iff Re_divide Im_divide power2_eq_square)
  then show ?thesis using displayed_s21 [of "device0\<lparr>f_start := 0\<rparr>" 100 "(1 / 2, 0)" "(4 / 5, 0)"] by simp
qed

text \<open>With an even number of points the group delay of an inner point divides by the wrong frequency
  step: for 100 points from 1 to 100 MHz the two neighbours are 2 MHz apart, but the quotient of the
  integer division \<open>99 / 2\<close> makes the step 2020408 Hz, whatever arc tangent is used.\<close>
theorem groupdelay_even_points:
  "\<exists>s. set_frequencies 1000000 100000000 100 (on_props (\<lambda>p. p\<lparr>frequency0 := 1000000, frequency1 := 100000000,
        sweep_points := 100\<rparr>) device0) = Some s \<and>
     getFrequency 51 s - getFrequency 49 s = 2000000 \<and>
     (\<forall>atan v. groupdelay_from_array atan s 50 v = groupdelay atan (v ! 49) (v ! 51) 2020408)"
proof -
  have "(99 :: nat) div Suc (Suc 0) = 49" by (simp flip: numeral_2_eq_2)
  then show ?thesis
    by (simp add: set_frequencies_def getFrequency_def groupdelay_from_array_def Let_def device0_def)
qed

end
