(* ===== verification/Measure.thy ===== *)
theory Measure
  imports Format SwrBw
begin

text \<open>
  The numerical routines of \<^verbatim>\<open>measure.c\<close>: quadratic roots, the search for a level crossing and for a
  peak with parabolic interpolation between the samples, interpolation at a frequency, and the two
  regressions.  Floats are real numbers; where the source can divide by zero the result is \<open>None\<close>.
\<close>

definition match_quadratic_equation :: "real \<Rightarrow> real \<Rightarrow> real \<Rightarrow> (real \<times> real) option" where
  "match_quadratic_equation a b c =
     (let a_x_2 = 2 * a; d = b * b - 2 * a_x_2 * c in
      if d < 0 then Some (0, 0)
      else if a_x_2 = 0 then None
      else let sd = sqrt d in Some ((- b + sd) / a_x_2, (- b - sd) / a_x_2))"

text \<open>The search loop: the index runs up, or down until it wraps below 0 and leaves the sweep.\<close>

function search_loop ::
  "(nat \<Rightarrow> real) \<Rightarrow> real \<Rightarrow> nat \<Rightarrow> bool \<Rightarrow> bool \<Rightarrow> nat \<Rightarrow> real \<Rightarrow> real \<Rightarrow> (nat \<times> real \<times> real \<times> real) option" where
  "search_loop get y n left result x y1 y2 =
     (if x \<ge> n then None
      else let y3 = get x in
        if result \<noteq> (y3 > y) then Some (x, y1, y2, y3)
        else if left \<and> x = 0 then None
        else search_loop get y n left result (if left then x - 1 else x + 1) y2 y3)"
  by pat_completeness auto
termination
  by (relation "measure (\<lambda>(get, y, n, left, result, x, y1, y2). if left then x else n - x)") auto

declare search_loop.simps [simp del]

definition search_root :: "real \<Rightarrow> real \<Rightarrow> real \<Rightarrow> real \<Rightarrow> real option" where
  "search_root y y1 y2 y3 =
     (let a = 1 / 2 * (y1 + y3) - y2; b = 1 / 2 * (y3 - y1); c = y2 - y in
      map_option (\<lambda>(r0, r1). if r0 > 0 \<and> r0 < 1 then r0 else r1) (match_quadratic_equation a b c))"

definition measure_search_value ::
  "nat \<Rightarrow> real \<Rightarrow> (nat \<Rightarrow> real) \<Rightarrow> bool \<Rightarrow> int \<Rightarrow> vna \<Rightarrow> real option \<times> nat \<times> vna" where
  "measure_search_value idx y get left marker_idx s =
     (case search_loop get y (sweep_points (props s)) left (get idx > y) idx (get idx) (get idx) of
        None \<Rightarrow> (Some 0, idx, s)
      | Some (x, y1, y2, y3) \<Rightarrow>
          let x = (if left then x + 1 else x - 1);
              s = set_marker_index marker_idx (int x) s in
          (map_option (\<lambda>res. real (unat (getFrequency x s)) +
               real (unat (getFrequencyStep s)) * (if left then - res else res)) (search_root y y1 y2 y3), x, s))"

definition peak_step :: "(real \<Rightarrow> real \<Rightarrow> bool) \<Rightarrow> (nat \<Rightarrow> real) \<Rightarrow> nat \<Rightarrow> (nat \<times> real) option \<Rightarrow> (nat \<times> real) option" where
  "peak_step compare get i st = (case st of None \<Rightarrow> Some (i, get i)
     | Some (x, y2) \<Rightarrow> let ytemp = get i in if compare ytemp y2 then Some (i, ytemp) else Some (x, y2))"

text \<open>The peak search returns the interpolated value and the index, which stays as it was when the
  extreme sample is the first or the last one.\<close>

definition search_peak_value :: "nat \<Rightarrow> (nat \<Rightarrow> real) \<Rightarrow> bool \<Rightarrow> nat \<Rightarrow> (real \<times> nat) option" where
  "search_peak_value xp get mode n =
     (let compare = (if mode then (>) else (<));
          (x, y2) = the (fold (peak_step compare get) [1..<n] (Some (0, get 0))) in
      if x < 1 \<or> x \<ge> n - 1 then Some (y2, xp)
      else
        let y1 = get (x - 1); y3 = get (x + 1) in
        if y1 = y3 then Some (y2, x)
        else
          let a = 8 * (y1 - 2 * y2 + y3); b = y3 - y1; c = y2 in
          if a = 0 then None else Some (c - b * b / a, x))"

definition parabolic_interpolation :: "real \<Rightarrow> real \<Rightarrow> real \<Rightarrow> real \<Rightarrow> real" where
  "parabolic_interpolation y1 y2 y3 x =
     (let a = 1 / 2 * (y1 + y3) - y2; b = 1 / 2 * (y3 - y1); c = y2 in a * x * x + b * x + c)"

definition linear_interpolation :: "real \<Rightarrow> real \<Rightarrow> real \<Rightarrow> real" where
  "linear_interpolation y1 y2 x = y1 + (y2 - y1) * x"

text \<open>The outer option is the division by a zero span or point count, the inner one the \<^verbatim>\<open>false\<close> result.\<close>

definition measure_get_value :: "nat \<Rightarrow> u32 \<Rightarrow> vna \<Rightarrow> cfloat option option" where
  "measure_get_value ch f s =
     (let p = props s in
      if f < frequency0 p \<or> f > frequency1 p then Some None
      else
        let points = of_nat (sweep_points p) - 1 :: u32;
            width = frequency1 p - frequency0 p in
        if width = 0 then None
        else
          let idx = ucast (ucast (f - frequency0 p) * ucast points div ucast width :: u64) :: u32 in
          if idx - 1 > points - 2 then Some None
          else if points = 0 then None
          else
            let v = ucast width * ucast idx + ucast (points div 2) :: u64;
                src_f0 = frequency0 p + ucast (v div ucast points);
                src_f1 = frequency0 p + ucast ((v + ucast width) div ucast points);
                delta = src_f1 - src_f0;
                k1 = (if delta = 0 then 0 else real (unat (f - src_f0)) / real (unat delta));
                m = measured s ! ch; i = unat idx in
            Some (Some (parabolic_interpolation (fst (m ! (i - 1))) (fst (m ! i)) (fst (m ! (i + 1))) k1,
                        parabolic_interpolation (snd (m ! (i - 1))) (snd (m ! i)) (snd (m ! (i + 1))) k1)))"

definition psum_step :: "(nat \<Rightarrow> real) \<Rightarrow> (nat \<Rightarrow> real) \<Rightarrow> nat \<Rightarrow>
    real \<times> real \<times> real \<times> real \<times> real \<times> real \<times> real \<Rightarrow> real \<times> real \<times> real \<times> real \<times> real \<times> real \<times> real" where
  "psum_step getx gety i = (\<lambda>(x, y, xx, xy, xxx, xxy, xxxx).
     let x' = getx i; y' = gety i; xx' = x' * x'; xy' = x' * y' in
     (x + x', y + y', xx + xx', xy + xy', xxx + x' * xx', xxy + x' * xy', xxxx + xx' * xx'))"

definition parabolic_regression :: "nat \<Rightarrow> (nat \<Rightarrow> real) \<Rightarrow> (nat \<Rightarrow> real) \<Rightarrow> (real \<times> real \<times> real) option" where
  "parabolic_regression N getx gety =
     (let (x, y, xx, xy, xxx, xxy, xxxx) = fold (psum_step getx gety) [0..<N] (0, 0, 0, 0, 0, 0, 0) in
      if N = 0 then None
      else
        let xm = x / real N; ym = y / real N; xxm = xx / real N;
            xxxx = xxxx - xx * xxm;
            xxx = xxx - xx * xm; xxy = xxy - xx * ym;
            xx = xx - x * xm; xy = xy - x * ym in
        if xxxx * xx - xxx * xxx = 0 then None
        else
          let c = (xx * xxy - xxx * xy) / (xxxx * xx - xxx * xxx);
              b = (xxxx * xy - xxx * xxy) / (xxxx * xx - xxx * xxx);
              a = ym - b * xm - c * xxm in
          Some (a, b, c))"

definition lsum_step :: "(nat \<Rightarrow> real) \<Rightarrow> (nat \<Rightarrow> real) \<Rightarrow> nat \<Rightarrow>
    real \<times> real \<times> real \<times> real \<Rightarrow> real \<times> real \<times> real \<times> real" where
  "lsum_step getx gety i = (\<lambda>(x, y, xx, xy).
     let x' = getx i; y' = gety i; xx' = x' * x'; xy' = x' * y' in (x + x', y + y', xx + xx', xy + xy'))"

definition linear_regression :: "nat \<Rightarrow> (nat \<Rightarrow> real) \<Rightarrow> (nat \<Rightarrow> real) \<Rightarrow> (real \<times> real) option" where
  "linear_regression N getx gety =
     (let (x, y, xx, xy) = fold (lsum_step getx gety) [0..<N] (0, 0, 0, 0) in
      if N = 0 then None
      else
        let xm = x / real N; ym = y / real N in
        if xx - x * xm = 0 then None
        else let b = (xy - x * ym) / (xx - x * xm); a = ym - b * xm in Some (a, b))"

subsection \<open>Level crossings\<close>

lemma quadratic_roots:
  assumes "match_quadratic_equation a b c = Some (r0, r1)" "0 \<le> b * b - 4 * a * c"
  shows "a \<noteq> 0" "a * t * t + b * t + c = a * (t - r0) * (t - r1)"
proof -
  let ?sd = "sqrt (b * b - 4 * a * c)"
  show a: "a \<noteq> 0" using assms by (auto simp: match_quadratic_equation_def Let_def split: if_splits)
  have r: "r0 = (- b + ?sd) / (2 * a)" "r1 = (- b - ?sd) / (2 * a)"
    using assms a by (auto simp: match_quadratic_equation_def Let_def split: if_splits)
  have sd: "?sd * ?sd = b * b - 4 * a * c" using assms(2) by simp
  have s: "r0 + r1 = - b / a" using a by (simp add: r field_simps)
  have "r0 * r1 = (b * b - ?sd * ?sd) / (4 * a * a)" by (simp add: r algebra_simps)
  also have "\<dots> = c / a" using a by (simp only: sd) (simp add: field_simps)
  finally have p: "r0 * r1 = c / a" .
  have "a * (t - r0) * (t - r1) = a * t * t - a * (r0 + r1) * t + a * (r0 * r1)" by (simp add: algebra_simps)
  also have "\<dots> = a * t * t + b * t + c" using a by (simp add: s p)
  finally show "a * t * t + b * t + c = a * (t - r0) * (t - r1)" ..
qed

lemma root_between:
  fixes r :: real
  shows "0 < r * (1 - r) \<longleftrightarrow> 0 < r \<and> r < 1"
  by (auto simp: zero_less_mult_iff)

lemma disc_nonneg:
  fixes a b c :: real
  assumes "c * (a + b + c) < 0"
  shows "0 \<le> b * b - 4 * a * c"
proof (rule ccontr)
  assume "\<not> ?thesis"
  then have n: "b * b - 4 * a * c < 0" by simp
  have "4 * a * c > 0" using n by (smt (verit) zero_le_square)
  moreover have "4 * a * (a + b + c) > 0"
  proof -
    have "4 * a * (a + b + c) = (2 * a + b) * (2 * a + b) - (b * b - 4 * a * c)" by (simp add: algebra_simps)
    then show ?thesis using n by (smt (verit) zero_le_square)
  qed
  ultimately have "0 < (4 * a * c) * (4 * a * (a + b + c))" by (rule mult_pos_pos)
  also have "\<dots> = (16 * (a * a)) * (c * (a + b + c))" by (simp only: mult_ac)
  also have "\<dots> \<le> 0" by (rule mult_nonneg_nonpos) (use assms in simp_all)
  finally show False by simp
qed

lemma search_root_correct:
  assumes "(y2 - y) * (y3 - y) < 0" "y1 + y3 \<noteq> 2 * y2"
  shows "\<exists>t. search_root y y1 y2 y3 = Some t \<and> 0 < t \<and> t < 1 \<and> parabolic_interpolation y1 y2 y3 t = y"
proof -
  let ?a = "1 / 2 * (y1 + y3) - y2" and ?b = "1 / 2 * (y3 - y1)" and ?c = "y2 - y"
  have a: "?a \<noteq> 0" using assms(2) by simp
  have p01: "?c * (?a + ?b + ?c) < 0"
  proof -
    have "?a + ?b + ?c = y3 - y" by (simp add: field_simps)
    then show ?thesis using assms(1) by (simp only:)
  qed
  note d = disc_nonneg [OF p01]
  obtain r0 r1 where q: "match_quadratic_equation ?a ?b ?c = Some (r0, r1)"
    using a by (cases "match_quadratic_equation ?a ?b ?c") (auto simp: match_quadratic_equation_def Let_def split: if_splits)
  note f = quadratic_roots(2) [OF q d]
  have "?c = ?a * r0 * r1" "?a + ?b + ?c = ?a * (1 - r0) * (1 - r1)" using f [of 0] f [of 1] by simp_all
  then have "(?a * r0 * r1) * (?a * (1 - r0) * (1 - r1)) < 0" using p01 by simp
  also have "(?a * r0 * r1) * (?a * (1 - r0) * (1 - r1)) = (?a * ?a) * ((r0 * (1 - r0)) * (r1 * (1 - r1)))"
    by (simp only: mult_ac)
  finally have m: "(r0 * (1 - r0)) * (r1 * (1 - r1)) < 0" using a by (smt (verit) mult_nonneg_nonneg zero_le_square)
  let ?t = "if r0 > 0 \<and> r0 < 1 then r0 else r1"
  have "0 < ?t \<and> ?t < 1"
  proof (cases "r0 > 0 \<and> r0 < 1")
    case False
    then have "r0 * (1 - r0) \<le> 0" using root_between [of r0] by linarith
    then have "0 < r1 * (1 - r1)" using m by (smt (verit) mult_nonpos_nonpos)
    then show ?thesis using False root_between [of r1] by simp
  qed simp
  moreover have "?a * ?t * ?t + ?b * ?t + ?c = 0" by (subst f) simp
  moreover have "search_root y y1 y2 y3 = Some ?t" unfolding search_root_def Let_def q by simp
  ultimately show ?thesis by (auto simp: parabolic_interpolation_def)
qed


lemma walk_next: "m < room left n x \<Longrightarrow> (if left then walk left x m - 1 else walk left x m + 1) = walk left x (Suc m)"
  by (simp add: walk_def)

lemma search_loop_spec:
  assumes "x < n" "m \<le> room left n x" "\<forall>j<m. (get (walk left x j) > y) = result"
  shows "case search_loop get y n left result (walk left x m) (get (walk left x (m - 2))) (get (walk left x (m - 1))) of
      None \<Rightarrow> \<forall>j\<le>room left n x. (get (walk left x j) > y) = result
    | Some (x', y1, y2, y3) \<Rightarrow> \<exists>k\<le>room left n x. (\<forall>j<k. (get (walk left x j) > y) = result) \<and> (get (walk left x k) > y) \<noteq> result \<and>
        x' = walk left x k \<and> y1 = get (walk left x (k - 2)) \<and> y2 = get (walk left x (k - 1)) \<and> y3 = get (walk left x k)"
  using assms
proof (induction "room left n x - m" arbitrary: m)
  case (0 m)
  then have m: "m = room left n x" by simp
  have b: "walk left x m < n" "walk left x m = (if left then 0 else n - 1)" using 0 m by (auto simp: walk_def room_def)
  show ?case
  proof (cases "result \<noteq> (get (walk left x m) > y)")
    case True
    then show ?thesis using b 0 by (subst search_loop.simps) (auto simp: Let_def intro!: exI [of _ m])
  next
    case False
    have "search_loop get y n False result n y1 y2 = None" for y1 y2 by (subst search_loop.simps) simp
    then have none: "search_loop get y n left result (walk left x m) (get (walk left x (m - 2))) (get (walk left x (m - 1))) = None"
      using False b 0 by (subst search_loop.simps) (auto simp: Let_def)
    show ?thesis unfolding none using False 0 m by (auto simp: le_less)
  qed
next
  case (Suc d m)
  then have m: "m < room left n x" by simp
  have b: "walk left x m < n" "\<not> (left \<and> walk left x m = 0)" using Suc m by (auto simp: walk_def room_def)
  show ?case
  proof (cases "result \<noteq> (get (walk left x m) > y)")
    case True
    then show ?thesis using b Suc.prems by (subst search_loop.simps) (auto simp: Let_def intro!: exI [of _ m])
  next
    case False
    have "\<forall>j<Suc m. (get (walk left x j) > y) = result" using False Suc.prems(3) by (auto simp: less_Suc_eq)
    moreover have "search_loop get y n left result (walk left x m) (get (walk left x (m - 2))) (get (walk left x (m - 1))) =
        search_loop get y n left result (walk left x (Suc m)) (get (walk left x (Suc m - 2))) (get (walk left x (Suc m - 1)))"
      using False b walk_next [OF m] by (subst search_loop.simps) (auto simp: Let_def)
    ultimately show ?thesis using Suc.hyps(1) [of "Suc m"] Suc.hyps(2) Suc.prems(1) m by auto
  qed
qed

definition first_cross :: "(nat \<Rightarrow> real) \<Rightarrow> real \<Rightarrow> nat \<Rightarrow> bool \<Rightarrow> nat \<Rightarrow> nat \<Rightarrow> bool" where
  "first_cross get y n left x k \<longleftrightarrow> k \<le> room left n x \<and> (\<forall>j<k. (get (walk left x j) > y) = (get x > y)) \<and>
     (get (walk left x k) > y) \<noteq> (get x > y)"

lemma first_cross_unique: "first_cross get y n left x k \<Longrightarrow> first_cross get y n left x k' \<Longrightarrow> k = k'"
  unfolding first_cross_def by (metis linorder_neqE_nat)

lemma search_loop_start:
  assumes "x < n"
  shows "search_loop get y n left (get x > y) x (get x) (get x) = None \<longleftrightarrow> (\<forall>k. \<not> first_cross get y n left x k)"
    and "first_cross get y n left x k \<Longrightarrow> search_loop get y n left (get x > y) x (get x) (get x) =
      Some (walk left x k, get (walk left x (k - 2)), get (walk left x (k - 1)), get (walk left x k))"
proof -
  let ?r = "search_loop get y n left (get x > y) x (get x) (get x)"
  have sp: "case ?r of None \<Rightarrow> \<forall>j\<le>room left n x. (get (walk left x j) > y) = (get x > y)
    | Some (x', y1, y2, y3) \<Rightarrow> \<exists>k\<le>room left n x. (\<forall>j<k. (get (walk left x j) > y) = (get x > y)) \<and>
        (get (walk left x k) > y) \<noteq> (get x > y) \<and>
        x' = walk left x k \<and> y1 = get (walk left x (k - 2)) \<and> y2 = get (walk left x (k - 1)) \<and> y3 = get (walk left x k)"
    using search_loop_spec [where x = x and n = n and m = 0 and left = left and get = get and y = y and result = "get x > y"]
      assms by simp
  have none: "\<not> first_cross get y n left x k" if "?r = None" for k
    using sp that by (simp add: first_cross_def)
  have some: "\<exists>k. first_cross get y n left x k \<and>
      v = (walk left x k, get (walk left x (k - 2)), get (walk left x (k - 1)), get (walk left x k))" if "?r = Some v" for v
    using sp that unfolding first_cross_def by (cases v) auto
  show "?r = None \<longleftrightarrow> (\<forall>k. \<not> first_cross get y n left x k)"
    using none some by (cases ?r) blast+
  show "?r = Some (walk left x k, get (walk left x (k - 2)), get (walk left x (k - 1)), get (walk left x k))"
    if fc: "first_cross get y n left x k"
  proof (cases ?r)
    case None
    then show ?thesis using none fc by blast
  next
    case (Some v)
    then show ?thesis using some [OF Some] first_cross_unique [OF fc] by auto
  qed
qed

lemma set_marker_frequency [simp]:
  "getFrequency i (set_marker_index m x s) = getFrequency i s" "getFrequencyStep (set_marker_index m x s) = getFrequencyStep s"
  by (simp_all add: set_marker_index_def on_marker_def request_to_redraw_def getFrequency_def getFrequencyStep_def Let_def)

text \<open>C32: The level search stops at the first pair of neighbouring samples on different sides of the
  level, reports the inner one and puts the marker there, and the frequency it returns lies strictly
  between the two, at the point where the parabola through the last three samples takes exactly the
  level, provided no sample equals the level and the three samples are not on a line.\<close>
theorem search_value_correct:
  assumes "x < sweep_points (props s)" "first_cross get y (sweep_points (props s)) left x k"
    and "get (walk left x k) \<noteq> y" "get (walk left x (k - 1)) \<noteq> y"
    and "get (walk left x (k - 2)) + get (walk left x k) \<noteq> 2 * get (walk left x (k - 1))"
  shows "\<exists>t. 0 < t \<and> t < 1 \<and>
      parabolic_interpolation (get (walk left x (k - 2))) (get (walk left x (k - 1))) (get (walk left x k)) t = y \<and>
      measure_search_value x y get left mk s =
        (Some (real (unat (getFrequency (walk left x (k - 1)) s)) + real (unat (getFrequencyStep s)) * (if left then - t else t)),
         walk left x (k - 1), set_marker_index mk (int (walk left x (k - 1))) s)"
proof -
  let ?n = "sweep_points (props s)"
  have k: "0 < k" "k \<le> room left ?n x" using assms(2) by (auto simp: first_cross_def intro: gr0I)
  have bk: "(if left then walk left x k + 1 else walk left x k - 1) = walk left x (k - 1)"
    using k by (auto simp: walk_def room_def)
  have "(get (walk left x (k - 1)) > y) \<noteq> (get (walk left x k) > y)"
    using assms(2) k by (auto simp: first_cross_def)
  then have "(get (walk left x (k - 1)) - y) * (get (walk left x k) - y) < 0"
    using assms(3,4) by (auto simp: mult_less_0_iff)
  then obtain t where "search_root y (get (walk left x (k - 2))) (get (walk left x (k - 1))) (get (walk left x k)) = Some t"
    "0 < t" "t < 1" "parabolic_interpolation (get (walk left x (k - 2))) (get (walk left x (k - 1))) (get (walk left x k)) t = y"
    using search_root_correct assms(5) by blast
  then show ?thesis
    using search_loop_start(2) [OF assms(1,2)] bk by (intro exI [of _ t]) (auto simp: measure_search_value_def Let_def)
qed

text \<open>A sample that equals the level breaks the search: on samples -1, 0, 2 the crossing of level 0
  is at the second sample, but the root that is picked lies three steps below it, so the result is
  the frequency of the second sample less three steps.\<close>
theorem search_exact_sample:
  "\<exists>s. fst (measure_search_value 0 0 (\<lambda>i. [-1, 0, 2] ! i) False (-1) s) =
      Some (real (unat (getFrequency 1 s)) - 3 * real (unat (getFrequencyStep s)))"
proof -
  define s where "s = on_props (\<lambda>p. p\<lparr>sweep_points := 3\<rparr>) device0"
  have n: "sweep_points (props s) = 3" by (simp add: s_def)
  have fc: "first_cross (\<lambda>i. [-1, 0, 2] ! i) 0 3 False 0 2"
    by (simp add: first_cross_def room_def walk_def less_2_cases_iff numeral_2_eq_2 less_Suc_eq)
  have "sqrt (9 / 4) = 3 / 2" by (simp add: real_sqrt_divide)
  then have "search_root 0 (-1) 0 2 = Some (- 3)"
    by (simp add: search_root_def match_quadratic_equation_def Let_def)
  then show ?thesis
    using search_loop_start(2) [of 0 3, OF _ fc] by (intro exI [of _ s]) (simp add: measure_search_value_def n walk_def)
qed


theorem search_value_correct_witness:
  "\<exists>t. 0 < t \<and> t < 1 \<and> parabolic_interpolation ([-3, -1, 2] ! 0) ([-3, -1, 2] ! 1) ([-3, -1, 2] ! 2) t = 0"
proof -
  define s where "s = on_props (\<lambda>p. p\<lparr>sweep_points := 3\<rparr>) device0"
  have n: "sweep_points (props s) = 3" by (simp add: s_def)
  have "first_cross (\<lambda>i. [-3, -1, 2] ! i) 0 3 False 0 2"
    by (simp add: first_cross_def room_def walk_def less_2_cases_iff numeral_2_eq_2 less_Suc_eq)
  then show ?thesis
    using search_value_correct [of 0 s "\<lambda>i. [-3, -1, 2] ! i" 0 False 2 "-1"] by (auto simp: n walk_def)
qed

subsection \<open>Peaks\<close>

interpretation maxscan: best_scan "(>)" "\<lambda>i. True" get "peak_step (>) get" for get :: "nat \<Rightarrow> real"
  by unfold_locales (auto simp: peak_step_def Let_def)

interpretation minscan: best_scan "(<)" "\<lambda>i. True" get "peak_step (<) get" for get :: "nat \<Rightarrow> real"
  by unfold_locales (auto simp: peak_step_def Let_def)

lemma peak_scan:
  assumes "1 \<le> n"
  obtains x where "the (fold (peak_step (if mode then (>) else (<)) get) [1..<n] (Some (0, get 0))) = (x, get x)" "x < n"
    "\<forall>i<n. if mode then get i \<le> get x else get x \<le> get i" "\<forall>i<x. if mode then get i < get x else get x < get i"
proof (cases mode)
  case True
  have "best_of (>) (\<lambda>i. True) get n (fold (peak_step (>) get) [1..<n] (Some (0, get 0)))"
    using assms by (intro maxscan.scan_from) (auto simp: best_of_def)
  then show ?thesis using that True by (auto simp: best_of_def not_less split: option.splits)
next
  case False
  have "best_of (<) (\<lambda>i. True) get n (fold (peak_step (<) get) [1..<n] (Some (0, get 0)))"
    using assms by (intro minscan.scan_from) (auto simp: best_of_def)
  then show ?thesis using that False by (auto simp: best_of_def not_less split: option.splits)
qed

lemma vertex_value:
  fixes y1 y2 y3 :: real
  assumes "y1 - 2 * y2 + y3 \<noteq> 0"
  shows "\<exists>t. parabolic_interpolation y1 y2 y3 t = y2 - (y3 - y1) * (y3 - y1) / (8 * (y1 - 2 * y2 + y3)) \<and>
     (\<forall>u. parabolic_interpolation y1 y2 y3 u - parabolic_interpolation y1 y2 y3 t = 1 / 2 * (y1 - 2 * y2 + y3) * (u - t)\<^sup>2)"
proof -
  define a where "a = y1 - 2 * y2 + y3"
  define b where "b = y3 - y1"
  have p: "parabolic_interpolation y1 y2 y3 u = a / 2 * u * u + b / 2 * u + y2" for u
    by (simp add: parabolic_interpolation_def a_def b_def field_simps)
  have a: "a \<noteq> 0" using assms by (simp add: a_def)
  have "parabolic_interpolation y1 y2 y3 (- b / (2 * a)) = y2 - b * b / (8 * a)"
    unfolding p using a by (simp add: field_simps)
  moreover have "parabolic_interpolation y1 y2 y3 u - parabolic_interpolation y1 y2 y3 (- b / (2 * a)) = 1 / 2 * a * (u - - b / (2 * a))\<^sup>2" for u
    unfolding p using a by (simp add: field_simps power2_eq_square)
  ultimately show ?thesis unfolding a_def b_def by blast
qed

text \<open>The peak search never divides by zero.  It finds the extreme sample, the first of equal ones;
  for an extreme sample inside the sweep it reports its index and the extreme of the parabola through
  it and its two neighbours, which is at least as extreme as every sample; for one at either end of
  the sweep it returns the sample and leaves the caller's index alone.\<close>
theorem search_peak_correct:
  assumes "1 \<le> n"
  shows "\<exists>x v. x < n \<and> (\<forall>i<n. if mode then get i \<le> get x else get x \<le> get i) \<and>
    (\<forall>i<x. if mode then get i < get x else get x < get i) \<and>
    search_peak_value xp get mode n = Some (v, if 0 < x \<and> x < n - 1 then x else xp) \<and>
    (if mode then get x \<le> v else v \<le> get x) \<and>
    (if 0 < x \<and> x < n - 1 \<and> get (x - 1) \<noteq> get (x + 1)
     then \<exists>t. v = parabolic_interpolation (get (x - 1)) (get x) (get (x + 1)) t \<and>
       (\<forall>u. if mode then parabolic_interpolation (get (x - 1)) (get x) (get (x + 1)) u \<le> v
            else v \<le> parabolic_interpolation (get (x - 1)) (get x) (get (x + 1)) u)
     else v = get x)"
proof -
  obtain x where x: "the (fold (peak_step (if mode then (>) else (<)) get) [1..<n] (Some (0, get 0))) = (x, get x)" "x < n"
    "\<forall>i<n. if mode then get i \<le> get x else get x \<le> get i" "\<forall>i<x. if mode then get i < get x else get x < get i"
    using peak_scan [OF assms] by metis
  show ?thesis
  proof (cases "0 < x \<and> x < n - 1 \<and> get (x - 1) \<noteq> get (x + 1)")
    case False
    then have "search_peak_value xp get mode n = Some (get x, if 0 < x \<and> x < n - 1 then x else xp)"
      using x(1) by (auto simp: search_peak_value_def Let_def)
    then show ?thesis using x False by (intro exI [of _ x] exI [of _ "get x"]) auto
  next
    case True
    let ?a = "get (x - 1) - 2 * get x + get (x + 1)" and ?b = "get (x + 1) - get (x - 1)"
    have nb: "if mode then get (x - 1) \<le> get x \<and> get (x + 1) \<le> get x else get x \<le> get (x - 1) \<and> get x \<le> get (x + 1)"
      using x(3) True by (auto split: if_splits)
    have sgn: "if mode then ?a < 0 else ?a > 0" using nb True by (cases mode) auto
    then have a: "?a \<noteq> 0" by (auto split: if_splits)
    define v where "v = get x - ?b * ?b / (8 * ?a)"
    have sv: "search_peak_value xp get mode n = Some (v, x)"
      using x(1) True a by (simp add: search_peak_value_def Let_def v_def)
    obtain t where t: "parabolic_interpolation (get (x - 1)) (get x) (get (x + 1)) t = v"
      "\<And>u. parabolic_interpolation (get (x - 1)) (get x) (get (x + 1)) u - v = 1 / 2 * ?a * (u - t)\<^sup>2"
      using vertex_value [OF a] unfolding v_def by metis
    have ext: "if mode then parabolic_interpolation (get (x - 1)) (get x) (get (x + 1)) u \<le> v
        else v \<le> parabolic_interpolation (get (x - 1)) (get x) (get (x + 1)) u" for u
    proof (cases mode)
      case True
      have "1 / 2 * ?a * (u - t)\<^sup>2 \<le> 0" by (rule mult_nonpos_nonneg) (use sgn True in auto)
      then show ?thesis using t(2) [of u] True by simp
    next
      case False
      have "1 / 2 * ?a * (u - t)\<^sup>2 \<ge> 0" by (rule mult_nonneg_nonneg) (use sgn False in auto)
      then show ?thesis using t(2) [of u] False by simp
    qed
    have p0: "parabolic_interpolation (get (x - 1)) (get x) (get (x + 1)) 0 = get x" by (simp add: parabolic_interpolation_def)
    have "if mode then get x \<le> v else v \<le> get x" using ext [of 0] unfolding p0 .
    then show ?thesis using x True sv t(1) ext by (intro exI [of _ x] exI [of _ v]) auto
  qed
qed

theorem search_peak_correct_witness:
  "\<exists>x v. x < 4 \<and> (\<forall>i<4. if True then \<bar>real i - 2\<bar> \<le> \<bar>real x - 2\<bar> else \<bar>real x - 2\<bar> \<le> \<bar>real i - 2\<bar>) \<and>
    search_peak_value 0 (\<lambda>i. \<bar>real i - 2\<bar>) True 4 = Some (v, if 0 < x \<and> x < 4 - 1 then x else 0)"
  using search_peak_correct [of 4 True "\<lambda>i. \<bar>real i - 2\<bar>" 0, OF one_le_numeral] by blast


subsection \<open>Regression\<close>

lemma psum_fold:
  "fold (psum_step getx gety) [0..<N] (0, 0, 0, 0, 0, 0, 0) =
     (\<Sum>i<N. getx i, \<Sum>i<N. gety i, \<Sum>i<N. getx i * getx i, \<Sum>i<N. getx i * gety i,
      \<Sum>i<N. getx i * (getx i * getx i), \<Sum>i<N. getx i * (getx i * gety i), \<Sum>i<N. getx i * getx i * (getx i * getx i))"
  by (induction N) (simp_all add: psum_step_def Let_def)

lemma lsum_fold:
  "fold (lsum_step getx gety) [0..<N] (0, 0, 0, 0) =
     (\<Sum>i<N. getx i, \<Sum>i<N. gety i, \<Sum>i<N. getx i * getx i, \<Sum>i<N. getx i * gety i)"
  by (induction N) (simp_all add: lsum_step_def Let_def)

text \<open>Solving the two centred equations by determinants gives the three normal equations.\<close>

lemma cramer2:
  fixes p q r u v :: real
  assumes "p * q - r * r \<noteq> 0"
  shows "(p * v - r * u) / (p * q - r * r) * q + (q * u - r * v) / (p * q - r * r) * r = v"
    "(p * v - r * u) / (p * q - r * r) * r + (q * u - r * v) / (p * q - r * r) * p = u"
proof -
  let ?d = "p * q - r * r"
  have "((p * v - r * u) * q + (q * u - r * v) * r) / ?d = v * ?d / ?d" by (simp add: algebra_simps)
  then show "(p * v - r * u) / ?d * q + (q * u - r * v) / ?d * r = v" using assms by (simp add: add_divide_distrib)
  have "((p * v - r * u) * r + (q * u - r * v) * p) / ?d = u * ?d / ?d" by (simp add: algebra_simps)
  then show "(p * v - r * u) / ?d * r + (q * u - r * v) / ?d * p = u" using assms by (simp add: add_divide_distrib)
qed

lemma normal_equations:
  assumes "parabolic_regression N getx gety = Some (a, b, c)"
  defines "r \<equiv> \<lambda>i. gety i - (a + b * getx i + c * (getx i * getx i))"
  shows "(\<Sum>i<N. r i) = 0" "(\<Sum>i<N. getx i * r i) = 0" "(\<Sum>i<N. getx i * getx i * r i) = 0"
proof -
  define x where "x = (\<Sum>i<N. getx i)"
  define y where "y = (\<Sum>i<N. gety i)"
  define xx where "xx = (\<Sum>i<N. getx i * getx i)"
  define xy where "xy = (\<Sum>i<N. getx i * gety i)"
  define xxx where "xxx = (\<Sum>i<N. getx i * (getx i * getx i))"
  define xxy where "xxy = (\<Sum>i<N. getx i * (getx i * gety i))"
  define xxxx where "xxxx = (\<Sum>i<N. getx i * getx i * (getx i * getx i))"
  define p where "p = xxxx - xx * (xx / N)"
  define q where "q = xx - x * (x / N)"
  define w where "w = xxx - xx * (x / N)"
  define u where "u = xxy - xx * (y / N)"
  define v where "v = xy - x * (y / N)"
  note ds = x_def y_def xx_def xy_def xxx_def xxy_def xxxx_def
  have N: "N \<noteq> 0" and d: "p * q - w * w \<noteq> 0"
    and c: "c = (q * u - w * v) / (p * q - w * w)" and b: "b = (p * v - w * u) / (p * q - w * w)"
    and a: "a = y / N - b * (x / N) - c * (xx / N)"
    using assms(1) unfolding p_def q_def w_def u_def v_def
    by (auto simp: parabolic_regression_def psum_fold Let_def simp flip: ds split: if_splits)
  have Na: "N * a = y - b * x - c * xx" using N by (simp add: a field_simps)
  have e1: "b * q + c * w = v" and e2: "b * w + c * p = u"
    unfolding b c using cramer2 [OF d, of v u] by simp_all
  have "(\<Sum>i<N. r i) = y - (N * a + b * x + c * xx)"
    by (simp add: r_def ds sum_subtractf sum.distrib sum_distrib_left)
  then show "(\<Sum>i<N. r i) = 0" by (simp add: Na)
  have "(\<Sum>i<N. getx i * r i) = xy - (a * x + b * xx + c * xxx)"
    by (simp add: r_def ds sum_subtractf sum.distrib sum_distrib_left algebra_simps)
  also have "\<dots> = v - (b * q + c * w)" using N by (simp add: a v_def q_def w_def field_simps)
  finally show "(\<Sum>i<N. getx i * r i) = 0" by (simp add: e1)
  have "(\<Sum>i<N. getx i * getx i * r i) = xxy - (a * xx + b * xxx + c * xxxx)"
    by (simp add: r_def ds sum_subtractf sum.distrib sum_distrib_left algebra_simps)
  also have "\<dots> = u - (b * w + c * p)" using N by (simp add: a u_def p_def w_def field_simps)
  finally show "(\<Sum>i<N. getx i * getx i * r i) = 0" by (simp add: e2)
qed

text \<open>C33: The parabolic regression is the least squares fit: no other parabola has a smaller sum of
  squared deviations from the samples.\<close>
theorem parabolic_regression_least_squares:
  assumes "parabolic_regression N getx gety = Some (a, b, c)"
  shows "(\<Sum>i<N. (gety i - (a + b * getx i + c * (getx i * getx i)))\<^sup>2) \<le>
    (\<Sum>i<N. (gety i - (a' + b' * getx i + c' * (getx i * getx i)))\<^sup>2)"
proof -
  let ?r = "\<lambda>i. gety i - (a + b * getx i + c * (getx i * getx i))"
  let ?g = "\<lambda>i. (a - a') + (b - b') * getx i + (c - c') * (getx i * getx i)"
  have "(\<Sum>i<N. ?g i * ?r i) = (a - a') * (\<Sum>i<N. ?r i) + (b - b') * (\<Sum>i<N. getx i * ?r i) +
      (c - c') * (\<Sum>i<N. getx i * getx i * ?r i)"
    by (simp add: sum_distrib_left distrib_right mult.assoc flip: sum.distrib)
  then have orth: "(\<Sum>i<N. ?g i * ?r i) = 0" by (simp only: normal_equations [OF assms])
  have "(\<Sum>i<N. (gety i - (a' + b' * getx i + c' * (getx i * getx i)))\<^sup>2) = (\<Sum>i<N. (?r i)\<^sup>2 + (?g i)\<^sup>2 + 2 * (?g i * ?r i))"
    by (intro sum.cong refl) (simp add: power2_eq_square algebra_simps)
  also have "\<dots> = (\<Sum>i<N. (?r i)\<^sup>2) + (\<Sum>i<N. (?g i)\<^sup>2) + 2 * (\<Sum>i<N. ?g i * ?r i)"
    by (simp only: sum.distrib flip: sum_distrib_left)
  also have "\<dots> = (\<Sum>i<N. (?r i)\<^sup>2) + (\<Sum>i<N. (?g i)\<^sup>2)" unfolding orth by simp
  finally show ?thesis using sum_nonneg [of "{..<N}" "\<lambda>i. (?g i)\<^sup>2"] by simp
qed


theorem parabolic_regression_least_squares_witness:
  "parabolic_regression 3 real (\<lambda>i. real i * real i) = Some (0, 0, 1) \<and>
   (\<Sum>i<3. (real i * real i - (0 + 0 * real i + 1 * (real i * real i)))\<^sup>2) \<le>
    (\<Sum>i<3. (real i * real i - (1 + 2 * real i + 3 * (real i * real i)))\<^sup>2)"
proof -
  have r: "parabolic_regression 3 real (\<lambda>i. real i * real i) = Some (0, 0, 1)"
    unfolding parabolic_regression_def psum_fold by (simp add: eval_nat_numeral Let_def)
  show ?thesis using parabolic_regression_least_squares [OF r, of 1 2 3] r by blast
qed

subsection \<open>Interpolation at a sampled frequency\<close>

lemma uint_mul_small: "uint a * uint b < 2 ^ LENGTH('a) \<Longrightarrow> uint (a * b) = uint a * uint (b::'a::len word)"
  by (simp add: uint_word_ariths)

lemma uint_up: "uint (ucast (w :: u32) :: u64) = uint w"
  by (simp add: unsigned_ucast_eq take_bit_int_eq_self uint_lt2p [of w, THEN less_trans])

lemma uint_down: "uint (w :: u64) < 2 ^ 32 \<Longrightarrow> uint (ucast w :: u32) = uint w"
  by (simp add: unsigned_ucast_eq take_bit_int_eq_self)

lemma rounded_index:
  fixes S P i :: int
  assumes "0 < P" "P \<le> S"
  defines "R \<equiv> \<lambda>i. (S * i + P div 2) div P"
  shows "R i * P div S = (if S * i \<le> R i * P then i else i - 1)" "R i < R (i + 1)"
proof -
  have e: "2 * \<bar>R i * P - S * i\<bar> \<le> P" unfolding R_def by (rule round_err [OF assms(1)])
  show "R i * P div S = (if S * i \<le> R i * P then i else i - 1)"
  proof (cases "S * i \<le> R i * P")
    case True
    then have "R i * P = S * i + (R i * P - S * i)" "0 \<le> R i * P - S * i" "R i * P - S * i < S" using e assms(1,2) by auto
    then have "R i * P div S = i + (R i * P - S * i) div S" using assms(1,2)
      by (metis div_mult_self4 add.commute less_imp_neq order_less_le_trans)
    also have "\<dots> = i" using \<open>0 \<le> R i * P - S * i\<close> \<open>R i * P - S * i < S\<close> by (simp add: div_pos_pos_trivial)
    finally show ?thesis using True by simp
  next
    case False
    let ?r = "R i * P - S * i + S"
    have r: "0 \<le> ?r" "?r < S" using False e assms(1,2) by auto
    have "R i * P = ?r + S * (i - 1)" by (simp add: algebra_simps)
    then have "R i * P div S = (?r + S * (i - 1)) div S" by (rule arg_cong)
    also have "\<dots> = (i - 1) + ?r div S" by (rule div_mult_self2) (use assms(1,2) in simp)
    finally have "R i * P div S = (i - 1) + ?r div S" .
    then show ?thesis using False r by (simp add: div_pos_pos_trivial)
  qed
  have "R i + 1 = (S * i + P div 2 + P) div P" using assms by (simp add: R_def)
  also have "\<dots> \<le> (S * (i + 1) + P div 2) div P" using assms by (intro zdiv_mono1) (simp_all add: algebra_simps)
  finally show "R i < R (i + 1)" by (simp add: R_def)
qed


lemma interp_nodes [simp]: "parabolic_interpolation y1 y2 y3 0 = y2" "parabolic_interpolation y1 y2 y3 1 = y3"
  by (simp_all add: parabolic_interpolation_def field_simps)

lemma interp_grid:
  fixes f0 S P w :: u32 and k :: nat
  assumes "0 < uint P" "uint P < 2 ^ 15" "int k \<le> uint P" "uint f0 + uint S < 2 ^ 32" "uint w = int k"
  shows "uint (f0 + ucast ((ucast S * ucast w + ucast (P div 2) :: u64) div ucast P)) =
    uint f0 + (uint S * int k + uint P div 2) div uint P"
proof -
  have m: "uint S * int k < 2 ^ 32 * 2 ^ 15"
    by (rule mult_strict_mono) (use assms uint_lt2p [of S] in simp_all)
  have "uint (ucast S * ucast w :: u64) = uint S * int k"
    using m by (subst uint_mul_small) (simp_all add: uint_up assms(5))
  moreover have "uint (P div 2) = uint P div 2" by (simp add: uint_div_word)
  ultimately have v: "uint (ucast S * ucast w + ucast (P div 2) :: u64) = uint S * int k + uint P div 2"
    using m assms(2) by (subst uint_add_small) (simp_all add: uint_up)
  have le: "0 \<le> (uint S * int k + uint P div 2) div uint P \<and> (uint S * int k + uint P div 2) div uint P \<le> uint S"
    by (rule round_le) (use assms in simp_all)
  have "uint ((ucast S * ucast w + ucast (P div 2) :: u64) div ucast P) = (uint S * int k + uint P div 2) div uint P"
    by (simp only: uint_div_word v uint_up)
  moreover from this have "uint (ucast ((ucast S * ucast w + ucast (P div 2) :: u64) div ucast P) :: u32) =
      (uint S * int k + uint P div 2) div uint P"
    using le uint_lt2p [of S] by (subst uint_down) auto
  ultimately show ?thesis using le assms(4) by (subst uint_add_small) auto
qed


lemma grid_next:
  fixes S P w :: u32
  assumes "uint w + 1 < 2 ^ 32"
  shows "(ucast S * ucast w + ucast (P div 2) :: u64) + ucast S = ucast S * ucast (w + 1) + ucast (P div 2)"
proof -
  have "uint (w + 1) = uint w + 1" using assms by (subst uint_add_small) simp_all
  then have "uint (ucast (w + 1) :: u64) = uint (ucast w + 1 :: u64)"
    using assms by (subst uint_add_small) (simp_all add: uint_up)
  then have "(ucast (w + 1) :: u64) = ucast w + 1" by (simp add: word_uint_eq_iff)
  then show ?thesis by (simp add: algebra_simps)
qed

text \<open>Interpolation reproduces the samples: at the frequency of any swept point from the third to the
  last but one, \<^verbatim>\<open>measure_get_value\<close> returns exactly the measured value of that point, whichever of
  the two neighbouring intervals the rounding of the integer frequencies selects.\<close>
theorem get_value_at_sample:
  assumes "set_frequencies (frequency0 (props s)) (frequency1 (props s)) (sweep_points (props s)) s0 = Some s"
    and "frequency0 (props s) \<le> frequency1 (props s)" "sweep_points (props s) \<le> SWEEP_POINTS_MAX"
    and "int (sweep_points (props s)) - 1 \<le> uint (frequency1 (props s)) - uint (frequency0 (props s))"
    and "2 \<le> i" "i + 1 < sweep_points (props s)"
  shows "measure_get_value ch (getFrequency i s) s = Some (Some (measured s ! ch ! i))"
proof -
  define f0 f1 n where "f0 = frequency0 (props s)" and "f1 = frequency1 (props s)" and "n = sweep_points (props s)"
  define Pw :: u32 where "Pw = of_nat n - 1"
  define P S where "P = int n - 1" and "S = uint f1 - uint f0"
  define R where "R = (\<lambda>k. (S * k + P div 2) div P)"
  have n: "3 < n" "n \<le> 401" using assms(3,5,6) by (auto simp: n_def SWEEP_POINTS_MAX_def)
  have P: "0 < P" "P \<le> 400" "P \<le> S" "2 \<le> P" using n assms(4) by (simp_all add: P_def S_def f0_def f1_def n_def)
  have "(1 :: u32) \<le> of_nat n" using n by (simp add: word_le_def uint_of_nat_small)
  then have uP: "uint Pw = P" unfolding Pw_def P_def using n by (subst uint_sub_small) (simp_all add: uint_of_nat_small)
  have uS: "uint (f1 - f0) = S" using assms(2) by (simp add: S_def f0_def f1_def uint_sub_small)
  have fr: "uint (getFrequency k s) = uint f0 + R (int k)" if "k < n" for k
    using getFrequency_rounds [OF assms(1,2), of k] that n by (simp add: R_def S_def P_def f0_def f1_def n_def)
  have Rb: "0 \<le> R (int k)" "R (int k) \<le> S" if "k < n" for k
    using round_le [of P S "int k"] P that uint_ge_0 by (simp_all add: R_def P_def)
  define f where "f = getFrequency i s"
  have i: "i < n" "i + 1 < n" "2 \<le> i" using assms(5,6) by (simp_all add: n_def)
  have uf: "uint f = uint f0 + R (int i)" using fr i by (simp add: f_def)
  have inr: "f0 \<le> f" "f \<le> f1" using Rb [OF i(1)] by (simp_all add: word_le_def uf S_def)
  have d: "uint (f - f0) = R (int i)" using inr by (simp add: uint_sub_small uf)
  define j where "j = (if S * int i \<le> R (int i) * P then i else i - 1)"
  have j: "1 \<le> j" "j + 1 < n" "int j \<le> P" using i by (auto simp: j_def P_def)
  define idx where "idx = (ucast (ucast (f - f0) * ucast Pw div ucast (f1 - f0) :: u64) :: u32)"
  have b32: "R (int i) < 2 ^ 32" using Rb [OF i(1)] uint_lt2p [of "f1 - f0"] uS by simp
  have prod: "uint (ucast (f - f0) * ucast Pw :: u64) = R (int i) * P"
  proof -
    have "R (int i) * P < 2 ^ 32 * 2 ^ 15" by (rule mult_strict_mono) (use P b32 Rb [OF i(1)] in simp_all)
    then show ?thesis by (subst uint_mul_small) (simp_all add: uint_up d uP)
  qed
  have q: "R (int i) * P div S = int j"
    using rounded_index(1) [OF P(1,3), of "int i"] i by (simp add: R_def j_def of_nat_diff)
  have uidx: "uint idx = int j"
    unfolding idx_def using j n P by (subst uint_down) (simp_all only: uint_div_word prod uint_up uS q, simp)
  have guard: "\<not> idx - 1 > Pw - 2"
  proof -
    have "uint (idx - 1) = int j - 1" using j by (subst uint_sub_small) (simp_all add: word_le_def uidx)
    moreover have "uint (Pw - 2) = P - 2" using P by (subst uint_sub_small) (simp_all add: word_le_def uP)
    ultimately show ?thesis using j by (simp add: word_less_def P_def)
  qed
  define g0 g1 where "g0 = f0 + ucast ((ucast (f1 - f0) * ucast idx + ucast (Pw div 2) :: u64) div ucast Pw)"
    and "g1 = f0 + ucast ((ucast (f1 - f0) * ucast idx + ucast (Pw div 2) + ucast (f1 - f0) :: u64) div ucast Pw)"
  have sum: "uint f0 + uint (f1 - f0) < 2 ^ 32" using uint_lt2p [of f1] by (simp add: uS S_def)
  have g0: "uint g0 = uint f0 + R (int j)"
    unfolding g0_def using interp_grid [OF _ _ _ sum uidx, of Pw] P j uP uS by (simp add: R_def)
  have u1: "uint (idx + 1) = int (j + 1)" using uidx j n by (subst uint_add_small) simp_all
  have lt: "uint idx + 1 < 2 ^ 32" using uidx j n by simp
  have jP: "int (j + 1) \<le> P" using j by (simp add: P_def)
  have g1: "uint g1 = uint f0 + R (int j + 1)"
    unfolding g1_def grid_next [OF lt]
    using interp_grid [OF _ _ jP [folded uP] sum u1] P uP uS by (simp add: R_def add.commute)
  have uj: "unat idx = j" using uidx by (simp add: unat_eq_nat_uint)
  have val: "measure_get_value ch f s = Some (Some
     (parabolic_interpolation (fst (measured s ! ch ! (j - 1))) (fst (measured s ! ch ! j)) (fst (measured s ! ch ! (j + 1)))
        (if g1 - g0 = 0 then 0 else real (unat (f - g0)) / real (unat (g1 - g0))),
      parabolic_interpolation (snd (measured s ! ch ! (j - 1))) (snd (measured s ! ch ! j)) (snd (measured s ! ch ! (j + 1)))
        (if g1 - g0 = 0 then 0 else real (unat (f - g0)) / real (unat (g1 - g0)))))"
  proof -
    have "f1 - f0 \<noteq> 0" "Pw \<noteq> 0" using uS uP P by auto
    then show ?thesis using inr guard uj
      unfolding measure_get_value_def Let_def f0_def [symmetric] f1_def [symmetric] n_def [symmetric] Pw_def [symmetric]
        idx_def [symmetric] g0_def [symmetric] g1_def [symmetric] by (simp add: not_less)
  qed
  show ?thesis
  proof (cases "S * int i \<le> R (int i) * P")
    case True
    then have "j = i" "g0 = f" using g0 uf by (simp_all add: j_def word_uint_eq_iff)
    then show ?thesis using val by (simp add: f_def)
  next
    case False
    then have ji: "j + 1 = i" using i by (simp add: j_def)
    then have "int j + 1 = int i" by simp
    then have gf: "g1 = f" using g1 uf by (simp add: word_uint_eq_iff)
    have "R (int j) < R (int j + 1)" unfolding R_def using rounded_index(2) [OF P(1,3)] .
    then have "f \<noteq> g0" using g0 g1 gf by auto
    then have "f - g0 \<noteq> 0" "real (unat (f - g0)) / real (unat (f - g0)) = 1" by (simp_all add: unat_eq_zero del: of_nat_unat)
    then show ?thesis using val ji gf by (simp add: f_def del: of_nat_unat)
  qed
qed

theorem get_value_at_sample_witness:
  "\<exists>s. set_frequencies 50000 900000000 401 device0 = Some s \<and> measure_get_value 0 (getFrequency 5 s) s = Some (Some (0, 0))"
proof -
  obtain s where s: "set_frequencies 50000 900000000 401 device0 = Some s" "props s = props device0" "measured s = measured device0"
    by (simp add: set_frequencies_def Let_def)
  have p: "frequency0 (props s) = 50000" "frequency1 (props s) = 900000000" "sweep_points (props s) = 401"
    by (simp_all add: s device0_def props0_def load_default_properties_def POINTS_COUNT_DEFAULT_def SWEEP_POINTS_MAX_def)
  have "measured s ! 0 ! 5 = (0, 0)" by (simp add: s device0_def SWEEP_POINTS_MAX_def)
  then show ?thesis using get_value_at_sample [of s device0 5 0] s(1) by (simp add: p SWEEP_POINTS_MAX_def)
qed

end
