(* ===== verification/LcMatch.thy ===== *)
theory LcMatch
  imports Measure
begin

text \<open>
  Impedance matching (\<^verbatim>\<open>lc_match_calc\<close> of \<^verbatim>\<open>measure.c\<close>): the L networks offered for the load at the
  active marker.  A reactance of 0 stands for a missing element, as in the source.  The theorem
  connects the networks to the load as circuits of complex impedances.
\<close>

record t_lc_match =
  xps :: real
  xs :: real
  xpl :: real

record lc_match_array =
  lc_Hz :: u32
  lc_R0 :: real
  lc_matches :: "t_lc_match list"
  lc_num_matches :: int

definition lc_match_calc_hi :: "real \<Rightarrow> real \<Rightarrow> real \<Rightarrow> t_lc_match list option" where
  "lc_match_calc_hi R0 RL XL =
     (let a = R0 - RL; b = 2 * XL * R0; c = R0 * (XL * XL + RL * RL) in
      map_option (\<lambda>(xp0, xp1).
        let XL1 = XL + xp0; XL2 = XL + xp1 in
        [\<lparr>xps = 0, xs = xp0 * xp0 * XL1 / (RL * RL + XL1 * XL1) - xp0, xpl = xp0\<rparr>,
         \<lparr>xps = 0, xs = xp1 * xp1 * XL2 / (RL * RL + XL2 * XL2) - xp1, xpl = xp1\<rparr>])
       (match_quadratic_equation a b c))"

definition lc_match_calc_lo :: "real \<Rightarrow> real \<Rightarrow> real \<Rightarrow> t_lc_match list option" where
  "lc_match_calc_lo R0 RL XL =
     (let a = 1; b = 2 * XL; c = RL * RL + XL * XL - R0 * RL in
      map_option (\<lambda>(xs0, xs1).
        let XL1 = XL + xs0; RL1 = RL - R0; XL2 = XL + xs1 in
        [\<lparr>xps = - R0 * R0 * XL1 / (RL1 * RL1 + XL1 * XL1), xs = xs0, xpl = 0\<rparr>,
         \<lparr>xps = - R0 * R0 * XL2 / (RL1 * RL1 + XL2 * XL2), xs = xs1, xpl = 0\<rparr>])
       (match_quadratic_equation a b c))"

definition lc_match_calc :: "vna \<Rightarrow> real \<Rightarrow> nat \<Rightarrow> (int \<times> t_lc_match list) option" where
  "lc_match_calc s R0 index =
     (let coeff = measured s ! 0 ! index;
          RL = resistance s coeff; XL = reactance s coeff in
      if RL \<le> 1 / 2 then Some (-1, [])
      else
        let q_factor = XL / RL; vswr = swr coeff in
        if vswr \<le> 11 / 10 \<or> q_factor \<ge> 100 then Some (0, [])
        else if RL * (11 / 10) > R0 \<and> RL < R0 * (11 / 10) then Some (1, [\<lparr>xps = 0, xs = - XL, xpl = 0\<rparr>])
        else if RL \<ge> R0 \<or> RL * RL + XL * XL > R0 * RL then
          (case lc_match_calc_hi R0 RL XL of None \<Rightarrow> None
           | Some hi \<Rightarrow>
               if RL \<ge> R0 then Some (2, hi)
               else map_option (\<lambda>lo. (4, hi @ lo)) (lc_match_calc_lo R0 RL XL))
        else map_option (\<lambda>lo. (2, lo)) (lc_match_calc_lo R0 RL XL))"

definition prepare_lc_match :: "vna \<Rightarrow> lc_match_array \<Rightarrow> lc_match_array option" where
  "prepare_lc_match s arr =
     (let freq = get_marker_frequency (active_marker (props s)) s in
      if freq = 0 then Some arr
      else
        let arr = arr\<lparr>lc_R0 := PORT_Z s, lc_Hz := freq\<rparr> in
        map_option (\<lambda>(n, ms). arr\<lparr>lc_matches := ms @ drop (length ms) (lc_matches arr), lc_num_matches := n\<rparr>)
          (lc_match_calc s (lc_R0 arr) (mk_index (markers (props s) ! nat (active_marker (props s))))))"

subsection \<open>Circuits\<close>

definition parallel :: "real \<Rightarrow> complex \<Rightarrow> complex" where
  "parallel x Z = (if x = 0 then Z else 1 / (1 / Z + 1 / Complex 0 x))"

definition network :: "t_lc_match \<Rightarrow> complex \<Rightarrow> complex" where
  "network m Z = parallel (xps m) (Complex 0 (xs m) + parallel (xpl m) Z)"

lemma parallel_value:
  assumes "x \<noteq> 0" "0 < R"
  shows "parallel x (Complex R X) = Complex (R * x * x / (R * R + (X + x) * (X + x)))
    (x * (R * R + X * (X + x)) / (R * R + (X + x) * (X + x)))"
proof -
  let ?D = "R * R + (X + x) * (X + x)"
  have D: "0 < ?D" using assms(2) by (intro add_pos_nonneg) simp_all
  have Z: "Complex R X \<noteq> 0" "Complex 0 x \<noteq> 0" "Complex R (X + x) \<noteq> 0" using assms by (auto simp: complex_eq_iff)
  have "1 / Complex R X + 1 / Complex 0 x = Complex R (X + x) / (Complex R X * Complex 0 x)"
    using Z(1,2) by (simp add: field_simps) (simp add: complex_eq_iff algebra_simps)
  then have "parallel x (Complex R X) = Complex R X * Complex 0 x / Complex R (X + x)"
    using assms(1) by (simp add: parallel_def)
  also have "\<dots> = Complex (R * x * x / ?D) (x * (R * R + X * (X + x)) / ?D)"
    using D by (simp add: complex_eq_iff Re_divide Im_divide power2_eq_square) (simp add: algebra_simps)
  finally show ?thesis .
qed

lemma quadratic_defined: "a \<noteq> 0 \<Longrightarrow> \<exists>r0 r1. match_quadratic_equation a b c = Some (r0, r1)"
  by (simp add: match_quadratic_equation_def Let_def)

lemma root_of:
  assumes "match_quadratic_equation a b c = Some (r0, r1)" "0 \<le> b * b - 4 * a * c" "r = r0 \<or> r = r1"
  shows "a * r * r + b * r + c = 0"
  using quadratic_roots(2) [OF assms(1,2), of r] assms(3) by auto

lemma hi_matches:
  assumes "0 < R0" "0 < RL" "a * x * x + b * x + c = 0"
    and "a = R0 - RL" "b = 2 * XL * R0" "c = R0 * (XL * XL + RL * RL)"
  shows "network \<lparr>xps = 0, xs = x * x * (XL + x) / (RL * RL + (XL + x) * (XL + x)) - x, xpl = x\<rparr> (Complex RL XL) = of_real R0"
proof -
  let ?X = "XL + x" and ?D = "RL * RL + (XL + x) * (XL + x)"
  have D: "0 < ?D" using assms(2) by (intro add_pos_nonneg) simp_all
  have "0 < c" using assms(1,2,6) by (simp add: add_nonneg_pos)
  then have x: "x \<noteq> 0" using assms(3) by auto
  have "R0 * ?D = RL * x * x" using assms(3) unfolding assms(4-6) by (simp add: algebra_simps)
  then have r: "RL * x * x / ?D = R0" using D by (simp add: field_simps)
  have "x * x * ?X / ?D - x + x * (RL * RL + XL * ?X) / ?D = (x * x * ?X - x * ?D + x * (RL * RL + XL * ?X)) / ?D"
    using D assms(2) by (simp add: add_divide_distrib diff_divide_distrib)
  also have "\<dots> = 0" by (simp add: algebra_simps)
  finally have i: "x * x * ?X / ?D - x + x * (RL * RL + XL * ?X) / ?D = 0" .
  have "network \<lparr>xps = 0, xs = x * x * ?X / ?D - x, xpl = x\<rparr> (Complex RL XL) =
      Complex 0 (x * x * ?X / ?D - x) + parallel x (Complex RL XL)"
    unfolding network_def by (simp add: parallel_def [of 0])
  also have "\<dots> = Complex (RL * x * x / ?D) (x * x * ?X / ?D - x + x * (RL * RL + XL * ?X) / ?D)"
    unfolding parallel_value [OF x assms(2)] by (simp add: complex_eq_iff)
  also have "\<dots> = of_real R0" unfolding r i by (simp add: complex_eq_iff)
  finally show ?thesis .
qed

lemma lo_matches:
  assumes "0 < RL" "RL < R0" "x * x + 2 * XL * x + (RL * RL + XL * XL - R0 * RL) = 0"
  shows "network \<lparr>xps = - R0 * R0 * (XL + x) / ((RL - R0) * (RL - R0) + (XL + x) * (XL + x)), xs = x, xpl = 0\<rparr>
    (Complex RL XL) = of_real R0"
proof -
  define X where "X = XL + x"
  have XX: "X * X = RL * (R0 - RL)" using assms(3) by (simp add: X_def algebra_simps)
  have pos: "0 < R0 - RL" "0 < R0" using assms(1,2) by simp_all
  then have X: "X \<noteq> 0" using XX assms(1) by auto
  have "(RL - R0) * (RL - R0) + X * X = R0 * (R0 - RL)" unfolding XX by (simp add: algebra_simps)
  then have e: "- R0 * R0 * X / ((RL - R0) * (RL - R0) + X * X) = - R0 * X / (R0 - RL)"
    using pos by (simp add: field_simps)
  also have "\<dots> = - (R0 * RL / X)"
  proof -
    have "R0 * X / (R0 - RL) = R0 * RL / X" using X pos by (simp add: frac_eq_eq mult.assoc XX)
    then show ?thesis by simp
  qed
  finally have e: "- R0 * R0 * X / ((RL - R0) * (RL - R0) + X * X) = - (R0 * RL / X)" .
  let ?p = "- (R0 * RL / X)"
  have p: "?p \<noteq> 0" using X pos assms(1) by simp
  have "RL * RL + X * X = R0 * RL" unfolding XX by (simp add: algebra_simps)
  then have y: "1 / Complex RL X = Complex (1 / R0) (- X / (R0 * RL))"
    using assms(1) pos by (simp add: complex_eq_iff Re_divide Im_divide power2_eq_square)
  have "1 / Complex 0 ?p = Complex 0 (X / (R0 * RL))"
    using p X pos assms(1) by (simp add: complex_eq_iff Re_divide Im_divide power2_eq_square)
  then have "1 / (1 / Complex RL X + 1 / Complex 0 ?p) = of_real R0"
    unfolding y using pos by (simp add: complex_eq_iff Re_divide Im_divide power2_eq_square)
  moreover have "Complex 0 x + Complex RL XL = Complex RL X" by (simp add: X_def complex_eq_iff add.commute)
  ultimately show ?thesis
    unfolding X_def [symmetric] e network_def using p by (simp add: parallel_def)
qed


lemma hi_solutions:
  assumes "0 < R0" "0 < RL" "RL \<noteq> R0" "R0 \<le> RL \<or> R0 * RL < RL * RL + XL * XL"
  shows "\<exists>ms. lc_match_calc_hi R0 RL XL = Some ms \<and> length ms = 2 \<and> (\<forall>m\<in>set ms. network m (Complex RL XL) = of_real R0)"
proof -
  let ?a = "R0 - RL" and ?b = "2 * XL * R0" and ?c = "R0 * (XL * XL + RL * RL)"
  have ge: "R0 * RL \<le> RL * RL + XL * XL"
    using assms(2,4) by (smt (verit) mult_right_mono zero_le_square)
  have "?b * ?b - 4 * ?a * ?c = 4 * R0 * RL * (RL * RL + XL * XL - R0 * RL)" by (simp add: algebra_simps)
  then have d: "0 \<le> ?b * ?b - 4 * ?a * ?c" using ge assms(1,2) by simp
  obtain r0 r1 where q: "match_quadratic_equation ?a ?b ?c = Some (r0, r1)"
    using quadratic_defined [of ?a ?b ?c] assms(3) by auto
  show ?thesis
    unfolding lc_match_calc_hi_def Let_def q
    using hi_matches [OF assms(1,2) root_of [OF q d, of r0] refl refl refl]
      hi_matches [OF assms(1,2) root_of [OF q d, of r1] refl refl refl] by simp
qed

lemma lo_solutions:
  assumes "0 < RL" "RL < R0"
  shows "\<exists>ms. lc_match_calc_lo R0 RL XL = Some ms \<and> length ms = 2 \<and> (\<forall>m\<in>set ms. network m (Complex RL XL) = of_real R0)"
proof -
  let ?b = "2 * XL" and ?c = "RL * RL + XL * XL - R0 * RL"
  have "?b * ?b - 4 * 1 * ?c = 4 * RL * (R0 - RL)" by (simp add: algebra_simps)
  then have d: "0 \<le> ?b * ?b - 4 * 1 * ?c" using assms by simp
  obtain r0 r1 where q: "match_quadratic_equation 1 ?b ?c = Some (r0, r1)"
    using quadratic_defined [of 1 ?b ?c] by auto
  have "r * r + 2 * XL * r + ?c = 0" if "r = r0 \<or> r = r1" for r
    using root_of [OF q d that] by simp
  then show ?thesis
    unfolding lc_match_calc_lo_def Let_def q
    using lo_matches [OF assms, of r0 XL] lo_matches [OF assms, of r1 XL] by simp
qed



end
