(* ===== verification/Workref.thy ===== *)
theory Workref
  imports Measure Choke
begin

text \<open>
  The workflow references of \<^verbatim>\<open>vna_modules/vna_workref.c\<close>: a stored reference sweep (reflection
  coefficients, or the corrected series impedance of the CHOKE panel), the stored test fixture, the
  headers that decide whether they still belong to the present settings, the deferred store requests
  and the repeat check.  The run relation lets the instrument state change in any way between the
  requests; the theorems say where the data of a valid reference comes from.  The addresses that enter
  the magic words and the clock reading are inputs.
\<close>

datatype wref_state_t = WREF_NONE | WREF_STALE_POINTS | WREF_STALE_SPAN | WREF_STALE_CAL | WREF_STALE_PROC | WREF_OK

record wref_hdr_t =
  magic :: u32
  start :: u32
  stop :: u32
  points :: nat
  wcal_status :: u16
  edelay :: "real \<times> real"
  ws21_offset :: real
  smooth :: nat
  flags :: u8
  wlastsaveid :: nat
  stamp :: u32

record work =
  wref_hdr :: wref_hdr_t
  wref_s11 :: "cfloat list"
  wfix_hdr :: wref_hdr_t
  wfix_s21 :: "cfloat list"
  wref_repeat_gamma :: real
  wref_store_pending :: bool
  wref_store_kind :: u8
  wfix_store_pending :: bool
  wref_fill_z_cb :: bool
  wref_addr :: u32
  wfix_addr :: u32
  tune_change_m :: real
  work_update :: u8

definition WREF_HAS_S21 :: u8 where "WREF_HAS_S21 = 1"

definition WREF_MAGIC :: "work \<Rightarrow> u32" where "WREF_MAGIC w = 0x57524546 XOR wref_addr w"
definition WFIX_MAGIC :: "work \<Rightarrow> u32" where "WFIX_MAGIC w = 0x57464958 XOR wfix_addr w"

definition WREF_IN_TDR :: "vna \<Rightarrow> bool" where "WREF_IN_TDR s \<longleftrightarrow> props_mode (props s) AND DOMAIN_MODE = DOMAIN_TIME"
definition WREF_FILE_VIEW :: "vna \<Rightarrow> bool" where "WREF_FILE_VIEW s \<longleftrightarrow> has (sweep_mode s) SWEEP_FILE_VIEW"

definition wref_hdr_fill :: "u32 \<Rightarrow> vna \<Rightarrow> wref_hdr_t \<Rightarrow> wref_hdr_t" where
  "wref_hdr_fill t s h = h
     \<lparr>start := getFrequency 0 s, stop := getFrequency (sweep_points (props s) - 1) s, points := sweep_points (props s),
      wcal_status := cal_status (props s), edelay := (electrical_delay (props s) ! 0, electrical_delay (props s) ! 1),
      ws21_offset := s21_offset (props s), smooth := smooth_factor s, flags := 0, wlastsaveid := lastsaveid s, stamp := t\<rparr>"

definition wref_hdr_state :: "wref_hdr_t \<Rightarrow> u32 \<Rightarrow> vna \<Rightarrow> wref_state_t" where
  "wref_hdr_state h m s =
     (if magic h \<noteq> m then WREF_NONE
      else if points h \<noteq> sweep_points (props s) then WREF_STALE_POINTS
      else if start h \<noteq> getFrequency 0 s \<or> stop h \<noteq> getFrequency (sweep_points (props s) - 1) s then WREF_STALE_SPAN
      else if wcal_status h \<noteq> cal_status (props s) \<or> wlastsaveid h \<noteq> lastsaveid s then WREF_STALE_CAL
      else if fst (edelay h) \<noteq> electrical_delay (props s) ! 0 \<or> snd (edelay h) \<noteq> electrical_delay (props s) ! 1 \<or>
        ws21_offset h \<noteq> s21_offset (props s) \<or> smooth h \<noteq> smooth_factor s then WREF_STALE_PROC
      else WREF_OK)"

definition wref_clear :: "work \<Rightarrow> work" where
  "wref_clear w = w\<lparr>wref_hdr := (wref_hdr w)\<lparr>magic := 0\<rparr>, wref_repeat_gamma := 0\<rparr>"

definition copy_sweep :: "vna \<Rightarrow> nat \<Rightarrow> cfloat list \<Rightarrow> cfloat list" where
  "copy_sweep s ch dst = take (sweep_points (props s)) (measured s ! ch) @ drop (sweep_points (props s)) dst"

definition wref_store :: "u32 \<Rightarrow> vna \<Rightarrow> work \<Rightarrow> work \<times> bool" where
  "wref_store t s w =
     (if WREF_IN_TDR s \<or> WREF_FILE_VIEW s then (w, False)
      else (w\<lparr>wref_s11 := copy_sweep s 0 (wref_s11 w),
              wref_hdr := (wref_hdr_fill t s (wref_hdr w))\<lparr>magic := WREF_MAGIC w\<rparr>, wref_repeat_gamma := 0\<rparr>, True))"

definition wref_can_store :: "vna \<Rightarrow> bool" where
  "wref_can_store s \<longleftrightarrow> \<not> WREF_IN_TDR s \<and> \<not> WREF_FILE_VIEW s"

definition wref_store_request :: "work \<Rightarrow> work" where
  "wref_store_request w = w\<lparr>wref_store_pending := True, wref_store_kind := 0\<rparr>"

definition wref_store_request_kind :: "u8 \<Rightarrow> work \<Rightarrow> work" where
  "wref_store_request_kind fl w = w\<lparr>wref_store_pending := True, wref_store_kind := fl\<rparr>"

definition wref_state :: "vna \<Rightarrow> work \<Rightarrow> wref_state_t" where
  "wref_state s w = wref_hdr_state (wref_hdr w) (WREF_MAGIC w) s"

definition wref_stamp :: "work \<Rightarrow> u32" where
  "wref_stamp w = (if magic (wref_hdr w) = WREF_MAGIC w then stamp (wref_hdr w) else 0)"

definition wfix_store :: "u32 \<Rightarrow> vna \<Rightarrow> work \<Rightarrow> work \<times> bool" where
  "wfix_store t s w =
     (if WREF_IN_TDR s \<or> WREF_FILE_VIEW s then (w, False)
      else (w\<lparr>wfix_s21 := copy_sweep s 1 (wfix_s21 w),
              wfix_hdr := (wref_hdr_fill t s (wfix_hdr w))\<lparr>magic := WFIX_MAGIC w\<rparr>\<rparr>, True))"

definition wfix_clear :: "work \<Rightarrow> work" where
  "wfix_clear w = w\<lparr>wfix_hdr := (wfix_hdr w)\<lparr>magic := 0\<rparr>\<rparr>"

definition wfix_store_request :: "work \<Rightarrow> work" where
  "wfix_store_request w = w\<lparr>wfix_store_pending := True\<rparr>"

definition wfix_store_consume :: "u32 \<Rightarrow> vna \<Rightarrow> work \<Rightarrow> work \<times> bool" where
  "wfix_store_consume t s w =
     (if \<not> wfix_store_pending w then (w, False) else wfix_store t s (w\<lparr>wfix_store_pending := False\<rparr>))"

definition wfix_state :: "vna \<Rightarrow> work \<Rightarrow> wref_state_t" where
  "wfix_state s w = wref_hdr_state (wfix_hdr w) (WFIX_MAGIC w) s"

definition wfix_stamp :: "work \<Rightarrow> u32" where
  "wfix_stamp w = (if magic (wfix_hdr w) = WFIX_MAGIC w then stamp (wfix_hdr w) else 0)"

definition wfix_s21_at :: "work \<Rightarrow> nat \<Rightarrow> cfloat" where "wfix_s21_at w i = wfix_s21 w ! i"

text \<open>The callback that fills the reference block belongs to the CHOKE panel (\<^verbatim>\<open>measure.c\<close>).\<close>

definition choke_z_at :: "vna \<Rightarrow> work \<Rightarrow> nat \<Rightarrow> real \<times> real" where
  "choke_z_at s w i =
     (let f = wfix_s21_at w i;
          (rm, xm) = choke_zser (fst (measured s ! 1 ! i)) (snd (measured s ! 1 ! i)) (PORT_Z s);
          (rf, xf) = choke_zser (fst f) (snd f) (PORT_Z s) in
      choke_deembed rm xm rf xf)"

definition choke_wref_fill_z :: "vna \<Rightarrow> work \<Rightarrow> work" where
  "choke_wref_fill_z s w = w\<lparr>wref_s11 := map (choke_z_at s w) [0..<sweep_points (props s)] @ drop (sweep_points (props s)) (wref_s11 w)\<rparr>"

definition wref_store_z :: "u32 \<Rightarrow> vna \<Rightarrow> work \<Rightarrow> work \<times> bool" where
  "wref_store_z t s w =
     (if WREF_IN_TDR s \<or> WREF_FILE_VIEW s then (w, False)
      else if wfix_state s w \<noteq> WREF_OK \<or> \<not> wref_fill_z_cb w then (w, False)
      else
        let w = choke_wref_fill_z s w in
        (w\<lparr>wref_hdr := (wref_hdr_fill t s (wref_hdr w))\<lparr>flags := WREF_HAS_S21, magic := WREF_MAGIC w\<rparr>, wref_repeat_gamma := 0\<rparr>, True))"

definition wref_store_consume :: "u32 \<Rightarrow> vna \<Rightarrow> work \<Rightarrow> work \<times> bool" where
  "wref_store_consume t s w =
     (if \<not> wref_store_pending w then (w, False)
      else
        let w = w\<lparr>wref_store_pending := False\<rparr> in
        if has (wref_store_kind w) WREF_HAS_S21 then wref_store_z t s w else wref_store t s w)"

definition wref_z_r :: "work \<Rightarrow> nat \<Rightarrow> real" where "wref_z_r w i = fst (wref_s11 w ! i)"

definition wref_state_z :: "vna \<Rightarrow> work \<Rightarrow> wref_state_t" where
  "wref_state_z s w =
     (let st = wref_state s w in
      if st = WREF_NONE \<or> \<not> has (flags (wref_hdr w)) WREF_HAS_S21 then WREF_NONE
      else if wfix_state s w = WREF_OK then st else WREF_NONE)"

definition wref_state_s11 :: "vna \<Rightarrow> work \<Rightarrow> wref_state_t" where
  "wref_state_s11 s w =
     (let st = wref_state s w in
      if st \<noteq> WREF_NONE \<and> has (flags (wref_hdr w)) WREF_HAS_S21 then WREF_NONE else st)"

definition repeat_step :: "vna \<Rightarrow> work \<Rightarrow> nat \<Rightarrow> real \<Rightarrow> real" where
  "repeat_step s w i gm =
     (let dr = fst (measured s ! 0 ! i) - fst (wref_s11 w ! i); di = snd (measured s ! 0 ! i) - snd (wref_s11 w ! i);
          g = dr * dr + di * di in if g > gm then g else gm)"

definition wref_repeat_measure :: "vna \<Rightarrow> work \<Rightarrow> work" where
  "wref_repeat_measure s w =
     (let w = w\<lparr>wref_repeat_gamma := 0\<rparr> in
      if WREF_IN_TDR s \<or> wref_state_s11 s w \<noteq> WREF_OK then w
      else w\<lparr>wref_repeat_gamma := sqrt (fold (repeat_step s w) [0..<sweep_points (props s)] 0)\<rparr>)"

definition wref_state_str :: "wref_state_t \<Rightarrow> string" where
  "wref_state_str st = (case st of WREF_NONE \<Rightarrow> ''none'' | WREF_STALE_POINTS \<Rightarrow> ''points'' | WREF_STALE_SPAN \<Rightarrow> ''span''
     | WREF_STALE_CAL \<Rightarrow> ''cal'' | WREF_STALE_PROC \<Rightarrow> ''proc'' | WREF_OK \<Rightarrow> ''ok'')"

text \<open>Both pending stores are carried out by \<^verbatim>\<open>measure_prepare\<close> of \<^verbatim>\<open>plot.c\<close>, the fixture first.\<close>

definition consume_stores :: "u32 \<Rightarrow> vna \<Rightarrow> work \<Rightarrow> work" where
  "consume_stores t s w =
     (let (w, fx) = wfix_store_consume t s w;
          w = (if fx then w\<lparr>work_update := work_update w OR 1\<rparr> else w);
          (w, rf) = wref_store_consume t s w in
      if rf then w\<lparr>tune_change_m := 0, work_update := work_update w OR 1\<rparr> else w)"


subsection \<open>Snapshots\<close>

definition filled :: "vna \<Rightarrow> wref_hdr_t \<Rightarrow> bool" where
  "filled s h \<longleftrightarrow> start h = getFrequency 0 s \<and> stop h = getFrequency (sweep_points (props s) - 1) s \<and>
     points h = sweep_points (props s) \<and> wcal_status h = cal_status (props s) \<and>
     edelay h = (electrical_delay (props s) ! 0, electrical_delay (props s) ! 1) \<and>
     ws21_offset h = s21_offset (props s) \<and> smooth h = smooth_factor s \<and> wlastsaveid h = lastsaveid s"

definition same_setup :: "vna \<Rightarrow> vna \<Rightarrow> bool" where
  "same_setup a b \<longleftrightarrow> sweep_points (props a) = sweep_points (props b) \<and> getFrequency 0 a = getFrequency 0 b \<and>
     getFrequency (sweep_points (props a) - 1) a = getFrequency (sweep_points (props b) - 1) b \<and>
     cal_status (props a) = cal_status (props b) \<and> lastsaveid a = lastsaveid b \<and>
     electrical_delay (props a) ! 0 = electrical_delay (props b) ! 0 \<and>
     electrical_delay (props a) ! 1 = electrical_delay (props b) ! 1 \<and>
     s21_offset (props a) = s21_offset (props b) \<and> smooth_factor a = smooth_factor b"

lemma filled_fill [simp]:
  "filled s (wref_hdr_fill t s h)" "filled s (h\<lparr>magic := m\<rparr>) = filled s h" "filled s (h\<lparr>flags := f\<rparr>) = filled s h"
  "flags (wref_hdr_fill t s h) = 0"
  by (simp_all add: filled_def wref_hdr_fill_def)

lemma hdr_state_ok: "wref_hdr_state h m s = WREF_OK \<Longrightarrow> filled a h \<Longrightarrow> same_setup a s \<and> magic h = m"
  by (auto simp: wref_hdr_state_def filled_def same_setup_def split: if_splits)

lemma hdr_state_complete: "magic h = m \<Longrightarrow> filled a h \<Longrightarrow> same_setup a s \<Longrightarrow> wref_hdr_state h m s = WREF_OK"
  by (auto simp: wref_hdr_state_def filled_def same_setup_def)

text \<open>A stored block with its header: a store takes the settings and the content at that moment, or
  changes nothing.  The reference, the fixture and the corrected impedance are three such blocks.\<close>

locale snapshot =
  fixes hdr :: "work \<Rightarrow> wref_hdr_t" and block :: "work \<Rightarrow> cfloat list" and mword :: "work \<Rightarrow> u32"
    and kind :: "u8 \<Rightarrow> bool" and content :: "vna \<Rightarrow> work \<Rightarrow> nat \<Rightarrow> cfloat"
    and store :: "u32 \<Rightarrow> vna \<Rightarrow> work \<Rightarrow> work \<times> bool" and ready :: "vna \<Rightarrow> bool"
  assumes store_refused: "store t s w = (w', False) \<Longrightarrow> w' = w"
    and store_taken: "store t s w = (w', True) \<Longrightarrow> ready s \<Longrightarrow> filled s (hdr w') \<and> mword w' = mword w \<and>
      (\<forall>i < sweep_points (props s). block w' ! i = content s w i)"
begin

definition held :: "(vna \<times> work) set \<Rightarrow> work \<Rightarrow> bool" where
  "held H w \<longleftrightarrow> (magic (hdr w) = mword w \<and> kind (flags (hdr w)) \<longrightarrow>
     (\<exists>(s0, w0)\<in>H. filled s0 (hdr w) \<and> (\<forall>i < sweep_points (props s0). block w ! i = content s0 w0 i)))"

lemma held_frame:
  "held H w \<Longrightarrow> H \<subseteq> H' \<Longrightarrow> hdr w' = hdr w \<Longrightarrow> block w' = block w \<Longrightarrow> mword w' = mword w \<Longrightarrow> held H' w'"
  unfolding held_def by auto

lemma held_store: "held H w \<Longrightarrow> ready s \<Longrightarrow> store t s w = (w', r) \<Longrightarrow> held (insert (s, w) H) w'"
  using store_refused [of t s w w'] store_taken [of t s w w'] held_frame [of H w "insert (s, w) H" w]
  by (cases r) (auto simp: held_def)

lemma held_ok:
  assumes "held H w" "wref_hdr_state (hdr w) (mword w) s = WREF_OK" "kind (flags (hdr w))"
  shows "\<exists>(s0, w0)\<in>H. same_setup s0 s \<and> (\<forall>i < sweep_points (props s). block w ! i = content s0 w0 i)"
proof -
  have "magic (hdr w) = mword w" using assms(2) by (auto simp: wref_hdr_state_def split: if_splits)
  then obtain s0 w0 where "(s0, w0) \<in> H" "filled s0 (hdr w)" "\<forall>i < sweep_points (props s0). block w ! i = content s0 w0 i"
    using assms(1,3) by (auto simp: held_def)
  moreover from this have "same_setup s0 s" using hdr_state_ok assms(2) by blast
  ultimately show ?thesis by (auto simp: same_setup_def)
qed

end

definition sweep_fits :: "vna \<Rightarrow> bool" where
  "sweep_fits s \<longleftrightarrow> sweep_points (props s) \<le> length (measured s ! 0) \<and> sweep_points (props s) \<le> length (measured s ! 1)"

lemma copy_sweep_nth: "sweep_points (props s) \<le> length (measured s ! ch) \<Longrightarrow> i < sweep_points (props s) \<Longrightarrow>
    copy_sweep s ch dst ! i = measured s ! ch ! i"
  by (simp add: copy_sweep_def nth_append)

definition gamma_block :: "u8 \<Rightarrow> bool" where "gamma_block fl \<longleftrightarrow> \<not> has fl WREF_HAS_S21"
definition z_block :: "u8 \<Rightarrow> bool" where "z_block fl \<longleftrightarrow> has fl WREF_HAS_S21"

definition s11_of :: "vna \<Rightarrow> work \<Rightarrow> nat \<Rightarrow> cfloat" where "s11_of s w i = measured s ! 0 ! i"
definition s21_of :: "vna \<Rightarrow> work \<Rightarrow> nat \<Rightarrow> cfloat" where "s21_of s w i = measured s ! 1 ! i"

interpretation gref: snapshot wref_hdr wref_s11 WREF_MAGIC gamma_block s11_of wref_store sweep_fits
  by unfold_locales (auto simp: s11_of_def wref_store_def sweep_fits_def copy_sweep_nth WREF_MAGIC_def split: if_splits)

interpretation fixt: snapshot wfix_hdr wfix_s21 WFIX_MAGIC "\<lambda>fl. True" s21_of wfix_store sweep_fits
  by unfold_locales (auto simp: s21_of_def wfix_store_def sweep_fits_def copy_sweep_nth WFIX_MAGIC_def split: if_splits)

interpretation zref: snapshot wref_hdr wref_s11 WREF_MAGIC z_block choke_z_at wref_store_z sweep_fits
  by unfold_locales (auto simp: wref_store_z_def choke_wref_fill_z_def WREF_MAGIC_def nth_append Let_def split: if_splits)

subsection \<open>Runs of the workflow\<close>

datatype work_action = StoreRef | StoreRefKind u8 | StoreFixture | ClearRef | ClearFixture | RepeatCheck | OpenChoke | Prepare u32

fun work_do :: "work_action \<Rightarrow> vna \<Rightarrow> work \<Rightarrow> work" where
  "work_do StoreRef s w = (if wref_can_store s then wref_store_request w else w)"
| "work_do (StoreRefKind fl) s w = (if wref_can_store s then wref_store_request_kind fl w else w)"
| "work_do StoreFixture s w = (if wref_can_store s then wfix_store_request w else w)"
| "work_do ClearRef s w = wref_clear w"
| "work_do ClearFixture s w = wfix_clear w"
| "work_do RepeatCheck s w = wref_repeat_measure s w"
| "work_do OpenChoke s w = w\<lparr>wref_fill_z_cb := True\<rparr>"
| "work_do (Prepare t) s w = consume_stores t s w"

text \<open>The work of one store sees the state after the other one has been consumed.\<close>

definition seen :: "u32 \<Rightarrow> vna \<Rightarrow> work \<Rightarrow> (vna \<times> work) set" where
  "seen t s w = {(s, w\<lparr>wfix_store_pending := False\<rparr>),
     (let (w, fx) = wfix_store_consume t s w; w = (if fx then w\<lparr>work_update := work_update w OR 1\<rparr> else w) in
      (s, w\<lparr>wref_store_pending := False\<rparr>))}"

fun history :: "work_action \<Rightarrow> vna \<Rightarrow> work \<Rightarrow> (vna \<times> work) set" where
  "history (Prepare t) s w = seen t s w"
| "history _ s w = {}"

inductive work_run :: "(vna \<times> work) set \<Rightarrow> vna \<Rightarrow> work \<Rightarrow> bool" where
  boot: "magic (wref_hdr w) = 0 \<Longrightarrow> magic (wfix_hdr w) = 0 \<Longrightarrow> WREF_MAGIC w \<noteq> 0 \<Longrightarrow> WFIX_MAGIC w \<noteq> 0 \<Longrightarrow> work_run {} s w"
| change: "work_run H s w \<Longrightarrow> work_run H s' w"
| action: "work_run H s w \<Longrightarrow> sweep_fits s \<Longrightarrow> work_run (H \<union> history a s w) s (work_do a s w)"

inductive_cases work_runE: "work_run H s w"

definition work_inv :: "(vna \<times> work) set \<Rightarrow> work \<Rightarrow> bool" where
  "work_inv H w \<longleftrightarrow> WREF_MAGIC w \<noteq> 0 \<and> WFIX_MAGIC w \<noteq> 0 \<and> gref.held H w \<and> fixt.held H w \<and> zref.held H w"

lemma work_inv_frame:
  assumes "work_inv H w" "H \<subseteq> H'" "wref_hdr w' = wref_hdr w" "wfix_hdr w' = wfix_hdr w" "wref_s11 w' = wref_s11 w"
    "wfix_s21 w' = wfix_s21 w" "wref_addr w' = wref_addr w" "wfix_addr w' = wfix_addr w"
  shows "work_inv H' w'"
  using assms gref.held_frame [of H w H' w'] fixt.held_frame [of H w H' w'] zref.held_frame [of H w H' w']
  by (simp add: work_inv_def WREF_MAGIC_def WFIX_MAGIC_def)


lemma fixture_consumed:
  assumes "work_inv H w" "sweep_fits s" "wfix_store_consume t s w = (w', r)"
  shows "work_inv (insert (s, w\<lparr>wfix_store_pending := False\<rparr>) H) w'"
proof -
  let ?w = "w\<lparr>wfix_store_pending := False\<rparr>"
  let ?H = "insert (s, ?w) H"
  have inv: "work_inv H ?w" using assms(1) by (rule work_inv_frame) simp_all
  show ?thesis
  proof (cases "wfix_store_pending w")
    case False
    then show ?thesis using assms work_inv_frame [OF assms(1), of ?H w'] by (auto simp: wfix_store_consume_def)
  next
    case True
    then have st: "wfix_store t s ?w = (w', r)" using assms(3) by (simp add: wfix_store_consume_def)
    have "fixt.held ?H w'" using inv fixt.held_store [OF _ assms(2) st] by (simp add: work_inv_def)
    moreover have fr: "wref_hdr w' = wref_hdr ?w" "wref_s11 w' = wref_s11 ?w" "wref_addr w' = wref_addr ?w" "wfix_addr w' = wfix_addr ?w"
      using st by (auto simp: wfix_store_def split: if_splits)
    then have m: "WREF_MAGIC w' = WREF_MAGIC ?w" "WFIX_MAGIC w' = WFIX_MAGIC ?w" by (simp_all add: WREF_MAGIC_def WFIX_MAGIC_def)
    have "gref.held ?H w'" "zref.held ?H w'"
      using inv gref.held_frame [of H ?w ?H w'] zref.held_frame [of H ?w ?H w'] fr m by (auto simp: work_inv_def)
    ultimately show ?thesis using inv m by (simp add: work_inv_def)
  qed
qed

lemma reference_consumed:
  assumes "work_inv H w" "sweep_fits s" "wref_store_consume t s w = (w', r)"
  shows "work_inv (insert (s, w\<lparr>wref_store_pending := False\<rparr>) H) w'"
proof -
  let ?w = "w\<lparr>wref_store_pending := False\<rparr>"
  let ?H = "insert (s, ?w) H"
  have inv: "work_inv H ?w" using assms(1) by (rule work_inv_frame) simp_all
  then have inv': "work_inv ?H ?w" by (rule work_inv_frame) auto
  have fx: "work_inv ?H w'" if "wfix_hdr w' = wfix_hdr ?w" "wfix_s21 w' = wfix_s21 ?w" "wref_addr w' = wref_addr ?w"
    "wfix_addr w' = wfix_addr ?w" "gref.held ?H w'" "zref.held ?H w'"
  proof -
    have m: "WREF_MAGIC w' = WREF_MAGIC ?w" "WFIX_MAGIC w' = WFIX_MAGIC ?w" using that by (simp_all add: WREF_MAGIC_def WFIX_MAGIC_def)
    then show ?thesis using inv that fixt.held_frame [of H ?w ?H w'] by (auto simp: work_inv_def)
  qed
  consider (none) "\<not> wref_store_pending w" "w' = w" | (plain) "wref_store t s ?w = (w', r)" | (z) "wref_store_z t s ?w = (w', r)"
    using assms(3) by (auto simp: wref_store_consume_def Let_def split: if_splits)
  then show ?thesis
  proof cases
    case none
    then show ?thesis using work_inv_frame [OF assms(1), of ?H w'] by auto
  next
    case plain
    have g: "gref.held ?H w'" using inv gref.held_store [OF _ assms(2) plain] by (simp add: work_inv_def)
    show ?thesis
    proof (cases r)
      case True
      have "flags (wref_hdr w') = 0" using plain True by (auto simp: wref_store_def split: if_splits)
      then have "zref.held ?H w'" by (simp add: zref.held_def z_block_def has_def)
      then show ?thesis using plain g by (intro fx) (auto simp: wref_store_def split: if_splits)
    next
      case False
      then show ?thesis using plain inv' gref.store_refused [of t s ?w w'] by simp
    qed
  next
    case z
    have h: "zref.held ?H w'" using inv zref.held_store [OF _ assms(2) z] by (simp add: work_inv_def)
    show ?thesis
    proof (cases r)
      case True
      have "flags (wref_hdr w') = WREF_HAS_S21" using z True by (auto simp: wref_store_z_def Let_def split: if_splits)
      then have "gref.held ?H w'" by (simp add: gref.held_def gamma_block_def has_def WREF_HAS_S21_def)
      then show ?thesis using z h by (intro fx) (auto simp: wref_store_z_def choke_wref_fill_z_def Let_def split: if_splits)
    next
      case False
      then show ?thesis using z inv' zref.store_refused [of t s ?w w'] by simp
    qed
  qed
qed

lemma prepare_inv:
  assumes "work_inv H w" "sweep_fits s"
  shows "work_inv (H \<union> seen t s w) (consume_stores t s w)"
proof -
  obtain w1 fxd where c1: "wfix_store_consume t s w = (w1, fxd)" by force
  define w2 where "w2 = (if fxd then w1\<lparr>work_update := work_update w1 OR 1\<rparr> else w1)"
  obtain w3 rf where c2: "wref_store_consume t s w2 = (w3, rf)" by force
  have sn: "seen t s w = {(s, w\<lparr>wfix_store_pending := False\<rparr>), (s, w2\<lparr>wref_store_pending := False\<rparr>)}"
    by (simp add: seen_def c1 w2_def)
  have "work_inv (insert (s, w\<lparr>wfix_store_pending := False\<rparr>) H) w1" by (rule fixture_consumed [OF assms c1])
  then have "work_inv (insert (s, w\<lparr>wfix_store_pending := False\<rparr>) H) w2" by (rule work_inv_frame) (simp_all add: w2_def)
  from reference_consumed [OF this assms(2) c2] have i: "work_inv (H \<union> seen t s w) w3" by (rule work_inv_frame) (auto simp: sn)
  have "consume_stores t s w = (if rf then w3\<lparr>tune_change_m := 0, work_update := work_update w3 OR 1\<rparr> else w3)"
    by (simp add: consume_stores_def c1 c2 Let_def flip: w2_def)
  then show ?thesis using work_inv_frame [OF i, where H' = "H \<union> seen t s w"] i by (cases rf) simp_all
qed

lemma magic_cleared: "work_inv H w \<Longrightarrow> work_inv H (wref_clear w)" "work_inv H w \<Longrightarrow> work_inv H (wfix_clear w)"
  by (simp_all add: work_inv_def gref.held_def zref.held_def fixt.held_def wref_clear_def wfix_clear_def WREF_MAGIC_def WFIX_MAGIC_def)

lemma action_inv:
  assumes "work_inv H w" "sweep_fits s"
  shows "work_inv (H \<union> history a s w) (work_do a s w)"
proof (cases a)
  case (Prepare t)
  then show ?thesis using prepare_inv [OF assms] by simp
next
  case ClearRef
  then show ?thesis using magic_cleared(1) [OF assms(1)] by simp
next
  case ClearFixture
  then show ?thesis using magic_cleared(2) [OF assms(1)] by simp
qed (use assms in \<open>auto intro!: work_inv_frame [OF assms(1)] simp: wref_store_request_def wref_store_request_kind_def
    wfix_store_request_def wref_repeat_measure_def Let_def\<close>)

lemma work_run_inv: "work_run H s w \<Longrightarrow> work_inv H w"
proof (induction rule: work_run.induct)
  case (boot w s)
  then show ?case by (simp add: work_inv_def gref.held_def zref.held_def fixt.held_def)
next
  case (action H s w a)
  then show ?case by (intro action_inv)
qed

text \<open>C12: Where a valid reference comes from.  In every run of the workflow, whatever happens to the
  instrument between the requests, a reference that reads as valid was taken by a store at which the
  point count, sweep range, calibration, delays, offset and smoothing were those of the present
  moment, and it holds exactly the reflection coefficients measured then.\<close>
theorem reference_provenance:
  assumes "work_run H s w" "wref_state_s11 s w = WREF_OK"
  shows "\<exists>(s0, w0)\<in>H. same_setup s0 s \<and> (\<forall>i < sweep_points (props s). wref_s11 w ! i = measured s0 ! 0 ! i)"
proof -
  have "gref.held H w" using work_run_inv [OF assms(1)] by (simp add: work_inv_def)
  moreover have "wref_hdr_state (wref_hdr w) (WREF_MAGIC w) s = WREF_OK" "gamma_block (flags (wref_hdr w))"
    using assms(2) by (auto simp: wref_state_s11_def wref_state_def gamma_block_def Let_def split: if_splits)
  ultimately show ?thesis using gref.held_ok by (simp add: s11_of_def)
qed

text \<open>A valid impedance reference of the CHOKE panel was computed at a store with the present settings,
  from the transmission measured then and the fixture held then, and a fixture taken with the same
  settings is present.\<close>
theorem choke_reference_provenance:
  assumes "work_run H s w" "wref_state_z s w = WREF_OK"
  shows "(\<exists>(s0, w0)\<in>H. same_setup s0 s \<and> (\<forall>i < sweep_points (props s). wref_s11 w ! i = choke_z_at s0 w0 i)) \<and>
    (\<exists>(s1, w1)\<in>H. same_setup s1 s \<and> (\<forall>i < sweep_points (props s). wfix_s21 w ! i = measured s1 ! 1 ! i))"
proof
  have inv: "work_inv H w" by (rule work_run_inv [OF assms(1)])
  have st: "wref_state s w = WREF_OK" "has (flags (wref_hdr w)) WREF_HAS_S21" "wfix_state s w = WREF_OK"
    using assms(2) by (auto simp: wref_state_z_def Let_def split: if_splits)
  show "\<exists>(s0, w0)\<in>H. same_setup s0 s \<and> (\<forall>i < sweep_points (props s). wref_s11 w ! i = choke_z_at s0 w0 i)"
    using inv st by (intro zref.held_ok) (simp_all add: work_inv_def wref_state_def z_block_def)
  show "\<exists>(s1, w1)\<in>H. same_setup s1 s \<and> (\<forall>i < sweep_points (props s). wfix_s21 w ! i = measured s1 ! 1 ! i)"
    using fixt.held_ok [of H w s] inv st by (simp add: work_inv_def wfix_state_def s21_of_def)
qed

text \<open>Storing another fixture does not invalidate the impedance reference: it keeps the values that
  were computed with the replaced fixture and still reads as valid.\<close>
theorem fixture_change_unnoticed:
  assumes "wref_state_z s w = WREF_OK" "same_setup s s'" "wref_can_store s'" "sweep_fits s'"
  shows "\<exists>w'. wfix_store t s' w = (w', True) \<and> (\<forall>i < sweep_points (props s'). wfix_s21 w' ! i = measured s' ! 1 ! i) \<and>
    wref_s11 w' = wref_s11 w \<and> wref_state_z s' w' = WREF_OK"
proof -
  obtain w' where w': "wfix_store t s' w = (w', True)"
    using assms(3) by (simp add: wfix_store_def wref_can_store_def)
  have st: "wref_state s w = WREF_OK" "has (flags (wref_hdr w)) WREF_HAS_S21"
    using assms(1) by (auto simp: wref_state_z_def Let_def split: if_splits)
  have fr: "wref_hdr w' = wref_hdr w" "wref_s11 w' = wref_s11 w" "WREF_MAGIC w' = WREF_MAGIC w" "magic (wfix_hdr w') = WFIX_MAGIC w'"
    using w' by (auto simp: wfix_store_def WREF_MAGIC_def WFIX_MAGIC_def split: if_splits)
  have t: "filled s' (wfix_hdr w')" "\<forall>i < sweep_points (props s'). wfix_s21 w' ! i = measured s' ! 1 ! i"
    using fixt.store_taken [OF w' assms(4)] by (simp_all add: s21_of_def)
  have "wfix_state s' w' = WREF_OK" unfolding wfix_state_def by (rule hdr_state_complete [OF fr(4) t(1)]) (simp add: same_setup_def)
  moreover have "wref_state s' w' = WREF_OK"
    using st(1) assms(2) by (simp add: wref_state_def fr wref_hdr_state_def same_setup_def split: if_splits)
  ultimately show ?thesis using w' t st(2) fr by (simp add: wref_state_z_def)
qed


subsection \<open>Witness runs\<close>

definition hdr0 :: wref_hdr_t where
  "hdr0 = \<lparr>magic = 0, start = 0, stop = 0, points = 0, wcal_status = 0, edelay = (0, 0), ws21_offset = 0, smooth = 0, flags = 0,
     wlastsaveid = 0, stamp = 0\<rparr>"

definition work0 :: work where
  "work0 = \<lparr>wref_hdr = hdr0, wref_s11 = [], wfix_hdr = hdr0, wfix_s21 = [], wref_repeat_gamma = 0, wref_store_pending = False,
     wref_store_kind = 0, wfix_store_pending = False, wref_fill_z_cb = False, wref_addr = 0x10000000, wfix_addr = 0x10000030,
     tune_change_m = 0, work_update = 0\<rparr>"

lemma work0_run: "work_run {} device0 work0"
  by (rule work_run.boot) (simp_all add: work0_def hdr0_def WREF_MAGIC_def WFIX_MAGIC_def)

lemma device0_ready: "sweep_fits device0" "wref_can_store device0" "\<not> WREF_IN_TDR device0" "\<not> WREF_FILE_VIEW device0"
  by (simp_all add: sweep_fits_def wref_can_store_def WREF_IN_TDR_def WREF_FILE_VIEW_def device0_def props0_def
      load_default_properties_def POINTS_COUNT_DEFAULT_def SWEEP_POINTS_MAX_def DOMAIN_MODE_def DOMAIN_TIME_def has_def
      SWEEP_ENABLE_def SWEEP_FILE_VIEW_def)

lemmas run_action = work_run.action [OF _ device0_ready(1)]

lemma run_step: "\<exists>H. work_run H device0 w \<Longrightarrow> \<exists>H. work_run H device0 (work_do a device0 w)"
  using run_action by blast

lemma same_setup_refl [simp]: "same_setup s s"
  by (simp add: same_setup_def)

theorem reference_provenance_witness:
  "\<exists>H w. wref_state_s11 device0 w = WREF_OK \<and>
     (\<exists>(s0, w0)\<in>H. same_setup s0 device0 \<and> (\<forall>i < sweep_points (props device0). wref_s11 w ! i = measured s0 ! 0 ! i))"
proof -
  let ?w1 = "work_do StoreRef device0 work0"
  let ?w2 = "work_do (Prepare 0) device0 ?w1"
  have run: "work_run ({} \<union> history StoreRef device0 work0 \<union> history (Prepare 0) device0 ?w1) device0 ?w2"
    by (intro run_action work0_run)
  have w1: "wref_store_pending ?w1" "wref_store_kind ?w1 = 0" "\<not> wfix_store_pending ?w1"
    by (simp_all add: device0_ready wref_store_request_def work0_def)
  have h: "wref_hdr ?w2 = (wref_hdr_fill 0 device0 (wref_hdr ?w1))\<lparr>magic := WREF_MAGIC ?w1\<rparr>" "WREF_MAGIC ?w2 = WREF_MAGIC ?w1"
    using w1 by (simp_all add: consume_stores_def wfix_store_consume_def wref_store_consume_def wref_store_def device0_ready Let_def
        has_def WREF_MAGIC_def)
  have "wref_state device0 ?w2 = WREF_OK"
    unfolding wref_state_def by (rule hdr_state_complete [where a = device0]) (simp_all add: h del: work_do.simps)
  then have ok: "wref_state_s11 device0 ?w2 = WREF_OK" by (simp add: wref_state_s11_def h has_def del: work_do.simps)
  show ?thesis using reference_provenance [OF run ok] ok by blast
qed

lemma choke_run:
  "\<exists>H w. work_run H device0 w \<and> wref_state_z device0 w = WREF_OK"
proof -
  let ?w1 = "work_do StoreFixture device0 (work_do OpenChoke device0 work0)"
  let ?w2 = "work_do (Prepare 0) device0 ?w1"
  let ?w3 = "work_do (StoreRefKind WREF_HAS_S21) device0 ?w2"
  let ?w4 = "work_do (Prepare 0) device0 ?w3"
  have run: "\<exists>H. work_run H device0 ?w4"
    by (intro run_step) (rule exI [of _ "{}"], rule work0_run)
  have w1: "wfix_store_pending ?w1" "\<not> wref_store_pending ?w1" "wref_fill_z_cb ?w1"
    by (simp_all add: device0_ready wfix_store_request_def work0_def)
  have w2: "wfix_hdr ?w2 = (wref_hdr_fill 0 device0 (wfix_hdr ?w1))\<lparr>magic := WFIX_MAGIC ?w1\<rparr>" "WFIX_MAGIC ?w2 = WFIX_MAGIC ?w1"
    "\<not> wfix_store_pending ?w2" "wref_fill_z_cb ?w2"
    using w1 by (simp_all add: consume_stores_def wfix_store_consume_def wref_store_consume_def wfix_store_def device0_ready Let_def
        WFIX_MAGIC_def)
  have fx: "wfix_state device0 x = WREF_OK" if "wfix_hdr x = wfix_hdr ?w2" "WFIX_MAGIC x = WFIX_MAGIC ?w2" for x
    unfolding wfix_state_def by (rule hdr_state_complete [where a = device0]) (simp_all add: that w2 del: work_do.simps)
  have w3: "wfix_hdr ?w3 = wfix_hdr ?w2" "WFIX_MAGIC ?w3 = WFIX_MAGIC ?w2" "wref_store_pending ?w3"
    "wref_store_kind ?w3 = WREF_HAS_S21" "\<not> wfix_store_pending ?w3" "wref_fill_z_cb ?w3"
    using w2(3,4) by (simp_all add: device0_ready wref_store_request_kind_def WFIX_MAGIC_def)
  have hk: "has WREF_HAS_S21 WREF_HAS_S21" by (simp add: has_def WREF_HAS_S21_def)
  have fx3: "wfix_state device0 (?w3\<lparr>wref_store_pending := False\<rparr>) = WREF_OK"
    by (rule fx) (use w3 in \<open>simp_all add: WFIX_MAGIC_def del: work_do.simps\<close>)
  have w4: "wref_hdr ?w4 = (wref_hdr_fill 0 device0 (wref_hdr ?w3))\<lparr>flags := WREF_HAS_S21, magic := WREF_MAGIC ?w3\<rparr>"
    "WREF_MAGIC ?w4 = WREF_MAGIC ?w3" "wfix_hdr ?w4 = wfix_hdr ?w3" "WFIX_MAGIC ?w4 = WFIX_MAGIC ?w3"
    unfolding work_do.simps(8) [of 0 device0 ?w3] using w3(3-6) fx3 hk device0_ready(3,4)
    by (simp_all add: consume_stores_def wfix_store_consume_def wref_store_consume_def wref_store_z_def choke_wref_fill_z_def
        Let_def WREF_MAGIC_def WFIX_MAGIC_def del: work_do.simps)
  have "wref_state device0 ?w4 = WREF_OK"
    unfolding wref_state_def by (rule hdr_state_complete [where a = device0]) (simp_all add: w4 del: work_do.simps)
  moreover have "wfix_state device0 ?w4 = WREF_OK" by (rule fx) (simp_all only: w4 w3)
  moreover have "has (flags (wref_hdr ?w4)) WREF_HAS_S21" using hk by (simp add: w4 del: work_do.simps)
  ultimately have "wref_state_z device0 ?w4 = WREF_OK" by (simp add: wref_state_z_def del: work_do.simps)
  then show ?thesis using run by blast
qed

theorem choke_reference_provenance_witness:
  "\<exists>H w. work_run H device0 w \<and> wref_state_z device0 w = WREF_OK \<and>
     (\<exists>(s0, w0)\<in>H. same_setup s0 device0 \<and> (\<forall>i < sweep_points (props device0). wref_s11 w ! i = choke_z_at s0 w0 i))"
proof -
  obtain H w where r: "work_run H device0 w" "wref_state_z device0 w = WREF_OK" using choke_run by blast
  show ?thesis using r choke_reference_provenance [OF r] by blast
qed

theorem fixture_change_unnoticed_witness:
  "\<exists>w w'. wfix_store 7 (device0\<lparr>measured := replicate 2 (replicate 401 (1 / 2, 0))\<rparr>) w = (w', True) \<and> wref_s11 w' = wref_s11 w \<and>
     wref_state_z (device0\<lparr>measured := replicate 2 (replicate 401 (1 / 2, 0))\<rparr>) w' = WREF_OK"
proof -
  let ?s = "device0\<lparr>measured := replicate 2 (replicate 401 (1 / 2, 0))\<rparr>"
  obtain H w where r: "work_run H device0 w" "wref_state_z device0 w = WREF_OK" using choke_run by blast
  have "same_setup device0 ?s" by (simp add: same_setup_def getFrequency_def)
  moreover have "wref_can_store ?s" using device0_ready by (simp add: wref_can_store_def WREF_IN_TDR_def WREF_FILE_VIEW_def)
  moreover have "sweep_fits ?s"
    by (simp add: sweep_fits_def device0_def props0_def load_default_properties_def POINTS_COUNT_DEFAULT_def SWEEP_POINTS_MAX_def)
  ultimately show ?thesis using fixture_change_unnoticed [OF r(2), of ?s 7] by blast
qed


subsection \<open>Repeat check\<close>

lemma repeat_fold:
  fixes n :: nat and s :: vna and w :: work
  defines "g \<equiv> \<lambda>i. (cmod (Gam (measured s ! 0 ! i) - Gam (wref_s11 w ! i)))\<^sup>2"
  shows "0 \<le> fold (repeat_step s w) [0..<n] 0 \<and> (\<forall>i<n. g i \<le> fold (repeat_step s w) [0..<n] 0) \<and>
    (0 < n \<longrightarrow> (\<exists>i<n. fold (repeat_step s w) [0..<n] 0 = g i))"
proof (induction n)
  case (Suc n)
  let ?m = "fold (repeat_step s w) [0..<n] 0"
  have r: "repeat_step s w n x = (if g n > x then g n else x)" for x
    by (simp add: repeat_step_def g_def Let_def cmod_power2 Gam_def) (simp add: power2_eq_square)
  have "fold (repeat_step s w) [0..<Suc n] 0 = (if g n > ?m then g n else ?m)" by (simp add: r)
  moreover have "0 \<le> g n" by (simp add: g_def)
  moreover have "?m = 0" if "n = 0" using that by simp
  ultimately show ?case using Suc.IH by (cases "g n > ?m"; cases "n = 0") (auto simp: less_Suc_eq intro: less_imp_le order_trans)
qed simp

text \<open>The repeat check measures the largest distance between the present sweep and a valid reference:
  every point differs by at most the reported value and one point differs by exactly that; without a
  valid reflection reference, or in time domain mode, it reports 0.\<close>
theorem repeat_measure_max:
  assumes "0 < sweep_points (props s)"
  shows "if \<not> WREF_IN_TDR s \<and> wref_state_s11 s w = WREF_OK
    then (\<forall>i < sweep_points (props s). cmod (Gam (measured s ! 0 ! i) - Gam (wref_s11 w ! i)) \<le> wref_repeat_gamma (wref_repeat_measure s w)) \<and>
      (\<exists>i < sweep_points (props s). wref_repeat_gamma (wref_repeat_measure s w) = cmod (Gam (measured s ! 0 ! i) - Gam (wref_s11 w ! i)))
    else wref_repeat_gamma (wref_repeat_measure s w) = 0"
proof -
  let ?n = "sweep_points (props s)" and ?w = "w\<lparr>wref_repeat_gamma := 0\<rparr>"
  let ?m = "fold (repeat_step s ?w) [0..<?n] 0"
  have f: "0 \<le> ?m" "\<forall>i<?n. (cmod (Gam (measured s ! 0 ! i) - Gam (wref_s11 w ! i)))\<^sup>2 \<le> ?m"
    "\<exists>i<?n. ?m = (cmod (Gam (measured s ! 0 ! i) - Gam (wref_s11 w ! i)))\<^sup>2"
    using repeat_fold [where n = ?n and s = s and w = ?w] assms by auto
  have same: "wref_state_s11 s ?w = wref_state_s11 s w" by (simp add: wref_state_s11_def wref_state_def WREF_MAGIC_def)
  show ?thesis
  proof (cases "\<not> WREF_IN_TDR s \<and> wref_state_s11 s w = WREF_OK")
    case True
    then have g: "wref_repeat_gamma (wref_repeat_measure s w) = sqrt ?m" by (simp add: wref_repeat_measure_def same)
    have "\<forall>i<?n. cmod (Gam (measured s ! 0 ! i) - Gam (wref_s11 w ! i)) \<le> sqrt ?m" using f(2) real_le_rsqrt by blast
    moreover have "\<exists>i<?n. sqrt ?m = cmod (Gam (measured s ! 0 ! i) - Gam (wref_s11 w ! i))" using f(3) by force
    ultimately show ?thesis using True g by simp
  next
    case False
    then show ?thesis by (auto simp: wref_repeat_measure_def same)
  qed
qed

theorem repeat_measure_max_witness:
  "wref_repeat_gamma (wref_repeat_measure device0 work0) = 0"
proof -
  have "wref_state_s11 device0 work0 \<noteq> WREF_OK"
    by (simp add: wref_state_s11_def wref_state_def wref_hdr_state_def work0_def hdr0_def WREF_MAGIC_def)
  then show ?thesis
    using repeat_measure_max [of device0 work0]
    by (simp add: device0_def props0_def load_default_properties_def POINTS_COUNT_DEFAULT_def SWEEP_POINTS_MAX_def)
qed

end
