(* ===== verification/ChokePanel.thy ===== *)
theory ChokePanel
  imports Workref Bands
begin

text \<open>
  The CHOKE panel (\<^verbatim>\<open>prepare_choke\<close> of \<^verbatim>\<open>measure.c\<close>): one row per amateur band inside the sweep with the
  worst corrected series resistance, its verdict, the worst band over all rows, the parallel
  resonance and the comparison with the stored reference.  The arrays of the panel state are a list
  of rows, the value 0xFF of the worst row is \<open>None\<close>.
\<close>

record choke_row =
  row_r :: real
  row_x :: real
  row_idx :: nat
  row_rung :: nat
  row_verdict :: choke_verdict_t

record choke_measure =
  rows :: "choke_row list"
  worst :: "nat option"
  fix_state :: wref_state_t
  more_bands :: u8
  zpeak :: "(nat \<times> real) option"
  ref_r :: real
  ceil_w :: real
  lim_w :: real
  ref_state :: wref_state_t
  w_edges :: "real \<times> real"

definition CHOKE_ROWS_MAX :: nat where "CHOKE_ROWS_MAX = 10"
definition CHOKE_BAND_MIN_POINTS :: nat where "CHOKE_BAND_MIN_POINTS = 3"

definition choke_get_r :: "vna \<Rightarrow> work \<Rightarrow> nat \<Rightarrow> real" where "choke_get_r s w i = fst (choke_z_at s w i)"
definition choke_get_x :: "vna \<Rightarrow> work \<Rightarrow> nat \<Rightarrow> real" where "choke_get_x s w i = snd (choke_z_at s w i)"
definition choke_get_f :: "vna \<Rightarrow> nat \<Rightarrow> real" where "choke_get_f s i = real (unat (getFrequency i s))"

definition choke_fix_z_at :: "vna \<Rightarrow> work \<Rightarrow> nat \<Rightarrow> real \<times> real" where
  "choke_fix_z_at s w i = (let f = wfix_s21_at w i in choke_zser (fst f) (snd f) (PORT_Z s))"

definition points_step :: "vna \<Rightarrow> real \<Rightarrow> real \<Rightarrow> nat \<Rightarrow> nat \<Rightarrow> nat" where
  "points_step s f_lo f_hi i n = (let f = choke_get_f s i in if f \<ge> f_lo \<and> f \<le> f_hi then n + 1 else n)"

definition choke_points_in :: "vna \<Rightarrow> real \<Rightarrow> real \<Rightarrow> nat" where
  "choke_points_in s f_lo f_hi = fold (points_step s f_lo f_hi) [0..<sweep_points (props s)] 0"

text \<open>One judged band: the row it adds and, unless the jig limits it, the new worst band.\<close>

definition choke_row_add :: "real \<Rightarrow> vna \<Rightarrow> work \<Rightarrow> real \<Rightarrow> real \<Rightarrow> nat \<Rightarrow> choke_measure \<Rightarrow> choke_measure" where
  "choke_row_add choke_target_ohm s w f_lo f_hi i c =
     (let k = length (rows c);
          (r, x) = choke_z_at s w i;
          rung = choke_rung_m (1 / 2 * (f_lo + f_hi));
          (rf, xf) = choke_fix_z_at s w i;
          craw = choke_rs_ceiling rf xf; clim = choke_rs_ceiling_deembed rf xf;
          v = choke_verdict r choke_target_ohm clim;
          row = \<lparr>row_r = (if v = CHOKE_JIG then craw else r), row_x = x, row_idx = i, row_rung = rung, row_verdict = v\<rparr>;
          c = c\<lparr>rows := rows c @ [row]\<rparr> in
      if v \<noteq> CHOKE_JIG \<and> (case worst c of None \<Rightarrow> True | Some m \<Rightarrow> r < row_r (rows c ! m))
      then c\<lparr>worst := Some k, w_edges := (f_lo, f_hi), ceil_w := craw, lim_w := clim\<rparr> else c)"

fun choke_bands :: "real \<Rightarrow> vna \<Rightarrow> work \<Rightarrow> ham_band list \<Rightarrow> choke_measure \<Rightarrow> choke_measure" where
  "choke_bands choke_target_ohm s w [] c = c"
| "choke_bands choke_target_ohm s w (b # bs) c =
     (let f_lo = real_of_int (band_start b); f_hi = real_of_int (band_end b); np = choke_points_in s f_lo f_hi in
      if band_end b < 1500000 then choke_bands choke_target_ohm s w bs c
      else if np = 0 then choke_bands choke_target_ohm s w bs c
      else if np < CHOKE_BAND_MIN_POINTS then choke_bands choke_target_ohm s w bs (c\<lparr>more_bands := more_bands c OR 2\<rparr>)
      else if length (rows c) = CHOKE_ROWS_MAX then c\<lparr>more_bands := more_bands c OR 1\<rparr>
      else case choke_band_min (choke_get_r s w) (choke_get_f s) (sweep_points (props s)) f_lo f_hi of
          None \<Rightarrow> choke_bands choke_target_ohm s w bs c
        | Some i \<Rightarrow> choke_bands choke_target_ohm s w bs (choke_row_add choke_target_ohm s w f_lo f_hi i c))"

definition prepare_choke :: "real \<Rightarrow> vna \<Rightarrow> work \<Rightarrow> choke_measure \<Rightarrow> choke_measure \<times> work" where
  "prepare_choke choke_target_ohm s w c =
     (let w = w\<lparr>wref_fill_z_cb := True\<rparr>;
          c = c\<lparr>rows := [], more_bands := 0, zpeak := None, worst := None, ref_state := WREF_NONE, ref_r := 0, fix_state := wfix_state s w\<rparr> in
      if fix_state c = WREF_OK \<and> has (cal_status (props s)) CALSTAT_ET then
        let c = c\<lparr>w_edges := (0, 0)\<rparr>;
            c = (case ham_bands_get (ham_region (config s)) of None \<Rightarrow> c | Some bands \<Rightarrow> choke_bands choke_target_ohm s w bands c);
            c = c\<lparr>zpeak := choke_zpeak (choke_get_r s w) (choke_get_x s w) (sweep_points (props s))\<rparr>;
            c = c\<lparr>ref_state := wref_state_z s w\<rparr>;
            c = (if ref_state c = WREF_OK \<and> worst c \<noteq> None then
                   case choke_band_min (wref_z_r w) (choke_get_f s) (sweep_points (props s)) (fst (w_edges c)) (snd (w_edges c)) of
                     Some ri \<Rightarrow> c\<lparr>ref_r := wref_z_r w ri\<rparr>
                   | None \<Rightarrow> c\<lparr>ref_state := WREF_NONE\<rparr>
                 else c) in
        (c, w)
      else (c, w))"


subsection \<open>Rows\<close>

definition in_band :: "vna \<Rightarrow> ham_band \<Rightarrow> nat \<Rightarrow> bool" where
  "in_band s b i \<longleftrightarrow> i < sweep_points (props s) \<and> real_of_int (band_start b) \<le> choke_get_f s i \<and> choke_get_f s i \<le> real_of_int (band_end b)"

definition row_correct :: "real \<Rightarrow> vna \<Rightarrow> work \<Rightarrow> ham_band \<Rightarrow> choke_row \<Rightarrow> bool" where
  "row_correct target s w b row \<longleftrightarrow>
     (let i = row_idx row; (rf, xf) = choke_fix_z_at s w i in
      1500000 \<le> band_end b \<and> 3 \<le> card {j. in_band s b j} \<and> in_band s b i \<and>
      (\<forall>j. in_band s b j \<longrightarrow> choke_get_r s w i \<le> choke_get_r s w j) \<and>
      row_x row = choke_get_x s w i \<and>
      row_verdict row = choke_verdict (choke_get_r s w i) target (choke_rs_ceiling_deembed rf xf) \<and>
      row_r row = (if row_verdict row = CHOKE_JIG then choke_rs_ceiling rf xf else choke_get_r s w i))"

definition worst_correct :: "choke_row list \<Rightarrow> nat option \<Rightarrow> bool" where
  "worst_correct rs m \<longleftrightarrow> (case m of None \<Rightarrow> (\<forall>row\<in>set rs. row_verdict row = CHOKE_JIG)
     | Some k \<Rightarrow> k < length rs \<and> row_verdict (rs ! k) \<noteq> CHOKE_JIG \<and>
         (\<forall>row\<in>set rs. row_verdict row \<noteq> CHOKE_JIG \<longrightarrow> row_r (rs ! k) \<le> row_r row))"

definition panel_ok :: "real \<Rightarrow> vna \<Rightarrow> work \<Rightarrow> ham_band set \<Rightarrow> choke_measure \<Rightarrow> bool" where
  "panel_ok target s w B c \<longleftrightarrow> length (rows c) \<le> CHOKE_ROWS_MAX \<and> (\<forall>row\<in>set (rows c). \<exists>b\<in>B. row_correct target s w b row) \<and>
     worst_correct (rows c) (worst c)"

lemma points_in_card:
  "choke_points_in s (real_of_int (band_start b)) (real_of_int (band_end b)) = card {j. in_band s b j}"
proof -
  have "fold (points_step s lo hi) [0..<n] 0 = card {j. j < n \<and> lo \<le> choke_get_f s j \<and> choke_get_f s j \<le> hi}" for n lo hi
  proof (induction n)
    case (Suc n)
    have "{j. j < Suc n \<and> lo \<le> choke_get_f s j \<and> choke_get_f s j \<le> hi} =
        (if lo \<le> choke_get_f s n \<and> choke_get_f s n \<le> hi then insert n else id) {j. j < n \<and> lo \<le> choke_get_f s j \<and> choke_get_f s j \<le> hi}"
      by (auto simp: less_Suc_eq)
    then show ?case using Suc by (simp add: points_step_def Let_def)
  qed simp
  then show ?thesis by (simp add: choke_points_in_def in_band_def)
qed

lemma worst_extend:
  assumes "worst_correct rs m"
  shows "worst_correct (rs @ [row])
    (if row_verdict row \<noteq> CHOKE_JIG \<and> (case m of None \<Rightarrow> True | Some j \<Rightarrow> row_r row < row_r ((rs @ [row]) ! j))
     then Some (length rs) else m)"
proof (cases m)
  case None
  then show ?thesis using assms by (auto simp: worst_correct_def)
next
  case (Some j)
  then show ?thesis using assms by (auto simp: worst_correct_def nth_append)
qed

lemma row_added:
  fixes b :: ham_band
  defines "lo \<equiv> real_of_int (band_start b)" and "hi \<equiv> real_of_int (band_end b)"
  assumes "panel_ok target s w B c" "b \<in> B" "1500000 \<le> band_end b" "3 \<le> card {j. in_band s b j}" "length (rows c) < CHOKE_ROWS_MAX"
    and "choke_band_min (choke_get_r s w) (choke_get_f s) (sweep_points (props s)) lo hi = Some i"
  shows "panel_ok target s w B (choke_row_add target s w lo hi i c)"
proof -
  obtain rf xf where f: "choke_fix_z_at s w i = (rf, xf)" by force
  have z: "choke_z_at s w i = (choke_get_r s w i, choke_get_x s w i)" by (simp add: choke_get_r_def choke_get_x_def)
  define v where "v = choke_verdict (choke_get_r s w i) target (choke_rs_ceiling_deembed rf xf)"
  define row where "row = \<lparr>row_r = (if v = CHOKE_JIG then choke_rs_ceiling rf xf else choke_get_r s w i), row_x = choke_get_x s w i,
    row_idx = i, row_rung = choke_rung_m (1 / 2 * (lo + hi)), row_verdict = v\<rparr>"
  have m: "in_band s b i" "\<forall>j. in_band s b j \<longrightarrow> choke_get_r s w i \<le> choke_get_r s w j"
    using choke_band_min_correct [where get_r = "choke_get_r s w" and get_f = "choke_get_f s" and n = "sweep_points (props s)" and f_lo = lo and f_hi = hi] assms(8)
    by (auto simp: in_band_def lo_def hi_def)
  have rc: "row_correct target s w b row"
    using m assms(5,6) by (simp add: row_correct_def row_def f v_def)
  define p where "p \<longleftrightarrow> v \<noteq> CHOKE_JIG \<and> (case worst c of None \<Rightarrow> True | Some m \<Rightarrow> row_r row < row_r ((rows c @ [row]) ! m))"
  have "rows (choke_row_add target s w lo hi i c) = rows c @ [row]" "worst (choke_row_add target s w lo hi i c) = (if p then Some (length (rows c)) else worst c)"
    by (auto simp: choke_row_add_def z f Let_def p_def row_def v_def split: option.splits)
  moreover have "worst_correct (rows c @ [row]) (if p then Some (length (rows c)) else worst c)"
    using worst_extend [of "rows c" "worst c" row] assms(3) by (simp add: panel_ok_def p_def row_def cong: if_cong)
  ultimately show ?thesis using assms(3,4,7) rc by (auto simp: panel_ok_def)
qed

lemma choke_bands_ok:
  "panel_ok target s w B c \<Longrightarrow> set bs \<subseteq> B \<Longrightarrow> panel_ok target s w B (choke_bands target s w bs c)"
proof (induction bs arbitrary: c)
  case (Cons b bs)
  have frame: "panel_ok target s w B (c\<lparr>more_bands := x\<rparr>) = panel_ok target s w B c" for x by (simp add: panel_ok_def)
  let ?lo = "real_of_int (band_start b)" and ?hi = "real_of_int (band_end b)"
  let ?np = "choke_points_in s ?lo ?hi"
  consider (skip) "band_end b < 1500000 \<or> ?np = 0" | (few) "\<not> (band_end b < 1500000 \<or> ?np = 0)" "?np < CHOKE_BAND_MIN_POINTS"
    | (full) "\<not> (band_end b < 1500000 \<or> ?np < CHOKE_BAND_MIN_POINTS)" "length (rows c) = CHOKE_ROWS_MAX"
    | (judge) "1500000 \<le> band_end b" "CHOKE_BAND_MIN_POINTS \<le> ?np" "length (rows c) \<noteq> CHOKE_ROWS_MAX"
    by linarith
  then show ?case
  proof cases
    case skip
    then show ?thesis using Cons by (auto simp: Let_def)
  next
    case few
    then show ?thesis using Cons frame by (auto simp: Let_def)
  next
    case full
    then show ?thesis using Cons.prems frame by (auto simp: Let_def CHOKE_BAND_MIN_POINTS_def)
  next
    case judge
    show ?thesis
    proof (cases "choke_band_min (choke_get_r s w) (choke_get_f s) (sweep_points (props s)) ?lo ?hi")
      case None
      then show ?thesis using judge Cons by (auto simp: Let_def CHOKE_BAND_MIN_POINTS_def)
    next
      case (Some i)
      have "panel_ok target s w B (choke_row_add target s w ?lo ?hi i c)"
        using judge Cons.prems Some points_in_card [of s b]
        by (intro row_added) (auto simp: panel_ok_def CHOKE_BAND_MIN_POINTS_def)
      then show ?thesis using judge Cons Some by (auto simp: Let_def CHOKE_BAND_MIN_POINTS_def)
    qed
  qed
qed simp



definition choke_dev :: vna where
  "choke_dev = (on_props (\<lambda>p. p\<lparr>cal_status := CALSTAT_ET\<rparr>) device0)\<lparr>config := config0\<lparr>ham_region := 1\<rparr>\<rparr>"


end
