(* ===== verification/S21.thy ===== *)
theory S21
  imports Measure
begin

text \<open>
  The S21 component measurements of \<^verbatim>\<open>measure.c\<close>: a series resonant circuit across the line
  (\<^verbatim>\<open>analysis_lcshunt\<close>), in the line (\<^verbatim>\<open>analysis_lcseries\<close>) and a crystal in the line
  (\<^verbatim>\<open>analysis_xtalseries\<close>).  The result record keeps the values of an earlier analysis where the
  routine returns early, as the shared memory of the panels does; \<open>None\<close> is a result that is not a
  finite number.
\<close>

record s21_analysis =
  an_header :: string
  an_freq :: u32
  an_freq1 :: u32
  an_df :: u32
  an_l :: real
  an_c :: real
  an_c1 :: real
  an_r :: real
  an_q :: real

definition s21pow2 :: "vna \<Rightarrow> nat \<Rightarrow> real" where
  "s21pow2 s i = (let re = fst (measured s ! 1 ! i); im = snd (measured s ! 1 ! i) in re * re + im * im)"

text \<open>A quotient by zero compares as an infinity of the sign of the numerator.\<close>

definition s21tan :: "vna \<Rightarrow> nat \<Rightarrow> real" where
  "s21tan s i = (let re = fst (measured s ! 1 ! i); im = snd (measured s ! 1 ! i) in
     if re = 0 then sgn im * INFINITY else im / re)"

definition to_freq :: "real \<Rightarrow> u32" where "to_freq f = word_of_int \<lfloor>f\<rfloor>"

definition shunt_values :: "real \<Rightarrow> real \<Rightarrow> real \<Rightarrow> s21_analysis \<Rightarrow> s21_analysis option" where
  "shunt_values r f1 f2 a =
     (let bw = f2 - f1; fpeak = sqrt (f2 * f1) in
      if bw = 0 \<or> fpeak = 0 \<or> r = 0 then None
      else Some (a\<lparr>an_freq := to_freq fpeak, an_q := fpeak / bw, an_l := r / (2 * pi * bw),
                   an_c := bw / (2 * pi * fpeak * fpeak * r)\<rparr>))"

definition analysis_lcshunt :: "vna \<Rightarrow> s21_analysis \<Rightarrow> (s21_analysis \<times> vna) option" where
  "analysis_lcshunt s a =
     (let a = a\<lparr>an_header := ''LC-SHUNT''\<rparr>; mr = measure_r (config s) in
      case search_peak_value 0 (s21pow2 s) False (sweep_points (props s)) of None \<Rightarrow> None
      | Some (ypeak, xp) \<Rightarrow>
          let att = sqrt ypeak in
          if att = 1 then None
          else
            let a = a\<lparr>an_r := mr * att / (2 * (1 - att))\<rparr> in
            if an_r a < 0 then Some (a, s)
            else
              let s = set_marker_index 0 (int xp) s; tan45 = mr / (mr + 4 * an_r a) in
              (case measure_search_value xp (- tan45) (s21tan s) True 1 s of (f1, _, s) \<Rightarrow>
                 if f1 = Some 0 then Some (a, s)
                 else case measure_search_value xp tan45 (s21tan s) False 2 s of (f2, _, s) \<Rightarrow>
                   if f2 = Some 0 then Some (a, s)
                   else case (f1, f2) of
                       (Some f1, Some f2) \<Rightarrow> map_option (\<lambda>a. (a, s)) (shunt_values (an_r a) f1 f2 a)
                     | _ \<Rightarrow> None))"

definition series_values :: "real \<Rightarrow> real \<Rightarrow> real \<Rightarrow> real \<Rightarrow> s21_analysis \<Rightarrow> s21_analysis option" where
  "series_values mr r f1 f2 a =
     (let bw = f2 - f1; fpeak = sqrt (f2 * f1); reff = 2 * mr + r in
      if bw = 0 \<or> fpeak = 0 \<or> reff = 0 \<or> r = 0 then None
      else
        let l = reff / (2 * pi * bw) in
        Some (a\<lparr>an_freq := to_freq fpeak, an_l := l, an_c := bw / (2 * pi * fpeak * fpeak * reff), an_q := 2 * pi * fpeak * l / r\<rparr>))"

definition analysis_lcseries :: "vna \<Rightarrow> s21_analysis \<Rightarrow> (s21_analysis \<times> vna) option" where
  "analysis_lcseries s a =
     (let a = a\<lparr>an_header := ''LC-SERIES''\<rparr>; mr = measure_r (config s) in
      case search_peak_value 0 (s21pow2 s) True (sweep_points (props s)) of None \<Rightarrow> None
      | Some (ypeak, xp) \<Rightarrow>
          if xp = 0 then Some (a, s)
          else if ypeak = 0 then None
          else
            let a = a\<lparr>an_r := 2 * mr * (1 / sqrt ypeak - 1)\<rparr> in
            if an_r a < 0 then Some (a, s)
            else
              let s = set_marker_index 0 (int xp) s; tan45 = 1 in
              (case measure_search_value xp tan45 (s21tan s) True 1 s of (f1, _, s) \<Rightarrow>
                 if f1 = Some 0 then Some (a, s)
                 else case measure_search_value xp (- tan45) (s21tan s) False 2 s of (f2, _, s) \<Rightarrow>
                   if f2 = Some 0 then Some (a, s)
                   else case (f1, f2) of
                       (Some f1, Some f2) \<Rightarrow> map_option (\<lambda>a. (a, s)) (series_values mr (an_r a) f1 f2 a)
                     | _ \<Rightarrow> None))"

definition analysis_xtalseries :: "vna \<Rightarrow> s21_analysis \<Rightarrow> (s21_analysis \<times> vna) option" where
  "analysis_xtalseries s a =
     (case analysis_lcseries s a of None \<Rightarrow> None
      | Some (a, s) \<Rightarrow>
          let a = a\<lparr>an_header := ''XTAL-SERIES''\<rparr> in
          case search_peak_value 0 (s21pow2 s) False (sweep_points (props s)) of None \<Rightarrow> None
          | Some (_, xp) \<Rightarrow>
              if xp = 0 then Some (a, s)
              else
                let s = set_marker_index 3 (int xp) s; freq1 = getFrequency xp s in
                if freq1 < an_freq a then Some (a, s)
                else
                  let a = a\<lparr>an_freq1 := freq1, an_df := freq1 - an_freq a\<rparr> in
                  if an_df a = 0 then None
                  else Some (a\<lparr>an_c1 := an_c a * real (unat (an_freq a)) / (2 * real (unat (an_df a)))\<rparr>, s))"

text \<open>The measurement types 2, 3 and 4 are the shunt circuit, the series circuit and the crystal.\<close>

definition MEASURE_SHUNT_LC :: nat where "MEASURE_SHUNT_LC = 2"
definition MEASURE_SERIES_LC :: nat where "MEASURE_SERIES_LC = 3"
definition MEASURE_SERIES_XTAL :: nat where "MEASURE_SERIES_XTAL = 4"

definition prepare_series :: "nat \<Rightarrow> vna \<Rightarrow> s21_analysis \<Rightarrow> (s21_analysis \<times> vna) option" where
  "prepare_series type s a =
     (let a = a\<lparr>an_freq := 0, an_freq1 := 0\<rparr> in
      if type = MEASURE_SHUNT_LC then analysis_lcshunt s a
      else if type = MEASURE_SERIES_LC then analysis_lcseries s a
      else if type = MEASURE_SERIES_XTAL then analysis_xtalseries s a
      else Some (a, s))"

subsection \<open>Circuits\<close>

text \<open>The reactance of inductance and capacitance in series at a frequency.\<close>

definition lc_reactance :: "real \<Rightarrow> real \<Rightarrow> real \<Rightarrow> real" where
  "lc_reactance L C f = 2 * pi * f * L - 1 / (2 * pi * f * C)"

lemma band_edges:
  assumes "0 < L" "0 < C" "0 < f1" "f1 < f2" "0 < R" "lc_reactance L C f1 = - R" "lc_reactance L C f2 = R"
  shows "R / (2 * pi * (f2 - f1)) = L" "(f2 - f1) / (2 * pi * (f2 * f1) * R) = C"
    "L * C = 1 / (2 * pi * 2 * pi * (f2 * f1))"
proof -
  define w1 w2 where "w1 = 2 * pi * f1" and "w2 = 2 * pi * f2"
  have w: "0 < w1" "w1 < w2" "0 < w2" using assms(3,4) by (simp_all add: w1_def w2_def)
  have e: "w1 * L - 1 / (w1 * C) = - R" "w2 * L - 1 / (w2 * C) = R"
    using assms(6,7) by (simp_all add: lc_reactance_def w1_def w2_def)
  have m: "w1 * w1 * L * C - 1 = - R * w1 * C" "w2 * w2 * L * C - 1 = R * w2 * C"
    using e w assms(2) by (simp_all add: field_simps)
  have "(w1 + w2) * (w1 * w2 * L * C - 1) = w2 * (w1 * w1 * L * C - 1) + w1 * (w2 * w2 * L * C - 1)" by (simp add: algebra_simps)
  also have "\<dots> = 0" unfolding m by simp
  finally have p: "w1 * w2 * L * C = 1" using w by auto
  have "(w2 - w1) * (w1 * w2 * L * C + 1) = w1 * (w2 * w2 * L * C - 1) - w2 * (w1 * w1 * L * C - 1)" by (simp add: algebra_simps)
  also have "\<dots> = 2 * (R * (w1 * w2 * C))" unfolding m by simp
  finally have "w2 - w1 = R * (w1 * w2 * C)" by (simp add: p)
  then have "(w2 - w1) * L = R * (w1 * w2 * L * C)" by simp
  then have l: "(w2 - w1) * L = R" by (simp add: p)
  have d: "w2 - w1 = 2 * pi * (f2 - f1)" by (simp add: w1_def w2_def right_diff_distrib)
  have "R / (w2 - w1) = L" using l w by (auto simp: divide_eq_eq mult.commute)
  then show "R / (2 * pi * (f2 - f1)) = L" by (simp only: d)
  have "L * C = 1 / (w1 * w2)" using p w by (simp add: eq_divide_eq mult_ac)
  then show "L * C = 1 / (2 * pi * 2 * pi * (f2 * f1))" by (simp add: w1_def w2_def mult_ac)
  have "(f2 - f1) / (2 * pi * (f2 * f1) * R) = (w2 - w1) / (w1 * w2 * R)"
  proof -
    have "(w2 - w1) / (w1 * w2 * R) = 2 * pi * (f2 - f1) / (2 * pi * (2 * pi * (f2 * f1) * R))"
      by (simp only: d) (simp add: w1_def w2_def mult_ac)
    also have "\<dots> = (f2 - f1) / (2 * pi * (f2 * f1) * R)" by (rule mult_divide_mult_cancel_left) simp
    finally show ?thesis ..
  qed
  also have "\<dots> = 1 / (w1 * w2 * L)" unfolding l [symmetric] using w by simp
  also have "\<dots> = C" using p w assms(1) by (simp add: field_simps)
  finally show "(f2 - f1) / (2 * pi * (f2 * f1) * R) = C" .
qed


text \<open>The levels the two routines search are the tangents of the phase of S21 at those reactances.\<close>

lemma phase_levels:
  assumes "0 < r" "0 < mr"
  shows "Im (2 * of_real mr / (2 * of_real mr + Complex r X)) / Re (2 * of_real mr / (2 * of_real mr + Complex r X)) = - X / (2 * mr + r)"
    and "X = r \<or> X = - r \<Longrightarrow> Im (2 * Complex r X / (2 * Complex r X + of_real mr)) / Re (2 * Complex r X / (2 * Complex r X + of_real mr)) =
      sgn X * (mr / (mr + 4 * r))"
proof -
  have d: "0 < (2 * mr + r) * (2 * mr + r) + X * X" using assms by (intro add_pos_nonneg) simp_all
  show "Im (2 * of_real mr / (2 * of_real mr + Complex r X)) / Re (2 * of_real mr / (2 * of_real mr + Complex r X)) = - X / (2 * mr + r)"
    using d assms by (simp add: Re_divide Im_divide power2_eq_square)
  assume X: "X = r \<or> X = - r"
  have q: "Im (a / b) / Re (a / b) = Im (a * cnj b) / Re (a * cnj b)" if "b \<noteq> 0" for a b
    using that by (simp add: complex_div_cnj [of a b] Re_divide_of_real Im_divide_of_real flip: of_real_power)
  have "2 * Complex r X + of_real mr \<noteq> 0" using assms by (auto simp: complex_eq_iff)
  note q = q [OF this, of "2 * Complex r X"]
  have "mr * (r * 2) / (mr * (r * 2) + r * (r * 8)) = (2 * r) * mr / ((2 * r) * (mr + r * 4))" by (simp add: algebra_simps)
  also have "\<dots> = mr / (mr + r * 4)" by (rule mult_divide_mult_cancel_left) (use assms in simp)
  finally have h: "mr * (r * 2) / (mr * (r * 2) + r * (r * 8)) = mr / (mr + r * 4)" .
  show "Im (2 * Complex r X / (2 * Complex r X + of_real mr)) / Re (2 * Complex r X / (2 * Complex r X + of_real mr)) =
      sgn X * (mr / (mr + 4 * r))"
    unfolding q using X assms h by (auto simp: algebra_simps)
qed

text \<open>C22: The two resonance formulas are exact.  For a circuit of resistance r, inductance L and
  capacitance C between lines of resistance mr: in the line, the phase of S21 is 45 degrees where the
  reactance is minus and plus the total resistance; across the line, the tangent of the phase takes the
  two levels the routine searches where the reactance is minus and plus r.  From the frequencies of
  those points both routines compute exactly L and C, the resonant frequency and the quality factor.\<close>
theorem lc_analysis_exact:
  assumes "0 < L" "0 < C" "0 < r" "0 < mr" "0 < f1" "f1 < f2"
  shows "(lc_reactance L C f1 = - (2 * mr + r) \<and> lc_reactance L C f2 = 2 * mr + r \<longrightarrow>
      series_values mr r f1 f2 a = Some (a\<lparr>an_freq := to_freq (1 / (2 * pi * sqrt (L * C))), an_l := L, an_c := C,
        an_q := 2 * pi * (1 / (2 * pi * sqrt (L * C))) * L / r\<rparr>)) \<and>
    (lc_reactance L C f1 = - r \<and> lc_reactance L C f2 = r \<longrightarrow>
      shunt_values r f1 f2 a = Some (a\<lparr>an_freq := to_freq (1 / (2 * pi * sqrt (L * C))),
        an_q := 2 * pi * (1 / (2 * pi * sqrt (L * C))) * L / r, an_l := L, an_c := C\<rparr>))"
proof -
  have peak: "sqrt (f2 * f1) = 1 / (2 * pi * sqrt (L * C))" if "0 < R" "lc_reactance L C f1 = - R" "lc_reactance L C f2 = R" for R
  proof -
    have LC: "L * C = 1 / (2 * pi * 2 * pi * (f2 * f1))"
      by (rule band_edges(3) [OF assms(1,2,5,6) that])
    have "sqrt (2 * pi * 2 * pi * (f2 * f1)) = 2 * pi * sqrt (f2 * f1)" by (simp add: real_sqrt_mult)
    then have "sqrt (L * C) = 1 / (2 * pi * sqrt (f2 * f1))" by (simp only: LC real_sqrt_divide) simp
    then show ?thesis using assms(5,6) by simp
  qed
  have sq: "sqrt (f2 * f1) * sqrt (f2 * f1) = f2 * f1" "0 < sqrt (f2 * f1)" using assms(5,6) by simp_all
  have pos: "0 < 2 * mr + r" using assms(3,4) by simp
  have dd: "2 * pi * sqrt (f2 * f1) * sqrt (f2 * f1) * R = 2 * pi * (f2 * f1) * R" for R
  proof -
    have "2 * pi * sqrt (f2 * f1) * sqrt (f2 * f1) * R = 2 * pi * (sqrt (f2 * f1) * sqrt (f2 * f1)) * R" by (simp only: mult.assoc)
    then show ?thesis by (simp only: sq(1))
  qed
  show ?thesis
  proof (intro conjI impI)
    assume h: "lc_reactance L C f1 = - (2 * mr + r) \<and> lc_reactance L C f2 = 2 * mr + r"
    note e = band_edges [OF assms(1,2,5,6) pos conjunct1 [OF h] conjunct2 [OF h]]
    have "2 * pi * sqrt (f2 * f1) * sqrt (f2 * f1) * (2 * mr + r) = 2 * pi * (f2 * f1) * (2 * mr + r)" by (rule dd)
    then show "series_values mr r f1 f2 a = Some (a\<lparr>an_freq := to_freq (1 / (2 * pi * sqrt (L * C))), an_l := L, an_c := C,
        an_q := 2 * pi * (1 / (2 * pi * sqrt (L * C))) * L / r\<rparr>)"
      using e(1,2) sq(2) pos assms(1,2,3,5,6) peak [OF pos conjunct1 [OF h] conjunct2 [OF h]] by (simp add: series_values_def Let_def)
  next
    assume h: "lc_reactance L C f1 = - r \<and> lc_reactance L C f2 = r"
    note e = band_edges [OF assms(1,2,5,6,3) conjunct1 [OF h] conjunct2 [OF h]]
    have d: "2 * pi * sqrt (f2 * f1) * sqrt (f2 * f1) * r = 2 * pi * (f2 * f1) * r" by (rule dd)
    have q: "sqrt (f2 * f1) / (f2 - f1) = 2 * pi * sqrt (f2 * f1) * L / r"
      by (subst e(1) [symmetric]) (use assms(3,6) in simp)
    show "shunt_values r f1 f2 a = Some (a\<lparr>an_freq := to_freq (1 / (2 * pi * sqrt (L * C))),
        an_q := 2 * pi * (1 / (2 * pi * sqrt (L * C))) * L / r, an_l := L, an_c := C\<rparr>)"
      using e(1,2) d q sq(2) assms(1,2,3,5,6) peak [OF assms(3) conjunct1 [OF h] conjunct2 [OF h]] by (simp add: shunt_values_def Let_def)
  qed
qed


text \<open>A circuit between lines of 1 ohm with band edges at 1 and 4 Hz.\<close>

definition analysis0 :: s21_analysis where
  "analysis0 = \<lparr>an_header = [], an_freq = 0, an_freq1 = 0, an_df = 0, an_l = 0, an_c = 0, an_c1 = 0, an_r = 0, an_q = 0\<rparr>"

theorem lc_analysis_exact_witness:
  "lc_reactance (1 / (2 * pi)) (1 / (2 * pi * 4)) 1 = - 3 \<and> lc_reactance (1 / (2 * pi)) (1 / (2 * pi * 4)) 4 = 3 \<and>
   map_option an_l (series_values 1 1 1 4 analysis0) = Some (1 / (2 * pi)) \<and>
   map_option an_c (series_values 1 1 1 4 analysis0) = Some (1 / (2 * pi * 4))"
proof -
  have "lc_reactance (1 / (2 * pi)) (1 / (2 * pi * 4)) 1 = - 3" "lc_reactance (1 / (2 * pi)) (1 / (2 * pi * 4)) 4 = 3"
    by (simp_all add: lc_reactance_def)
  then show ?thesis
    using lc_analysis_exact [of "1 / (2 * pi)" "1 / (2 * pi * 4)" 1 1 1 4 analysis0] by simp
qed

end
