(* ===== verification/Tune.thy ===== *)
theory Tune
  imports Workref
begin

text \<open>
  The TUNE panel: the antenna length arithmetic of \<^verbatim>\<open>vna_modules/vna_workflow_math.c\<close>, the sweep chosen
  for a target frequency and the panel values computed by \<^verbatim>\<open>prepare_tune\<close> of \<^verbatim>\<open>measure.c\<close>.  Lengths and
  frequencies of the arithmetic are real numbers, the sweep limits are 32-bit words.
\<close>

datatype tune_ant = TUNE_ANT_UNKNOWN | TUNE_ANT_DIPOLE | TUNE_ANT_VERTICAL | TUNE_ANT_EFHW

definition FT_TO_M :: real where "FT_TO_M = 3048 / 10000"

definition tune_assumed_len_m :: "tune_ant \<Rightarrow> real \<Rightarrow> real" where
  "tune_assumed_len_m type f_hz =
     (let f_mhz = f_hz * (1 / 10 ^ 6) in
      if f_mhz \<le> 0 then 0
      else case type of
          TUNE_ANT_DIPOLE \<Rightarrow> 468 / f_mhz * FT_TO_M
        | TUNE_ANT_EFHW \<Rightarrow> 468 / f_mhz * FT_TO_M
        | TUNE_ANT_VERTICAL \<Rightarrow> 234 / f_mhz * FT_TO_M
        | TUNE_ANT_UNKNOWN \<Rightarrow> 0)"

definition tune_per_leg :: "tune_ant \<Rightarrow> bool" where "tune_per_leg type \<longleftrightarrow> type = TUNE_ANT_DIPOLE"

definition tune_delta_len_m :: "tune_ant \<Rightarrow> real \<Rightarrow> real \<Rightarrow> real" where
  "tune_delta_len_m type f0_hz target_hz =
     (let L = tune_assumed_len_m type target_hz in
      if L = 0 \<or> f0_hz \<le> 0 then 0 else L * (f0_hz - target_hz) / f0_hz)"

definition tune_sensitivity_hz_per_m :: "real \<Rightarrow> real \<Rightarrow> real \<Rightarrow> real" where
  "tune_sensitivity_hz_per_m f0_before f0_after change_m =
     (if change_m = 0 then 0 else (f0_after - f0_before) / change_m)"

definition tune_fullsize_hz_per_m :: "real \<Rightarrow> real" where
  "tune_fullsize_hz_per_m f_hz = (let f_mhz = f_hz * (1 / 10 ^ 6) in f_mhz * f_mhz * 14020)"

definition tune_need_m :: "real \<Rightarrow> real \<Rightarrow> real" where "tune_need_m df k = - df / k"

definition tune_target_in_cal :: "u32 \<Rightarrow> u32 \<Rightarrow> u32 \<Rightarrow> bool" where
  "tune_target_in_cal target cal0 cal1 \<longleftrightarrow> cal1 > cal0 \<and> target \<ge> cal0 \<and> target \<le> cal1"

definition tune_span_for_target :: "u32 \<Rightarrow> u32 \<Rightarrow> u32 \<Rightarrow> u32 \<Rightarrow> u32 \<Rightarrow> (u32 \<times> u32) option \<times> bool" where
  "tune_span_for_target target cal0 cal1 cur0 cur1 =
     (if target = 0 then (None, False)
      else
        let s = target - target div 10; e = target + target div 20;
            in_cal = tune_target_in_cal target cal0 cal1;
            s = (if in_cal \<and> s < cal0 then cal0 else s);
            e = (if in_cal \<and> e > cal1 then cal1 else e) in
        (Some (s, e), target < cur0 \<or> target > cur1 \<or> cur1 - cur0 > e - s))"

definition TUNE_CALIBRATED :: "vna \<Rightarrow> bool" where
  "TUNE_CALIBRATED s \<longleftrightarrow> has (cal_status (props s)) (CALSTAT_ES OR CALSTAT_ER OR CALSTAT_ET OR CALSTAT_LOAD OR CALSTAT_ISOLN OR
     CALSTAT_OPEN OR CALSTAT_SHORT OR CALSTAT_THRU)"

definition tune_apply_target_span :: "u32 \<Rightarrow> vna \<Rightarrow> vna option" where
  "tune_apply_target_span tune_target_hz st =
     (let cal = TUNE_CALIBRATED st; p = props st in
      case tune_span_for_target tune_target_hz (if cal then cal_frequency0 p else 0) (if cal then cal_frequency1 p else 0)
          (frequency0 p) (frequency1 p) of
        (Some (s, e), True) \<Rightarrow>
          (case set_sweep_frequency ST_STOP e st of None \<Rightarrow> None | Some st \<Rightarrow> set_sweep_frequency ST_START s st)
      | _ \<Rightarrow> Some st)"

definition MEASURE_UPD_SWEEP :: u8 where "MEASURE_UPD_SWEEP = 1"
definition MEASURE_UPD_ALL :: u8 where "MEASURE_UPD_ALL = 3"

record tune_measure =
  f_swrmin :: real
  f_x0 :: "real option"
  tm_r :: real
  tm_swr :: real
  swr_at_target :: real
  bw2 :: real
  ref_f0 :: real
  tm_ref :: wref_state_t
  bw_ok :: bool
  has_dip :: bool
  have_swr_at_target :: bool
  target_in_cal :: bool

definition s11_resonance_value :: "vna \<Rightarrow> nat \<Rightarrow> real" where "s11_resonance_value s i = snd (measured s ! 0 ! i)"
definition s11_bw_swr :: "vna \<Rightarrow> nat \<Rightarrow> real" where "s11_bw_swr s i = swr (measured s ! 0 ! i)"
definition s11_bw_freq :: "vna \<Rightarrow> nat \<Rightarrow> real" where "s11_bw_freq s i = real (unat (getFrequency i s))"
definition s11_bw_r :: "vna \<Rightarrow> nat \<Rightarrow> real" where "s11_bw_r s i = resistance s (measured s ! 0 ! i)"
definition wref_swr_value :: "work \<Rightarrow> nat \<Rightarrow> real" where "wref_swr_value w i = swr (wref_s11 w ! i)"
definition wref_r_value :: "vna \<Rightarrow> work \<Rightarrow> nat \<Rightarrow> real" where "wref_r_value s w i = resistance s (wref_s11 w ! i)"

text \<open>Nothing is recomputed unless one of the two update flags is set.  \<open>None\<close> is the division by zero of
  the interpolation at the target.\<close>

definition prepare_tune :: "u32 \<Rightarrow> u8 \<Rightarrow> vna \<Rightarrow> work \<Rightarrow> tune_measure \<Rightarrow> tune_measure option" where
  "prepare_tune tune_target_hz update_mask s w tune =
     (if \<not> has update_mask MEASURE_UPD_ALL then Some tune
      else
        let n = sweep_points (props s);
            bw = swr_bw_analyse (s11_bw_swr s) (s11_bw_freq s) (s11_bw_r s) n (-1) (PORT_Z s);
            tr = (if bw_idx bw < n then resistance s (measured s ! 0 ! bw_idx bw) else 0);
            tbw2 = (if bw_f_lo bw ! 0 \<noteq> 0 \<and> bw_f_hi bw ! 0 \<noteq> 0 then bw_f_hi bw ! 0 - bw_f_lo bw ! 0 else 0);
            dip = bw_idx bw > 0 \<and> bw_idx bw + 1 < n \<and> bw_swr0 bw < 5;
            step = (if n > 1 then real (unat (getFrequency (n - 1) s - getFrequency 0 s)) / real (n - 1) else 0);
            ok = step > 0 \<and> tbw2 \<ge> 5 * step;
            (x0, _, _) = measure_search_value 0 0 (s11_resonance_value s) False MARKER_INVALID s;
            incal = \<not> TUNE_CALIBRATED s \<or> tune_target_in_cal tune_target_hz (cal_frequency0 (props s)) (cal_frequency1 (props s));
            ref = wref_state_s11 s w;
            rf0 = (if ref = WREF_OK
                   then bw_f0 (swr_bw_analyse (wref_swr_value w) (s11_bw_freq s) (wref_r_value s w) n (-1) (PORT_Z s)) else 0) in
        map_option (\<lambda>d.
          \<lparr>f_swrmin = bw_f0 bw, f_x0 = x0, tm_r = tr, tm_swr = bw_swr0 bw,
           swr_at_target = (case d of None \<Rightarrow> 0 | Some v \<Rightarrow> swr v), bw2 = tbw2, ref_f0 = rf0, tm_ref = ref, bw_ok = ok,
           has_dip = dip, have_swr_at_target = (d \<noteq> None), target_in_cal = incal\<rparr>)
         (if tune_target_hz = 0 then Some None else measure_get_value 0 tune_target_hz s))"

subsection \<open>Lengths\<close>

lemma assumed_scale: "0 < f \<Longrightarrow> tune_assumed_len_m type f * f = tune_assumed_len_m type 1"
  by (cases type) (simp_all add: tune_assumed_len_m_def Let_def)

text \<open>The two length corrections are exact for their models.  An element whose length follows the
  length rule at its own resonance reaches the length of the target after the assumed correction; an
  element whose resonance moves linearly with its length, with the sensitivity measured from a typed
  change, is on the target after the measured correction.\<close>
theorem tune_lengths_exact:
  assumes "type \<noteq> TUNE_ANT_UNKNOWN" "0 < f0" "0 < target"
    and "k \<noteq> 0" "change \<noteq> 0" "f_after = f_before + k * change"
  shows "tune_assumed_len_m type f0 + tune_delta_len_m type f0 target = tune_assumed_len_m type target \<and>
    tune_sensitivity_hz_per_m f_before f_after change = k \<and> f_after + k * tune_need_m (f_after - target) k = target"
proof -
  let ?L = "tune_assumed_len_m type target"
  have L: "?L \<noteq> 0" using assms(1,3) by (cases type) (simp_all add: tune_assumed_len_m_def Let_def FT_TO_M_def)
  have "tune_assumed_len_m type f0 * f0 = ?L * target" using assumed_scale [OF assms(2)] assumed_scale [OF assms(3)] by simp
  then have "tune_assumed_len_m type f0 = ?L * target / f0" using assms(2) by (simp add: eq_divide_eq)
  moreover have "?L * target / f0 + ?L * (f0 - target) / f0 = ?L" using assms(2) by (simp add: right_diff_distrib diff_divide_distrib)
  ultimately have "tune_assumed_len_m type f0 + tune_delta_len_m type f0 target = ?L"
    using L assms(2) by (simp add: tune_delta_len_m_def Let_def)
  then show ?thesis using assms(4-6) by (simp add: tune_sensitivity_hz_per_m_def tune_need_m_def)
qed

theorem tune_lengths_exact_witness:
  "tune_assumed_len_m TUNE_ANT_DIPOLE 7000000 + tune_delta_len_m TUNE_ANT_DIPOLE 7000000 7100000 = tune_assumed_len_m TUNE_ANT_DIPOLE 7100000 \<and>
   tune_sensitivity_hz_per_m 7000000 7050000 (- 1 / 10) = - 500000 \<and> 7050000 + - 500000 * tune_need_m (7050000 - 7100000) (- 500000) = 7100000"
  by (rule tune_lengths_exact) simp_all

subsection \<open>Bracketing the target\<close>

lemma startstop_exact:
  assumes "sweep_consistent s" "type = ST_START \<or> type = ST_STOP" "FREQUENCY_MIN \<le> f" "f \<le> FREQUENCY_MAX"
  shows "\<exists>s'. set_sweep_frequency type f s = Some s' \<and> sweep_consistent s' \<and>
    frequency0 (props s') = (if type = ST_START then f else min (frequency0 (props s)) f) \<and>
    frequency1 (props s') = (if type = ST_STOP then f else max (frequency1 (props s)) f)"
proof -
  let ?s = "on_props (apply_sweep_frequency type f) s"
  have p: "stimulus_ok (props s)" "2 \<le> sweep_points (props s)" "sweep_points (props s) \<le> SWEEP_POINTS_MAX"
    using assms(1) by (simp_all add: sweep_consistent_def Let_def)
  have c: "clip_request type f (props s) = (type, f)"
    using assms(2-4) by (auto simp: clip_request_def step_to_range_def)
  have ok: "stimulus_ok (props ?s)" using apply_request_ok [OF p(1) _ p(2,3) c] assms(2) by auto
  have pts: "sweep_points (props ?s) = sweep_points (props s)"
    using assms(2) by (auto simp: Let_def freq_startstop_def)
  have f01: "frequency0 (props ?s) = (if type = ST_START then f else min (frequency0 (props s)) f)"
    "frequency1 (props ?s) = (if type = ST_STOP then f else max (frequency1 (props s)) f)"
    using assms(2) by (auto simp: Let_def freq_startstop_def min_def max_def not_less)
  obtain s1 where s1: "update_frequencies ?s = Some s1" "sweep_consistent s1" "frequency0 (props s1) = frequency0 (props ?s)"
    "frequency1 (props s1) = frequency1 (props ?s)"
    using update_frequencies_consistent [OF ok] pts p(2,3) by auto
  have "sweep_consistent (x\<lparr>sweep_mode := m\<rparr>) = sweep_consistent x" for x m
    by (simp add: sweep_consistent_def getFrequency_def)
  moreover have "type \<noteq> ST_VAR" using assms(2) by auto
  ultimately show ?thesis using s1 f01 by (simp add: set_sweep_frequency_clip c resume_sweep_def)
qed


definition clip_freq :: "u32 \<Rightarrow> u32" where "clip_freq f = max FREQUENCY_MIN (min f FREQUENCY_MAX)"

lemma clip_freq_range: "FREQUENCY_MIN \<le> clip_freq f" "clip_freq f \<le> FREQUENCY_MAX"
  using min_le_max by (auto simp: clip_freq_def)

lemma clip_chain:
  fixes lo hi f :: "'a::linorder"
  assumes "lo \<le> hi"
  shows "(if (if f < lo then lo else f) > hi then hi else if f < lo then lo else f) = max lo (min f hi)"
  using assms by (auto simp: max_def min_def)

lemma clip_startstop:
  assumes "type = ST_START \<or> type = ST_STOP"
  shows "clip_request type f p = (type, clip_freq f)"
proof -
  have "clip_request type f p = (type, if (if f < FREQUENCY_MIN then FREQUENCY_MIN else f) > FREQUENCY_MAX then FREQUENCY_MAX
      else if f < FREQUENCY_MIN then FREQUENCY_MIN else f)"
    using assms by (elim disjE) (simp_all add: clip_request_def step_to_range_def)
  also have "(if (if f < FREQUENCY_MIN then FREQUENCY_MIN else f) > FREQUENCY_MAX then FREQUENCY_MAX
      else if f < FREQUENCY_MIN then FREQUENCY_MIN else f) = clip_freq f"
    unfolding clip_freq_def by (rule clip_chain [OF min_le_max])
  finally show ?thesis .
qed

lemma clip_freq_id: "FREQUENCY_MIN \<le> t \<Longrightarrow> t \<le> FREQUENCY_MAX \<Longrightarrow> clip_freq t = t"
  by (simp add: clip_freq_def max_def min_def)

lemma set_clipped:
  "type = ST_START \<or> type = ST_STOP \<Longrightarrow> set_sweep_frequency type f s = set_sweep_frequency type (clip_freq f) s"
  by (simp only: set_sweep_frequency_clip clip_startstop clip_freq_id [OF clip_freq_range])

lemma clip_freq_mono: "a \<le> b \<Longrightarrow> clip_freq a \<le> clip_freq b"
  by (auto simp: clip_freq_def max_def min_def)

lemma target_range:
  assumes "FREQUENCY_MIN \<le> t" "t \<le> FREQUENCY_MAX" "tune_span_for_target t c0 c1 cur0 cur1 = (Some (s, e), b)"
  shows "s \<le> t" "t \<le> e" "uint e - uint s \<le> uint t div 10 + uint t div 20"
    "b = (t < cur0 \<or> t > cur1 \<or> cur1 - cur0 > e - s)"
proof -
  let ?s = "t - t div 10" and ?e = "t + t div 20"
  have t: "t \<noteq> 0" using assms(1) by (auto simp: FREQUENCY_MIN_def word_le_def)
  have ut: "0 \<le> uint t" "uint t \<le> 2700000000" using assms(2) by (simp_all add: word_le_def uint_freq_consts)
  have "uint t div 10 \<le> uint t" using ut(1) by presburger
  then have "t div 10 \<le> t" by (simp add: word_le_def uint_div_word)
  then have us: "uint ?s = uint t - uint t div 10" by (simp add: uint_sub_small uint_div_word)
  have ue: "uint ?e = uint t + uint t div 20" using ut by (subst uint_add_small) (simp_all add: uint_div_word)
  have d: "0 \<le> uint t div 10" "0 \<le> uint t div 20" by (simp_all add: pos_imp_zdiv_nonneg_iff)
  have r: "s = (if tune_target_in_cal t c0 c1 \<and> ?s < c0 then c0 else ?s)" "e = (if tune_target_in_cal t c0 c1 \<and> ?e > c1 then c1 else ?e)"
    "b = (t < cur0 \<or> t > cur1 \<or> cur1 - cur0 > e - s)"
    using assms(3) t by (auto simp: tune_span_for_target_def Let_def)
  show "b = (t < cur0 \<or> t > cur1 \<or> cur1 - cur0 > e - s)" by (rule r)
  have S: "?s \<le> s" "s \<le> t" using r(1) us d(1) by (auto simp: word_le_def tune_target_in_cal_def word_less_def)
  have E: "e \<le> ?e" "t \<le> e" using r(2) ue d(2) by (auto simp: word_le_def tune_target_in_cal_def word_less_def)
  show "s \<le> t" "t \<le> e" by (rule S, rule E)
  show "uint e - uint s \<le> uint t div 10 + uint t div 20" using S(1) E(1) us ue by (simp add: word_le_def)
qed

text \<open>C21: Entering a target always ends with a sweep around it: whatever the sweep and the calibration were,
  the routine returns, the stimulus is consistent, the target lies between start and stop, and the
  sweep is at most fifteen percent of the target wide.\<close>
theorem tune_target_bracketed:
  assumes "sweep_consistent st" "FREQUENCY_MIN \<le> t" "t \<le> FREQUENCY_MAX"
  shows "\<exists>st'. tune_apply_target_span t st = Some st' \<and> sweep_consistent st' \<and>
    frequency0 (props st') \<le> t \<and> t \<le> frequency1 (props st') \<and>
    uint (frequency1 (props st')) - uint (frequency0 (props st')) \<le> uint t div 10 + uint t div 20"
proof -
  define c0 c1 where "c0 = (if TUNE_CALIBRATED st then cal_frequency0 (props st) else 0)"
    and "c1 = (if TUNE_CALIBRATED st then cal_frequency1 (props st) else 0)"
  let ?f0 = "frequency0 (props st)" and ?f1 = "frequency1 (props st)"
  have t0: "t \<noteq> 0" using assms(2) by (auto simp: FREQUENCY_MIN_def word_le_def)
  obtain s e b where tr: "tune_span_for_target t c0 c1 ?f0 ?f1 = (Some (s, e), b)"
    using t0 by (auto simp: tune_span_for_target_def Let_def)
  note r = target_range [OF assms(2,3) tr]
  note def = tune_apply_target_span_def [of t st, unfolded Let_def, folded c0_def c1_def, unfolded tr]
  show ?thesis
  proof (cases b)
    case False
    have le: "?f0 \<le> ?f1" using assms(1) by (simp add: sweep_consistent_def stimulus_ok_def Let_def)
    have "s \<le> e" using r(1,2) by (rule order_trans)
    moreover have "?f1 - ?f0 \<le> e - s" using False r(4) by (simp add: not_less)
    ultimately have "uint ?f1 - uint ?f0 \<le> uint e - uint s"
      using uint_sub_small [OF le] uint_sub_small [of s e] by (simp add: word_le_def [of "?f1 - ?f0"])
    moreover have "tune_apply_target_span t st = Some st" using False def by simp
    moreover have "?f0 \<le> t \<and> t \<le> ?f1" using False r(4) by (simp add: not_less)
    ultimately show ?thesis using r(3) assms(1) by (intro exI [of _ st]) auto
  next
    case True
    obtain s1 where s1: "set_sweep_frequency ST_STOP (clip_freq e) st = Some s1" "sweep_consistent s1" "frequency1 (props s1) = clip_freq e"
      using startstop_exact [OF assms(1), of ST_STOP "clip_freq e"] clip_freq_range by auto
    obtain s2 where s2: "set_sweep_frequency ST_START (clip_freq s) s1 = Some s2" "sweep_consistent s2"
      "frequency0 (props s2) = clip_freq s" "frequency1 (props s2) = max (clip_freq e) (clip_freq s)"
      using startstop_exact [OF s1(2), of ST_START "clip_freq s"] clip_freq_range s1(3) by auto
    have tc: "clip_freq t = t" by (rule clip_freq_id [OF assms(2,3)])
    have o: "clip_freq s \<le> t" "t \<le> clip_freq e" using clip_freq_mono [OF r(1)] clip_freq_mono [OF r(2)] tc by simp_all
    have "s \<le> clip_freq s" using order_trans [OF r(1) assms(3)] by (auto simp: clip_freq_def max_def min_def)
    moreover have "clip_freq e \<le> e" using order_trans [OF assms(2) r(2)] by (auto simp: clip_freq_def max_def min_def)
    ultimately have "uint (clip_freq e) - uint (clip_freq s) \<le> uint e - uint s" by (simp add: word_le_def)
    moreover have "max (clip_freq e) (clip_freq s) = clip_freq e" using order_trans [OF o] by (simp add: max_absorb1)
    ultimately show ?thesis using True def s1 s2 o r(3) set_clipped [of ST_STOP e st] set_clipped [of ST_START s s1] by simp
  qed
qed

theorem tune_target_bracketed_witness:
  "\<exists>st st'. update_frequencies device0 = Some st \<and> tune_apply_target_span 7100000 st = Some st' \<and> sweep_consistent st' \<and>
    frequency0 (props st') \<le> 7100000 \<and> 7100000 \<le> frequency1 (props st')"
proof -
  obtain st where st: "update_frequencies device0 = Some st" "sweep_consistent st" using device0_updated by blast
  then show ?thesis using tune_target_bracketed [of st 7100000] by (auto simp: FREQUENCY_MIN_def FREQUENCY_MAX_def)
qed

end
