(* ===== verification/Resonance.thy ===== *)
theory Resonance
  imports Tune
begin

text \<open>
  The S11 resonance, cable and SWR bandwidth panels of \<^verbatim>\<open>measure.c\<close>.  Logarithms are the exact ones of
  real numbers.  A frequency that is not a finite number, and a division by zero
  of the interpolation, make the whole result \<open>None\<close>.
\<close>

subsection \<open>Resonances\<close>

record resonance =
  rs_f :: u32
  rs_r :: real
  rs_x :: real

record s11_resonance =
  rs_data :: "resonance list"
  rs_ref :: wref_state_t
  rs_ref_f0 :: "real option"

definition MEASURE_RESONANCE_COUNT :: nat where "MEASURE_RESONANCE_COUNT = 6"

definition s11_resonance_min :: "vna \<Rightarrow> nat \<Rightarrow> real" where "s11_resonance_min s i = \<bar>reactance s (measured s ! 0 ! i)\<bar>"
definition wref_x_value :: "work \<Rightarrow> nat \<Rightarrow> real" where "wref_x_value w i = snd (wref_s11 w ! i)"

definition wref_first_x0_freq :: "vna \<Rightarrow> work \<Rightarrow> real option" where
  "wref_first_x0_freq s w =
     (if wref_state_s11 s w \<noteq> WREF_OK then Some 0
      else fst (measure_search_value 0 0 (wref_x_value w) False MARKER_INVALID s))"

definition add_resonance_value :: "u32 \<Rightarrow> vna \<Rightarrow> resonance option option" where
  "add_resonance_value f s =
     map_option (map_option (\<lambda>d. \<lparr>rs_f = f, rs_r = resistance s d, rs_x = reactance s d\<rparr>)) (measure_get_value 0 f s)"

text \<open>A right search that finds a crossing reports an index at or after its start and before the last
  point, so that the resonance loop moves on.\<close>

lemma search_right_progress:
  assumes "measure_search_value x y get False mk s = (r, x', s')" "r \<noteq> Some 0"
  shows "x \<le> x' \<and> Suc x' < sweep_points (props s) \<and> (get x' > y) \<noteq> (get (Suc x') > y)"
proof -
  let ?n = "sweep_points (props s)"
  have xn: "x < ?n"
  proof (rule ccontr)
    assume "\<not> x < ?n"
    then have "search_loop get y ?n False (get x > y) x (get x) (get x) = None" by (subst search_loop.simps) simp
    then show False using assms by (simp add: measure_search_value_def)
  qed
  obtain k where k: "first_cross get y ?n False x k"
    using assms search_loop_start(1) [OF xn, of get y False] by (auto simp: measure_search_value_def)
  have "0 < k" using k by (auto simp: first_cross_def walk_def intro: gr0I)
  moreover have "k \<le> ?n - 1 - x" using k by (simp add: first_cross_def room_def)
  moreover have x': "x' = x + k - 1"
    using assms(1) search_loop_start(2) [OF xn k] by (simp add: measure_search_value_def walk_def Let_def)
  moreover have xk: "x' = x + (k - 1)" "Suc x' = x + k" using x' \<open>0 < k\<close> by simp_all
  moreover have "(get x' > y) = (get x > y)"
    unfolding xk(1) using k \<open>0 < k\<close> by (auto simp: first_cross_def walk_def simp del: add_diff_assoc)
  moreover have "(get (Suc x') > y) \<noteq> (get x > y)" unfolding xk(2) using k by (simp add: first_cross_def walk_def)
  ultimately show ?thesis using xn by auto
qed

text \<open>The result of the search is stored in an unsigned frequency: anything below 1 Hz reads as 0, not found.\<close>

function resonance_loop :: "nat \<Rightarrow> vna \<Rightarrow> resonance list \<Rightarrow> resonance list option" where
  "resonance_loop x s data =
     (if length data < MEASURE_RESONANCE_COUNT \<and> length data < MARKERS_MAX then
        case measure_search_value x 0 (s11_resonance_value s) False MARKER_INVALID s of
          (None, _, _) \<Rightarrow> None
        | (Some f, x', _) \<Rightarrow>
            if f < 1 then Some data
            else case add_resonance_value (word_of_int \<lfloor>f\<rfloor>) s of
                None \<Rightarrow> None
              | Some None \<Rightarrow> resonance_loop (x' + 1) s data
              | Some (Some d) \<Rightarrow> resonance_loop (x' + 1) s (data @ [d])
      else Some data)"
  by pat_completeness auto
termination
proof (relation "measure (\<lambda>(x, s, data). sweep_points (props s) - x)", goal_cases)
  case 1
  show ?case by simp
next
  case h: (2 x s data r p v xb st)
  then show ?case using search_right_progress [of x 0 "s11_resonance_value s" MARKER_INVALID s r xb st] by auto
next
  case h: (3 x s data r p v xb st)
  then show ?case using search_right_progress [of x 0 "s11_resonance_value s" MARKER_INVALID s r xb st] by auto
qed

declare resonance_loop.simps [simp del]

definition prepare_s11_resonance :: "u8 \<Rightarrow> vna \<Rightarrow> work \<Rightarrow> s11_resonance \<Rightarrow> s11_resonance option" where
  "prepare_s11_resonance update_mask s w panel =
     (if \<not> has update_mask MEASURE_UPD_SWEEP then Some panel
      else case resonance_loop 0 s [] of
          None \<Rightarrow> None
        | Some rows \<Rightarrow>
            (case (if rows = [] then
                     case search_peak_value 0 (s11_resonance_min s) False (sweep_points (props s)) of
                       None \<Rightarrow> None
                     | Some (_, x) \<Rightarrow>
                         if x = 0 then Some []
                         else map_option (\<lambda>r. case r of None \<Rightarrow> [] | Some d \<Rightarrow> [d]) (add_resonance_value (getFrequency x s) s)
                   else Some rows) of
               None \<Rightarrow> None
             | Some rows \<Rightarrow> Some \<lparr>rs_data = rows, rs_ref = wref_state_s11 s w, rs_ref_f0 = wref_first_x0_freq s w\<rparr>))"

text \<open>A row at a zero of the reactance: the imaginary part of S11 changes sign between the sample and
  the next one, and the row holds the impedance interpolated at its frequency.\<close>

definition impedance_row :: "vna \<Rightarrow> resonance \<Rightarrow> bool" where
  "impedance_row s d \<longleftrightarrow> (case measure_get_value 0 (rs_f d) s of
     Some (Some v) \<Rightarrow> rs_r d = resistance s v \<and> rs_x d = reactance s v | _ \<Rightarrow> False)"

definition zero_row :: "vna \<Rightarrow> nat \<Rightarrow> resonance \<Rightarrow> bool" where
  "zero_row s k d \<longleftrightarrow> Suc k < sweep_points (props s) \<and>
     (s11_resonance_value s k > 0) \<noteq> (s11_resonance_value s (Suc k) > 0) \<and> impedance_row s d"

lemma add_resonance_row: "add_resonance_value f s = Some (Some d) \<Longrightarrow> impedance_row s d \<and> rs_f d = f"
  by (auto simp: add_resonance_value_def impedance_row_def)

lemma resonance_loop_rows:
  assumes "resonance_loop x s data = Some rows"
  shows "\<exists>ks new. rows = data @ new \<and> sorted_wrt (<) ks \<and> (\<forall>k\<in>set ks. x \<le> k) \<and> list_all2 (zero_row s) ks new \<and>
    (length rows \<le> max (length data) MEASURE_RESONANCE_COUNT)"
  using assms
proof (induction x s data rule: resonance_loop.induct)
  case (1 x s data)
  show ?case
  proof (cases "length data < MEASURE_RESONANCE_COUNT \<and> length data < MARKERS_MAX")
    case False
    then show ?thesis using "1.prems" by (subst (asm) resonance_loop.simps) auto
  next
    case room: True
    obtain r x' st where ms: "measure_search_value x 0 (s11_resonance_value s) False MARKER_INVALID s = (r, x', st)"
      by (metis prod_cases3)
    note eq = "1.prems" [unfolded resonance_loop.simps [of x s data] if_P [OF room] ms prod.case]
    obtain f where f: "r = Some f" using eq by (cases r) auto
    show ?thesis
    proof (cases "f < 1")
      case True
      then show ?thesis using eq f by auto
    next
      case big: False
      have pr: "x \<le> x'" "Suc x' < sweep_points (props s)"
        "(s11_resonance_value s x' > 0) \<noteq> (s11_resonance_value s (Suc x') > 0)"
        using search_right_progress [OF ms] f big by auto
      obtain a where a: "add_resonance_value (word_of_int \<lfloor>f\<rfloor>) s = Some a" using eq f big by (auto split: option.splits)
      show ?thesis
      proof (cases a)
        case None
        then have "resonance_loop (x' + 1) s data = Some rows" using eq f big a by simp
        from "1.IH"(1) [OF room ms [symmetric] f refl big a None this] obtain ks new where
          "rows = data @ new" "sorted_wrt (<) ks" "\<forall>k\<in>set ks. x' + 1 \<le> k" "list_all2 (zero_row s) ks new"
          "length rows \<le> max (length data) MEASURE_RESONANCE_COUNT" by blast
        then show ?thesis using pr(1) by (intro exI [of _ ks] exI [of _ new]) fastforce
      next
        case (Some d)
        then have "resonance_loop (x' + 1) s (data @ [d]) = Some rows" using eq f big a by simp
        from "1.IH"(2) [OF room ms [symmetric] f refl big a Some this] obtain ks new where
          "rows = (data @ [d]) @ new" "sorted_wrt (<) ks" "\<forall>k\<in>set ks. x' + 1 \<le> k" "list_all2 (zero_row s) ks new"
          "length rows \<le> max (length (data @ [d])) MEASURE_RESONANCE_COUNT" by blast
        moreover have "zero_row s x' d" using pr add_resonance_row a Some by (auto simp: zero_row_def)
        ultimately show ?thesis using pr(1) room by (intro exI [of _ "x' # ks"] exI [of _ "d # new"]) fastforce
      qed
    qed
  qed
qed



text \<open>Three points at 1000, 1100 and 1200 Hz whose imaginary parts lie on a parabola with a zero at 1150 Hz.\<close>

definition res_device :: vna where
  "res_device = on_props (\<lambda>p. p\<lparr>sweep_points := 3, frequency0 := 1000, frequency1 := 1200\<rparr>)
     (device0\<lparr>f_start := 1000, f_delta := 100, f_points := 2, f_error := 0, measured := [[(0, 3 / 2), (0, 1), (0, - 3 / 2)], []]\<rparr>)"

lemma res_device_simps:
  "sweep_points (props res_device) = 3" "frequency0 (props res_device) = 1000" "frequency1 (props res_device) = 1200"
  "measured res_device = [[(0, 3 / 2), (0, 1), (0, - 3 / 2)], []]"
  "getFrequency (Suc 0) res_device = 1100" "getFrequencyStep res_device = 100"
  by (simp_all add: res_device_def getFrequency_def getFrequencyStep_def)

lemma res_search:
  "measure_search_value 0 0 (s11_resonance_value res_device) False MARKER_INVALID res_device =
     (Some 1150, 1, set_marker_index MARKER_INVALID 1 res_device)"
  "measure_search_value 2 0 (s11_resonance_value res_device) False MARKER_INVALID res_device = (Some 0, 2, res_device)"
proof -
  have sq: "sqrt (25 / 4) = 5 / 2" by (simp add: real_sqrt_divide)
  have v: "s11_resonance_value res_device 0 = 3 / 2" "s11_resonance_value res_device (Suc 0) = 1"
    "s11_resonance_value res_device (Suc (Suc 0)) = - 3 / 2"
    by (simp_all add: s11_resonance_value_def res_device_simps)
  have "search_loop (s11_resonance_value res_device) 0 3 False True 0 (3 / 2) (3 / 2) = Some (2, 3 / 2, 1, - 3 / 2)"
    by (simp add: search_loop.simps v Let_def)
  moreover have "search_root 0 (3 / 2) 1 (- 3 / 2) = Some (1 / 2)"
    using sq by (simp add: search_root_def match_quadratic_equation_def Let_def)
  ultimately show "measure_search_value 0 0 (s11_resonance_value res_device) False MARKER_INVALID res_device =
     (Some 1150, 1, set_marker_index MARKER_INVALID 1 res_device)"
    by (simp add: measure_search_value_def v res_device_simps Let_def)
  show "measure_search_value 2 0 (s11_resonance_value res_device) False MARKER_INVALID res_device = (Some 0, 2, res_device)"
    by (simp add: measure_search_value_def search_loop.simps res_device_simps numeral_2_eq_2 v Let_def)
qed

lemma res_loop: "\<exists>d. resonance_loop 0 res_device [] = Some [d] \<and> rs_f d = 1150"
proof -
  obtain v where "measure_get_value 0 1150 res_device = Some (Some v)"
    by (simp add: measure_get_value_def res_device_simps Let_def)
  then obtain d where d: "add_resonance_value 1150 res_device = Some (Some d)" by (simp add: add_resonance_value_def)
  have "resonance_loop 2 res_device [d] = Some [d]"
    by (subst resonance_loop.simps) (simp add: res_search)
  then have "resonance_loop 0 res_device [] = Some [d]"
    by (subst resonance_loop.simps) (simp add: res_search d numeral_2_eq_2 MEASURE_RESONANCE_COUNT_def MARKERS_MAX_def)
  then show ?thesis using add_resonance_row [OF d] by blast
qed


end
