(* ===== verification/SoftFloat.thy ===== *)
theory SoftFloat
  imports Prelude "HOL-Library.Word" Complex_Main
begin

unbundle bit_operations_syntax

text \<open>
  The bit-level functions of \<^verbatim>\<open>vna_math.c\<close> on single precision numbers: the square root used without a
  floating point unit, the split into integer and fraction, the absolute value and the test for
  infinity.  A number is its 32-bit word; signed 32-bit integers are written out with their wrap-around.
\<close>

subsection \<open>Numbers\<close>

definition f_exp :: "u32 \<Rightarrow> int" where "f_exp x = uint (drop_bit 23 x AND 255)"
definition f_frac :: "u32 \<Rightarrow> int" where "f_frac x = uint (x AND 0x7FFFFF)"
definition f_neg :: "u32 \<Rightarrow> bool" where "f_neg x = bit x 31"

text \<open>The value of a finite number, normal or subnormal.\<close>

definition fval :: "u32 \<Rightarrow> real" where
  "fval x = (if f_neg x then - 1 else 1) *
     (if f_exp x = 0 then of_int (f_frac x) * 2 powi (- 149) else of_int (2 ^ 23 + f_frac x) * 2 powi (f_exp x - 150))"

definition i32 :: "int \<Rightarrow> int" where "i32 x = (x + 2 ^ 31) mod 2 ^ 32 - 2 ^ 31"

lemma i32_id: "- (2 ^ 31) \<le> x \<Longrightarrow> x < 2 ^ 31 \<Longrightarrow> i32 x = x"
  by (simp add: i32_def)

subsection \<open>Operations\<close>

definition vna_fabsf :: "u32 \<Rightarrow> u32" where "vna_fabsf x = x AND 0x7FFFFFFF"

definition vna_isinff :: "u32 \<Rightarrow> bool" where "vna_isinff x \<longleftrightarrow> x AND 0x7FFFFFFF = 0x7F800000"

text \<open>The fraction is an exact subtraction of two numbers, so it is returned as a real number.\<close>

definition vna_modff :: "u32 \<Rightarrow> real \<times> u32" where
  "vna_modff x =
     (let e = uint (drop_bit 23 x AND 0xFF) - 0x7F in
      if e < 0 then (fval x, 0)
      else if e \<ge> 23 then (0, x)
      else let u = x AND NOT (drop_bit (nat e) 0x7FFFFF) in (fval x - fval u, u))"

function sqrt_loop :: "nat \<Rightarrow> int \<Rightarrow> int \<Rightarrow> int \<Rightarrow> int \<times> int" where
  "sqrt_loop r q s ix =
     (if r = 0 then (q, ix)
      else
        let t = i32 (s + int r);
            (s, ix, q) = (if t \<le> ix then (i32 (t + int r), i32 (ix - t), i32 (q + int r)) else (s, ix, q)) in
        sqrt_loop (r div 2) q s (i32 (ix + ix)))"
  by pat_completeness auto
termination by (relation "measure fst") auto

declare sqrt_loop.simps [simp del]

text \<open>The two comparisons of the rounding step test how the constants 1 - 1e-30 and 1 + 1e-30 are rounded:
  both are 1 in single precision, so the result is rounded to the nearest number.\<close>

definition vna_sqrtf :: "u32 \<Rightarrow> u32" where
  "vna_sqrtf x =
     (let ix = sint x in
      if ix = 0 then 0
      else
        let m = ix div 2 ^ 23 - 127;
            ix = uint ((x AND 0x7FFFFF) OR 0x800000);
            ix = i32 (if odd m then ix * 4 else ix * 2);
            m = m div 2;
            (q, ix) = sqrt_loop 0x1000000 0 0 ix;
            q = (if ix \<noteq> 0 then i32 (q + q mod 2) else q);
            ix = i32 (q div 2 + 0x3F000000);
            ix = i32 (ix + i32 (m * 2 ^ 23)) in
        word_of_int ix)"

subsection \<open>Square root\<close>

text \<open>The digit loop computes the integer square root of N and twice the remainder, and no
  intermediate value leaves the range of a signed 32-bit integer.\<close>

lemma sqrt_loop_step:
  assumes inv: "N = q * q + ix * r" "0 \<le> q" "0 \<le> ix" "N < (q + 2 * r) * (q + 2 * r)" "q + 2 * r \<le> 33554432" and r: "r = int k" "0 < k"
  shows "sqrt_loop k q (2 * q) ix =
    (if 2 * q + r \<le> ix then sqrt_loop (k div 2) (q + r) (2 * (q + r)) (2 * (ix - (2 * q + r))) else sqrt_loop (k div 2) q (2 * q) (2 * ix))"
proof -
  have "ix * r < (4 * (q + r)) * r" using inv(1,4) by (simp add: algebra_simps)
  then have "ix < 4 * (q + r)" using r by (simp add: mult_less_cancel_right)
  moreover have "0 < r" using r by simp
  ultimately have "ix < 134217728" using inv(2,5) by simp
  then show ?thesis
    using inv(2,3,5) r by (subst sqrt_loop.simps) (simp add: i32_id Let_def add.commute)
qed

lemma sqrt_loop_spec:
  assumes "N = q * q + ix * 2 ^ k" "0 \<le> q" "0 \<le> ix" "N < (q + 2 * 2 ^ k) * (q + 2 * 2 ^ k)" "q + 2 * 2 ^ k \<le> 33554432"
  shows "\<exists>q'. sqrt_loop (2 ^ k) q (2 * q) ix = (q', 2 * (N - q' * q')) \<and> 0 \<le> q' \<and> q' * q' \<le> N \<and> N < (q' + 1) * (q' + 1)"
  using assms
proof (induction k arbitrary: q ix)
  case (0 q ix)
  have z: "sqrt_loop 0 q s ix = (q, ix)" for q s ix by (subst sqrt_loop.simps) simp
  show ?case
    using sqrt_loop_step [of N q ix 1 1] 0 z by (cases "2 * q + 1 \<le> ix") (auto simp: algebra_simps)
next
  case (Suc k q ix)
  define p :: int where "p = 2 ^ k"
  have p: "0 < p" by (simp add: p_def)
  note h = Suc.prems [unfolded power_Suc, folded p_def]
  have st: "sqrt_loop (2 ^ Suc k) q (2 * q) ix =
      (if 2 * q + 2 * p \<le> ix then sqrt_loop (2 ^ k) (q + 2 * p) (2 * (q + 2 * p)) (2 * (ix - (2 * q + 2 * p)))
       else sqrt_loop (2 ^ k) q (2 * q) (2 * ix))"
    using sqrt_loop_step [of N q ix "2 * p" "2 ^ Suc k"] h by (simp add: p_def)
  note IH = Suc.IH [folded p_def]
  show ?case
  proof (cases "2 * q + 2 * p \<le> ix")
    case True
    have 1: "N = (q + 2 * p) * (q + 2 * p) + 2 * (ix - (2 * q + 2 * p)) * p" using h(1) by (simp add: algebra_simps)
    have 2: "N < (q + 2 * p + 2 * p) * (q + 2 * p + 2 * p)" using h(4) by (simp add: algebra_simps)
    have 3: "0 \<le> q + 2 * p" "0 \<le> 2 * (ix - (2 * q + 2 * p))" "q + 2 * p + 2 * p \<le> 33554432" using h(2,5) p True by simp_all
    show ?thesis unfolding st if_P [OF True] by (rule IH [OF 1 3(1,2) 2 3(3)])
  next
    case False
    have "ix * (2 * p) < (2 * q + 2 * p) * (2 * p)" using False p by (intro mult_strict_right_mono) simp_all
    then have 2: "N < (q + 2 * p) * (q + 2 * p)" using h(1) by (simp add: algebra_simps)
    have 1: "N = q * q + 2 * ix * p" using h(1) by simp
    have 3: "0 \<le> 2 * ix" "q + 2 * p \<le> 33554432" using h(3,5) p by simp_all
    show ?thesis unfolding st if_not_P [OF False] by (rule IH [OF 1 h(2) 3(1) 2 3(2)])
  qed
qed

text \<open>The parts of a number and its word.\<close>

lemma f_frac_mod: "f_frac x = uint x mod 2 ^ 23"
proof -
  have "(0x7FFFFF :: u32) = mask 23" by (simp add: mask_eq_exp_minus_1)
  then have "x AND 0x7FFFFF = take_bit 23 x" by (simp only: take_bit_eq_mask)
  then show ?thesis by (simp add: f_frac_def uint_mod take_bit_eq_mod)
qed

lemma f_exp_mod: "f_exp x = uint x div 2 ^ 23 mod 256"
proof -
  have "(255 :: u32) = mask 8" by (simp add: mask_eq_exp_minus_1)
  then have "drop_bit 23 x AND 255 = take_bit 8 (drop_bit 23 x)" by (simp only: take_bit_eq_mask)
  then show ?thesis by (simp add: f_exp_def uint_mod uint_div take_bit_eq_mod drop_bit_eq_div)
qed

lemma top_bit: "uint (x :: u32) div 2 ^ 31 = (if f_neg x then 1 else 0)"
proof -
  have "0 \<le> uint x" "uint x < 4294967296" using uint_bounded [of x] by simp_all
  then have "uint x div 2 ^ 31 = 0 \<or> uint x div 2 ^ 31 = 1" by auto
  moreover have "f_neg x \<longleftrightarrow> bit (uint x) 31" by (simp add: f_neg_def bit_uint_iff)
  ultimately show ?thesis by (auto simp: bit_iff_odd)
qed

lemma parts_range: "0 \<le> f_exp x" "f_exp x < 256" "0 \<le> f_frac x" "f_frac x < 2 ^ 23"
  by (simp_all add: f_exp_mod f_frac_mod)

lemma uint_parts: "uint x = (if f_neg x then 2 ^ 31 else 0) + f_exp x * 2 ^ 23 + f_frac x"
proof -
  let ?d = "uint x div 2 ^ 23"
  have "?d div 256 = uint x div 2 ^ 31" using zdiv_zmult2_eq [of 256 "uint x" "2 ^ 23"] by simp
  then have "?d = (if f_neg x then 1 else 0) * 256 + f_exp x"
    using div_mult_mod_eq [of ?d 256] by (simp only: top_bit f_exp_mod)
  moreover have "uint x = ?d * 2 ^ 23 + f_frac x" unfolding f_frac_mod by simp
  ultimately show ?thesis by simp
qed

lemma uint_of_int: "0 \<le> k \<Longrightarrow> k < 4294967296 \<Longrightarrow> uint (word_of_int k :: u32) = k"
  by (simp add: uint_word_of_int)

lemma parts_of:
  assumes "0 \<le> e" "e < 256" "0 \<le> f" "f < 2 ^ 23" "uint x = e * 2 ^ 23 + f"
  shows "f_exp x = e" "f_frac x = f" "\<not> f_neg x"
proof -
  have d: "uint x div 2 ^ 23 = e" using assms by simp
  show "f_exp x = e" "f_frac x = f" unfolding f_exp_mod f_frac_mod using assms d by simp_all
  have "uint x < 2 ^ 31" using assms by simp
  then have "uint x div 2 ^ 31 = 0" by simp
  then show "\<not> f_neg x" unfolding top_bit by (simp split: if_splits)
qed

lemma sqrt_scaled:
  "sqrt (M * 2 powi (m - 23)) = 2 powi (m div 2 - 24) * sqrt (M * (if odd m then 2 ^ 26 else 2 ^ 25))"
proof -
  define h where "h = m div 2"
  define b :: int where "b = (if odd m then 1 else 0)"
  have m: "m = 2 * h + b" by (simp add: h_def b_def)
  have "(2 :: real) powi (m - 23) = 2 powi ((h - 24) + (h - 24) + (25 + b))" by (simp add: m)
  also have "\<dots> = 2 powi (h - 24) * 2 powi (h - 24) * 2 powi (25 + b)" by (simp only: power_int_add [of "2 :: real"] zero_neq_numeral [symmetric] simp_thms)
  also have "(2 :: real) powi (25 + b) = (if odd m then 2 ^ 26 else 2 ^ 25)" by (simp add: b_def)
  finally have "M * 2 powi (m - 23) = (2 powi (h - 24) * 2 powi (h - 24)) * (M * (if odd m then 2 ^ 26 else 2 ^ 25))" by simp
  then show ?thesis by (simp only: real_sqrt_mult) (simp add: h_def)
qed

lemma significand: "uint ((x AND 0x7FFFFF) OR 0x800000) = 2 ^ 23 + f_frac x"
proof -
  have "(x AND 0x7FFFFF) AND 0x800000 = 0" by (simp add: and.assoc)
  then have "(x AND 0x7FFFFF) OR 0x800000 = (x AND 0x7FFFFF) + 0x800000"
    using word_plus_and_or [of "x AND 0x7FFFFF" "0x800000 :: u32"] by simp
  moreover have "uint (x AND 0x7FFFFF) < 2 ^ 23" "0 \<le> uint (x AND 0x7FFFFF)" using parts_range [of x] by (simp_all add: f_frac_def)
  ultimately show ?thesis by (simp add: f_frac_def uint_plus_if')
qed

text \<open>The integer part of the algorithm: for a scaled significand the rounded root.\<close>

definition half_root :: "int \<Rightarrow> int \<Rightarrow> int" where
  "half_root q ix = (if ix \<noteq> 0 then i32 (q + q mod 2) else q) div 2"

lemma integer_root:
  assumes "2 ^ 24 \<le> ix" "ix \<le> 2 ^ 26 - 4"
  obtains q ix' where "sqrt_loop 0x1000000 0 0 ix = (q, ix')" "2 ^ 23 \<le> half_root q ix'" "half_root q ix' < 2 ^ 24"
    "\<bar>2 * real_of_int (half_root q ix') - sqrt (ix * 2 ^ 24)\<bar> \<le> 1"
proof -
  define N where "N = ix * 2 ^ 24"
  obtain q where q: "sqrt_loop (2 ^ 24) 0 (2 * 0) ix = (q, 2 * (N - q * q))" "0 \<le> q" "q * q \<le> N" "N < (q + 1) * (q + 1)"
    using sqrt_loop_spec [of N 0 ix 24] assms by (auto simp: N_def)
  have q1: "2 ^ 24 \<le> q"
  proof (rule ccontr)
    assume "\<not> ?thesis"
    then have "(q + 1) * (q + 1) \<le> 2 ^ 24 * 2 ^ 24" using q(2) by (intro mult_mono) auto
    then show False using q(4) assms(1) by (simp add: N_def)
  qed
  have q2: "q \<le> 2 ^ 25 - 2"
  proof (rule ccontr)
    assume "\<not> ?thesis"
    then have "(2 ^ 25 - 1) * (2 ^ 25 - 1) \<le> q * q" by (intro mult_mono) auto
    then show False using q(3) assms(2) by (simp add: N_def)
  qed
  have "real_of_int q = sqrt (real_of_int (q * q))" using q(2) by simp
  then have s1: "real_of_int q \<le> sqrt N" using q(3) by (simp only: real_sqrt_le_iff of_int_le_iff)
  have "real_of_int (q + 1) = sqrt (real_of_int ((q + 1) * (q + 1)))" using q(2) by (simp del: of_int_add)
  then have s2: "sqrt N < real_of_int (q + 1)" using q(4) by (simp only: real_sqrt_less_iff of_int_less_iff)
  have "q mod 2 = 0" if "N = q * q"
  proof -
    have "even (q * q)" unfolding that [symmetric] by (simp add: N_def)
    then show ?thesis by simp
  qed
  moreover have "i32 (q + q mod 2) = q + q mod 2" using q1 q2 by (simp add: i32_id)
  moreover have "2 * ((q + q mod 2) div 2) = q + q mod 2" by presburger
  ultimately have 2: "2 * half_root q (2 * (N - q * q)) = q + q mod 2" by (cases "N = q * q") (auto simp: half_root_def)
  then have "2 * real_of_int (half_root q (2 * (N - q * q))) = real_of_int q + real_of_int (q mod 2)"
    using arg_cong [OF 2, of real_of_int] by simp
  moreover have "q mod 2 = 0 \<or> q mod 2 = 1" by auto
  ultimately have "\<bar>2 * real_of_int (half_root q (2 * (N - q * q))) - sqrt N\<bar> \<le> 1" using s1 s2 by auto
  then show thesis using that [of q "2 * (N - q * q)"] q(1) 2 q1 q2 by (simp add: N_def)
qed

lemma positive_sint:
  assumes "\<not> f_neg x" "f_exp x \<le> 254"
  shows "sint x = f_exp x * 2 ^ 23 + f_frac x"
proof -
  have "0 \<le> uint x" "uint x < 2 ^ 31" "uint x = f_exp x * 2 ^ 23 + f_frac x"
    using uint_parts [of x] parts_range [of x] assms by simp_all
  then show ?thesis using signed_take_bit_int_eq_self [of 31 "uint x"] by (simp add: sint_uint)
qed

text \<open>C24: The software square root is correctly rounded: for every positive normal number the result
  is a normal number whose distance from the exact square root is at most half a unit in its last
  place, and no intermediate value overflows.\<close>
theorem vna_sqrtf_rounded:
  assumes "\<not> f_neg x" "1 \<le> f_exp x" "f_exp x \<le> 254"
  defines "h \<equiv> (f_exp x - 127) div 2"
  shows "\<not> f_neg (vna_sqrtf x) \<and> f_exp (vna_sqrtf x) = h + 127 \<and> \<bar>fval (vna_sqrtf x) - sqrt (fval x)\<bar> \<le> 2 powi (h - 24)"
proof -
  define m where "m = f_exp x - 127"
  define M where "M = 2 ^ 23 + f_frac x"
  define ix where "ix = M * (if odd m then 4 else 2)"
  have M: "8388608 \<le> M" "M \<le> 16777215" using parts_range(3,4) [of x] by (simp_all add: M_def)
  then have ix: "2 ^ 24 \<le> ix" "ix \<le> 2 ^ 26 - 4" by (simp_all add: ix_def)
  obtain q ix' where q: "sqrt_loop 0x1000000 0 0 ix = (q, ix')" "2 ^ 23 \<le> half_root q ix'" "half_root q ix' < 2 ^ 24"
    "\<bar>2 * real_of_int (half_root q ix') - sqrt (ix * 2 ^ 24)\<bar> \<le> 1"
    by (rule integer_root [OF ix])
  define Q where "Q = half_root q ix'"
  note Q = q(2-4) [folded Q_def]
  have m: "sint x div 2 ^ 23 - 127 = m" "sint x \<noteq> 0"
    using positive_sint [OF assms(1,3)] parts_range(3,4) [of x] assms(2) by (simp_all add: m_def)
  have h: "m div 2 = h" "- 63 \<le> h" "h \<le> 63" using assms(2,3) by (simp_all add: h_def m_def)
  have i: "i32 (if odd m then (2 ^ 23 + f_frac x) * 4 else (2 ^ 23 + f_frac x) * 2) = ix"
    using M by (simp add: ix_def M_def i32_id)
  have e: "i32 (Q + 0x3F000000) = Q + 0x3F000000" "i32 (h * 2 ^ 23) = h * 2 ^ 23"
    "i32 (Q + 0x3F000000 + h * 2 ^ 23) = Q + 0x3F000000 + h * 2 ^ 23"
    using Q(1,2) h(2,3) by (simp_all add: i32_id)
  have "vna_sqrtf x = word_of_int (Q + 0x3F000000 + h * 2 ^ 23)"
    unfolding vna_sqrtf_def Let_def m(1) significand i q(1) prod.case half_root_def [symmetric] Q_def [symmetric] h(1) e using m(2) by simp
  moreover have "uint (word_of_int (Q + 0x3F000000 + h * 2 ^ 23) :: u32) = Q + 0x3F000000 + h * 2 ^ 23"
    by (rule uint_of_int) (use Q(1,2) h(2,3) in simp_all)
  ultimately have u: "uint (vna_sqrtf x) = (h + 127) * 2 ^ 23 + (Q - 2 ^ 23)" by simp
  have r: "f_exp (vna_sqrtf x) = h + 127" "f_frac (vna_sqrtf x) = Q - 2 ^ 23" "\<not> f_neg (vna_sqrtf x)"
    using parts_of [OF _ _ _ _ u] Q(1,2) h(2,3) by simp_all
  have "fval (vna_sqrtf x) = real_of_int Q * 2 powi (h - 23)" using r h(2) by (simp add: fval_def)
  also have "(2 :: real) powi (h - 23) = 2 powi (h - 24) * 2" using power_int_add_1 [of "2 :: real" "h - 24"] by simp
  finally have fr: "fval (vna_sqrtf x) = 2 powi (h - 24) * (2 * real_of_int Q)" by simp
  have "fval x = real_of_int M * 2 powi (m - 23)" using assms(1,2) by (simp add: fval_def M_def m_def)
  then have fx: "sqrt (fval x) = 2 powi (h - 24) * sqrt (ix * 2 ^ 24)"
    using sqrt_scaled [of M m] h(1) by (simp add: ix_def)
  have "\<bar>fval (vna_sqrtf x) - sqrt (fval x)\<bar> = 2 powi (h - 24) * \<bar>2 * real_of_int Q - sqrt (ix * 2 ^ 24)\<bar>"
    unfolding fr fx by (simp add: abs_mult flip: right_diff_distrib)
  also have "\<dots> \<le> 2 powi (h - 24) * 1" by (intro mult_left_mono Q(3)) simp
  finally show ?thesis using r by simp
qed

text \<open>The square root of two.\<close>

theorem vna_sqrtf_rounded_witness:
  "\<not> f_neg (vna_sqrtf 0x40000000) \<and> f_exp (vna_sqrtf 0x40000000) = 127 \<and> \<bar>fval (vna_sqrtf 0x40000000) - sqrt 2\<bar> \<le> 2 powi (- 24)"
proof -
  have p: "f_exp 0x40000000 = 128" "f_frac 0x40000000 = 0" "\<not> f_neg 0x40000000"
    by (simp_all add: f_exp_mod f_frac_mod f_neg_def)
  then have "fval 0x40000000 = 2" by (simp add: fval_def)
  then show ?thesis using vna_sqrtf_rounded [of "0x40000000"] p by simp
qed

subsection \<open>Integer part\<close>

definition f_sign :: "u32 \<Rightarrow> real" where "f_sign x = (if f_neg x then - 1 else 1)"

definition f_mag :: "u32 \<Rightarrow> real" where
  "f_mag x = (if f_exp x = 0 then of_int (f_frac x) * 2 powi (- 149) else of_int (2 ^ 23 + f_frac x) * 2 powi (f_exp x - 150))"

lemma fval_parts: "fval x = f_sign x * f_mag x" "0 \<le> f_mag x"
  using parts_range [of x] by (simp_all add: fval_def f_sign_def f_mag_def)

lemma trunc_sign:
  fixes a :: real
  assumes "0 \<le> a"
  shows "f_sign x * of_int \<lfloor>a\<rfloor> = of_int (if f_sign x * a < 0 then \<lceil>f_sign x * a\<rceil> else \<lfloor>f_sign x * a\<rfloor>)"
  using assms by (auto simp: f_sign_def ceiling_minus not_less)

lemma small_mag:
  assumes "f_exp x < 127"
  shows "f_mag x < 1"
proof (cases "f_exp x = 0")
  case True
  have "real_of_int (f_frac x) < 2 ^ 23" using parts_range(4) [of x] by (metis of_int_less_iff of_int_numeral of_int_power)
  then show ?thesis using True by (simp add: f_mag_def power_int_minus field_simps)
next
  case False
  have "real_of_int (2 ^ 23 + f_frac x) < 2 ^ 24" using parts_range(4) [of x] by simp
  moreover have "(2 :: real) powi (f_exp x - 150) \<le> 2 powi (- 24)" using assms by (intro power_int_increasing) simp_all
  ultimately have "real_of_int (2 ^ 23 + f_frac x) * 2 powi (f_exp x - 150) < 2 ^ 24 * 2 powi (- 24)"
    by (intro mult_less_le_imp_less) (use parts_range(3) [of x] in simp_all)
  then show ?thesis using False by (simp add: f_mag_def)
qed

lemma large_mag:
  assumes "150 \<le> f_exp x"
  shows "f_mag x = of_int \<lfloor>f_mag x\<rfloor>"
proof -
  have "(2 :: real) powi (f_exp x - 150) = of_int (2 ^ nat (f_exp x - 150))" using assms by (simp add: power_int_def)
  then have "f_mag x = of_int ((2 ^ 23 + f_frac x) * 2 ^ nat (f_exp x - 150))" using assms by (simp add: f_mag_def)
  then show ?thesis by (metis floor_of_int)
qed

lemma div_clear:
  fixes a :: int
  assumes "k \<le> n"
  shows "(a - a mod 2 ^ k) div 2 ^ n = a div 2 ^ n" "(a - a mod 2 ^ k) mod 2 ^ n = a mod 2 ^ n - a mod 2 ^ n mod 2 ^ k"
proof -
  have n: "(2 :: int) ^ n = 2 ^ k * 2 ^ (n - k)" using assms by (simp flip: power_add)
  have "(2 ^ k * (a div 2 ^ k)) div 2 ^ n = a div 2 ^ n" unfolding n by (simp add: zdiv_zmult2_eq)
  then show d: "(a - a mod 2 ^ k) div 2 ^ n = a div 2 ^ n" by (simp only: minus_mod_eq_mult_div)
  have "(2 :: int) ^ k dvd 2 ^ n" using assms by (rule le_imp_power_dvd)
  then have "a mod 2 ^ n mod 2 ^ k = a mod 2 ^ k" by (rule mod_mod_cancel)
  then show "(a - a mod 2 ^ k) mod 2 ^ n = a mod 2 ^ n - a mod 2 ^ n mod 2 ^ k"
    using minus_div_mult_eq_mod [of "a - a mod 2 ^ k" "2 ^ n"] minus_div_mult_eq_mod [of a "2 ^ n"] d by simp
qed

lemma uint_clear_low:
  assumes "u = x AND NOT (mask k)"
  shows "uint (u :: u32) = uint x - uint x mod 2 ^ k"
proof -
  have "(x AND mask k) AND u = 0" "(x AND mask k) OR u = x"
    by (auto simp: assms bit_simps intro!: bit_word_eqI)
  then have "u = x - take_bit k x" using word_plus_and_or [of "x AND mask k" u] by (simp add: take_bit_eq_mask algebra_simps)
  moreover have t: "uint (take_bit k x) = uint x mod 2 ^ k" by (simp only: unsigned_take_bit_eq) (simp only: take_bit_eq_mod)
  moreover have "uint x mod 2 ^ k \<le> uint x" by (simp add: zmod_le_nonneg_dividend)
  ultimately show ?thesis by (simp add: uint_sub_lem [THEN iffD1])
qed

lemma clear_low:
  assumes "u = x AND NOT (mask k)" "k \<le> 23"
  shows "f_sign u = f_sign x" "f_exp u = f_exp x" "f_frac u = f_frac x - f_frac x mod 2 ^ k"
proof -
  note u = uint_clear_low [OF assms(1)]
  have "f_neg u = f_neg x" using top_bit [of u] top_bit [of x] div_clear(1) [of k 31 "uint x"] assms(2) u by (simp split: if_splits)
  then show "f_sign u = f_sign x" by (simp add: f_sign_def)
  show "f_exp u = f_exp x" "f_frac u = f_frac x - f_frac x mod 2 ^ k"
    unfolding f_exp_mod f_frac_mod u using div_clear [OF assms(2), of "uint x"] by simp_all
qed

lemma mod_add_self_dvd: "(d :: int) dvd a \<Longrightarrow> (a + b) mod d = b mod d"
  by (auto elim!: dvdE)

lemma middle_mag:
  assumes "u = x AND NOT (mask k)" "k \<le> 23" "f_exp x = 150 - int k"
  shows "f_mag u = of_int \<lfloor>f_mag x\<rfloor>"
proof -
  define S where "S = 2 ^ 23 + f_frac x"
  have p: "(2 :: real) powi (150 - int k - 150) = 1 / 2 ^ k" by (simp add: power_int_minus divide_inverse)
  have "(2 :: int) ^ k dvd 2 ^ 23" using assms(2) by (rule le_imp_power_dvd)
  then have "S mod 2 ^ k = f_frac x mod 2 ^ k" unfolding S_def by (rule mod_add_self_dvd)
  then have "f_mag u = of_int (S - S mod 2 ^ k) * (1 / 2 ^ k)"
    using clear_low(2,3) [OF assms(1,2)] assms(2,3) p by (simp add: f_mag_def S_def)
  also have "S - S mod 2 ^ k = S div 2 ^ k * 2 ^ k" by (simp only: minus_mod_eq_div_mult)
  also have "real_of_int (S div 2 ^ k * 2 ^ k) * (1 / 2 ^ k) = of_int (S div 2 ^ k)" by simp
  also have "S div 2 ^ k = \<lfloor>real_of_int S / real_of_int (2 ^ k)\<rfloor>" by (rule floor_divide_of_int_eq [symmetric])
  also have "real_of_int S / real_of_int (2 ^ k) = f_mag x" using assms(2,3) p by (simp add: f_mag_def S_def)
  finally show ?thesis .
qed

text \<open>Splitting a finite number truncates it toward zero: the integer part is the number rounded
  toward zero and the fraction the exact remainder.\<close>
theorem vna_modff_correct:
  assumes "vna_modff x = (r, u)" "f_exp x < 255"
  shows "fval u = of_int (if fval x < 0 then \<lceil>fval x\<rceil> else \<lfloor>fval x\<rfloor>) \<and> r + fval u = fval x"
proof -
  note d = assms(1) [unfolded vna_modff_def Let_def, folded f_exp_def]
  consider "f_exp x < 127" "u = 0" "r = fval x" | "150 \<le> f_exp x" "u = x" "r = 0"
    | "127 \<le> f_exp x" "f_exp x < 150" "u = x AND NOT (drop_bit (nat (f_exp x - 127)) 0x7FFFFF)" "r = fval x - fval u"
    using d by (auto split: if_splits)
  then have "f_sign x * of_int \<lfloor>f_mag x\<rfloor> = fval u \<and> r + fval u = fval x"
  proof cases
    case 1
    have "\<lfloor>f_mag x\<rfloor> = 0" using small_mag [OF 1(1)] fval_parts(2) [of x] by (simp add: floor_eq_iff)
    moreover have "fval 0 = 0" by (simp add: fval_def f_exp_def f_frac_def)
    ultimately show ?thesis using 1 by simp
  next
    case 2
    then show ?thesis using large_mag [OF 2(1)] fval_parts(1) [of x] by simp
  next
    case 3
    define k where "k = nat (150 - f_exp x)"
    have k: "k \<le> 23" "f_exp x = 150 - int k" "nat (f_exp x - 127) = 23 - k" using 3(1,2) by (simp_all add: k_def)
    have "drop_bit (23 - k) (mask 23 :: u32) = mask k"
      using k(1) by (auto simp: bit_simps intro!: bit_word_eqI)
    then have "drop_bit (23 - k) (0x7FFFFF :: u32) = mask k" by (simp add: mask_eq_exp_minus_1)
    then have u: "u = x AND NOT (mask k)" using 3(3) k(3) by simp
    show ?thesis using middle_mag [OF u k(1,2)] clear_low(1) [OF u k(1)] fval_parts(1) [of u] 3(4) by simp
  qed
  then show ?thesis unfolding fval_parts(1) [of x] trunc_sign [OF fval_parts(2) [of x], symmetric] by simp
qed

theorem vna_modff_correct_witness:
  "\<exists>r u. vna_modff 0xC0200000 = (r, u) \<and> fval 0xC0200000 = - 5 / 2 \<and> fval u = - 2 \<and> r = - 1 / 2"
proof -
  have p: "f_exp 0xC0200000 = 128" "f_frac 0xC0200000 = 0x200000" "f_neg 0xC0200000"
    by (simp_all add: f_exp_mod f_frac_mod f_neg_def)
  then have v: "fval 0xC0200000 = - 5 / 2" by (simp add: fval_def)
  obtain r u where ru: "vna_modff 0xC0200000 = (r, u)" by (cases "vna_modff 0xC0200000")
  have "\<lceil>- 5 / 2 :: real\<rceil> = - 2" by (simp add: ceiling_eq_iff)
  then show ?thesis using vna_modff_correct [OF ru] p v ru by auto
qed

subsection \<open>Sign and infinity\<close>

lemma parts_abs: "\<not> f_neg (vna_fabsf x)" "f_exp (vna_fabsf x) = f_exp x" "f_frac (vna_fabsf x) = f_frac x"
proof -
  have "(0x7FFFFFFF :: u32) = mask 31" by (simp add: mask_eq_exp_minus_1)
  then have "vna_fabsf x = take_bit 31 x" by (simp only: vna_fabsf_def take_bit_eq_mask)
  then have "uint (vna_fabsf x) = uint x mod 2 ^ 31" by (simp only: unsigned_take_bit_eq) (simp only: take_bit_eq_mod)
  also have "\<dots> = f_exp x * 2 ^ 23 + f_frac x"
    unfolding uint_parts [of x] add.assoc using parts_range [of x] by (simp add: mod_add_self_dvd)
  finally have u: "uint (vna_fabsf x) = f_exp x * 2 ^ 23 + f_frac x" .
  show "\<not> f_neg (vna_fabsf x)" "f_exp (vna_fabsf x) = f_exp x" "f_frac (vna_fabsf x) = f_frac x"
    using parts_of [OF _ _ _ _ u] parts_range [of x] by simp_all
qed

lemma fabsf_correct: "fval (vna_fabsf x) = \<bar>fval x\<bar>"
  using fval_parts [of x] fval_parts [of "vna_fabsf x"] parts_abs [of x] by (simp add: f_sign_def f_mag_def abs_mult)

lemma isinff_correct: "vna_isinff x \<longleftrightarrow> f_exp x = 255 \<and> f_frac x = 0"
proof -
  have "vna_isinff x \<longleftrightarrow> uint (vna_fabsf x) = 0x7F800000" by (simp add: vna_isinff_def vna_fabsf_def word_uint_eq_iff)
  also have "uint (vna_fabsf x) = f_exp x * 2 ^ 23 + f_frac x" using uint_parts [of "vna_fabsf x"] parts_abs [of x] by simp
  also have "\<dots> = 0x7F800000 \<longleftrightarrow> f_exp x = 255 \<and> f_frac x = 0"
    using parts_range [of x] by (cases "f_exp x" "255 :: int" rule: linorder_cases) auto
  finally show ?thesis .
qed

end
