(* ===== verification/Fft.thy ===== *)
theory Fft
  imports Calibration
begin

unbundle bit_operations_syntax

text \<open>
  The Fourier transform of \<^verbatim>\<open>vna_math.c\<close>: bit reversal, the sine table and the in-place radix-2
  transform.  The sizes chosen by the build (\<^verbatim>\<open>FFT_N\<close>, \<^verbatim>\<open>SIN_TABLE_N\<close>) and the table are arguments of the
  definitions; arithmetic is over real numbers.
\<close>

subsection \<open>Operations\<close>

text \<open>The processor instruction reverses the 32 bits of the word.\<close>

definition reverse_bits :: "u32 \<Rightarrow> nat \<Rightarrow> u32" where
  "reverse_bits x n = drop_bit (32 - n) (word_reverse x)"

definition rev_nibble :: "u16 list" where
  "rev_nibble = [0x0, 0x8, 0x4, 0xC, 0x2, 0xA, 0x6, 0xE, 0x1, 0x9, 0x3, 0xB, 0x5, 0xD, 0x7, 0xF]"

definition reverse_bits_table :: "u16 \<Rightarrow> nat \<Rightarrow> u16" where
  "reverse_bits_table x n =
     (let x = push_bit 8 (rev_nibble ! unat (drop_bit 0 x AND 0xF)) OR
              push_bit 4 (rev_nibble ! unat (drop_bit 4 x AND 0xF)) OR
              push_bit 0 (rev_nibble ! unat (drop_bit 8 x AND 0xF)) in
      drop_bit (12 - n) x)"

definition swap_step :: "(nat \<Rightarrow> nat) \<Rightarrow> nat \<Rightarrow> cfloat list \<Rightarrow> cfloat list" where
  "swap_step reverse i a = (let j = reverse i in if j > i then a[i := a ! j, j := a ! i] else a)"

definition butterfly :: "real \<Rightarrow> real \<Rightarrow> nat \<Rightarrow> nat \<Rightarrow> cfloat list \<Rightarrow> cfloat list" where
  "butterfly s c k l a =
     (let tpre = fst (a ! l) * c + - snd (a ! l) * s;
          tpim = fst (a ! l) * s + snd (a ! l) * c in
      a[l := (fst (a ! k) - tpre, snd (a ! k) - tpim), k := (fst (a ! k) + tpre, snd (a ! k) + tpim)])"

text \<open>The sizes are powers of two; the guard against size 0, where the loops would not end, is never met.\<close>

function fft_row :: "nat \<Rightarrow> nat \<Rightarrow> real \<Rightarrow> real \<Rightarrow> nat \<Rightarrow> cfloat list \<Rightarrow> cfloat list" where
  "fft_row fft_size sz s c k a =
     (if k < fft_size \<and> 0 < sz then let l = k + sz in fft_row fft_size sz s c (l + sz) (butterfly s c k l a) else a)"
  by pat_completeness auto
termination by (relation "measure (\<lambda>(n, sz, s, c, k, a). n - k)") auto

declare fft_row.simps [simp del]

definition twiddle :: "real list \<Rightarrow> nat \<Rightarrow> bool \<Rightarrow> nat \<Rightarrow> real \<times> real" where
  "twiddle SIN_TABLE sin_n dir table_index =
     (let sub_n = sin_n - 2;
          sector = table_index div 2 ^ sub_n;
          sidx = table_index mod 2 ^ sub_n;
          cidx = 2 ^ sub_n - sidx;
          sn = SIN_TABLE ! sidx; cs = SIN_TABLE ! cidx;
          s = (if odd sector then cs else sn);
          c = (if odd sector then - sn else cs) in
      (if \<not> dir then - s else s, c))"

definition fft_point :: "real list \<Rightarrow> nat \<Rightarrow> bool \<Rightarrow> nat \<Rightarrow> nat \<Rightarrow> nat \<Rightarrow> nat \<Rightarrow> cfloat list \<Rightarrow> cfloat list" where
  "fft_point SIN_TABLE sin_n dir fft_size sz tablestep i a =
     (let (s, c) = twiddle SIN_TABLE sin_n dir (i * tablestep) in fft_row fft_size sz s c i a)"

function fft_loop :: "real list \<Rightarrow> nat \<Rightarrow> bool \<Rightarrow> nat \<Rightarrow> nat \<Rightarrow> nat \<Rightarrow> cfloat list \<Rightarrow> cfloat list" where
  "fft_loop SIN_TABLE sin_n dir fft_size sz tablestep a =
     (if sz < fft_size \<and> 0 < sz
      then fft_loop SIN_TABLE sin_n dir fft_size (sz * 2) (tablestep div 2)
        (fold (fft_point SIN_TABLE sin_n dir fft_size sz tablestep) [0..<sz] a)
      else a)"
  by pat_completeness auto
termination by (relation "measure (\<lambda>(t, n, d, fs, sz, ts, a). fs - sz)") auto

declare fft_loop.simps [simp del]

definition fft :: "real list \<Rightarrow> nat \<Rightarrow> nat \<Rightarrow> bool \<Rightarrow> cfloat list \<Rightarrow> cfloat list" where
  "fft SIN_TABLE sin_n fft_n dir a =
     (let fft_size = 2 ^ fft_n;
          a = fold (swap_step (\<lambda>i. unat (reverse_bits (of_nat i) fft_n))) [0..<fft_size] a in
      fft_loop SIN_TABLE sin_n dir fft_size 1 (2 ^ sin_n div 2) a)"

subsection \<open>Bit reversal\<close>

fun rev_index :: "nat \<Rightarrow> nat \<Rightarrow> nat" where
  "rev_index 0 x = 0"
| "rev_index (Suc n) x = rev_index n (x div 2) + (x mod 2) * 2 ^ n"

lemma rev_index_less: "rev_index n x < 2 ^ n"
proof (induction n arbitrary: x)
  case (Suc n)
  have "x mod 2 * 2 ^ n \<le> 2 ^ n" by (simp add: mod2_eq_if)
  then have "rev_index n (x div 2) + x mod 2 * 2 ^ n < 2 ^ n + 2 ^ n" using Suc [of "x div 2"] by (intro add_less_le_mono)
  then show ?case by simp
qed simp

lemma bit_join:
  fixes a b :: nat
  assumes "a < 2 ^ n"
  shows "bit (a + b * 2 ^ n) p \<longleftrightarrow> (if p < n then bit a p else bit b (p - n))"
proof (cases "p < n")
  case True
  have e: "(2 :: nat) ^ n = 2 ^ (n - p) * 2 ^ p" using True by (simp flip: power_add)
  have "(a + b * 2 ^ n) div 2 ^ p = a div 2 ^ p + b * 2 ^ (n - p)"
    unfolding e using div_mult_self1 [of "2 ^ p" a "b * 2 ^ (n - p)"] by (simp add: mult_ac)
  moreover have "even (b * 2 ^ (n - p))" using True by simp
  ultimately show ?thesis using True by (simp add: bit_iff_odd)
next
  case False
  have e: "(2 :: nat) ^ p = 2 ^ n * 2 ^ (p - n)" using False by (simp flip: power_add)
  have "(a + b * 2 ^ n) div 2 ^ p = b div 2 ^ (p - n)" unfolding e using assms by (simp add: div_mult2_eq)
  then show ?thesis using False by (simp add: bit_iff_odd)
qed

lemma bit_lt: "x < 2 ^ n \<Longrightarrow> bit (x :: nat) p \<Longrightarrow> p < n"
  by (metis bit_take_bit_iff take_bit_nat_eq_self)

lemma bit_rev_index: "bit (rev_index n x) p \<longleftrightarrow> p < n \<and> bit x (n - Suc p)"
proof (induction n arbitrary: x)
  case (Suc n)
  have "bit (x mod 2) (p - n) \<longleftrightarrow> p - n = 0 \<and> odd x" using bit_lt [of "x mod 2" 1 "p - n"] by (cases "p - n = 0") (auto simp: bit_0)
  moreover have "Suc n - Suc p = Suc (n - Suc p)" if "p < n" using that by simp
  ultimately show ?case
    by (auto simp: bit_join [OF rev_index_less] Suc bit_Suc bit_0 less_Suc_eq not_less)
qed simp

lemma nat_bits_eq: "(\<And>p. bit a p \<longleftrightarrow> bit b p) \<Longrightarrow> (a :: nat) = b"
  by (rule bit_eqI) simp

lemma rev_index_rev: "x < 2 ^ n \<Longrightarrow> rev_index n (rev_index n x) = x"
  by (rule nat_bits_eq) (auto simp: bit_rev_index dest: bit_lt)

lemma reverse_bits_index:
  assumes "n \<le> 32" "x < 2 ^ n"
  shows "unat (reverse_bits (of_nat x) n) = rev_index n x"
proof (rule nat_bits_eq)
  fix p
  have "bit (unat (reverse_bits (of_nat x) n)) p \<longleftrightarrow> p < 32 \<and> bit (word_reverse (of_nat x :: u32)) (32 - n + p)"
    by (auto simp: reverse_bits_def bit_simps)
  also have "\<dots> \<longleftrightarrow> p < n \<and> bit x (n - Suc p)" using assms by (auto simp: bit_simps)
  finally show "bit (unat (reverse_bits (of_nat x) n)) p \<longleftrightarrow> bit (rev_index n x) p" by (simp add: bit_rev_index)
qed

text \<open>The table of the builds without the bit reversal instruction does not reverse bits: the entries of
  the nibbles 10 to 13 are exchanged, so that index 10 goes to 48 instead of 80.\<close>
theorem reverse_bits_table_wrong:
  "unat (reverse_bits_table 10 8) = 48 \<and> rev_index 8 10 = 80"
  by code_simp

subsection \<open>Reordering\<close>

lemma length_swap_step [simp]: "length (swap_step r i a) = length a"
  by (simp add: swap_step_def Let_def)

lemma swap_loop:
  assumes "length a = 2 ^ n" "m \<le> 2 ^ n" "\<forall>i < 2 ^ n. r i = rev_index n i"
  shows "length (fold (swap_step r) [0..<m] a) = 2 ^ n \<and>
    (\<forall>p < 2 ^ n. fold (swap_step r) [0..<m] a ! p = (if min p (rev_index n p) < m then a ! rev_index n p else a ! p))"
  using assms(2)
proof (induction m)
  case 0
  then show ?case using assms(1) by simp
next
  case (Suc m)
  define b where "b = fold (swap_step r) [0..<m] a"
  have b: "length b = 2 ^ n" "p < 2 ^ n \<Longrightarrow> b ! p = (if min p (rev_index n p) < m then a ! rev_index n p else a ! p)" for p
    using Suc by (simp_all add: b_def)
  let ?j = "rev_index n m"
  have j: "?j < 2 ^ n" "rev_index n ?j = m" "m < 2 ^ n" using rev_index_less rev_index_rev Suc.prems by auto
  have s: "fold (swap_step r) [0..<Suc m] a = (if ?j > m then b[m := b ! ?j, ?j := b ! m] else b)"
    using assms(3) j(3) by (simp add: b_def swap_step_def Let_def)
  have "fold (swap_step r) [0..<Suc m] a ! p = (if min p (rev_index n p) < Suc m then a ! rev_index n p else a ! p)" if p: "p < 2 ^ n" for p
  proof -
    consider "p = m" | "p = ?j" | "p \<noteq> m" "rev_index n p \<noteq> m" using rev_index_rev [OF p] by metis
    then show ?thesis
    proof cases
      case 1
      then show ?thesis unfolding s using b j by (auto simp: nth_list_update min_def not_less)
    next
      case 2
      then show ?thesis unfolding s using b j by (auto simp: nth_list_update min_def not_less)
    next
      case 3
      then have "p \<noteq> ?j" using j(2) by auto
      then show ?thesis unfolding s using b p 3 by (auto simp: nth_list_update min_def)
    qed
  qed
  moreover have "length (fold (swap_step r) [0..<Suc m] a) = 2 ^ n" unfolding s using b(1) by simp
  ultimately show ?case by blast
qed

lemma swap_all:
  assumes "length a = 2 ^ n" "\<forall>i < 2 ^ n. r i = rev_index n i" "p < 2 ^ n"
  shows "fold (swap_step r) [0..<2 ^ n] a ! p = a ! rev_index n p"
  using swap_loop [OF assms(1) order_refl assms(2)] assms(3) by (simp add: min_def)

subsection \<open>One stage\<close>

text \<open>Positions by block and offset: a stage of half size \<open>z\<close> works on blocks of \<open>2 * z\<close> points.\<close>

definition pos :: "nat \<Rightarrow> nat \<Rightarrow> nat \<Rightarrow> nat" where "pos z b r = 2 * z * b + r"

lemma pos_inj: "r < 2 * z \<Longrightarrow> r' < 2 * z \<Longrightarrow> pos z b r = pos z b' r' \<longleftrightarrow> b = b' \<and> r = r'"
  unfolding pos_def by (metis add.commute div_mult_self4 div_less mod_mult_self2 mod_less add_0 gr_implies_not0 less_zeroE mult_is_0)

lemma pos_less: "b < M \<Longrightarrow> r < 2 * z \<Longrightarrow> pos z b r < 2 * z * M"
proof -
  assume "b < M" "r < 2 * z"
  then have "pos z b r < 2 * z * Suc b" by (simp add: pos_def)
  also have "\<dots> \<le> 2 * z * M" using \<open>b < M\<close> by (intro mult_le_mono2) simp
  finally show ?thesis .
qed

lemma length_butterfly [simp]: "length (butterfly s c k l a) = length a"
  by (simp add: butterfly_def Let_def)

lemma butterfly_nth:
  assumes "k < length a" "l < length a" "k \<noteq> l"
  shows "cx (butterfly s c k l a ! p) = (if p = k then cx (a ! k) + Complex c s * cx (a ! l)
    else if p = l then cx (a ! k) - Complex c s * cx (a ! l) else cx (a ! p))"
  using assms by (auto simp: butterfly_def Let_def nth_list_update cx_def complex_eq_iff algebra_simps)

definition pair_value :: "nat \<Rightarrow> complex \<Rightarrow> cfloat list \<Rightarrow> nat \<Rightarrow> nat \<Rightarrow> nat \<Rightarrow> complex" where
  "pair_value z w a b i r =
     (if r = i then cx (a ! pos z b i) + w * cx (a ! pos z b (i + z)) else cx (a ! pos z b i) - w * cx (a ! pos z b (i + z)))"

lemma length_fft_row [simp]: "length (fft_row N z s c k a) = length a"
  by (induction N z s c k a rule: fft_row.induct) (subst fft_row.simps, simp add: Let_def)

lemma fft_row_value:
  assumes "length a = 2 * z * M" "i < z" "b < M" "r < 2 * z"
  shows "cx (fft_row (2 * z * M) z s c (pos z q i) a ! pos z b r) =
    (if q \<le> b \<and> (r = i \<or> r = i + z) then pair_value z (Complex c s) a b i r else cx (a ! pos z b r))"
  using assms
proof (induction "M - q" arbitrary: q a)
  case 0
  then have "2 * z * M \<le> pos z q i" unfolding pos_def by (simp add: trans_le_add1)
  then show ?case using 0 by (subst fft_row.simps) auto
next
  case (Suc d q a)
  let ?l = "pos z q (i + z)"
  let ?a = "butterfly s c (pos z q i) ?l a"
  have q: "q < M" using Suc by simp
  have k: "pos z q i < length a" "?l < length a" "pos z q i \<noteq> ?l"
    using pos_less [OF q, of _ z] pos_inj [of i z "i + z" q q] Suc.prems by auto
  have l: "pos z q i + z = ?l" "?l + z = pos z (Suc q) i" by (simp_all add: pos_def)
  have st: "fft_row (2 * z * M) z s c (pos z q i) a = fft_row (2 * z * M) z s c (pos z (Suc q) i) ?a"
    using k(1) Suc.prems by (subst fft_row.simps) (simp add: Let_def l)
  have IH: "cx (fft_row (2 * z * M) z s c (pos z (Suc q) i) ?a ! pos z b r) =
    (if Suc q \<le> b \<and> (r = i \<or> r = i + z) then pair_value z (Complex c s) ?a b i r else cx (?a ! pos z b r))"
    using Suc by (intro Suc.hyps(1)) auto
  have e: "pos z b r' = pos z q i \<longleftrightarrow> b = q \<and> r' = i" "pos z b r' = ?l \<longleftrightarrow> b = q \<and> r' = i + z" if "r' < 2 * z" for r'
    using pos_inj [OF that] Suc.prems by auto
  have "i < 2 * z" "i + z < 2 * z" using Suc.prems by simp_all
  note e = e [OF this(1)] e [OF this(2)] e [OF Suc.prems(4)]
  show ?case
  proof (cases "b = q")
    case True
    then show ?thesis unfolding st IH using e by (simp add: pair_value_def butterfly_nth [OF k])
  next
    case False
    then have "Suc q \<le> b \<longleftrightarrow> q \<le> b" by auto
    then show ?thesis unfolding st IH using e False by (simp add: pair_value_def butterfly_nth [OF k])
  qed
qed

definition factor :: "real list \<Rightarrow> nat \<Rightarrow> bool \<Rightarrow> nat \<Rightarrow> complex" where
  "factor tab sin_n dir k = (case twiddle tab sin_n dir k of (s, c) \<Rightarrow> Complex c s)"

lemma fft_point_row:
  "fft_point tab sin_n dir N z step i a =
     fft_row N z (Im (factor tab sin_n dir (i * step))) (Re (factor tab sin_n dir (i * step))) (pos z 0 i) a"
  by (simp add: fft_point_def factor_def pos_def split: prod.splits)

lemma length_stage [simp]: "length (fold (fft_point tab sin_n dir N z step) xs a) = length a"
  by (induction xs arbitrary: a) (simp_all add: fft_point_row)

lemma stage_loop:
  assumes "length a = 2 * z * M" "m \<le> z" "b < M" "r < 2 * z"
  shows "cx (fold (fft_point tab sin_n dir (2 * z * M) z step) [0..<m] a ! pos z b r) =
    (let i = (if r < z then r else r - z) in
     if i < m then pair_value z (factor tab sin_n dir (i * step)) a b i r else cx (a ! pos z b r))"
  using assms(2,4)
proof (induction m arbitrary: r)
  case 0
  then show ?case by (simp add: Let_def)
next
  case (Suc m)
  let ?a = "fold (fft_point tab sin_n dir (2 * z * M) z step) [0..<m] a"
  have row: "cx (fold (fft_point tab sin_n dir (2 * z * M) z step) [0..<Suc m] a ! pos z b r) =
      (if r = m \<or> r = m + z then pair_value z (factor tab sin_n dir (m * step)) ?a b m r else cx (?a ! pos z b r))"
    using fft_row_value [of ?a z M m b r _ _ 0] assms(1,3) Suc.prems by (simp add: fft_point_row complex_eq_iff)
  have "cx (?a ! pos z b m) = cx (a ! pos z b m)" "cx (?a ! pos z b (m + z)) = cx (a ! pos z b (m + z))"
    using Suc.IH [of m] Suc.IH [of "m + z"] Suc.prems by (simp_all add: Let_def)
  then show ?case unfolding row using Suc.IH [of r] Suc.prems by (auto simp: Let_def pair_value_def less_Suc_eq)
qed

lemma stage_value:
  assumes "length a = 2 * z * M" "b < M" "i < z"
  shows "cx (fold (fft_point tab sin_n dir (2 * z * M) z step) [0..<z] a ! pos z b i) =
      cx (a ! pos z b i) + factor tab sin_n dir (i * step) * cx (a ! pos z b (i + z))"
    and "cx (fold (fft_point tab sin_n dir (2 * z * M) z step) [0..<z] a ! pos z b (i + z)) =
      cx (a ! pos z b i) - factor tab sin_n dir (i * step) * cx (a ! pos z b (i + z))"
  using stage_loop [OF assms(1) order_refl assms(2), of i] stage_loop [OF assms(1) order_refl assms(2), of "i + z"] assms(3)
  by (simp_all add: pair_value_def Let_def)

subsection \<open>The discrete Fourier transform\<close>

definition wave :: "bool \<Rightarrow> nat \<Rightarrow> complex" where "wave dir j = cis ((if dir then 2 else - 2) * pi / 2 ^ j)"

definition DFT :: "bool \<Rightarrow> nat \<Rightarrow> cfloat list \<Rightarrow> nat \<Rightarrow> complex" where
  "DFT dir n x r = (\<Sum>t<2 ^ n. wave dir n ^ (r * t) * cx (x ! t))"

text \<open>The transform of the samples at one offset, taken at a distance that is a power of two.\<close>

definition part :: "bool \<Rightarrow> nat \<Rightarrow> cfloat list \<Rightarrow> nat \<Rightarrow> nat \<Rightarrow> nat \<Rightarrow> complex" where
  "part dir n x j ofs r = (\<Sum>t<2 ^ j. wave dir j ^ (r * t) * cx (x ! (ofs + t * 2 ^ (n - j))))"

definition weight :: "nat \<Rightarrow> cfloat list \<Rightarrow> nat \<Rightarrow> nat \<Rightarrow> real" where
  "weight n x j ofs = (\<Sum>t<2 ^ j. cmod (cx (x ! (ofs + t * 2 ^ (n - j)))))"

lemma wave_square: "wave dir (Suc j) ^ 2 = wave dir j"
  by (simp add: wave_def DeMoivre)

lemma wave_half: "wave dir (Suc j) ^ (2 ^ j) = - 1"
  by (cases dir) (simp_all add: wave_def DeMoivre complex_eq_iff)

lemma cmod_wave [simp]: "cmod (wave dir j ^ k) = 1"
  by (simp add: wave_def norm_power)

lemma sum_even_odd: "(\<Sum>t<2 * m. f t) = (\<Sum>u<m. f (2 * u)) + (\<Sum>u<m. f (2 * u + 1 :: nat) :: 'a::comm_monoid_add)"
  by (induction m) (simp_all add: ac_simps)

lemma part_split:
  assumes "j < n"
  shows "part dir n x (Suc j) ofs r =
      part dir n x j ofs r + wave dir (Suc j) ^ r * part dir n x j (ofs + 2 ^ (n - Suc j)) r"
    and "part dir n x (Suc j) ofs (r + 2 ^ j) =
      part dir n x j ofs r - wave dir (Suc j) ^ r * part dir n x j (ofs + 2 ^ (n - Suc j)) r"
proof -
  let ?w = "wave dir (Suc j)" and ?x = "\<lambda>t. cx (x ! (ofs + t * 2 ^ (n - Suc j)))"
  have st: "(2 :: nat) ^ (n - j) = 2 * 2 ^ (n - Suc j)" using assms by (simp flip: power_Suc add: Suc_diff_Suc)
  have ev: "part dir n x j ofs r = (\<Sum>u<2 ^ j. (?w ^ 2) ^ (r * u) * ?x (2 * u))"
    unfolding part_def wave_square st by (simp add: mult_ac)
  have od: "part dir n x j (ofs + 2 ^ (n - Suc j)) r = (\<Sum>u<2 ^ j. (?w ^ 2) ^ (r * u) * ?x (2 * u + 1))"
    unfolding part_def wave_square st by (simp add: algebra_simps)
  have sp: "part dir n x (Suc j) ofs k = (\<Sum>u<2 ^ j. ?w ^ (k * (2 * u)) * ?x (2 * u)) + (\<Sum>u<2 ^ j. ?w ^ (k * (2 * u + 1)) * ?x (2 * u + 1))" for k
    unfolding part_def power_Suc sum_even_odd ..
  have p: "?w ^ (r * (2 * u)) = (?w ^ 2) ^ (r * u)" "?w ^ (r * (2 * u + 1)) = ?w ^ r * (?w ^ 2) ^ (r * u)" for u
    by (simp_all add: power_mult [symmetric] power_add [symmetric] algebra_simps)
  have h: "?w ^ ((r + 2 ^ j) * (2 * u)) = ?w ^ (r * (2 * u))" "?w ^ ((r + 2 ^ j) * (2 * u + 1)) = - (?w ^ (r * (2 * u + 1)))" for u
    by (simp_all add: distrib_right power_add power_mult wave_half)
  show "part dir n x (Suc j) ofs r = part dir n x j ofs r + ?w ^ r * part dir n x j (ofs + 2 ^ (n - Suc j)) r"
    unfolding sp ev od p by (simp add: sum_distrib_left mult.assoc)
  show "part dir n x (Suc j) ofs (r + 2 ^ j) = part dir n x j ofs r - ?w ^ r * part dir n x j (ofs + 2 ^ (n - Suc j)) r"
    unfolding sp h ev od p by (simp add: sum_distrib_left sum_negf mult.assoc)
qed

lemma weight_split:
  assumes "j < n"
  shows "weight n x (Suc j) ofs = weight n x j ofs + weight n x j (ofs + 2 ^ (n - Suc j))"
proof -
  have st: "(2 :: nat) ^ (n - j) = 2 * 2 ^ (n - Suc j)" using assms by (simp flip: power_Suc add: Suc_diff_Suc)
  show ?thesis unfolding weight_def power_Suc sum_even_odd st by (simp add: algebra_simps)
qed

lemma part_bound: "cmod (part dir n x j ofs r) \<le> weight n x j ofs"
  unfolding part_def weight_def by (rule order_trans [OF norm_sum]) (simp add: norm_mult)

definition table_ok :: "real list \<Rightarrow> nat \<Rightarrow> real \<Rightarrow> bool" where
  "table_ok tab sin_n \<epsilon> \<longleftrightarrow> (\<forall>k \<le> 2 ^ (sin_n - 2). \<bar>tab ! k - sin (2 * pi * real k / 2 ^ sin_n)\<bar> \<le> \<epsilon>)"

lemma twiddle_close:
  assumes "table_ok tab sin_n \<epsilon>" "2 \<le> sin_n" "k < 2 ^ (sin_n - 1)"
  obtains s c where "twiddle tab sin_n dir k = (if dir then s else - s, c)"
    "\<bar>s - sin (2 * pi * real k / 2 ^ sin_n)\<bar> \<le> \<epsilon>" "\<bar>c - cos (2 * pi * real k / 2 ^ sin_n)\<bar> \<le> \<epsilon>"
proof -
  define h :: nat where "h = 2 ^ (sin_n - 2)"
  have sn: "sin_n = Suc (Suc (sin_n - 2))" using assms(2) by simp
  have h: "2 ^ sin_n = 4 * real h" "0 < h" "k < 2 * h"
    using arg_cong [OF sn, of "\<lambda>n. (2::real) ^ n"] assms(3) arg_cong [OF sn, of "\<lambda>n. (2::nat) ^ (n - 1)"] by (simp_all add: h_def)
  have T: "\<bar>tab ! m - sin (2 * pi * real m / (4 * real h))\<bar> \<le> \<epsilon>" if "m \<le> h" for m
    using assms(1) that unfolding table_ok_def by (simp add: h(1) h_def)
  have C: "sin (2 * pi * real (h - m) / (4 * real h)) = cos (2 * pi * real m / (4 * real h))" if "m \<le> h" for m
  proof -
    have "2 * pi * real (h - m) / (4 * real h) = pi / 2 - 2 * pi * real m / (4 * real h)"
      using that h(2) by (simp add: of_nat_diff right_diff_distrib diff_divide_distrib)
    then show ?thesis by (simp add: cos_sin_eq)
  qed
  show thesis
  proof (cases "k < h")
    case True
    then have "twiddle tab sin_n dir k = (if dir then tab ! k else - (tab ! k), tab ! (h - k))" by (simp add: twiddle_def Let_def flip: h_def)
    then show ?thesis using that T [of k] T [of "h - k"] C [of k] True h(1) by simp
  next
    case False
    define m where "m = k - h"
    have m: "k = h + m" "m \<le> h" "m < h" using False h(3) by (simp_all add: m_def)
    have "(h + m) div h = 1" "(h + m) mod h = m" using m(3) by (simp_all add: div_add_self1)
    then have tw: "twiddle tab sin_n dir k = (if dir then tab ! (h - m) else - (tab ! (h - m)), - (tab ! m))"
      unfolding m(1) by (simp add: twiddle_def Let_def flip: h_def)
    have a: "2 * pi * real k / (4 * real h) = pi / 2 + 2 * pi * real m / (4 * real h)"
      using h(2) by (simp add: m(1) distrib_left add_divide_distrib)
    have "sin (pi / 2 + x) = cos x" "cos (pi / 2 + x) = - sin x" for x :: real by (simp_all add: sin_add cos_add)
    then show ?thesis using that [OF tw] T [of m] T [of "h - m"] C [of m] m(2) h(1) a by simp
  qed
qed

lemma factor_close:
  assumes "table_ok tab sin_n \<epsilon>" "2 \<le> sin_n" "j < sin_n" "i < 2 ^ j"
  shows "cmod (factor tab sin_n dir (i * 2 ^ (sin_n - Suc j)) - wave dir (Suc j) ^ i) \<le> 2 * \<epsilon>"
proof -
  define k where "k = i * 2 ^ (sin_n - Suc j)"
  define \<phi> where "\<phi> = 2 * pi * real k / 2 ^ sin_n"
  have "(2 :: nat) ^ j * 2 ^ (sin_n - Suc j) = 2 ^ (sin_n - 1)" using assms(3) by (simp flip: power_add)
  then have k: "k < 2 ^ (sin_n - 1)" using assms(4) by (metis k_def mult_less_mono1 zero_less_numeral zero_less_power)
  have "(2 :: real) ^ sin_n = 2 ^ Suc j * 2 ^ (sin_n - Suc j)" using assms(3) by (simp flip: power_add power_Suc)
  then have \<phi>: "\<phi> = real i * (2 * pi / 2 ^ Suc j)" by (simp add: \<phi>_def k_def)
  have w: "wave dir (Suc j) ^ i = cis (if dir then \<phi> else - \<phi>)" by (simp add: wave_def DeMoivre \<phi>)
  obtain s c where sc: "twiddle tab sin_n dir k = (if dir then s else - s, c)" "\<bar>s - sin \<phi>\<bar> \<le> \<epsilon>" "\<bar>c - cos \<phi>\<bar> \<le> \<epsilon>"
    using twiddle_close [OF assms(1,2) k] unfolding \<phi>_def by metis
  let ?d = "factor tab sin_n dir k - wave dir (Suc j) ^ i"
  have "\<bar>Re ?d\<bar> \<le> \<epsilon>" "\<bar>Im ?d\<bar> \<le> \<epsilon>" using sc by (auto simp: factor_def w abs_minus_commute)
  then show ?thesis using cmod_le [of ?d] by (simp add: k_def)
qed

lemma butterfly_error:
  fixes a b :: complex
  assumes "cmod (a' - a) \<le> e * A" "cmod (b' - b) \<le> e * B" "cmod b \<le> B" "0 \<le> A" "cmod (w' - w) \<le> d" "cmod w = 1" "0 \<le> e" "0 \<le> d"
  shows "cmod ((a' + w' * b') - (a + w * b)) \<le> ((1 + e) * (1 + d) - 1) * (A + B)"
    and "cmod ((a' - w' * b') - (a - w * b)) \<le> ((1 + e) * (1 + d) - 1) * (A + B)"
proof -
  have B: "0 \<le> B" using assms(3) norm_ge_zero order_trans by blast
  have w: "cmod w' \<le> 1 + d" using norm_triangle_sub [of w' w] assms(5,6) by simp
  have "w' * b' - w * b = w' * (b' - b) + (w' - w) * b" by (simp add: algebra_simps)
  then have "cmod (w' * b' - w * b) \<le> cmod w' * cmod (b' - b) + cmod (w' - w) * cmod b"
    by (metis norm_triangle_ineq norm_mult)
  also have "\<dots> \<le> (1 + d) * (e * B) + d * B" using w assms B by (intro add_mono mult_mono) auto
  finally have t: "cmod (w' * b' - w * b) \<le> (1 + d) * (e * B) + d * B" .
  have "e * A \<le> ((1 + e) * (1 + d) - 1) * A" using assms(4,7,8) by (intro mult_right_mono) (simp_all add: algebra_simps)
  then have s: "e * A + ((1 + d) * (e * B) + d * B) \<le> ((1 + e) * (1 + d) - 1) * (A + B)" by (simp add: algebra_simps)
  have "(a' + w' * b') - (a + w * b) = (a' - a) + (w' * b' - w * b)" by simp
  then have "cmod ((a' + w' * b') - (a + w * b)) \<le> cmod (a' - a) + cmod (w' * b' - w * b)" by (metis norm_triangle_ineq)
  then show "cmod ((a' + w' * b') - (a + w * b)) \<le> ((1 + e) * (1 + d) - 1) * (A + B)" using assms(1) t s by linarith
  have "(a' - w' * b') - (a - w * b) = (a' - a) - (w' * b' - w * b)" by simp
  then have "cmod ((a' - w' * b') - (a - w * b)) \<le> cmod (a' - a) + cmod (w' * b' - w * b)" by (metis norm_triangle_ineq4)
  then show "cmod ((a' - w' * b') - (a - w * b)) \<le> ((1 + e) * (1 + d) - 1) * (A + B)" using assms(1) t s by linarith
qed

subsection \<open>The transform computes the discrete Fourier transform\<close>

text \<open>After the stages up to half size \<open>2 ^ j\<close> every block of \<open>2 ^ j\<close> points holds the transform of the samples at
  its reversed offset, up to the error of the table.\<close>

definition stage_inv :: "bool \<Rightarrow> nat \<Rightarrow> cfloat list \<Rightarrow> real \<Rightarrow> nat \<Rightarrow> cfloat list \<Rightarrow> bool" where
  "stage_inv dir n x \<epsilon> j a \<longleftrightarrow> length a = 2 ^ n \<and> (\<forall>b < 2 ^ (n - j). \<forall>r < 2 ^ j.
     cmod (cx (a ! (2 ^ j * b + r)) - part dir n x j (rev_index (n - j) b) r) \<le>
       ((1 + 2 * \<epsilon>) ^ j - 1) * weight n x j (rev_index (n - j) b))"

lemma stage_invD:
  "stage_inv dir n x \<epsilon> j a \<Longrightarrow> b < 2 ^ (n - j) \<Longrightarrow> r < 2 ^ j \<Longrightarrow>
    cmod (cx (a ! (2 ^ j * b + r)) - part dir n x j (rev_index (n - j) b) r) \<le>
       ((1 + 2 * \<epsilon>) ^ j - 1) * weight n x j (rev_index (n - j) b)"
  by (simp add: stage_inv_def)

lemma stage_step:
  assumes "stage_inv dir n x \<epsilon> j a" "j < n" "n \<le> sin_n" "2 \<le> sin_n" "table_ok tab sin_n \<epsilon>" "0 \<le> \<epsilon>"
  shows "stage_inv dir n x \<epsilon> (Suc j) (fold (fft_point tab sin_n dir (2 ^ n) (2 ^ j) (2 ^ (sin_n - Suc j))) [0..<2 ^ j] a)"
    (is "stage_inv _ _ _ _ _ ?a")
proof -
  define M :: nat where "M = 2 ^ (n - Suc j)"
  have nM: "2 ^ n = 2 * 2 ^ j * M" "2 ^ (n - j) = 2 * M"
    using assms(2) by (simp_all add: M_def flip: power_add power_Suc)
  have len: "length a = 2 * 2 ^ j * M" using assms(1) by (simp add: stage_inv_def nM(1))
  let ?e = "(1 + 2 * \<epsilon>) ^ j - 1"
  have e: "0 \<le> ?e" using assms(6) by (simp add: one_le_power)
  have ee: "(1 + ?e) * (1 + 2 * \<epsilon>) - 1 = (1 + 2 * \<epsilon>) ^ Suc j - 1" by simp
  have "cmod (cx (?a ! (2 ^ Suc j * b + r)) - part dir n x (Suc j) (rev_index (n - Suc j) b) r) \<le>
      ((1 + 2 * \<epsilon>) ^ Suc j - 1) * weight n x (Suc j) (rev_index (n - Suc j) b)" if b: "b < 2 ^ (n - Suc j)" and r: "r < 2 ^ Suc j" for b r
  proof -
    define i where "i = (if r < 2 ^ j then r else r - 2 ^ j)"
    let ?o = "rev_index (n - Suc j) b"
    have i: "i < 2 ^ j" using r by (auto simp: i_def)
    have sn: "n - j = Suc (n - Suc j)" using assms(2) by simp
    have rv: "rev_index (n - j) (2 * b) = ?o" "rev_index (n - j) (Suc (2 * b)) = ?o + 2 ^ (n - Suc j)"
      unfolding sn by simp_all
    have pos_eq: "2 ^ j * (2 * b) + i = pos (2 ^ j) b i" "2 ^ j * Suc (2 * b) + i = pos (2 ^ j) b (i + 2 ^ j)" by (simp_all add: pos_def)
    have h: "cmod (cx (a ! pos (2 ^ j) b i) - part dir n x j ?o i) \<le> ?e * weight n x j ?o"
      "cmod (cx (a ! pos (2 ^ j) b (i + 2 ^ j)) - part dir n x j (?o + 2 ^ (n - Suc j)) i) \<le> ?e * weight n x j (?o + 2 ^ (n - Suc j))"
      using stage_invD [OF assms(1), of "2 * b" i] stage_invD [OF assms(1), of "Suc (2 * b)" i] i b nM(2) unfolding rv pos_eq by (simp_all add: M_def)
    have f: "cmod (factor tab sin_n dir (i * 2 ^ (sin_n - Suc j)) - wave dir (Suc j) ^ i) \<le> 2 * \<epsilon>"
      using factor_close [OF assms(5,4)] i assms(2,3) by simp
    have "0 \<le> weight n x j ?o" by (simp add: weight_def sum_nonneg)
    note err = butterfly_error [OF h part_bound this f cmod_wave e, unfolded ee]
    have "b < M" using b by (simp add: M_def)
    note sv = stage_value [OF len this i, of tab sin_n dir "2 ^ (sin_n - Suc j)", folded nM(1)]
    note sp = part_split [OF assms(2), of dir x ?o i] weight_split [OF assms(2), of x ?o]
    show ?thesis
    proof (cases "r < 2 ^ j")
      case True
      then have "2 ^ Suc j * b + r = pos (2 ^ j) b i" "r = i" by (simp_all add: i_def pos_def)
      then show ?thesis using err(1) assms(6) by (simp only: sv sp)
    next
      case False
      then have "2 ^ Suc j * b + r = pos (2 ^ j) b (i + 2 ^ j)" "r = i + 2 ^ j" by (simp_all add: i_def pos_def)
      then show ?thesis using err(2) assms(6) by (simp only: sv sp)
    qed
  qed
  then show ?thesis using assms(1) by (simp add: stage_inv_def)
qed

lemma fft_loop_inv:
  assumes "stage_inv dir n x \<epsilon> j a" "j \<le> n" "n \<le> sin_n" "2 \<le> sin_n" "table_ok tab sin_n \<epsilon>" "0 \<le> \<epsilon>"
  shows "stage_inv dir n x \<epsilon> n (fft_loop tab sin_n dir (2 ^ n) (2 ^ j) (2 ^ (sin_n - Suc j)) a)"
  using assms(1,2)
proof (induction "n - j" arbitrary: j a)
  case 0
  then show ?case by (subst fft_loop.simps) simp
next
  case (Suc d)
  then have j: "j < n" by simp
  let ?a = "fold (fft_point tab sin_n dir (2 ^ n) (2 ^ j) (2 ^ (sin_n - Suc j))) [0..<2 ^ j] a"
  have st: "fft_loop tab sin_n dir (2 ^ n) (2 ^ j) (2 ^ (sin_n - Suc j)) a = fft_loop tab sin_n dir (2 ^ n) (2 ^ Suc j) (2 ^ (sin_n - Suc j) div 2) ?a"
    using j by (subst fft_loop.simps) (simp add: mult.commute)
  have inv: "stage_inv dir n x \<epsilon> (Suc j) ?a" by (rule stage_step [OF Suc.prems(1) j assms(3-6)])
  show ?case
  proof (cases "Suc j = n")
    case True
    then show ?thesis unfolding st using inv by (subst fft_loop.simps) simp
  next
    case False
    have "sin_n - Suc j = Suc (sin_n - Suc (Suc j))" using False j assms(3) by simp
    then have "2 ^ (sin_n - Suc j) div 2 = (2 :: nat) ^ (sin_n - Suc (Suc j))" by simp
    then show ?thesis unfolding st using Suc.hyps(1) [of "Suc j" ?a] Suc.hyps(2) inv j by simp
  qed
qed

lemma part_all: "part dir n x n 0 r = DFT dir n x r" "weight n x n 0 = (\<Sum>t<2 ^ n. cmod (cx (x ! t)))"
  by (simp_all add: part_def DFT_def weight_def)

lemma fft_error:
  assumes "length x = 2 ^ n" "1 \<le> n" "n \<le> sin_n" "2 \<le> sin_n" "n \<le> 32" "table_ok tab sin_n \<epsilon>" "0 \<le> \<epsilon>" "r < 2 ^ n"
  shows "cmod (cx (fft tab sin_n n dir x ! r) - DFT dir n x r) \<le> ((1 + 2 * \<epsilon>) ^ n - 1) * (\<Sum>t<2 ^ n. cmod (cx (x ! t)))"
proof -
  define f where "f = (\<lambda>i. unat (reverse_bits (of_nat i) n))"
  let ?a = "fold (swap_step f) [0..<2 ^ n] x"
  have f: "\<forall>i < 2 ^ n. f i = rev_index n i" using reverse_bits_index [OF assms(5)] by (simp add: f_def)
  have "length ?a = 2 ^ n" using swap_loop [OF assms(1) order_refl f] by blast
  then have inv: "stage_inv dir n x \<epsilon> 0 ?a" using swap_all [OF assms(1) f] by (simp add: stage_inv_def part_def)
  have "2 ^ sin_n div 2 = (2 :: nat) ^ (sin_n - Suc 0)" using assms(4) by (cases sin_n) simp_all
  then have "fft tab sin_n n dir x = fft_loop tab sin_n dir (2 ^ n) (2 ^ 0) (2 ^ (sin_n - Suc 0)) ?a"
    by (simp add: fft_def Let_def f_def)
  then have "stage_inv dir n x \<epsilon> n (fft tab sin_n n dir x)"
    using fft_loop_inv [OF inv _ assms(3,4,6,7)] by simp
  from stage_invD [OF this, of 0 r] show ?thesis using assms(8) by (simp add: part_all)
qed

end
