(* ===== verification/SinTable.thy ===== *)
theory SinTable
  imports Fft
begin

text \<open>
  The sine table of the 512-point transform and the accuracy of the transform computed with it.
\<close>

definition sin_512 :: "int list" where
  "sin_512 = [
   0, 12271538, 24541229, 36807223, 49067674, 61320736, 73564564, 85797312, 98017140, 110222207, 122410675, 134580709,
   146730474, 158858143, 170961889, 183039888, 195090322, 207111376, 219101240, 231058108, 242980180, 254865660, 266712757, 278519689,
   290284677, 302005949, 313681740, 325310292, 336889853, 348418680, 359895037, 371317194, 382683432, 393992040, 405241314, 416429560,
   427555093, 438616239, 449611330, 460538711, 471396737, 482183772, 492898192, 503538384, 514102744, 524589683, 534997620, 545324988,
   555570233, 565731811, 575808191, 585797857, 595699304, 605511041, 615231591, 624859488, 634393284, 643831543, 653172843, 662415778,
   671558955, 680600998, 689540545, 698376249, 707106781, 715730825, 724247083, 732654272, 740951125, 749136395, 757208847, 765167266,
   773010453, 780737229, 788346428, 795836905, 803207531, 810457198, 817584813, 824589303, 831469612, 838224706, 844853565, 851355193,
   857728610, 863972856, 870086991, 876070094, 881921264, 887639620, 893224301, 898674466, 903989293, 909167983, 914209756, 919113852,
   923879533, 928506080, 932992799, 937339012, 941544065, 945607325, 949528181, 953306040, 956940336, 960430519, 963776066, 966976471,
   970031253, 972939952, 975702130, 978317371, 980785280, 983105487, 985277642, 987301418, 989176510, 990902635, 992479535, 993906970,
   995184727, 996312612, 997290457, 998118113, 998795456, 999322385, 999698819, 999924702, 1000000000]"

definition sin_table_512 :: "real list" where "sin_table_512 = map (\<lambda>k. real_of_int k / 10 ^ 9) sin_512"

definition SIN_TABLE_N :: nat where "SIN_TABLE_N = 9"
definition FFT_N :: nat where "FFT_N = 9"

subsection \<open>Cosine and sine of the table step\<close>

text \<open>Bounds in units of ten to the minus sixteen, by halving the angle six times from a quarter of pi.\<close>

definition between :: "int \<Rightarrow> real \<Rightarrow> int \<Rightarrow> bool" where
  "between l v u \<longleftrightarrow> 0 \<le> l \<and> 0 \<le> u \<and> of_int l / 10 ^ 16 \<le> v \<and> v \<le> of_int u / 10 ^ 16"

lemma between_sqrt:
  assumes "0 \<le> l" "0 \<le> u" "0 \<le> v" "(of_int l / 10 ^ 16)\<^sup>2 \<le> v\<^sup>2" "v\<^sup>2 \<le> (of_int u / 10 ^ 16)\<^sup>2"
  shows "between l v u"
  using assms by (auto simp: between_def intro: power2_le_imp_le)

lemma half_angle:
  assumes "between l (cos (2 * x)) u" "0 \<le> x" "x \<le> pi / 2" "0 \<le> l'" "0 \<le> u'"
    and "2 * (l' * l') \<le> (10 ^ 16 + l) * 10 ^ 16" "(10 ^ 16 + u) * 10 ^ 16 \<le> 2 * (u' * u')"
  shows "between l' (cos x) u'"
proof (rule between_sqrt)
  have c: "(cos x)\<^sup>2 = (1 + cos (2 * x)) / 2" by (simp add: cos_double_cos)
  have "real_of_int (2 * (l' * l')) \<le> real_of_int ((10 ^ 16 + l) * 10 ^ 16)" using assms(6) by (simp only: of_int_le_iff)
  then have "(real_of_int l' / 10 ^ 16)\<^sup>2 \<le> (1 + real_of_int l / 10 ^ 16) / 2" by (simp add: power2_eq_square field_simps)
  also have "\<dots> \<le> (cos x)\<^sup>2" unfolding c using assms(1) by (simp add: between_def)
  finally show "(of_int l' / 10 ^ 16)\<^sup>2 \<le> (cos x)\<^sup>2" .
  have "real_of_int ((10 ^ 16 + u) * 10 ^ 16) \<le> real_of_int (2 * (u' * u'))" using assms(7) by (simp only: of_int_le_iff)
  then have "(1 + real_of_int u / 10 ^ 16) / 2 \<le> (real_of_int u' / 10 ^ 16)\<^sup>2" by (simp add: power2_eq_square field_simps)
  moreover have "(cos x)\<^sup>2 \<le> (1 + real_of_int u / 10 ^ 16) / 2" unfolding c using assms(1) by (simp add: between_def)
  ultimately show "(cos x)\<^sup>2 \<le> (of_int u' / 10 ^ 16)\<^sup>2" by (rule order_trans [rotated])
qed (use assms cos_ge_zero [of x] in simp_all)

lemma half_angle_sin:
  assumes "between l (cos (2 * x)) u" "0 \<le> x" "x \<le> pi" "0 \<le> l'" "0 \<le> u'"
    and "2 * (l' * l') \<le> (10 ^ 16 - u) * 10 ^ 16" "(10 ^ 16 - l) * 10 ^ 16 \<le> 2 * (u' * u')"
  shows "between l' (sin x) u'"
proof (rule between_sqrt)
  have c: "(sin x)\<^sup>2 = (1 - cos (2 * x)) / 2" by (simp add: cos_double_sin)
  have "real_of_int (2 * (l' * l')) \<le> real_of_int ((10 ^ 16 - u) * 10 ^ 16)" using assms(6) by (simp only: of_int_le_iff)
  then have "(real_of_int l' / 10 ^ 16)\<^sup>2 \<le> (1 - real_of_int u / 10 ^ 16) / 2" by (simp add: power2_eq_square field_simps)
  also have "\<dots> \<le> (sin x)\<^sup>2" unfolding c using assms(1) by (simp add: between_def)
  finally show "(of_int l' / 10 ^ 16)\<^sup>2 \<le> (sin x)\<^sup>2" .
  have "real_of_int ((10 ^ 16 - l) * 10 ^ 16) \<le> real_of_int (2 * (u' * u'))" using assms(7) by (simp only: of_int_le_iff)
  then have "(1 - real_of_int l / 10 ^ 16) / 2 \<le> (real_of_int u' / 10 ^ 16)\<^sup>2" by (simp add: power2_eq_square field_simps)
  moreover have "(sin x)\<^sup>2 \<le> (1 - real_of_int l / 10 ^ 16) / 2" unfolding c using assms(1) by (simp add: between_def)
  ultimately show "(sin x)\<^sup>2 \<le> (of_int u' / 10 ^ 16)\<^sup>2" by (rule order_trans [rotated])
qed (use assms sin_ge_zero [of x] in simp_all)

lemma cos_256: "between 9999247018391445 (cos (pi / 256)) 9999247018391446"
  and sin_256: "between 122715382857182 (sin (pi / 256)) 122715382857224"
proof -
  have "cos (pi / 4) ^ 2 = 1 / 2" by (simp add: cos_45 power_divide)
  then have c4: "between 7071067811865475 (cos (2 * (pi / 8))) 7071067811865476"
    by (intro between_sqrt) (simp_all add: cos_ge_zero power_divide)
  have c8: "between 9238795325112867 (cos (2 * (pi / 16))) 9238795325112868" using half_angle [OF c4] by simp
  have c16: "between 9807852804032304 (cos (2 * (pi / 32))) 9807852804032305" using half_angle [OF c8] by simp
  have c32: "between 9951847266721968 (cos (2 * (pi / 64))) 9951847266721969" using half_angle [OF c16] by simp
  have c64: "between 9987954562051723 (cos (2 * (pi / 128))) 9987954562051724" using half_angle [OF c32] by simp
  have c128: "between 9996988186962041 (cos (2 * (pi / 256))) 9996988186962043" using half_angle [OF c64] by simp
  show "between 9999247018391445 (cos (pi / 256)) 9999247018391446" using half_angle [OF c128] by simp
  show "between 122715382857182 (sin (pi / 256)) 122715382857224" using half_angle_sin [OF c128] by simp
qed

subsection \<open>The table\<close>

text \<open>One table step turns the angle: the residue of every step is below one unit of the last digit.\<close>

definition step_ok :: "(int \<times> int) \<times> (int \<times> int) \<Rightarrow> bool" where
  "step_ok = (\<lambda>((s, s1), (c, c1)).
     \<bar>10 ^ 16 * c1 - (9999247018391445 * c - 122715382857203 * s)\<bar> \<le> 97 * 10 ^ 14 \<and>
     \<bar>10 ^ 16 * s1 - (9999247018391445 * s + 122715382857203 * c)\<bar> \<le> 97 * 10 ^ 14)"

lemma table_steps: "list_all step_ok (zip (zip sin_512 (tl sin_512)) (zip (rev sin_512) (tl (rev sin_512))))"
  by code_simp

lemma length_512: "length sin_512 = 129"
  by (simp add: sin_512_def)

lemma table_step:
  assumes "k < 128"
  shows "step_ok ((sin_512 ! k, sin_512 ! Suc k), (sin_512 ! (128 - k), sin_512 ! (127 - k)))"
  using table_steps assms by (simp add: list_all_length length_512 nth_tl rev_nth)

subsection \<open>Accuracy\<close>

definition entry :: "nat \<Rightarrow> complex" where
  "entry k = Complex (sin_table_512 ! (128 - k)) (sin_table_512 ! k)"

definition turn :: complex where "turn = Complex (9999247018391445 / 10 ^ 16) (122715382857203 / 10 ^ 16)"

lemma turn_close: "cmod (turn - cis (pi / 256)) \<le> 1 / 10 ^ 13"
proof -
  have "\<bar>Re (turn - cis (pi / 256))\<bar> \<le> 1 / 10 ^ 16" using cos_256 by (simp add: turn_def between_def)
  moreover have "\<bar>Im (turn - cis (pi / 256))\<bar> \<le> 25 / 10 ^ 16"
    using sin_256 unfolding turn_def between_def abs_le_iff by (simp add: field_simps)
  ultimately show ?thesis using cmod_le [of "turn - cis (pi / 256)"] by simp
qed

lemma entry_step:
  assumes "k < 128"
  shows "cmod (entry (Suc k) - turn * entry k) \<le> 194 / 10 ^ 11"
proof -
  define s s1 c c1 where "s = sin_512 ! k" and "s1 = sin_512 ! Suc k" and "c = sin_512 ! (128 - k)" and "c1 = sin_512 ! (127 - k)"
  have st: "step_ok ((s, s1), (c, c1))" using table_step [OF assms] by (simp add: s_def s1_def c_def c1_def)
  have "128 - Suc k = 127 - k" by simp
  then have e: "entry k = Complex (c / 10 ^ 9) (s / 10 ^ 9)" "entry (Suc k) = Complex (c1 / 10 ^ 9) (s1 / 10 ^ 9)"
    using assms by (simp_all add: entry_def sin_table_512_def length_512 s_def s1_def c_def c1_def)
  have "real_of_int \<bar>10 ^ 16 * c1 - (9999247018391445 * c - 122715382857203 * s)\<bar> \<le> real_of_int (97 * 10 ^ 14)"
    "real_of_int \<bar>10 ^ 16 * s1 - (9999247018391445 * s + 122715382857203 * c)\<bar> \<le> real_of_int (97 * 10 ^ 14)"
    using st unfolding step_ok_def prod.case of_int_le_iff by blast+
  then have "\<bar>Re (entry (Suc k) - turn * entry k)\<bar> \<le> 97 / 10 ^ 11" "\<bar>Im (entry (Suc k) - turn * entry k)\<bar> \<le> 97 / 10 ^ 11"
    by (auto simp: e turn_def abs_le_iff field_simps)
  then show ?thesis using cmod_le [of "entry (Suc k) - turn * entry k"] by simp
qed

lemma entry_close: "k \<le> 128 \<Longrightarrow> cmod (entry k - cis (real k * (pi / 256))) \<le> real k * (2 / 10 ^ 9)"
proof (induction k)
  case 0
  have "entry 0 = 1" by (simp add: entry_def sin_table_512_def sin_512_def complex_eq_iff)
  then show ?case by simp
next
  case (Suc k)
  let ?z = "cis (real k * (pi / 256))" and ?w = "cis (pi / 256)"
  have z: "cis (real (Suc k) * (pi / 256)) = ?w * ?z" by (simp add: cis_mult distrib_right add_divide_distrib)
  have w: "cmod turn \<le> 1 + 1 / 10 ^ 13" using norm_triangle_sub [of turn ?w] turn_close by simp
  have "entry (Suc k) - ?w * ?z = (entry (Suc k) - turn * entry k) + (turn * (entry k - ?z) + (turn - ?w) * ?z)" by (simp add: algebra_simps)
  then have "cmod (entry (Suc k) - ?w * ?z) \<le> cmod (entry (Suc k) - turn * entry k) + (cmod (turn * (entry k - ?z)) + cmod ((turn - ?w) * ?z))"
    by (metis norm_triangle_ineq norm_triangle_mono order_refl)
  also have "\<dots> \<le> 194 / 10 ^ 11 + ((1 + 1 / 10 ^ 13) * (real k * (2 / 10 ^ 9)) + 1 / 10 ^ 13)"
    unfolding norm_mult norm_cis mult_1_right using entry_step [of k] Suc turn_close w by (intro add_mono mult_mono) simp_all
  also have "\<dots> \<le> real (Suc k) * (2 / 10 ^ 9)" using Suc.prems by (simp add: field_simps)
  finally show ?case unfolding z .
qed

lemma table_512: "table_ok sin_table_512 SIN_TABLE_N (3 / 10 ^ 7)"
  unfolding table_ok_def
proof (intro allI impI)
  fix k :: nat
  assume "k \<le> 2 ^ (SIN_TABLE_N - 2)"
  then have k: "k \<le> 128" by (simp add: SIN_TABLE_N_def)
  have "\<bar>Im (entry k - cis (real k * (pi / 256)))\<bar> \<le> real k * (2 / 10 ^ 9)"
    using abs_Im_le_cmod entry_close [OF k] by (rule order_trans)
  also have "\<dots> \<le> 3 / 10 ^ 7" using k by simp
  finally show "\<bar>sin_table_512 ! k - sin (2 * pi * real k / 2 ^ SIN_TABLE_N)\<bar> \<le> 3 / 10 ^ 7"
    by (simp add: entry_def SIN_TABLE_N_def mult_ac)
qed

lemma fft_512_error:
  assumes "length x = 512" "r < 512"
  shows "cmod (cx (fft sin_table_512 SIN_TABLE_N FFT_N dir x ! r) - DFT dir FFT_N x r) \<le> 1 / 10 ^ 5 * (\<Sum>t<512. cmod (cx (x ! t)))"
proof -
  have "(1 + 2 * (3 / 10 ^ 7)) ^ 9 - 1 \<le> (1 / 10 ^ 5 :: real)" by (simp add: power_divide field_simps)
  then have "((1 + 2 * (3 / 10 ^ 7)) ^ 9 - 1) * (\<Sum>t<512. cmod (cx (x ! t))) \<le> 1 / 10 ^ 5 * (\<Sum>t<512. cmod (cx (x ! t)))"
    by (intro mult_right_mono) (simp_all add: sum_nonneg)
  moreover have "cmod (cx (fft sin_table_512 SIN_TABLE_N FFT_N dir x ! r) - DFT dir FFT_N x r) \<le>
      ((1 + 2 * (3 / 10 ^ 7)) ^ 9 - 1) * (\<Sum>t<512. cmod (cx (x ! t)))"
    using fft_error [of x FFT_N SIN_TABLE_N sin_table_512 "3 / 10 ^ 7" r dir] table_512 assms by (simp add: FFT_N_def SIN_TABLE_N_def)
  ultimately show ?thesis by (rule order_trans [rotated])
qed

text \<open>C2: The transform of the firmware computes the discrete Fourier transform: for every block of 512
  samples and both directions each point of the result differs from the exact sum by at most one
  hundred-thousandth of the sum of the magnitudes, with the sine table as it stands in the source.\<close>
theorem fft_computes_dft:
  assumes "length x = 512" "r < 512"
  shows "cmod (cx (fft sin_table_512 SIN_TABLE_N FFT_N dir x ! r) - DFT dir FFT_N x r) \<le> 1 / 10 ^ 5 * (\<Sum>t<512. cmod (cx (x ! t)))"
  by (rule fft_512_error [OF assms])

theorem fft_computes_dft_witness:
  "cmod (cx (fft sin_table_512 SIN_TABLE_N FFT_N False (replicate 512 (1, 0)) ! 0) - 512) \<le> 1 / 10 ^ 5 * 512"
proof -
  have "cx (1, 0) = 1" by (simp add: cx_def complex_eq_iff)
  then have "DFT False FFT_N (replicate 512 (1, 0)) 0 = 512" by (simp add: DFT_def FFT_N_def)
  then show ?thesis using fft_computes_dft [of "replicate 512 (1, 0)" 0 False] \<open>cx (1, 0) = 1\<close> by simp
qed

end
