(* ===== verification/Transform.thy ===== *)
theory Transform
  imports SinTable
begin

unbundle bit_operations_syntax

text \<open>
  The processing of a finished sweep in \<^verbatim>\<open>main.c\<close>: smoothing (\<^verbatim>\<open>measurementDataSmooth\<close>) and the
  transformation into the time domain (\<^verbatim>\<open>transform_domain\<close>) with its Kaiser window and its cached scale.
  Arithmetic is over real numbers, the cube root is the exact one.
\<close>

subsection \<open>Smoothing\<close>

definition arifmetic_mean :: "real \<Rightarrow> real \<Rightarrow> real \<Rightarrow> real" where
  "arifmetic_mean v0 v1 v2 = (v0 + 2 * v1 + v2) / 4"

definition geometry_mean :: "real \<Rightarrow> real \<Rightarrow> real \<Rightarrow> real" where
  "geometry_mean v0 v1 v2 = (let v = root 3 \<bar>v0 * v1 * v2\<bar> in if v0 + v1 + v2 < 0 then - v else v)"

definition smooth_step :: "(real \<Rightarrow> real \<Rightarrow> real \<Rightarrow> real) \<Rightarrow> nat \<Rightarrow> cfloat \<times> cfloat list \<Rightarrow> cfloat \<times> cfloat list" where
  "smooth_step f j = (\<lambda>(prev, a).
     (a ! j, a[j := (f (fst prev) (fst (a ! j)) (fst (a ! (j + 1))), f (snd prev) (snd (a ! j)) (snd (a ! (j + 1))))]))"

definition smooth_pass :: "(real \<Rightarrow> real \<Rightarrow> real \<Rightarrow> real) \<Rightarrow> nat \<Rightarrow> cfloat list \<Rightarrow> cfloat list" where
  "smooth_pass f points a = snd (fold (smooth_step f) [1..<points - 1] (a ! 0, a))"

text \<open>Called only with a smoothing factor other than 0.\<close>

definition measurementDataSmooth :: "u16 \<Rightarrow> vna \<Rightarrow> vna" where
  "measurementDataSmooth ch_mask s =
     (let f = (if VNA_MODE VNA_MODE_SMOOTH s then arifmetic_mean else geometry_mean);
          pass = (smooth_pass f (sweep_points (props s)) ^^ (2 ^ (smooth_factor s - 1))) in
      s\<lparr>measured := map (\<lambda>ch. if bit ch_mask ch then pass (measured s ! ch) else measured s ! ch) [0..<2]\<rparr>)"

text \<open>A pass in place is the three-point filter on the old samples: the saved previous sample makes up for
  the overwritten one.\<close>

definition filtered :: "(real \<Rightarrow> real \<Rightarrow> real \<Rightarrow> real) \<Rightarrow> cfloat list \<Rightarrow> nat \<Rightarrow> cfloat" where
  "filtered f a j = (f (fst (a ! (j - 1))) (fst (a ! j)) (fst (a ! (j + 1))), f (snd (a ! (j - 1))) (snd (a ! j)) (snd (a ! (j + 1))))"

lemma smooth_loop:
  assumes "m < length a" "0 < m"
  shows "fst (fold (smooth_step f) [1..<m] (a ! 0, a)) = a ! (m - 1) \<and> length (snd (fold (smooth_step f) [1..<m] (a ! 0, a))) = length a \<and>
    (\<forall>j < length a. snd (fold (smooth_step f) [1..<m] (a ! 0, a)) ! j = (if 0 < j \<and> j < m then filtered f a j else a ! j))"
  using assms
proof (induction m)
  case (Suc m)
  show ?case
  proof (cases "m = 0")
    case False
    obtain q b where qb: "fold (smooth_step f) [1..<m] (a ! 0, a) = (q, b)" by (cases "fold (smooth_step f) [1..<m] (a ! 0, a)")
    then have IH: "q = a ! (m - 1)" "length b = length a" "\<forall>j < length a. b ! j = (if 0 < j \<and> j < m then filtered f a j else a ! j)"
      using Suc False by auto
    have "[1..<Suc m] = [1..<m] @ [m]" using False by simp
    then have "fold (smooth_step f) [1..<Suc m] (a ! 0, a) = smooth_step f m (q, b)" using qb by (simp only: fold_append comp_apply fold.simps id_apply)
    also have "\<dots> = (a ! m, b[m := filtered f a m])"
      using IH Suc.prems False by (simp add: smooth_step_def filtered_def)
    finally have st: "fold (smooth_step f) [1..<Suc m] (a ! 0, a) = (a ! m, b[m := filtered f a m])" .
    show ?thesis unfolding st using IH(2,3) Suc.prems False by (auto simp: nth_list_update less_Suc_eq)
  qed simp
qed simp

text \<open>One smoothing pass, which works in place, computes the three-point filter of the old samples on
  the inner points and leaves the first and the last point alone, for both kinds of mean.\<close>
theorem smooth_pass_filter:
  assumes "2 \<le> points" "points \<le> length a" "j < length a"
  shows "smooth_pass f points a ! j = (if 0 < j \<and> j < points - 1 then filtered f a j else a ! j)"
  using smooth_loop [of "points - 1" a f] assms by (simp add: smooth_pass_def)

theorem smooth_pass_filter_witness:
  "smooth_pass arifmetic_mean 4 [(0, 0), (4, 0), (0, 8), (1, 1)] ! 1 = filtered arifmetic_mean [(0, 0), (4, 0), (0, 8), (1, 1)] 1"
  by (subst smooth_pass_filter) simp_all

subsection \<open>Time domain\<close>

definition TD_FUNC_LOWPASS_IMPULSE :: u16 where "TD_FUNC_LOWPASS_IMPULSE = push_bit 1 1"
definition TD_FUNC_LOWPASS_STEP :: u16 where "TD_FUNC_LOWPASS_STEP = push_bit 1 2"
definition TD_WINDOW_NORMAL :: u16 where "TD_WINDOW_NORMAL = 0"
definition TD_WINDOW_MAXIMUM :: u16 where "TD_WINDOW_MAXIMUM = push_bit 3 2"
definition FFT_SIZE :: nat where "FFT_SIZE = 512"

definition besseli0_k :: "real list" where
  "besseli0_k = [25 / 10 ^ 2, 27777777777777777777777777777778 / 10 ^ 33, 17361111111111111111111111111111 / 10 ^ 34,
     69444444444444444444444444444444 / 10 ^ 36, 19290123456790123456790123456790 / 10 ^ 37,
     39367598891408415217939027462837 / 10 ^ 39, 61511873267825648778029730410683 / 10 ^ 41,
     75940584281266233059295963469979 / 10 ^ 43, 75940584281266233059295963469979 / 10 ^ 45,
     62760813455591928148178482206594 / 10 ^ 47, 43583898233049950102901723754579 / 10 ^ 49]"

definition bessel_I0_ext :: "real \<Rightarrow> real" where
  "bessel_I0_ext z =
     (let ret = fold (\<lambda>i ret. ret * z + besseli0_k ! i) (rev [0..<10]) (besseli0_k ! 10) in z * (z * ret + 1) + 1)"

definition kaiser_window_ext :: "u32 \<Rightarrow> u32 \<Rightarrow> u16 \<Rightarrow> real" where
  "kaiser_window_ext k n beta =
     (if beta = 0 then 1
      else
        let n = n - 1; k = k * (n - k) * ucast beta * ucast beta; n = n * n in
        bessel_I0_ext (real (unat k) / real (unat n)))"

record td_state =
  td_cache :: u16
  window_scale :: real

definition domain_func :: "u16 \<Rightarrow> u16" where "domain_func mode = mode AND TD_FUNC"
definition domain_window :: "u16 \<Rightarrow> u16" where "domain_window mode = mode AND TD_WINDOW"

definition is_lowpass :: "u16 \<Rightarrow> bool" where
  "is_lowpass mode \<longleftrightarrow> domain_func mode = TD_FUNC_LOWPASS_IMPULSE \<or> domain_func mode = TD_FUNC_LOWPASS_STEP"

definition td_beta :: "u16 \<Rightarrow> u16" where
  "td_beta mode = (if domain_window mode = TD_WINDOW_NORMAL then 6 else if domain_window mode = TD_WINDOW_MAXIMUM then 13 else 0)"

definition td_window :: "u16 \<Rightarrow> nat \<Rightarrow> nat \<Rightarrow> real" where
  "td_window mode points i =
     (let offset = (if is_lowpass mode then points else 0) in
      kaiser_window_ext (of_nat (i + offset)) (of_nat (points + offset)) (td_beta mode))"

definition td_check :: "u16 \<Rightarrow> nat \<Rightarrow> u16" where
  "td_check mode points = (mode AND (TD_WINDOW OR TD_FUNC)) OR of_nat (points * 2 ^ 5)"

definition td_scale :: "u16 \<Rightarrow> nat \<Rightarrow> real" where
  "td_scale mode points =
     1 / (if domain_func mode = TD_FUNC_LOWPASS_STEP
          then real FFT_SIZE * bessel_I0_ext (real (unat (td_beta mode)) * real (unat (td_beta mode)) / 4)
          else fold (\<lambda>i w. w + td_window mode points i) [0..<points] 0 *
            (if domain_func mode = TD_FUNC_LOWPASS_IMPULSE then 2 else 1))"

definition td_update :: "u16 \<Rightarrow> nat \<Rightarrow> td_state \<Rightarrow> td_state" where
  "td_update mode points td =
     (if td_cache td \<noteq> td_check mode points
      then td\<lparr>td_cache := td_check mode points, window_scale := td_scale mode points\<rparr> else td)"

definition td_fill :: "u16 \<Rightarrow> nat \<Rightarrow> real \<Rightarrow> cfloat list \<Rightarrow> cfloat list" where
  "td_fill mode points scale data =
     map (\<lambda>i. if i < points then let w = td_window mode points i * scale in (fst (data ! i) * w, snd (data ! i) * w) else (0, 0)) [0..<FFT_SIZE]"

definition mirror_step :: "nat \<Rightarrow> cfloat list \<Rightarrow> cfloat list" where
  "mirror_step i tmp = tmp[FFT_SIZE - i := (fst (tmp ! i), - snd (tmp ! i))]"

definition sum_step :: "nat \<Rightarrow> cfloat list \<Rightarrow> cfloat list" where
  "sum_step i tmp = tmp[i := (fst (tmp ! i) + fst (tmp ! (i - 1)), snd (tmp ! i))]"

definition td_channel :: "u16 \<Rightarrow> nat \<Rightarrow> real \<Rightarrow> cfloat list \<Rightarrow> cfloat list" where
  "td_channel mode points scale data =
     (let tmp = td_fill mode points scale data;
          tmp = (if is_lowpass mode then fold mirror_step [1..<points] tmp else tmp);
          tmp = fft sin_table_512 SIN_TABLE_N FFT_N True tmp;
          tmp = (if is_lowpass mode then map (\<lambda>i. if i < points then (fst (tmp ! i), 0) else tmp ! i) [0..<FFT_SIZE] else tmp);
          tmp = (if domain_func mode = TD_FUNC_LOWPASS_STEP then fold sum_step [1..<points] tmp else tmp) in
      map (\<lambda>i. if i < points then tmp ! i else data ! i) [0..<length data])"

definition transform_domain :: "u16 \<Rightarrow> vna \<Rightarrow> td_state \<Rightarrow> vna \<times> td_state" where
  "transform_domain ch_mask s td =
     (let mode = props_mode (props s); points = sweep_points (props s); td = td_update mode points td in
      (s\<lparr>measured := map (\<lambda>ch. if bit ch_mask ch then td_channel mode points (window_scale td) (measured s ! ch) else measured s ! ch) [0..<2]\<rparr>, td))"

subsection \<open>The cached scale\<close>

definition td_valid :: "td_state \<Rightarrow> bool" where
  "td_valid td \<longleftrightarrow> (\<forall>mode points. 0 < points \<and> points < 2048 \<and> td_cache td = td_check mode points \<longrightarrow> window_scale td = td_scale mode points)"

lemma td_check_value:
  assumes "p < 2048"
  shows "unat (td_check m p) = unat (m AND (TD_WINDOW OR TD_FUNC)) + p * 32" "unat (m AND (TD_WINDOW OR TD_FUNC)) < 32"
proof -
  define a where "a = m AND (TD_WINDOW OR TD_FUNC)"
  have "(TD_WINDOW OR TD_FUNC) AND mask 5 = TD_WINDOW OR TD_FUNC"
    by (simp add: TD_WINDOW_def TD_FUNC_def mask_eq_exp_minus_1)
  then have t: "a = take_bit 5 a" by (simp add: a_def take_bit_eq_mask and.assoc)
  have "unat (take_bit 5 a) < 2 ^ 5" by (simp only: unsigned_take_bit_eq) (simp add: take_bit_eq_mod)
  then have l: "unat a < 32" using t by simp
  then show "unat (m AND (TD_WINDOW OR TD_FUNC)) < 32" by (simp add: a_def)
  have pb: "(of_nat (p * 2 ^ 5) :: u16) = push_bit 5 (of_nat p)" by (simp add: push_bit_eq_mult)
  have "take_bit 5 a AND push_bit 5 (of_nat p) = 0" by (rule bit_word_eqI) (auto simp: bit_simps)
  then have "a AND of_nat (p * 2 ^ 5) = 0" unfolding pb t [symmetric] .
  then have "td_check m p = a + of_nat (p * 2 ^ 5)"
    using word_plus_and_or [of a "of_nat (p * 2 ^ 5)"] unfolding td_check_def a_def [symmetric] by (simp only: add_0)
  moreover have "unat (of_nat (p * 2 ^ 5) :: u16) = p * 32" unfolding unat_of_nat using assms by simp
  ultimately show "unat (td_check m p) = unat (m AND (TD_WINDOW OR TD_FUNC)) + p * 32"
    using l assms by (simp add: unat_word_ariths a_def)
qed

lemma td_check_inj:
  assumes "td_check m p = td_check m' p'" "p < 2048" "p' < 2048"
  shows "p = p'" "m AND (TD_WINDOW OR TD_FUNC) = m' AND (TD_WINDOW OR TD_FUNC)"
proof -
  let ?a = "unat (m AND (TD_WINDOW OR TD_FUNC))" and ?a' = "unat (m' AND (TD_WINDOW OR TD_FUNC))"
  have e: "?a + p * 32 = ?a' + p' * 32" "?a < 32" "?a' < 32"
    using td_check_value [OF assms(2), of m] td_check_value [OF assms(3), of m'] assms(1) by simp_all
  then show "p = p'" by presburger
  then show "m AND (TD_WINDOW OR TD_FUNC) = m' AND (TD_WINDOW OR TD_FUNC)" using e(1) by (simp add: word_unat_eq_iff)
qed

lemma td_scale_cong:
  assumes "m AND (TD_WINDOW OR TD_FUNC) = m' AND (TD_WINDOW OR TD_FUNC)"
  shows "td_scale m p = td_scale m' p"
proof -
  have "domain_func x = (x AND (TD_WINDOW OR TD_FUNC)) AND TD_FUNC" "domain_window x = (x AND (TD_WINDOW OR TD_FUNC)) AND TD_WINDOW" for x
    by (simp_all add: domain_func_def domain_window_def and.assoc TD_WINDOW_def TD_FUNC_def)
  then have "domain_func m = domain_func m'" "domain_window m = domain_window m'" using assms by simp_all
  then show ?thesis by (simp add: td_scale_def td_window_def td_beta_def is_lowpass_def)
qed

lemma td_update_valid:
  assumes "td_valid td" "0 < points" "points < 2048"
  shows "td_valid (td_update mode points td)" "window_scale (td_update mode points td) = td_scale mode points"
proof -
  show w: "window_scale (td_update mode points td) = td_scale mode points"
    using assms by (auto simp: td_update_def td_valid_def)
  have c: "td_cache (td_update mode points td) = td_check mode points" by (simp add: td_update_def)
  show "td_valid (td_update mode points td)"
    unfolding td_valid_def c w
  proof (intro allI impI)
    fix m p
    assume h: "0 < p \<and> p < 2048 \<and> td_check mode points = td_check m p"
    then show "td_scale mode points = td_scale m p"
      using td_check_inj [of mode points m p] assms(3) td_scale_cong [of mode m points] by simp
  qed
qed

text \<open>The transform with the scale computed afresh.\<close>

definition transform_fresh :: "u16 \<Rightarrow> vna \<Rightarrow> vna" where
  "transform_fresh ch_mask s =
     (let mode = props_mode (props s); points = sweep_points (props s) in
      s\<lparr>measured := map (\<lambda>ch. if bit ch_mask ch then td_channel mode points (td_scale mode points) (measured s ! ch) else measured s ! ch) [0..<2]\<rparr>)"

definition td_runs :: "(u16 \<times> vna) list \<Rightarrow> td_state \<Rightarrow> td_state" where
  "td_runs = fold (\<lambda>(mask, s) td. snd (transform_domain mask s td))"

definition points_ok :: "vna \<Rightarrow> bool" where
  "points_ok s \<longleftrightarrow> 0 < sweep_points (props s) \<and> sweep_points (props s) < 2048"

lemma td_runs_valid:
  assumes "td_valid td" "\<forall>(mask, s) \<in> set rs. points_ok s"
  shows "td_valid (td_runs rs td)"
  using assms unfolding td_runs_def
  by (induction rs arbitrary: td) (auto simp: transform_domain_def Let_def points_ok_def td_update_valid)

lemma td_boot_valid: "td_valid \<lparr>td_cache = 0, window_scale = w\<rparr>"
proof -
  have "td_check m p \<noteq> 0" if "0 < p" "p < 2048" for m p
    using td_check_value(1) [OF that(2), of m] that(1) by (metis add_is_0 mult_is_0 not_gr_zero unat_0 zero_neq_numeral)
  then show ?thesis by (auto simp: td_valid_def)
qed

text \<open>C30: The cached window scale never shows: after any history of transforms since the start, with any
  settings, the transform of a sweep is the one with the scale computed afresh from its own settings.\<close>
theorem transform_cache_transparent:
  assumes "\<forall>(mask, s) \<in> set history. points_ok s" "points_ok s"
  shows "fst (transform_domain ch_mask s (td_runs history \<lparr>td_cache = 0, window_scale = w\<rparr>)) = transform_fresh ch_mask s"
proof -
  have "td_valid (td_runs history \<lparr>td_cache = 0, window_scale = w\<rparr>)" by (rule td_runs_valid [OF td_boot_valid assms(1)])
  then show ?thesis
    using td_update_valid(2) assms(2) by (simp add: transform_domain_def transform_fresh_def points_ok_def Let_def)
qed

theorem transform_cache_transparent_witness:
  "fst (transform_domain 1 device0 (td_runs [(3, device0)] \<lparr>td_cache = 0, window_scale = 0\<rparr>)) = transform_fresh 1 device0"
proof -
  have "points_ok device0"
    by (simp add: points_ok_def device0_def props0_def load_default_properties_def POINTS_COUNT_DEFAULT_def SWEEP_POINTS_MAX_def)
  then show ?thesis by (intro transform_cache_transparent) simp_all
qed

subsection \<open>The spectrum\<close>

lemma mirror_loop:
  assumes "length tmp = 512" "m \<le> 512" "1 \<le> m"
  shows "length (fold mirror_step [1..<m] tmp) = 512 \<and> (\<forall>j < 512. fold mirror_step [1..<m] tmp ! j =
    (if j < 256 \<or> m \<le> 512 - j then tmp ! j else (fst (tmp ! (512 - j)), - snd (tmp ! (512 - j)))))"
  using assms(2,3)
proof (induction m)
  case (Suc m)
  show ?case
  proof (cases "m = 0")
    case True
    then show ?thesis using assms(1) by auto
  next
    case False
    define b where "b = fold mirror_step [1..<m] tmp"
    have b: "length b = 512" "\<forall>j < 512. b ! j = (if j < 256 \<or> m \<le> 512 - j then tmp ! j else (fst (tmp ! (512 - j)), - snd (tmp ! (512 - j))))"
      using Suc False by (simp_all add: b_def)
    have "[1..<Suc m] = [1..<m] @ [m]" using False by simp
    then have s: "fold mirror_step [1..<Suc m] tmp = b[512 - m := (fst (b ! m), - snd (b ! m))]"
      by (simp add: b_def mirror_step_def FFT_SIZE_def)
    show ?thesis unfolding s using b Suc.prems False by (auto simp: nth_list_update prod_eq_iff)
  qed
qed simp

definition td_base :: "u16 \<Rightarrow> nat \<Rightarrow> real \<Rightarrow> cfloat list \<Rightarrow> nat \<Rightarrow> complex" where
  "td_base mode points scale data j = (if j < points then of_real (td_window mode points j * scale) * cx (data ! j) else 0)"

definition td_spectrum :: "u16 \<Rightarrow> nat \<Rightarrow> real \<Rightarrow> cfloat list \<Rightarrow> nat \<Rightarrow> complex" where
  "td_spectrum mode points scale data j =
     (if is_lowpass mode \<and> 256 \<le> j \<and> 512 - j < points then cnj (td_base mode points scale data (512 - j))
      else td_base mode points scale data j)"

definition td_input :: "u16 \<Rightarrow> nat \<Rightarrow> real \<Rightarrow> cfloat list \<Rightarrow> cfloat list" where
  "td_input mode points scale data =
     (if is_lowpass mode then fold mirror_step [1..<points] (td_fill mode points scale data) else td_fill mode points scale data)"

lemma td_fill_nth: "length (td_fill mode points scale data) = 512"
  "j < 512 \<Longrightarrow> cx (td_fill mode points scale data ! j) = td_base mode points scale data j"
  by (simp_all add: td_fill_def FFT_SIZE_def td_base_def cx_def Let_def complex_eq_iff)

lemma td_input_spectrum:
  assumes "1 \<le> points" "points \<le> 512"
  shows "length (td_input mode points scale data) = 512"
    "j < 512 \<Longrightarrow> cx (td_input mode points scale data ! j) = td_spectrum mode points scale data j"
proof -
  note m = mirror_loop [OF td_fill_nth(1) assms(2,1), of mode points scale data]
  show "length (td_input mode points scale data) = 512" using m td_fill_nth(1) by (simp add: td_input_def)
  assume j: "j < 512"
  show "cx (td_input mode points scale data ! j) = td_spectrum mode points scale data j"
  proof (cases "is_lowpass mode \<and> 256 \<le> j \<and> 512 - j < points")
    case True
    then have "512 - j < 512" by simp
    have "cx (fst v, - snd v) = cnj (cx v)" for v by (simp add: cx_def complex_eq_iff)
    moreover have "td_input mode points scale data ! j =
        (fst (td_fill mode points scale data ! (512 - j)), - snd (td_fill mode points scale data ! (512 - j)))"
      using m j True by (simp add: td_input_def)
    ultimately show ?thesis using True \<open>512 - j < 512\<close> td_fill_nth(2) by (simp add: td_spectrum_def)
  next
    case False
    then have "td_input mode points scale data ! j = td_fill mode points scale data ! j" using m j by (auto simp: td_input_def)
    then show ?thesis using False td_fill_nth(2) [OF j] by (auto simp: td_spectrum_def)
  qed
qed

lemma sum_loop:
  assumes "m \<le> length tmp" "1 \<le> m"
  shows "length (fold sum_step [1..<m] tmp) = length tmp \<and> (\<forall>j < length tmp. fold sum_step [1..<m] tmp ! j =
    (if j < m then (\<Sum>u\<le>j. fst (tmp ! u), snd (tmp ! j)) else tmp ! j))"
  using assms
proof (induction m)
  case (Suc m)
  show ?case
  proof (cases "m = 0")
    case True
    then show ?thesis by (auto simp: prod_eq_iff)
  next
    case False
    define b where "b = fold sum_step [1..<m] tmp"
    have b: "length b = length tmp" "\<forall>j < length tmp. b ! j = (if j < m then (\<Sum>u\<le>j. fst (tmp ! u), snd (tmp ! j)) else tmp ! j)"
      using Suc False by (simp_all add: b_def)
    have "[1..<Suc m] = [1..<m] @ [m]" using False by simp
    then have s: "fold sum_step [1..<Suc m] tmp = b[m := (fst (b ! m) + fst (b ! (m - 1)), snd (b ! m))]"
      by (simp add: b_def sum_step_def)
    obtain m' where "m = Suc m'" using False by (cases m) auto
    then show ?thesis unfolding s using b Suc.prems by (auto simp: nth_list_update less_Suc_eq)
  qed
qed simp

definition td_exact :: "u16 \<Rightarrow> nat \<Rightarrow> real \<Rightarrow> cfloat list \<Rightarrow> nat \<Rightarrow> complex" where
  "td_exact mode points scale data t = (\<Sum>k<512. wave True 9 ^ (t * k) * td_spectrum mode points scale data k)"

definition td_error :: "u16 \<Rightarrow> nat \<Rightarrow> real \<Rightarrow> cfloat list \<Rightarrow> real" where
  "td_error mode points scale data = 1 / 10 ^ 5 * (\<Sum>k<512. cmod (td_spectrum mode points scale data k))"

lemma td_fft:
  assumes "1 \<le> points" "points \<le> 512" "t < 512"
  shows "cmod (cx (fft sin_table_512 SIN_TABLE_N FFT_N True (td_input mode points scale data) ! t) - td_exact mode points scale data t) \<le>
    td_error mode points scale data"
proof -
  let ?x = "td_input mode points scale data"
  have x: "length ?x = 512" "\<And>j. j < 512 \<Longrightarrow> cx (?x ! j) = td_spectrum mode points scale data j"
    using td_input_spectrum [OF assms(1,2)] by simp_all
  have "DFT True FFT_N ?x t = td_exact mode points scale data t" "(\<Sum>k<512. cmod (cx (?x ! k))) = (\<Sum>k<512. cmod (td_spectrum mode points scale data k))"
    using x(2) by (simp_all add: DFT_def td_exact_def FFT_N_def)
  then show ?thesis using fft_512_error [OF x(1) assms(3), of True] by (simp add: td_error_def)
qed

text \<open>The buffer after the transform and the clearing of imaginary parts.\<close>

definition td_time :: "u16 \<Rightarrow> nat \<Rightarrow> real \<Rightarrow> cfloat list \<Rightarrow> cfloat list" where
  "td_time mode points scale data =
     (let tmp = fft sin_table_512 SIN_TABLE_N FFT_N True (td_input mode points scale data) in
      if is_lowpass mode then map (\<lambda>i. if i < points then (fst (tmp ! i), 0) else tmp ! i) [0..<FFT_SIZE] else tmp)"

lemma td_channel_time:
  "td_channel mode points scale data =
     map (\<lambda>i. if i < points then (if domain_func mode = TD_FUNC_LOWPASS_STEP then fold sum_step [1..<points] (td_time mode points scale data)
        else td_time mode points scale data) ! i else data ! i) [0..<length data]"
  by (simp only: td_channel_def td_time_def td_input_def Let_def)

lemma td_time_lowpass:
  assumes "is_lowpass mode" "1 \<le> points" "points \<le> 512" "t < points"
  shows "snd (td_time mode points scale data ! t) = 0"
    "\<bar>fst (td_time mode points scale data ! t) - Re (td_exact mode points scale data t)\<bar> \<le> td_error mode points scale data"
proof -
  let ?r = "fft sin_table_512 SIN_TABLE_N FFT_N True (td_input mode points scale data) ! t"
  have v: "td_time mode points scale data ! t = (fst ?r, 0)" using assms by (simp add: td_time_def Let_def FFT_SIZE_def)
  then show "snd (td_time mode points scale data ! t) = 0" by simp
  have "fst ?r - Re (td_exact mode points scale data t) = Re (cx ?r - td_exact mode points scale data t)" by simp
  then show "\<bar>fst (td_time mode points scale data ! t) - Re (td_exact mode points scale data t)\<bar> \<le> td_error mode points scale data"
    unfolding v using td_fft [of points t mode scale data] abs_Re_le_cmod [of "cx ?r - td_exact mode points scale data t"] assms by simp
qed



text \<open>C39: In the low-pass modes a sweep of more than 257 points loses its upper part: mirroring overwrites the
  buffer from its middle on, so that two sweeps that agree up to point 256 give the same time domain view.\<close>
theorem lowpass_drops_samples:
  assumes "is_lowpass mode" "1 \<le> points" "points \<le> 512" "points \<le> length data" "length data' = length data"
    and "\<forall>i \<le> 256. data ! i = data' ! i" "t < points"
  shows "td_channel mode points scale data ! t = td_channel mode points scale data' ! t"
proof -
  have "td_spectrum mode points scale data j = td_spectrum mode points scale data' j" if "j < 512" for j
    using assms(1,3,6) by (auto simp: td_spectrum_def td_base_def)
  then have "td_input mode points scale data ! j = td_input mode points scale data' ! j" if "j < 512" for j
    using td_input_spectrum(2) [OF assms(2,3) that] that by (metis cx_inj)
  then have "td_input mode points scale data = td_input mode points scale data'"
    using td_input_spectrum(1) [OF assms(2,3)] by (intro nth_equalityI) simp_all
  then show ?thesis using assms(4,5,7) by (simp add: td_channel_time td_time_def)
qed

theorem lowpass_drops_samples_witness:
  "td_channel 2 401 1 (replicate 401 (0, 0)) ! 0 = td_channel 2 401 1 ((replicate 401 (0, 0))[300 := (1, 0)]) ! 0"
proof -
  have "is_lowpass 2" by (simp add: is_lowpass_def domain_func_def TD_FUNC_def TD_FUNC_LOWPASS_IMPULSE_def)
  then show ?thesis by (rule lowpass_drops_samples) simp_all
qed

end
