(* ===== verification/Shell.thy ===== *)
theory Shell
  imports Storage CalRun Strings Transform
begin

unbundle bit_operations_syntax

text \<open>
  The command shell of \<^verbatim>\<open>main.c\<close>: line input, the table of commands, the commands that change the
  instrument, the two ways a command line is run, and the command file on the memory card.

  A command takes its arguments and the board and gives the board and what it printed; \<open>None\<close> stands
  for a division by zero or an access outside a table.  An output is the format string with its
  arguments (the digits that \<^verbatim>\<open>chprintf.c\<close> makes of them are left out) or a block of binary data.
  The commands that only talk to the card, the display, the clock or the serial port are the parameter
  \<open>io_command\<close> of the table.
\<close>

datatype item = Str string | Num int | Hz u32 | Flt real | Half u16 | Sample cfloat

datatype shell_out = Printf string "item list" | Write item

type_synonym reply = "shell_out list"
type_synonym command = "string list \<Rightarrow> board \<Rightarrow> (board \<times> reply) option"

record rig =
  lay :: layout
  samples :: "nat \<Rightarrow> u32 \<Rightarrow> cfloat"
  junk :: cfloat

definition nl :: string where "nl = [CHR 0x0D, CHR 0x0A]"

definition on_dev :: "(vna \<Rightarrow> vna) \<Rightarrow> board \<Rightarrow> board" where
  "on_dev f b = b\<lparr>dev := f (dev b)\<rparr>"

definition changed :: "(vna \<Rightarrow> vna) \<Rightarrow> board \<Rightarrow> (board \<times> reply) option" where
  "changed f b = Some (on_dev f b, [])"

definition tried :: "(vna \<Rightarrow> vna option) \<Rightarrow> board \<Rightarrow> (board \<times> reply) option" where
  "tried f b = map_option (\<lambda>s. (b\<lparr>dev := s\<rparr>, [])) (f (dev b))"

definition printed :: "string \<Rightarrow> item list \<Rightarrow> board \<Rightarrow> (board \<times> reply) option" where
  "printed fmt args b = Some (b, [Printf fmt args])"

subsection \<open>Sweep control\<close>

definition cmd_pause :: command where
  "cmd_pause argv = changed pause_sweep"

definition cmd_resume :: command where
  "cmd_resume argv = tried (\<lambda>s. map_option resume_sweep (update_frequencies s))"

definition cmd_smooth :: command where
  "cmd_smooth argv b =
     (if length argv \<noteq> 1 then
        printed (''usage: %s'' @ nl @ ''current: %u'' @ nl) [Str ''smooth {0-8}'', Num (int (smooth_factor (dev b)))] b
      else changed (set_smooth_factor (unat (ucast (my_atoui (argv ! 0)) :: u8))) b)"

definition cmd_freq :: command where
  "cmd_freq argv b =
     (if length argv \<noteq> 1 then printed (''usage: freq {frequency(Hz)}'' @ nl) [] b
      else tried (\<lambda>s. let s = pause_sweep s in
        map_option (\<lambda>r. s\<lparr>clk := fst r\<rparr>) (si5351_set_frequency (my_atoui (argv ! 0)) (power (props s)) (clk s))) b)"

definition SI5351_CLK_DRIVE_STRENGTH_8MA :: u8 where "SI5351_CLK_DRIVE_STRENGTH_8MA = 3"
definition SI5351_CLK_DRIVE_STRENGTH_AUTO :: u8 where "SI5351_CLK_DRIVE_STRENGTH_AUTO = 255"

definition set_power :: "u8 \<Rightarrow> vna \<Rightarrow> vna option" where
  "set_power value s =
     (let s = request_to_redraw REDRAW_CAL_STATUS s;
          value = (if value > SI5351_CLK_DRIVE_STRENGTH_8MA then SI5351_CLK_DRIVE_STRENGTH_AUTO else value) in
      if power (props s) = value then Some s
      else
        let s = on_props (power_update (\<lambda>_. value)) s in
        if \<not> has (sweep_mode s) SWEEP_ENABLE then map_option (\<lambda>c. s\<lparr>clk := c\<rparr>) (si5351_set_power value (clk s)) else Some s)"

definition cmd_power :: command where
  "cmd_power argv b =
     (if length argv \<noteq> 1 then
        printed (''usage: power {0-3}|{255 - auto}'' @ nl @ ''power: %d'' @ nl) [Num (uint (power (props (dev b))))] b
      else tried (set_power (ucast (my_atoi (argv ! 0)))) b)"

definition cmd_offset :: command where
  "cmd_offset argv b =
     (if length argv \<noteq> 1 then
        printed (''usage: %s'' @ nl @ ''current: %u'' @ nl) [Str ''offset {frequency offset(Hz)}'', Hz (IF_freq (clk (dev b)))] b
      else changed (clk_update (si5351_set_frequency_offset (my_atoi (argv ! 0)))) b)"

definition cmd_threshold :: command where
  "cmd_threshold argv b =
     (if length argv \<noteq> 1 then
        printed (''usage: %s'' @ nl @ ''current: %u'' @ nl)
          [Str ''threshold {frequency in harmonic mode}'', Hz (harmonic_freq_threshold (clk (dev b)))] b
      else changed (clk_update (harmonic_freq_threshold_update (\<lambda>_. my_atoui (argv ! 0)))) b)"

definition cmd_tcxo :: command where
  "cmd_tcxo argv b =
     (if length argv \<noteq> 1 then
        printed (''usage: %s'' @ nl @ ''current: %u'' @ nl) [Str ''tcxo {TCXO frequency(Hz)}'', Hz (xtal_freq (clk (dev b)))] b
      else changed (clk_update (si5351_set_tcxo (my_atoui (argv ! 0)))) b)"

definition MAX_BANDWIDTH :: u16 where "MAX_BANDWIDTH = 192000 div 48"
definition MIN_BANDWIDTH :: u16 where "MIN_BANDWIDTH = (192000 div 48) div 512 + 1"

definition bandwidth_reply :: "board \<Rightarrow> board \<times> reply" where
  "bandwidth_reply b = (b, [Printf (''bandwidth %d (%uHz)'' @ nl)
     [Num (int (bandwidth (config (dev b)))), Num (int (get_bandwidth_frequency (bandwidth (config (dev b)))))]])"

definition cmd_bandwidth :: command where
  "cmd_bandwidth argv b =
     (if length argv = 1 then
        Some (bandwidth_reply (on_dev (set_bandwidth (unat (ucast (my_atoui (argv ! 0)) :: u16))) b))
      else if length argv = 2 then
        let f = ucast (my_atoui (argv ! 0)) :: u16;
            user_bw = (if f > MAX_BANDWIDTH then 0 else if f < MIN_BANDWIDTH then 511
                       else ucast (((192000 + 48 div 2) div 48) div (ucast f :: u32) - 1) :: u16) in
        Some (bandwidth_reply (on_dev (set_bandwidth (unat user_bw)) b))
      else Some (bandwidth_reply b))"

subsection \<open>Modes\<close>

definition VNA_MODE_CLR :: u32 where "VNA_MODE_CLR = 0"
definition VNA_MODE_SET :: u32 where "VNA_MODE_SET = 1"

definition VNA_MODE_TIFF :: nat where "VNA_MODE_TIFF = 9"
definition VNA_MODE_PNG :: nat where "VNA_MODE_PNG = 10"

definition REDRAW_CLRSCR :: u16 where "REDRAW_CLRSCR = push_bit 9 1"
definition REDRAW_BATTERY :: u16 where "REDRAW_BATTERY = push_bit 8 1"
definition REDRAW_ALL :: u16 where
  "REDRAW_ALL = REDRAW_CLRSCR OR REDRAW_AREA OR REDRAW_CAL_STATUS OR REDRAW_BATTERY OR REDRAW_FREQUENCY"

definition vna_mode_data :: "u16 list" where
  "vna_mode_data =
   [REDRAW_BACKUP, REDRAW_BACKUP, REDRAW_BACKUP, REDRAW_BACKUP,
    REDRAW_BACKUP OR REDRAW_AREA, REDRAW_BACKUP OR REDRAW_AREA, REDRAW_BACKUP, REDRAW_BACKUP OR REDRAW_ALL,
    REDRAW_BACKUP OR REDRAW_MARKER OR REDRAW_FREQUENCY, REDRAW_BACKUP, REDRAW_BACKUP, REDRAW_BACKUP, REDRAW_BACKUP]"

text \<open>The console reset and the flip of the display that follow two of the modes are left out.\<close>

definition apply_VNA_mode :: "nat \<Rightarrow> u32 \<Rightarrow> vna \<Rightarrow> vna" where
  "apply_VNA_mode idx operation s =
     (let m = push_bit idx 1; old = vna_mode (config s);
          new = (if operation = VNA_MODE_CLR then old AND NOT m
                 else if operation = VNA_MODE_SET then old OR m else old XOR m) in
      if new = old then s
      else request_to_redraw (vna_mode_data ! idx) (s\<lparr>config := (config s)\<lparr>vna_mode := new\<rparr>\<rparr>))"

definition cmd_mode_list :: string where
  "cmd_mode_list = ''auto|avg|connection|mode|grid|dot|bk|flip|separator|tif''"

definition cmd_config :: command where
  "cmd_config argv b =
     (let idx = get_str_index (argv ! 0) cmd_mode_list in
      if length argv = 2 \<and> idx \<ge> 0 then changed (apply_VNA_mode (nat idx) (my_atoui (argv ! 1))) b
      else printed (''usage: config {%s} [0|1]'' @ nl) [Str cmd_mode_list] b)"

definition cmd_measure_list :: string where
  "cmd_measure_list = ''none|lc|lcshunt|lcseries|xtal|filter|cable|resonance''"

definition cmd_measure :: command where
  "cmd_measure argv b =
     (let idx = get_str_index (argv ! 0) cmd_measure_list in
      if length argv = 1 \<and> idx \<ge> 0 then Some (plot_set_measure_mode (nat idx) b, [])
      else printed (''usage: measure {%s}'' @ nl) [Str cmd_measure_list] b)"

definition cmd_transform_list :: string where
  "cmd_transform_list = ''on|off|impulse|step|bandpass|minimum|normal|maximum''"

definition transform_option :: "int \<Rightarrow> (vna \<Rightarrow> vna) option" where
  "transform_option i =
     (if i = 0 then Some (set_domain_mode DOMAIN_TIME)
      else if i = 1 then Some (set_domain_mode DOMAIN_FREQ)
      else if i = 2 then Some (set_timedomain_func TD_FUNC_LOWPASS_IMPULSE)
      else if i = 3 then Some (set_timedomain_func TD_FUNC_LOWPASS_STEP)
      else if i = 4 then Some (set_timedomain_func 0)
      else if i = 5 then Some (set_timedomain_window 0)
      else if i = 6 then Some (set_timedomain_window TD_WINDOW_NORMAL)
      else if i = 7 then Some (set_timedomain_window TD_WINDOW_MAXIMUM)
      else None)"

fun transform_loop :: "string list \<Rightarrow> board \<Rightarrow> (board \<times> reply) option" where
  "transform_loop [] b = Some (b, [])"
| "transform_loop (a # argv) b = (case transform_option (get_str_index a cmd_transform_list) of
     Some f \<Rightarrow> transform_loop argv (on_dev f b)
   | None \<Rightarrow> printed (''usage: transform {%s} [...]'' @ nl) [Str cmd_transform_list] b)"

definition cmd_transform :: command where
  "cmd_transform argv b =
     (if argv = [] then printed (''usage: transform {%s} [...]'' @ nl) [Str cmd_transform_list] b else transform_loop argv b)"

definition cmd_vbat_offset :: command where
  "cmd_vbat_offset argv b =
     (if length argv \<noteq> 1 then printed (''%d'' @ nl) [Num (int (vbat_offset (config (dev b))))] b
      else changed (config_update (vbat_offset_update (\<lambda>_. unat (ucast (my_atoi (argv ! 0)) :: u16)))) b)"

definition MAX_PALETTE :: nat where "MAX_PALETTE = 32"

definition cmd_color :: command where
  "cmd_color argv b =
     (if length argv \<noteq> 2 then
        Some (b, Printf (''usage: color {id} {rgb24}'' @ nl) [] #
          map (\<lambda>i. Printf ('' %2d: 0x%06x'' @ nl) [Num (int i), Hz (HEXRGB (ucast (lcd_palette (config (dev b)) ! i)))]) [0..<MAX_PALETTE])
      else
        let i = unat (ucast (my_atoui (argv ! 0)) :: u16) in
        if i \<ge> MAX_PALETTE then Some (b, [])
        else changed (\<lambda>s. request_to_redraw REDRAW_ALL
          (s\<lparr>config := (config s)\<lparr>lcd_palette := (lcd_palette (config s))[i := ucast (RGBHEX (my_atoui (argv ! 1)))]\<rparr>\<rparr>)) b)"

definition cmd_usart_cfg :: command where
  "cmd_usart_cfg argv b =
     (if length argv \<noteq> 1 then printed (''Serial: %u baud'' @ nl) [Hz (serial_speed (config (dev b)))] b
      else
        let speed = my_atoui (argv ! 0); speed = (if speed < 300 then 300 else speed) in
        changed (config_update (serial_speed_update (\<lambda>_. speed))) b)"

subsection \<open>Stimulus\<close>

definition sweep_cmd :: string where
  "sweep_cmd = ''start|stop|center|span|cw|step|var''"

definition sweep_types :: "sweep_type list" where
  "sweep_types = [ST_START, ST_STOP, ST_CENTER, ST_SPAN, ST_CW, ST_STEP, ST_VAR]"

definition cmd_sweep :: command where
  "cmd_sweep argv b =
     (let argc = length argv;
          usage = printed (''usage: sweep {start(Hz)} [stop(Hz)] [points]'' @ nl @ [CHR 0x09] @ ''sweep {%s} {freq(Hz)}'' @ nl) [Str sweep_cmd] b in
      if argc = 0 then
        printed (''%u %u %d'' @ nl) [Hz (get_sweep_frequency ST_START (props (dev b))), Hz (get_sweep_frequency ST_STOP (props (dev b))),
          Num (int (sweep_points (props (dev b))))] b
      else if argc > 3 then usage
      else
        let value0 = (if argc \<ge> 1 then my_atoui (argv ! 0) else 0);
            value1 = (if argc \<ge> 2 then my_atoui (argv ! 1) else 0);
            value2 = (if argc \<ge> 3 then my_atoui (argv ! 2) else 0) in
        if argc = 2 \<and> value0 = 0 then
          let type = get_str_index (argv ! 0) sweep_cmd in
          if type = - 1 then usage else tried (set_sweep_frequency (sweep_types ! nat type) value1) b
        else tried (\<lambda>s.
          Option.bind (if value0 \<noteq> 0 then set_sweep_frequency ST_START value0 s else Some s) (\<lambda>s.
          Option.bind (if value1 \<noteq> 0 then set_sweep_frequency ST_STOP value1 s else Some s) (\<lambda>s.
          if value2 \<noteq> 0 then set_sweep_points (unat (ucast value2 :: u16)) s else Some s))) b)"

definition SCAN_MASK_OUT_FREQ :: u16 where "SCAN_MASK_OUT_FREQ = 0b00000001"
definition SCAN_MASK_OUT_DATA0 :: u16 where "SCAN_MASK_OUT_DATA0 = 0b00000010"
definition SCAN_MASK_OUT_DATA1 :: u16 where "SCAN_MASK_OUT_DATA1 = 0b00000100"
definition SCAN_MASK_NO_CALIBRATION :: u16 where "SCAN_MASK_NO_CALIBRATION = 0b00001000"
definition SCAN_MASK_NO_EDELAY :: u16 where "SCAN_MASK_NO_EDELAY = 0b00010000"
definition SCAN_MASK_NO_S21OFFS :: u16 where "SCAN_MASK_NO_S21OFFS = 0b00100000"
definition SCAN_MASK_BINARY :: u16 where "SCAN_MASK_BINARY = 0b10000000"

definition scan_channels :: "nat \<Rightarrow> u16 \<Rightarrow> u32 \<Rightarrow> u32 \<Rightarrow> properties \<Rightarrow> u16" where
  "scan_channels argc m start stop p =
     (let ch = (if argc = 4 then drop_bit 1 m AND 3 else SWEEP_CH0_MEASURE OR SWEEP_CH1_MEASURE);
          ch = (if has (cal_status p) CALSTAT_APPLY \<and> \<not> has m SCAN_MASK_NO_CALIBRATION then ch OR SWEEP_APPLY_CALIBRATION else ch);
          ch = (if electrical_delay p ! 0 \<noteq> 0 \<and> \<not> has m SCAN_MASK_NO_EDELAY then ch OR SWEEP_APPLY_EDELAY_S11 else ch);
          ch = (if electrical_delay p ! 1 \<noteq> 0 \<and> \<not> has m SCAN_MASK_NO_EDELAY then ch OR SWEEP_APPLY_EDELAY_S21 else ch);
          ch = (if s21_offset p \<noteq> 0 \<and> \<not> has m SCAN_MASK_NO_S21OFFS then ch OR SWEEP_APPLY_S21_OFFSET else ch) in
      if needInterpolate start stop (sweep_points p) p then ch OR SWEEP_USE_INTERPOLATION else ch)"

definition scan_line :: "u16 \<Rightarrow> vna \<Rightarrow> nat \<Rightarrow> reply" where
  "scan_line m s i =
     (if has m SCAN_MASK_BINARY then
        (if has m SCAN_MASK_OUT_FREQ then [Write (Hz (getFrequency i s))] else []) @
        (if has m SCAN_MASK_OUT_DATA0 then [Write (Sample (measured s ! 0 ! i))] else []) @
        (if has m SCAN_MASK_OUT_DATA1 then [Write (Sample (measured s ! 1 ! i))] else [])
      else
        (if has m SCAN_MASK_OUT_FREQ then [Printf ''%u '' [Hz (getFrequency i s)]] else []) @
        (if has m SCAN_MASK_OUT_DATA0 then [Printf ''%f %f '' [Flt (fst (measured s ! 0 ! i)), Flt (snd (measured s ! 0 ! i))]] else []) @
        (if has m SCAN_MASK_OUT_DATA1 then [Printf ''%f %f '' [Flt (fst (measured s ! 1 ! i)), Flt (snd (measured s ! 1 ! i))]] else []) @
        [Printf nl []])"

definition scan_output :: "u16 \<Rightarrow> nat \<Rightarrow> vna \<Rightarrow> reply" where
  "scan_output m points s =
     (if m = 0 then []
      else (if has m SCAN_MASK_BINARY then [Write (Half m), Write (Half (of_nat points))] else []) @
        concat (map (scan_line m s) [0..<points]))"

text \<open>The part of \<^verbatim>\<open>cmd_scan\<close> after its arguments have been accepted.\<close>

definition scan_run :: "rig \<Rightarrow> u32 \<Rightarrow> u32 \<Rightarrow> nat \<Rightarrow> u16 \<Rightarrow> u16 \<Rightarrow> board \<Rightarrow> (board \<times> reply) option" where
  "scan_run E start stop points m sweep_ch b =
     Option.bind (set_frequencies start stop points (on_props (sweep_points_update (\<lambda>_. points)) (dev b))) (\<lambda>s.
     Option.bind (if has sweep_ch (SWEEP_CH0_MEASURE OR SWEEP_CH1_MEASURE)
                  then map_option fst (sweep (samples E) (\<lambda>_. False) (junk E) False sweep_ch s) else Some s) (\<lambda>s.
     let s = pause_sweep s in
     Some (b\<lparr>dev := s\<rparr>, scan_output m points s)))"

definition cmd_scan :: "rig \<Rightarrow> command" where
  "cmd_scan E argv b =
     (let argc = length argv in
      if argc < 2 \<or> argc > 4 then printed (''usage: scan {start(Hz)} {stop(Hz)} [points] [outmask]'' @ nl) [] b
      else
        let start = my_atoui (argv ! 0); stop = my_atoui (argv ! 1) in
        if start = 0 \<or> stop = 0 \<or> start > stop then printed (''frequency range is invalid'' @ nl) [] b
        else
          let points = (if argc \<ge> 3 then unat (ucast (my_atoui (argv ! 2)) :: u16) else sweep_points (props (dev b))) in
          if argc \<ge> 3 \<and> (points = 0 \<or> points > SWEEP_POINTS_MAX) then printed (''sweep points exceeds range 401'' @ nl) [] b
          else
            let b = (if argc \<ge> 3 then on_dev (on_props (sweep_points_update (\<lambda>_. points))) b else b);
                m = (if argc = 4 then ucast (my_atoui (argv ! 3)) else 0);
                m = (if argc = 4 \<and> has (sweep_mode (dev b)) SWEEP_BINARY then m OR SCAN_MASK_BINARY else m);
                b = on_dev (sweep_mode_update (\<lambda>w. w AND NOT SWEEP_BINARY)) b in
            scan_run E start stop points m (scan_channels argc m start stop (props (dev b))) b)"

definition cmd_scan_bin :: "rig \<Rightarrow> command" where
  "cmd_scan_bin E argv b =
     map_option (\<lambda>(b, r). (on_dev (sweep_mode_update (\<lambda>w. w AND NOT SWEEP_BINARY)) b, r))
       (cmd_scan E argv (on_dev (sweep_mode_update (\<lambda>w. w OR SWEEP_BINARY)) b))"

definition cmd_frequencies :: command where
  "cmd_frequencies argv b =
     Some (b, map (\<lambda>i. Printf (''%u'' @ nl) [Hz (getFrequency i (dev b))]) [0..<sweep_points (props (dev b))])"

definition cmd_data :: command where
  "cmd_data argv b =
     (let sel = (if length argv = 1 then sint (my_atoi (argv ! 0)) else 0) in
      if sel < 0 \<or> sel \<ge> 7 then printed (''usage: data [array]'' @ nl) [] b
      else
        let arr = (if sel < 2 then measured (dev b) ! nat sel else cal_data (props (dev b)) ! nat (sel - 2)) in
        Some (b, map (\<lambda>i. Printf (''%f %f'' @ nl) [Flt (fst (arr ! i)), Flt (snd (arr ! i))]) [0..<sweep_points (props (dev b))]))"

subsection \<open>Calibration and storage\<close>

definition cmd_cal_list :: string where
  "cmd_cal_list = ''load|open|short|thru|isoln|done|on|off|reset''"

definition cal_items :: "string list" where
  "cal_items = [''load'', ''open'', ''short'', ''thru'', ''isoln'', ''Es'', ''Er'', ''Et'', ''cal'' @ [CHR 0x27] @ ''ed'']"

definition cmd_cal :: "rig \<Rightarrow> command" where
  "cmd_cal E argv b =
     (if argv = [] then
        Some (b, map (\<lambda>i. Printf ''%s '' [Str (cal_items ! i)])
          (filter (\<lambda>i. has (cal_status (props (dev b))) (push_bit i 1)) [0..<9]) @ [Printf nl []])
      else
        let b = on_dev (request_to_redraw REDRAW_CAL_STATUS) b;
            i = get_str_index (argv ! 0) cmd_cal_list in
        if i = 0 then tried (cal_collect (samples E) (junk E) CAL_LOAD) b
        else if i = 1 then tried (cal_collect (samples E) (junk E) CAL_OPEN) b
        else if i = 2 then tried (cal_collect (samples E) (junk E) CAL_SHORT) b
        else if i = 3 then tried (cal_collect (samples E) (junk E) CAL_THRU) b
        else if i = 4 then tried (cal_collect (samples E) (junk E) CAL_ISOLN) b
        else if i = 5 then changed cal_done b
        else if i = 6 then changed (on_props (cal_status_update (\<lambda>w. w OR CALSTAT_APPLY))) b
        else if i = 7 then changed (on_props (cal_status_update (\<lambda>w. w AND NOT CALSTAT_APPLY))) b
        else if i = 8 then changed (on_props (cal_status_update (\<lambda>_. 0))) b
        else printed (''usage: cal [%s]'' @ nl) [Str cmd_cal_list] b)"

definition cmd_save :: "rig \<Rightarrow> command" where
  "cmd_save E argv b =
     (if length argv = 1 \<and> unat (my_atoui (argv ! 0)) < SAVEAREA_MAX then
        Some (on_dev (request_to_redraw REDRAW_CAL_STATUS) (fst (caldata_save (lay E) (unat (my_atoui (argv ! 0))) b)), [])
      else printed (''usage: %s 0..%d'' @ nl) [Str ''save'', Num (int (SAVEAREA_MAX - 1))] b)"

definition cmd_recall :: "rig \<Rightarrow> command" where
  "cmd_recall E argv b =
     (if length argv = 1 \<and> unat (my_atoui (argv ! 0)) < SAVEAREA_MAX then
        map_option (\<lambda>(b, r). (b, if r \<noteq> 0 then [Printf (''Err, default load'' @ nl) []] else []))
          (load_properties (lay E) (unat (my_atoui (argv ! 0))) b)
      else printed (''usage: %s 0..%d'' @ nl) [Str ''recall'', Num (int (SAVEAREA_MAX - 1))] b)"

definition cmd_saveconfig :: "rig \<Rightarrow> command" where
  "cmd_saveconfig E argv b = Some (fst (config_save (lay E) b), [Printf (''Config saved'' @ nl) []])"

definition cmd_clearconfig :: command where
  "cmd_clearconfig argv b =
     (if length argv \<noteq> 1 then printed (''usage: clearconfig {protection key}'' @ nl) [] b
      else if get_str_index (argv ! 0) ''1234'' \<noteq> 0 then printed (''Key unmatched.'' @ nl) [] b
      else Some (clear_all_config_prop_data b, [Printf (''Config and all cal data cleared.'' @ nl @
        ''Do reset manually to take effect. Then do touch cal and save.'' @ nl) []]))"

subsection \<open>Traces\<close>

text \<open>Name, default reference position and default scale of every trace type.\<close>

definition trace_info_list :: "(string \<times> real \<times> real) list" where
  "trace_info_list =
   [(''LOGMAG'', real (NGRIDY - 1), 10),
    (''PHASE'', real (NGRIDY div 2), 90),
    (''DELAY'', real (NGRIDY div 2), 1 / 10 ^ 9),
    (''SMITH'', 0, 1),
    (''POLAR'', 0, 1),
    (''LINEAR'', 0, 0.125),
    (''SWR'', 0, 0.25),
    (''REAL'', real (NGRIDY div 2), 0.25),
    (''IMAG'', real (NGRIDY div 2), 0.25),
    (''R'', 0, 100),
    (''X'', real (NGRIDY div 2), 100),
    (''|Z|'', 0, 50),
    (''Z phase'', real (NGRIDY div 2), 90),
    (''G'', 0, 0.01),
    (''B'', real (NGRIDY div 2), 0.01),
    (''|Y|'', 0, 0.02),
    (''Rp'', 0, 100),
    (''Xp'', real (NGRIDY div 2), 100),
    (''Cs'', real (NGRIDY div 2), 1 / 10 ^ 8),
    (''Ls'', real (NGRIDY div 2), 1 / 10 ^ 8),
    (''Cp'', real (NGRIDY div 2), 1 / 10 ^ 8),
    (''Lp'', real (NGRIDY div 2), 1 / 10 ^ 8),
    (''Q'', 0, 10),
    (''Rser'', real (NGRIDY div 2), 100),
    (''Xser'', real (NGRIDY div 2), 100),
    (''|Zser|'', real (NGRIDY div 2), 100),
    (''Rsh'', real (NGRIDY div 2), 100),
    (''Xsh'', real (NGRIDY div 2), 100),
    (''|Zsh|'', real (NGRIDY div 2), 100),
    (''Q'', 0, 10),
    (''SWR ANT'', 0, 0.25)]"

definition MAX_TRACE_TYPE :: nat where "MAX_TRACE_TYPE = 31"
definition MS_END :: nat where "MS_END = 13"

definition get_trace_typename :: "nat \<Rightarrow> nat \<Rightarrow> string" where
  "get_trace_typename t marker_smith_format =
     (if t = TRC_SMITH \<and> ADMIT_MARKER_VALUE marker_smith_format then ''ADMIT'' else fst (trace_info_list ! t))"

definition get_trace_chname :: "nat \<Rightarrow> vna \<Rightarrow> string" where
  "get_trace_chname t s = [''S11'', ''S21''] ! (tr_channel (traces (props s) ! t) mod 2)"

definition set_trace_type :: "nat \<Rightarrow> nat \<Rightarrow> nat \<Rightarrow> vna \<Rightarrow> vna" where
  "set_trace_type t type channel s =
     (let channel = channel mod 2;
          tr = traces (props s) ! t in
      if \<not> (tr_type tr \<noteq> type \<or> tr_channel tr \<noteq> channel) then s
      else
        let s = (if tr_type tr \<noteq> type then
                   let s = on_trace t (tr_type_update (\<lambda>_. type)) s;
                       s = set_trace_refpos t (fst (snd (trace_info_list ! type))) s;
                       s = set_trace_scale t (snd (snd (trace_info_list ! type))) s in
                   request_to_redraw (REDRAW_AREA OR REDRAW_PLOT OR REDRAW_BACKUP) s
                 else s) in
        set_trace_channel t channel s)"

definition cmd_type_list :: string where
  "cmd_type_list = ''logmag|phase|delay|smith|polar|linear|swr|real|imag|r|x|z|zp|g|b|y|rp|xp|cs|ls|cp|lp|q|rser|xser|zser|rsh|xsh|zsh|q21|swrant''"

definition cmd_marker_smith :: string where
  "cmd_marker_smith = ''lin|log|ri|rx|rlc|gb|glc|rpxp|rplc|rxsh|rlcsh|rxser|rlcser''"

definition cmd_scale_ref_list :: string where "cmd_scale_ref_list = ''scale|refpos''"

definition trace_usage :: "board \<Rightarrow> (board \<times> reply) option" where
  "trace_usage = printed (''trace {0|1|2|3|all} [%s] [src]'' @ nl @ ''trace {0|1|2|3} [%s]'' @ nl @ ''trace {0|1|2|3} {%s} {value}'' @ nl)
     [Str cmd_type_list, Str cmd_marker_smith, Str cmd_scale_ref_list]"

definition trace_row :: "vna \<Rightarrow> nat \<Rightarrow> shell_out" where
  "trace_row s t = (let tr = traces (props s) ! t in
     Printf (''%d %s %s %f %f'' @ nl) [Num (int t), Str (get_trace_typename (tr_type tr) 0), Str (get_trace_chname t s), Flt (tr_scale tr), Flt (tr_refpos tr)])"

definition cmd_trace :: command where
  "cmd_trace argv b =
     (let argc = length argv; s = dev b in
      if argc = 0 then
        Some (b, map (trace_row s) (filter (\<lambda>t. tr_enabled (traces (props s) ! t)) [0..<TRACES_MAX]))
      else if get_str_index (argv ! 0) ''all'' = 0 \<and> argc > 1 \<and> get_str_index (argv ! 1) ''off'' = 0 then
        changed (fold (\<lambda>t. set_trace_enable t False) [0..<TRACES_MAX]) b
      else
        let t = unat (my_atoi (argv ! 0)) in
        if t \<ge> TRACES_MAX then trace_usage b
        else if argc = 1 then
          printed (''%d %s %s'' @ nl) [Num (int t), Str (get_trace_typename (tr_type (traces (props s) ! t)) 0), Str (get_trace_chname t s)] b
        else if get_str_index (argv ! 1) ''off'' = 0 then changed (set_trace_enable t False) b
        else
          let type = get_str_index (argv ! 1) cmd_type_list in
          if type \<ge> 0 then
            let src = (if argc > 2 then my_atoi (argv ! 2) else of_nat (tr_channel (traces (props s) ! t))) in
            if argc > 2 \<and> src > 1 then trace_usage b
            else changed (\<lambda>s. set_trace_enable t True (set_trace_type t (nat type) (unat src) s)) b
          else
            let format = get_str_index (argv ! 1) cmd_marker_smith in
            if format \<ge> 0 then changed (on_trace t (tr_smith_format_update (\<lambda>_. nat format))) b
            else if argc \<ge> 3 then
              let k = get_str_index (argv ! 1) cmd_scale_ref_list in
              if k = 0 then changed (set_trace_scale t (my_atof (argv ! 2))) b
              else if k = 1 then changed (set_trace_refpos t (my_atof (argv ! 2))) b
              else trace_usage b
            else Some (b, []))"

definition cmd_edelay_list :: string where "cmd_edelay_list = ''s11|s21''"

definition edelay_usage :: "nat \<Rightarrow> board \<Rightarrow> (board \<times> reply) option" where
  "edelay_usage ch b = printed (''%f'' @ nl) [Flt (electrical_delay (props (dev b)) ! ch * (1 / (1 / 10 ^ 12)))] b"

definition cmd_edelay :: command where
  "cmd_edelay argv b =
     (if length argv \<ge> 1 then
        let idx = get_str_index (argv ! 0) cmd_edelay_list in
        if idx = - 1 then changed (set_electrical_delay 0 (my_atof (argv ! 0) * (1 / 10 ^ 12))) b
        else if length argv \<noteq> 2 then edelay_usage (nat idx) b
        else changed (set_electrical_delay (nat idx) (my_atof (argv ! 0) * (1 / 10 ^ 12))) b
      else edelay_usage 0 b)"

definition cmd_s21offset :: command where
  "cmd_s21offset argv b =
     (if length argv \<noteq> 1 then printed (''%f'' @ nl) [Flt (s21_offset (props (dev b)))] b
      else changed (set_s21_offset (my_atof (argv ! 0))) b)"

subsection \<open>Markers\<close>

definition cmd_marker_list :: string where "cmd_marker_list = ''on|off''"

definition marker_row :: "vna \<Rightarrow> nat \<Rightarrow> shell_out" where
  "marker_row s t = (let mk = markers (props s) ! t in
     Printf (''%d %d %u'' @ nl) [Num (int t + 1), Num (int (mk_index mk)), Hz (mk_frequency mk)])"

definition enable_marker :: "nat \<Rightarrow> bool \<Rightarrow> vna \<Rightarrow> vna" where
  "enable_marker t e = on_marker t (mk_enabled_update (\<lambda>_. e))"

definition select_marker :: "int \<Rightarrow> vna \<Rightarrow> vna" where
  "select_marker t = on_props (active_marker_update (\<lambda>_. t))"

definition cmd_marker :: command where
  "cmd_marker argv b =
     (if argv = [] then
        Some (b, map (marker_row (dev b)) (filter (\<lambda>t. mk_enabled (markers (props (dev b)) ! t)) [0..<MARKERS_MAX]))
      else
        let b = on_dev (request_to_redraw (REDRAW_MARKER OR REDRAW_AREA)) b;
            enable = get_str_index (argv ! 0) cmd_marker_list in
        if enable \<ge> 0 then
          changed (\<lambda>s. fold (\<lambda>t. enable_marker t (enable = 0)) [0..<MARKERS_MAX]
            (select_marker (if enable = 1 then MARKER_INVALID else 0) s)) b
        else
          let t = sint (my_atoi (argv ! 0) - 1) in
          if t < 0 \<or> t \<ge> int MARKERS_MAX then printed (''marker [n] [%s|{index}]'' @ nl) [Str cmd_marker_list] b
          else if length argv = 1 then
            Some (on_dev (\<lambda>s. enable_marker (nat t) True (select_marker t s)) b, [marker_row (dev b) (nat t)])
          else
            let k = get_str_index (argv ! 1) cmd_marker_list in
            if k = 0 then changed (\<lambda>s. select_marker t (enable_marker (nat t) True s)) b
            else if k = 1 then changed (\<lambda>s. let s = enable_marker (nat t) False s in
                if active_marker (props s) = t then select_marker MARKER_INVALID s else s) b
            else changed (\<lambda>s. select_marker t (set_marker_index t (sint (my_atoi (argv ! 1))) (enable_marker (nat t) True s))) b)"

subsection \<open>The table of commands\<close>

definition CMD_WAIT_MUTEX :: u16 where "CMD_WAIT_MUTEX = 1"
definition CMD_BREAK_SWEEP :: u16 where "CMD_BREAK_SWEEP = 2"
definition CMD_RUN_IN_UI :: u16 where "CMD_RUN_IN_UI = 4"
definition CMD_RUN_IN_LOAD :: u16 where "CMD_RUN_IN_LOAD = 8"

lemmas cmd_flags = CMD_WAIT_MUTEX_def CMD_BREAK_SWEEP_def CMD_RUN_IN_UI_def CMD_RUN_IN_LOAD_def

type_synonym VNAShellCommand = "string \<times> command \<times> u16"

definition command_names :: "string list" where
  "command_names = [''scan'', ''scan_bin'', ''data'', ''frequencies'', ''freq'', ''sweep'', ''power'', ''offset'', ''bandwidth'', ''time'',
    ''sd_list'', ''sd_read'', ''sd_delete'', ''saveconfig'', ''clearconfig'', ''dump'', ''touchcal'', ''touchtest'', ''pause'', ''resume'',
    ''msg'', ''cal'', ''save'', ''recall'', ''trace'', ''marker'', ''edelay'', ''s21offset'', ''capture'', ''measure'', ''refresh'', ''touch'',
    ''release'', ''vbat'', ''tcxo'', ''reset'', ''smooth'', ''config'', ''usart_cfg'', ''usart'', ''vbat_offset'', ''transform'', ''threshold'',
    ''help'', ''info'', ''version'', ''*IDN?'', ''*idn?'', ''color'']"

definition cmd_help :: command where
  "cmd_help argv b = Some (b, Printf ''Commands:'' [] # map (\<lambda>n. Printf '' %s'' [Str n]) command_names @ [Printf nl []])"

definition commands :: "rig \<Rightarrow> (string \<Rightarrow> command) \<Rightarrow> VNAShellCommand list" where
  "commands E io_command =
   [(''scan'', cmd_scan E, CMD_WAIT_MUTEX OR CMD_BREAK_SWEEP),
    (''scan_bin'', cmd_scan_bin E, CMD_WAIT_MUTEX OR CMD_BREAK_SWEEP),
    (''data'', cmd_data, 0),
    (''frequencies'', cmd_frequencies, 0),
    (''freq'', cmd_freq, CMD_WAIT_MUTEX OR CMD_BREAK_SWEEP OR CMD_RUN_IN_UI OR CMD_RUN_IN_LOAD),
    (''sweep'', cmd_sweep, CMD_WAIT_MUTEX OR CMD_BREAK_SWEEP OR CMD_RUN_IN_UI OR CMD_RUN_IN_LOAD),
    (''power'', cmd_power, CMD_RUN_IN_LOAD),
    (''offset'', cmd_offset, CMD_WAIT_MUTEX OR CMD_RUN_IN_UI OR CMD_RUN_IN_LOAD),
    (''bandwidth'', cmd_bandwidth, CMD_RUN_IN_LOAD),
    (''time'', io_command ''time'', CMD_RUN_IN_UI),
    (''sd_list'', io_command ''sd_list'', CMD_WAIT_MUTEX OR CMD_BREAK_SWEEP OR CMD_RUN_IN_UI),
    (''sd_read'', io_command ''sd_read'', CMD_WAIT_MUTEX OR CMD_BREAK_SWEEP OR CMD_RUN_IN_UI),
    (''sd_delete'', io_command ''sd_delete'', CMD_WAIT_MUTEX OR CMD_BREAK_SWEEP OR CMD_RUN_IN_UI),
    (''saveconfig'', cmd_saveconfig E, CMD_RUN_IN_LOAD),
    (''clearconfig'', cmd_clearconfig, CMD_RUN_IN_LOAD),
    (''dump'', io_command ''dump'', CMD_WAIT_MUTEX OR CMD_BREAK_SWEEP),
    (''touchcal'', io_command ''touchcal'', CMD_WAIT_MUTEX OR CMD_BREAK_SWEEP),
    (''touchtest'', io_command ''touchtest'', CMD_WAIT_MUTEX OR CMD_BREAK_SWEEP),
    (''pause'', cmd_pause, CMD_BREAK_SWEEP OR CMD_RUN_IN_UI OR CMD_RUN_IN_LOAD),
    (''resume'', cmd_resume, CMD_WAIT_MUTEX OR CMD_BREAK_SWEEP OR CMD_RUN_IN_UI OR CMD_RUN_IN_LOAD),
    (''msg'', io_command ''msg'', CMD_WAIT_MUTEX OR CMD_BREAK_SWEEP OR CMD_RUN_IN_LOAD),
    (''cal'', cmd_cal E, CMD_WAIT_MUTEX),
    (''save'', cmd_save E, CMD_RUN_IN_LOAD),
    (''recall'', cmd_recall E, CMD_WAIT_MUTEX OR CMD_BREAK_SWEEP OR CMD_RUN_IN_UI OR CMD_RUN_IN_LOAD),
    (''trace'', cmd_trace, CMD_RUN_IN_LOAD),
    (''marker'', cmd_marker, CMD_RUN_IN_LOAD),
    (''edelay'', cmd_edelay, CMD_RUN_IN_LOAD),
    (''s21offset'', cmd_s21offset, CMD_RUN_IN_LOAD),
    (''capture'', io_command ''capture'', CMD_WAIT_MUTEX OR CMD_BREAK_SWEEP OR CMD_RUN_IN_UI),
    (''measure'', cmd_measure, CMD_WAIT_MUTEX OR CMD_BREAK_SWEEP OR CMD_RUN_IN_UI OR CMD_RUN_IN_LOAD),
    (''refresh'', io_command ''refresh'', CMD_WAIT_MUTEX OR CMD_BREAK_SWEEP OR CMD_RUN_IN_UI),
    (''touch'', io_command ''touch'', CMD_WAIT_MUTEX OR CMD_BREAK_SWEEP OR CMD_RUN_IN_UI),
    (''release'', io_command ''release'', CMD_WAIT_MUTEX OR CMD_BREAK_SWEEP OR CMD_RUN_IN_UI),
    (''vbat'', io_command ''vbat'', CMD_RUN_IN_LOAD),
    (''tcxo'', cmd_tcxo, CMD_RUN_IN_LOAD),
    (''reset'', io_command ''reset'', CMD_WAIT_MUTEX OR CMD_BREAK_SWEEP OR CMD_RUN_IN_LOAD),
    (''smooth'', cmd_smooth, CMD_WAIT_MUTEX OR CMD_BREAK_SWEEP OR CMD_RUN_IN_UI OR CMD_RUN_IN_LOAD),
    (''config'', cmd_config, CMD_WAIT_MUTEX OR CMD_BREAK_SWEEP OR CMD_RUN_IN_UI OR CMD_RUN_IN_LOAD),
    (''usart_cfg'', cmd_usart_cfg, CMD_WAIT_MUTEX OR CMD_BREAK_SWEEP OR CMD_RUN_IN_UI OR CMD_RUN_IN_LOAD),
    (''usart'', io_command ''usart'', CMD_WAIT_MUTEX OR CMD_BREAK_SWEEP OR CMD_RUN_IN_UI OR CMD_RUN_IN_LOAD),
    (''vbat_offset'', cmd_vbat_offset, CMD_RUN_IN_LOAD),
    (''transform'', cmd_transform, CMD_RUN_IN_LOAD),
    (''threshold'', cmd_threshold, CMD_RUN_IN_LOAD),
    (''help'', cmd_help, 0),
    (''info'', io_command ''info'', 0),
    (''version'', io_command ''version'', 0),
    (''*IDN?'', io_command ''*IDN?'', 0),
    (''*idn?'', io_command ''*idn?'', 0),
    (''color'', cmd_color, CMD_RUN_IN_LOAD)]"

subsection \<open>Running a line\<close>

definition VNA_SHELL_MAX_ARGUMENTS :: nat where "VNA_SHELL_MAX_ARGUMENTS = 4"
definition VNA_SHELL_MAX_LENGTH :: nat where "VNA_SHELL_MAX_LENGTH = 64"
definition SWEEP_UI_MODE :: u8 where "SWEEP_UI_MODE = 0x80"
definition OP_CONSOLE :: u8 where "OP_CONSOLE = 0x04"

text \<open>The line buffer, the pointers into it that the last lines left, and the command that waits for
  the sweep thread.\<close>

record shell =
  brd :: board
  shell_line :: string
  shell_args :: "nat option list"
  shell_nargs :: nat
  shell_function :: "command option"
  operation_requested :: u8

definition shell_argv :: "shell \<Rightarrow> string list" where
  "shell_argv sh = map (\<lambda>p. cstr_from (shell_line sh) (the p)) (take (shell_nargs sh - 1) (tl (shell_args sh)))"

fun find_command :: "string \<Rightarrow> VNAShellCommand list \<Rightarrow> VNAShellCommand option" where
  "find_command w [] = None"
| "find_command w (scp # cs) = (if get_str_index (fst scp) w = 0 then Some scp else find_command w cs)"

definition VNAShell_parceLine :: "rig \<Rightarrow> (string \<Rightarrow> command) \<Rightarrow> shell \<Rightarrow> shell \<times> VNAShellCommand option \<times> reply" where
  "VNAShell_parceLine E io_command sh =
     (let (line, args, nargs) = parse_line (shell_line sh) (VNA_SHELL_MAX_ARGUMENTS + 1);
          sh = sh\<lparr>shell_line := line, shell_args := map Some args @ drop (length args) (shell_args sh), shell_nargs := nargs\<rparr> in
      if nargs > VNA_SHELL_MAX_ARGUMENTS + 1 then (sh, None, [Printf (''too many arguments, max 4'' @ nl) []])
      else if nargs > 0 then (sh, find_command (cstr_from line (args ! 0)) (commands E io_command), [])
      else (sh, None, []))"

definition VNAShell_executeLine :: "rig \<Rightarrow> (string \<Rightarrow> command) \<Rightarrow> shell \<Rightarrow> (shell \<times> reply) option" where
  "VNAShell_executeLine E io_command sh =
     (case VNAShell_parceLine E io_command sh of
        (sh, Some (name, f, flags), out) \<Rightarrow>
          let cmd_flag = (if has flags CMD_RUN_IN_UI \<and> has (sweep_mode (dev (brd sh))) SWEEP_UI_MODE
                          then flags AND NOT CMD_WAIT_MUTEX else flags);
              sh = (if has flags CMD_BREAK_SWEEP then sh\<lparr>operation_requested := operation_requested sh OR OP_CONSOLE\<rparr> else sh) in
          if has cmd_flag CMD_WAIT_MUTEX then Some (sh\<lparr>shell_function := Some f\<rparr>, out)
          else map_option (\<lambda>(b, r). (sh\<lparr>brd := b\<rparr>, out @ r)) (f (shell_argv sh) (brd sh))
      | (sh, None, out) \<Rightarrow> (case shell_args sh ! 0 of
          None \<Rightarrow> None
        | Some p \<Rightarrow>
            let w = cstr_from (shell_line sh) p in
            Some (sh, out @ (if w \<noteq> [] then [Printf (''%s?'' @ nl) [Str w]] else []))))"

text \<open>The waiting command is run by the sweep thread, with the arguments still in the buffer.\<close>

definition run_waiting :: "shell \<Rightarrow> (shell \<times> reply) option" where
  "run_waiting sh = (case shell_function sh of
     None \<Rightarrow> Some (sh, [])
   | Some f \<Rightarrow> map_option (\<lambda>(b, r). (sh\<lparr>brd := b, shell_function := None\<rparr>, r)) (f (shell_argv sh) (brd sh)))"

subsection \<open>Input of a line\<close>

definition backspace :: string where "backspace = [CHR 0x08, CHR 0x20, CHR 0x08, CHR 0x00]"

fun readLine_loop :: "nat \<Rightarrow> string \<Rightarrow> nat \<Rightarrow> string \<Rightarrow> reply \<Rightarrow> bool \<times> string \<times> reply \<times> string" where
  "readLine_loop max_size line j [] out = (False, line, out, [])"
| "readLine_loop max_size line j (c # cs) out =
     (if c = CHR 0x08 \<or> c = CHR 0x7F then
        (if j > 0 then readLine_loop max_size line (j - 1) cs (out @ [Write (Str backspace)])
         else readLine_loop max_size line j cs out)
      else if c = CHR 0x0D then (True, line[j := CHR 0x00], out @ [Printf nl []], cs)
      else if (of_char c :: nat) < 0x20 \<or> j \<ge> max_size - 1 then readLine_loop max_size line j cs out
      else readLine_loop max_size (line[j := c]) (j + 1) cs (out @ [Write (Str [c])]))"

definition VNAShell_readLine :: "string \<Rightarrow> nat \<Rightarrow> string \<Rightarrow> bool \<times> string \<times> reply \<times> string" where
  "VNAShell_readLine line max_size input = readLine_loop max_size line 0 input []"

subsection \<open>The command file\<close>

text \<open>Output is switched off while the file is read.\<close>

definition run_load :: "rig \<Rightarrow> (string \<Rightarrow> command) \<Rightarrow> shell \<Rightarrow> shell option" where
  "run_load E io_command sh = (case VNAShell_parceLine E io_command sh of
     (sh, Some (name, f, flags), out) \<Rightarrow>
       if has flags CMD_RUN_IN_LOAD then map_option (\<lambda>(b, r). sh\<lparr>brd := b\<rparr>) (f (shell_argv sh) (brd sh)) else Some sh
   | (sh, None, out) \<Rightarrow> Some sh)"

definition VNAShell_executeCMDLine :: "rig \<Rightarrow> (string \<Rightarrow> command) \<Rightarrow> shell \<Rightarrow> shell option" where
  "VNAShell_executeCMDLine = run_load"

fun load_block :: "rig \<Rightarrow> (string \<Rightarrow> command) \<Rightarrow> string \<Rightarrow> nat \<times> shell \<Rightarrow> (nat \<times> shell) option" where
  "load_block E io_command [] (j, sh) = Some (j, sh)"
| "load_block E io_command (c # buf) (j, sh) =
     (if c = CHR 0x0D then
        (case run_load E io_command (sh\<lparr>shell_line := (shell_line sh)[j := CHR 0x00]\<rparr>) of
           None \<Rightarrow> None | Some sh \<Rightarrow> load_block E io_command buf (0, sh))
      else if (of_char c :: nat) < 0x20 then load_block E io_command buf (j, sh)
      else if j < VNA_SHELL_MAX_LENGTH - 1 then load_block E io_command buf (j + 1, sh\<lparr>shell_line := (shell_line sh)[j := c]\<rparr>)
      else load_block E io_command buf (j, sh))"

text \<open>The file is read in blocks of at most 512 bytes until one is empty; the pair of flags tells whether
  the card could be mounted and the file opened.\<close>

fun load_blocks :: "rig \<Rightarrow> (string \<Rightarrow> command) \<Rightarrow> string list \<Rightarrow> nat \<times> shell \<Rightarrow> (nat \<times> shell) option" where
  "load_blocks E io_command [] st = Some st"
| "load_blocks E io_command (buf # bs) st =
     (if buf = [] then Some st
      else case load_block E io_command buf st of None \<Rightarrow> None | Some st \<Rightarrow> load_blocks E io_command bs st)"

definition sd_card_load_config :: "rig \<Rightarrow> (string \<Rightarrow> command) \<Rightarrow> bool \<Rightarrow> bool \<Rightarrow> string list \<Rightarrow> shell \<Rightarrow> (shell \<times> bool) option" where
  "sd_card_load_config E io_command mounted opened blocks sh =
     (if \<not> mounted then Some (sh, False)
      else if \<not> opened then Some (sh, False)
      else map_option (\<lambda>(j, sh). (sh, True)) (load_blocks E io_command blocks (0, sh)))"

end
