(* ===== verification/ShellWf.thy ===== *)
theory ShellWf
  imports Shell
begin

unbundle bit_operations_syntax

text \<open>
  Well-formedness of the instrument: every array has its declared length, every index kept in the
  settings is a valid index, every enumeration a valid constant.  No command line and no command
  file can break it, and the commands that do not program the generator always return.
\<close>

definition trace_wf :: "trace \<Rightarrow> bool" where
  "trace_wf t \<longleftrightarrow> tr_type t < MAX_TRACE_TYPE \<and> tr_channel t < 2 \<and> tr_smith_format t < MS_END"

definition props_wf :: "properties \<Rightarrow> bool" where
  "props_wf p \<longleftrightarrow> length (traces p) = TRACES_MAX \<and> (\<forall>t \<in> set (traces p). trace_wf t) \<and>
     length (markers p) = MARKERS_MAX \<and> (\<forall>m \<in> set (markers p). mk_index m < SWEEP_POINTS_MAX) \<and>
     - 1 \<le> current_trace p \<and> current_trace p < int TRACES_MAX \<and>
     - 1 \<le> active_marker p \<and> active_marker p < int MARKERS_MAX \<and>
     2 \<le> sweep_points p \<and> 2 \<le> cal_sweep_points p \<and> cal_sweep_points p \<le> SWEEP_POINTS_MAX \<and>
     length (electrical_delay p) = 2 \<and> measure_mode p < MEASURE_END \<and> cal_wf p"

definition device_wf :: "vna \<Rightarrow> bool" where
  "device_wf s \<longleftrightarrow> props_wf (props s) \<and> shaped (measured s) \<and> smooth_factor s \<le> 8 \<and>
     bandwidth (config s) < 512 \<and> length (lcd_palette (config s)) = MAX_PALETTE"

definition board_wf :: "layout \<Rightarrow> board \<Rightarrow> bool" where
  "board_wf L b \<longleftrightarrow> device_wf (dev b) \<and> cache_valid L b \<and> (\<forall>i p. slot_value L (flash b) i = Some p \<longrightarrow> props_wf p)"

definition keeps :: "(vna \<Rightarrow> vna) \<Rightarrow> bool" where
  "keeps f \<longleftrightarrow> (\<forall>s. device_wf s \<longrightarrow> device_wf (f s))"

definition keeps_if :: "(vna \<Rightarrow> vna option) \<Rightarrow> bool" where
  "keeps_if f \<longleftrightarrow> (\<forall>s s'. device_wf s \<longrightarrow> f s = Some s' \<longrightarrow> device_wf s')"

named_theorems keeping

lemma keepsI: "(\<And>s. device_wf s \<Longrightarrow> device_wf (f s)) \<Longrightarrow> keeps f"
  by (simp add: keeps_def)

lemma keepsD: "keeps f \<Longrightarrow> device_wf s \<Longrightarrow> device_wf (f s)"
  by (simp add: keeps_def)

lemma keeps_ifI: "(\<And>s s'. device_wf s \<Longrightarrow> f s = Some s' \<Longrightarrow> device_wf s') \<Longrightarrow> keeps_if f"
  by (auto simp: keeps_if_def)

lemma keeps_ifD: "keeps_if f \<Longrightarrow> device_wf s \<Longrightarrow> f s = Some s' \<Longrightarrow> device_wf s'"
  by (auto simp: keeps_if_def)

lemma keeps_comp: "keeps f \<Longrightarrow> keeps g \<Longrightarrow> keeps (\<lambda>s. f (g s))"
  by (simp add: keeps_def)

lemma keeps_fold: "(\<And>x. keeps (f x)) \<Longrightarrow> keeps (fold f xs)"
  by (induction xs) (simp_all add: keeps_def)

lemma ball_update: "\<forall>x \<in> set xs. P x \<Longrightarrow> (i < length xs \<Longrightarrow> P v) \<Longrightarrow> \<forall>x \<in> set (xs[i := v]). P x"
  using set_update_subset_insert [of xs i v] by (cases "i < length xs") (auto simp: list_update_beyond)

subsection \<open>Settings\<close>

lemma keeps_redraw [keeping]: "keeps (request_to_redraw m)"
  by (simp add: keeps_def device_wf_def request_to_redraw_def)

lemma redraw_wf [simp]: "device_wf (request_to_redraw m s) = device_wf s"
  by (simp add: device_wf_def request_to_redraw_def)

lemma sweep_mode_wf [simp]: "device_wf (s\<lparr>sweep_mode := w\<rparr>) = device_wf s" "device_wf (s\<lparr>clk := c\<rparr>) = device_wf s"
  "device_wf (s\<lparr>p_sweep := i\<rparr>) = device_wf s" "device_wf (clk_update g s) = device_wf s" "device_wf (sweep_mode_update h s) = device_wf s"
  by (simp_all add: device_wf_def)

lemma keeps_control [keeping]: "keeps pause_sweep" "keeps resume_sweep" "keeps (set_smooth_factor n)" "keeps (set_bandwidth k)"
  "keeps (clk_update g)" "keeps (sweep_mode_update h)" "keeps (set_domain_mode m)" "keeps (set_timedomain_func u)" "keeps (set_timedomain_window u)"
  "keeps (set_s21_offset x)" "keeps (apply_VNA_mode i v)" "keeps (on_props (power_update (\<lambda>_. pw)))" "keeps (on_props (cal_status_update g2))"
  by (simp_all add: keeps_def device_wf_def pause_sweep_def resume_sweep_def set_smooth_factor_def set_bandwidth_def request_to_redraw_def
      set_domain_mode_def set_timedomain_func_def set_timedomain_window_def set_s21_offset_def apply_VNA_mode_def props_wf_def cal_wf_def Let_def)

lemma props_wf_markers:
  "props_wf p \<Longrightarrow> length ms = MARKERS_MAX \<Longrightarrow> \<forall>m \<in> set ms. mk_index m < SWEEP_POINTS_MAX \<Longrightarrow> props_wf (p\<lparr>markers := ms\<rparr>)"
  by (simp add: props_wf_def cal_wf_def)

lemma keeps_trace:
  assumes "\<And>x. trace_wf x \<Longrightarrow> trace_wf (f x)"
  shows "keeps (on_trace t f)"
proof (rule keepsI)
  fix s assume w: "device_wf s"
  let ?ts = "traces (props s)"
  have "trace_wf (f (?ts ! t))" if "t < length ?ts" using w that assms by (simp add: device_wf_def props_wf_def)
  then have "\<forall>x \<in> set (?ts[t := f (?ts ! t)]). trace_wf x"
    using w by (intro ball_update) (simp_all add: device_wf_def props_wf_def)
  then show "device_wf (on_trace t f s)" using w by (simp add: on_trace_def device_wf_def props_wf_def cal_wf_def)
qed

lemma keeps_trace_fields [keeping]: "keeps (on_trace t (tr_scale_update g))" "keeps (on_trace t (tr_refpos_update g))"
  "keeps (on_trace t (tr_enabled_update h))" "keeps (set_trace_scale t x)" "keeps (set_trace_refpos t x)" "keeps (set_trace_channel t c)"
proof -
  show k: "keeps (on_trace t (tr_scale_update g))" "keeps (on_trace t (tr_refpos_update g))" "keeps (on_trace t (tr_enabled_update h))" for g h
    by (rule keeps_trace, simp add: trace_wf_def)+
  have c: "keeps (on_trace t (tr_channel_update (\<lambda>_. c mod 2)))" by (rule keeps_trace) (simp add: trace_wf_def)
  show "keeps (set_trace_scale t x)" "keeps (set_trace_refpos t x)" "keeps (set_trace_channel t c)"
    using k c by (simp_all add: keeps_def set_trace_scale_def set_trace_refpos_def set_trace_channel_def Let_def)
qed

lemma keeps_current: "- 1 \<le> i \<Longrightarrow> i < int TRACES_MAX \<Longrightarrow> keeps (on_props (current_trace_update (\<lambda>_. i)))"
  by (simp add: keeps_def device_wf_def props_wf_def cal_wf_def)

lemma keeps_active [keeping]: "i < TRACES_MAX \<Longrightarrow> keeps (set_active_trace (int i))"
  using keeps_current [of "int i"] by (simp add: keeps_def set_active_trace_def)

lemma keeps_enable [keeping]:
  assumes "t < TRACES_MAX" shows "keeps (set_trace_enable t e)"
proof (rule keepsI)
  fix s assume "device_wf s"
  then have "device_wf (on_trace t (tr_enabled_update (\<lambda>_. e)) s)" by (rule keepsD [OF keeps_trace_fields(3)])
  moreover have "keeps (on_props (current_trace_update (\<lambda>_. if e then int t else TRACE_INVALID)))"
    using assms by (intro keeps_current) auto
  ultimately have w: "device_wf (on_props (current_trace_update (\<lambda>_. if e then int t else TRACE_INVALID)) (on_trace t (tr_enabled_update (\<lambda>_. e)) s))"
    (is "device_wf ?s") by (rule keepsD [rotated])
  have "device_wf (set_active_trace (int i) ?s)" if "first_enabled 0 (traces (props ?s)) = Some i" for i
  proof -
    have "i < TRACES_MAX" using first_enabled_spec [where i = 0 and ts = "traces (props ?s)"] that w by (simp add: device_wf_def props_wf_def)
    then show ?thesis using keepsD [OF keeps_active w] by blast
  qed
  then show "device_wf (set_trace_enable t e s)"
    using w by (cases e) (simp_all add: set_trace_enable_def Let_def split: option.splits)
qed

lemma length_trace_info [simp]: "length trace_info_list = MAX_TRACE_TYPE"
  by (simp add: trace_info_list_def MAX_TRACE_TYPE_def)

lemma keeps_type [keeping]:
  assumes "type < MAX_TRACE_TYPE" shows "keeps (set_trace_type t type c)"
proof -
  have "keeps (on_trace t (tr_type_update (\<lambda>_. type)))" using assms by (intro keeps_trace) (simp add: trace_wf_def)
  then show ?thesis using keeps_trace_fields by (simp add: keeps_def set_trace_type_def Let_def)
qed

lemma keeps_delay [keeping]: "keeps (set_electrical_delay ch x)"
  by (simp add: keeps_def set_electrical_delay_def device_wf_def props_wf_def cal_wf_def request_to_redraw_def)

lemma keeps_config [keeping]: "keeps (config_update (vbat_offset_update g))" "keeps (config_update (serial_speed_update h))"
  "keeps (\<lambda>s. request_to_redraw m (s\<lparr>config := (config s)\<lparr>lcd_palette := (lcd_palette (config s))[i := v]\<rparr>\<rparr>))"
  by (simp_all add: keeps_def device_wf_def request_to_redraw_def)

subsection \<open>Markers and stimulus\<close>

lemma keeps_marker:
  assumes "\<And>x. mk_index x < SWEEP_POINTS_MAX \<Longrightarrow> mk_index (f x) < SWEEP_POINTS_MAX"
  shows "keeps (on_marker m f)"
proof (rule keepsI)
  fix s assume w: "device_wf s"
  let ?ms = "markers (props s)"
  have "mk_index (f (?ms ! m)) < SWEEP_POINTS_MAX" if "m < length ?ms" using w that assms by (simp add: device_wf_def props_wf_def)
  then have "\<forall>x \<in> set (?ms[m := f (?ms ! m)]). mk_index x < SWEEP_POINTS_MAX"
    using w by (intro ball_update) (simp_all add: device_wf_def props_wf_def)
  then show "device_wf (on_marker m f s)" using w by (simp add: on_marker_def device_wf_def props_wf_def cal_wf_def)
qed

lemma keeps_enable_marker [keeping]: "keeps (enable_marker t e)"
  unfolding enable_marker_def by (rule keeps_marker) simp

lemma keeps_select_marker [keeping]: "- 1 \<le> i \<Longrightarrow> i < int MARKERS_MAX \<Longrightarrow> keeps (select_marker i)"
  by (simp add: select_marker_def keeps_def device_wf_def props_wf_def cal_wf_def)

lemma keeps_marker_index [keeping]: "keeps (set_marker_index m i)"
proof (rule keepsI)
  fix s assume w: "device_wf s"
  show "device_wf (set_marker_index m i s)"
  proof (cases "m = MARKER_INVALID \<or> i < 0 \<or> i \<ge> int (sweep_points (props s))")
    case False
    then have "nat i < SWEEP_POINTS_MAX" using w by (auto simp: device_wf_def props_wf_def cal_wf_def)
    then have "keeps (on_marker (nat m) (mk_index_update (\<lambda>_. nat i)))" by (intro keeps_marker) simp
    moreover have "keeps (on_marker (nat m) (mk_frequency_update g))" for g by (rule keeps_marker) simp
    ultimately show ?thesis using False w keepsD by (simp add: set_marker_index_def Let_def)
  qed (simp add: set_marker_index_def w)
qed

lemma keeps_marker_update: "device_wf s \<Longrightarrow> device_wf (update_marker_index a b n s)"
proof -
  assume w: "device_wf s"
  have "device_wf (fold (\<lambda>m s. set_marker_index (int m) (g m s) s) ms s)" for ms g
    using w by (induction ms arbitrary: s) (use keepsD [OF keeps_marker_index] in auto)
  then show ?thesis by (simp add: update_marker_index_def)
qed

lemma set_frequencies_wf: "set_frequencies a b n s = Some s' \<Longrightarrow> device_wf s' = device_wf s"
  by (auto simp: set_frequencies_def Let_def device_wf_def split: if_splits)

lemma update_grid_smooth [simp]: "smooth_factor (update_grid a b s) = smooth_factor s"
  by (simp add: update_grid_def Let_def)

lemma grid_wf [simp]: "device_wf (update_grid a b s) = device_wf s"
  by (simp add: device_wf_def)

lemma keeps_update [keeping]: "keeps_if update_frequencies"
proof (rule keeps_ifI)
  fix s s' assume w: "device_wf s" and u: "update_frequencies s = Some s'"
  let ?f0 = "frequency0 (props s)" and ?f1 = "frequency1 (props s)" and ?n = "sweep_points (props s)"
  obtain s1 where s1: "set_frequencies ?f0 ?f1 ?n s = Some s1"
    using u by (cases "set_frequencies ?f0 ?f1 ?n s") (simp_all add: update_frequencies_def)
  let ?g = "\<lambda>p. if needInterpolate ?f0 ?f1 ?n p then p\<lparr>cal_status := cal_status p OR CALSTAT_INTERPOLATED\<rparr>
      else p\<lparr>cal_status := cal_status p AND NOT CALSTAT_INTERPOLATED\<rparr>"
  have "device_wf (update_grid ?f0 ?f1 (update_marker_index ?f0 ?f1 ?n s1))"
    using w s1 set_frequencies_wf keeps_marker_update by simp
  moreover have "keeps (on_props ?g)" by (simp add: keeps_def device_wf_def props_wf_def cal_wf_def)
  ultimately have "device_wf (on_props ?g (update_grid ?f0 ?f1 (update_marker_index ?f0 ?f1 ?n s1)))" by (rule keepsD [rotated])
  then show "device_wf s'" using u s1 by (auto simp: update_frequencies_def Let_def)
qed

lemma update_returns: "device_wf s \<Longrightarrow> update_frequencies s \<noteq> None"
  by (simp add: update_frequencies_def set_frequencies_def Let_def device_wf_def props_wf_def)

lemma apply_frequency_wf: "props_wf (apply_sweep_frequency type freq p) = props_wf p"
  by (cases type) (simp_all add: props_wf_def cal_wf_def freq_startstop_def freq_centerspan_def Let_def)

lemma keeps_frequency [keeping]: "keeps_if (set_sweep_frequency type freq)"
proof (rule keeps_ifI)
  fix s s' assume w: "device_wf s" and u: "set_sweep_frequency type freq s = Some s'"
  obtain t f where c: "clip_request type freq (props s) = (t, f)" by fastforce
  let ?s = "on_props (apply_sweep_frequency t f) s"
  have "device_wf ?s" using w by (simp add: device_wf_def apply_frequency_wf)
  then show "device_wf s'"
    using u c keeps_ifD [OF keeps_update] keepsD [OF keeps_control(2)]
    by (auto simp: set_sweep_frequency_clip Let_def split: if_splits)
qed

lemma frequency_returns: "device_wf s \<Longrightarrow> set_sweep_frequency type freq s \<noteq> None"
proof -
  assume w: "device_wf s"
  obtain t f where c: "clip_request type freq (props s) = (t, f)" by fastforce
  have "device_wf (on_props (apply_sweep_frequency t f) s)" using w by (simp add: device_wf_def apply_frequency_wf)
  then show ?thesis using update_returns c by (auto simp: set_sweep_frequency_clip Let_def)
qed

lemma points_wf: "device_wf s \<Longrightarrow> 2 \<le> n \<Longrightarrow> n \<le> SWEEP_POINTS_MAX \<Longrightarrow> device_wf (on_props (sweep_points_update (\<lambda>_. n)) s)"
  by (simp add: device_wf_def props_wf_def cal_wf_def)

lemma clipped_points:
  fixes n :: nat
  defines "a \<equiv> (if n > SWEEP_POINTS_MAX then SWEEP_POINTS_MAX else n)"
  shows "2 \<le> (if a < SWEEP_POINTS_MIN then SWEEP_POINTS_MIN else a)" "(if a < SWEEP_POINTS_MIN then SWEEP_POINTS_MIN else a) \<le> SWEEP_POINTS_MAX"
  by (simp_all add: a_def SWEEP_POINTS_MAX_def SWEEP_POINTS_MIN_def)

lemma points_cases:
  assumes "device_wf s"
  obtains s1 where "device_wf s1" "set_sweep_points n s = Some s1 \<or> set_sweep_points n s = update_frequencies s1"
proof -
  let ?a = "if n > SWEEP_POINTS_MAX then SWEEP_POINTS_MAX else n"
  let ?n = "if ?a < SWEEP_POINTS_MIN then SWEEP_POINTS_MIN else ?a"
  have "set_sweep_points n s = (if ?n = sweep_points (props s) then Some s else update_frequencies (on_props (sweep_points_update (\<lambda>_. ?n)) s))"
    unfolding set_sweep_points_def Let_def ..
  then show ?thesis using that [OF assms] that [OF points_wf [OF assms clipped_points(1,2) [of n]]] by presburger
qed

lemma keeps_points [keeping]: "keeps_if (set_sweep_points n)"
  by (rule keeps_ifI, erule points_cases [of _ n]) (use keeps_ifD [OF keeps_update] in auto)

lemma points_returns: "device_wf s \<Longrightarrow> set_sweep_points n s \<noteq> None"
  by (erule points_cases [of _ n]) (use update_returns in auto)

subsection \<open>Sweep and calibration\<close>

definition swept :: "vna \<Rightarrow> vna \<Rightarrow> bool" where
  "swept s s' \<longleftrightarrow> (\<exists>c i ms. s' = at_point c i ms s) \<and> (shaped (measured s) \<longrightarrow> shaped (measured s'))"

lemma sweptI: "s' = at_point (clk s') (p_sweep s') (measured s') s \<Longrightarrow> (shaped (measured s) \<Longrightarrow> shaped (measured s')) \<Longrightarrow> swept s s'"
  unfolding swept_def by blast

lemma swept_refl: "swept s s"
  by (rule sweptI) (simp_all add: at_point_def)

lemma swept_trans: "swept s s1 \<Longrightarrow> swept s1 s2 \<Longrightarrow> swept s s2"
  by (rule sweptI) (auto simp: swept_def at_point_def)

lemma swept_fields: "swept s (s\<lparr>p_sweep := i\<rparr>)" "swept s (s\<lparr>clk := c\<rparr>)"
  by (rule sweptI, simp_all add: at_point_def)+

lemma shaped_store: "shaped ms \<Longrightarrow> shaped (ms[ch := (ms ! ch)[i := d]])"
  using ball_update [of ms "\<lambda>r. length r = SWEEP_POINTS_MAX" ch "(ms ! ch)[i := d]"] by (simp add: shaped_def)

lemma swept_store: "swept s (store_measured ch i d s)"
  by (rule sweptI) (simp_all add: at_point_def store_measured_def shaped_store)

lemma swept_wf: "swept s s' \<Longrightarrow> device_wf s \<Longrightarrow> device_wf s'"
  by (auto simp: swept_def device_wf_def at_point_def)

lemma swept_if: "swept s s' \<Longrightarrow> swept s (if c then store_measured ch i d s' else s')"
  using swept_trans [OF _ swept_store] by simp

lemma sweep_point_swept:
  assumes "sweep_point sample m (d, s) = Some (d', s')"
  shows "swept s s'"
proof -
  obtain c c0 c1 d0 d1 where "s' = (let s1 = s\<lparr>clk := c\<rparr>; s2 = (if c0 then store_measured 0 (p_sweep s) d0 s1 else s1) in
      if c1 then store_measured 1 (p_sweep s) d1 s2 else s2)"
    using assms by (simp only: sweep_point_def Let_def bind_eq_Some_conv case_prod_conv option.inject prod.inject) blast
  then show ?thesis by (simp only: Let_def) (intro swept_if swept_fields(2))
qed

lemma sweep_loop_swept: "sweep_loop sample interrupt brk m n (d, s) = Some s' \<Longrightarrow> swept s s'"
proof (induction "n - p_sweep s" arbitrary: d s)
  case 0
  then show ?case using swept_refl by (subst (asm) sweep_loop.simps) simp
next
  case (Suc x)
  then have n: "p_sweep s < n" by simp
  then obtain d1 s1 where p: "sweep_point sample m (d, s) = Some (d1, s1)"
    using Suc.prems by (subst (asm) sweep_loop.simps) (auto split: option.splits)
  have 1: "swept s s1" "swept s (s1\<lparr>p_sweep := p_sweep s + 1\<rparr>)"
    using sweep_point_swept [OF p] swept_trans [OF _ swept_fields(1)] by blast+
  show ?case
  proof (cases "interrupt (p_sweep s) \<and> brk")
    case True
    then show ?thesis using Suc.prems n p 1(1) by (subst (asm) sweep_loop.simps) simp
  next
    case False
    then have "sweep_loop sample interrupt brk m n (d1, s1\<lparr>p_sweep := p_sweep s + 1\<rparr>) = Some s'"
      using Suc.prems n p by (subst (asm) sweep_loop.simps) (simp split: if_splits)
    then have "swept (s1\<lparr>p_sweep := p_sweep s + 1\<rparr>) s'" using Suc.hyps by (intro Suc.hyps(1)) simp_all
    then show ?thesis using swept_trans [OF 1(2)] by blast
  qed
qed

lemma sweep_swept: "sweep sample interrupt jnk brk m s = Some (s', fin) \<Longrightarrow> swept s s'"
proof -
  assume a: "sweep sample interrupt jnk brk m s = Some (s', fin)"
  let ?s = "if p_sweep s \<ge> sweep_points (props s) \<or> \<not> brk then s\<lparr>p_sweep := 0\<rparr> else s"
  have "swept s ?s" using swept_refl swept_fields(1) by simp
  moreover have "swept ?s s'" proof (cases "brk \<and> m = 0")
    case False
    then have "sweep_loop sample interrupt brk m (sweep_points (props ?s)) (jnk, ?s) = Some s'"
      using a by (auto simp: sweep_def Let_def simp del: if_split_asm)
    then show ?thesis by (rule sweep_loop_swept)
  qed (use a swept_refl in \<open>auto simp: sweep_def Let_def\<close>)
  ultimately show ?thesis by (rule swept_trans)
qed

lemma keeps_sweep [keeping]: "keeps_if (\<lambda>s. map_option fst (sweep sample interrupt jnk brk m s))"
  by (rule keeps_ifI) (use sweep_swept swept_wf in fastforce)

lemma prepare_wf: "device_wf s \<Longrightarrow> device_wf (cal_prepare type s)"
  by (auto simp: cal_prepare_def device_wf_def props_wf_def cal_wf_def Let_def split: prod.splits)

lemma shaped_row: "shaped ms \<Longrightarrow> i < 2 \<Longrightarrow> length (ms ! i) = SWEEP_POINTS_MAX"
  by (simp add: shaped_def)

lemma cal_row_wf:
  assumes "device_wf s" "i < 2"
  shows "device_wf (on_props (\<lambda>p. p\<lparr>cal_data := (cal_data p)[dst := measured s ! i]\<rparr>) s)"
  using assms ball_update [of "cal_data (props s)" "\<lambda>r. length r = SWEEP_POINTS_MAX" dst "measured s ! i"] shaped_row [of "measured s" i]
  by (simp add: device_wf_def props_wf_def cal_wf_def)

lemma keeps_collect [keeping]: "keeps_if (cal_collect sample jnk type)"
proof (rule keeps_ifI)
  fix s s' assume w: "device_wf s" and c: "cal_collect sample jnk type s = Some s'"
  show "device_wf s'"
  proof (cases "type \<ge> length calibration_set")
    case False
    obtain set_flag clr_flag dst src where e: "calibration_set ! type = (set_flag, clr_flag, dst, src)" by (cases "calibration_set ! type") auto
    have "\<forall>x \<in> set calibration_set. snd (snd (snd x)) < 2" by (simp add: calibration_set_def)
    then have src: "src < 2" using False e nth_mem [of type calibration_set] by fastforce
    let ?s0 = "cal_prepare type s"
    let ?bw = "bandwidth (config ?s0) mod 256"
    let ?s1 = "if ?bw < BANDWIDTH_100 then ?s0\<lparr>config := (config ?s0)\<lparr>bandwidth := BANDWIDTH_100\<rparr>\<rparr> else ?s0"
    have "device_wf ?s1" using prepare_wf [OF w] by (auto simp: device_wf_def)
    moreover obtain s2 fin m where s2: "sweep sample (\<lambda>_. False) jnk False m ?s1 = Some (s2, fin)"
      and s': "s' = request_to_redraw REDRAW_CAL_STATUS (on_props (\<lambda>p. p\<lparr>cal_data := (cal_data p)[dst := measured s2 ! src]\<rparr>) s2
        \<lparr>config := (config s2)\<lparr>bandwidth := ?bw\<rparr>\<rparr>)"
      using c False e by (auto simp: cal_collect_def Let_def)
    ultimately have "device_wf s2" using sweep_swept swept_wf by blast
    moreover have "?bw < 512" by (rule order.strict_trans [OF mod_less_divisor]) simp_all
    ultimately show ?thesis using cal_row_wf [OF _ src, of s2 dst] by (simp add: s' device_wf_def request_to_redraw_def)
  qed (use c w in \<open>simp add: cal_collect_def\<close>)
qed

lemma props_wf_status [simp]: "props_wf (p\<lparr>cal_status := w\<rparr>) = props_wf p"
  by (simp add: props_wf_def cal_wf_def)

lemma fill_wf [simp]: "props_wf p \<Longrightarrow> props_wf (cal_fill t f p)"
  using cal_fill_wf [of p t f] by (simp add: props_wf_def cal_fill_def)

lemma copy_wf: "props_wf p \<Longrightarrow> src < 5 \<Longrightarrow> props_wf (eterm_copy dst src p)"
  using ball_update [of "cal_data p" "\<lambda>r. length r = SWEEP_POINTS_MAX" dst "cal_data p ! src"]
  by (simp add: eterm_copy_def props_wf_def cal_wf_def)

lemma eterm_wf: "props_wf p \<Longrightarrow> props_wf (eterm_set t x y p)" "props_wf p \<Longrightarrow> props_wf (eterm_calc_es p)"
  "props_wf p \<Longrightarrow> props_wf (eterm_calc_er i p)" "props_wf p \<Longrightarrow> props_wf (eterm_calc_et p)"
  by (simp_all add: cal_calc_defs)

lemma if_wf: "(c \<Longrightarrow> props_wf a) \<Longrightarrow> (\<not> c \<Longrightarrow> props_wf b) \<Longrightarrow> props_wf (if c then a else b)"
  by simp

lemma let_wf: "props_wf a \<Longrightarrow> (\<And>p. props_wf p \<Longrightarrow> device_wf (f p)) \<Longrightarrow> device_wf (let p = a in f p)"
  "props_wf a \<Longrightarrow> (\<And>p. props_wf p \<Longrightarrow> props_wf (g p)) \<Longrightarrow> props_wf (let p = a in g p)"
  by simp_all

lemma keeps_cal_done [keeping]: "keeps cal_done"
proof (rule keepsI)
  fix s assume "device_wf s"
  then have w: "props_wf (props s)" "props_wf p \<Longrightarrow> device_wf (s\<lparr>props := p, lastsaveid := i\<rparr>)" for p i by (simp_all add: device_wf_def)
  show "device_wf (cal_done s)"
    unfolding cal_done_def
    by (intro let_wf if_wf eterm_wf copy_wf; (simp only: redraw_wf props_wf_status)?; (intro w)?; assumption?)
qed

subsection \<open>Commands\<close>

definition fine :: "layout \<Rightarrow> (board \<times> reply) option \<Rightarrow> bool" where
  "fine L res \<longleftrightarrow> (\<forall>b r. res = Some (b, r) \<longrightarrow> board_wf L b)"

lemma board_wf_dev: "board_wf L b \<Longrightarrow> device_wf s \<Longrightarrow> board_wf L (b\<lparr>dev := s\<rparr>)"
  by (simp add: board_wf_def cache_valid_def)

lemma board_wf_on_dev: "board_wf L b \<Longrightarrow> keeps f \<Longrightarrow> board_wf L (on_dev f b)"
  unfolding on_dev_def by (rule board_wf_dev) (simp_all add: keeps_def board_wf_def)

lemma fine_changed: "board_wf L b \<Longrightarrow> keeps f \<Longrightarrow> fine L (changed f b)"
  by (simp add: fine_def changed_def board_wf_on_dev)

lemma fine_tried: "board_wf L b \<Longrightarrow> keeps_if f \<Longrightarrow> fine L (tried f b)"
  by (auto simp: fine_def tried_def keeps_if_def board_wf_def cache_valid_def)

lemma fine_printed: "board_wf L b \<Longrightarrow> fine L (printed fmt args b)"
  by (simp add: fine_def printed_def)

lemma fine_Some: "board_wf L b \<Longrightarrow> fine L (Some (b, r))"
  by (simp add: fine_def)

lemma fine_if: "(c \<Longrightarrow> fine L x) \<Longrightarrow> (\<not> c \<Longrightarrow> fine L y) \<Longrightarrow> fine L (if c then x else y)"
  by simp

lemmas fine_intros = fine_if fine_changed fine_tried fine_printed fine_Some board_wf_on_dev

lemma fine_control:
  assumes "board_wf L b"
  shows "fine L (cmd_pause argv b)" "fine L (cmd_smooth argv b)" "fine L (cmd_offset argv b)" "fine L (cmd_threshold argv b)"
    "fine L (cmd_tcxo argv b)" "fine L (cmd_config argv b)" "fine L (cmd_vbat_offset argv b)" "fine L (cmd_s21offset argv b)"
    "fine L (cmd_edelay argv b)" "fine L (cmd_color argv b)" "fine L (cmd_usart_cfg argv b)"
  unfolding cmd_pause_def cmd_smooth_def cmd_offset_def cmd_threshold_def cmd_tcxo_def cmd_config_def cmd_vbat_offset_def
    cmd_s21offset_def cmd_edelay_def edelay_usage_def cmd_color_def cmd_usart_cfg_def Let_def
  by (intro fine_intros assms keeping)+

lemma fine_reports:
  assumes "board_wf L b"
  shows "fine L (cmd_frequencies argv b)" "fine L (cmd_data argv b)" "fine L (cmd_help argv b)" "fine L (cmd_bandwidth argv b)"
  unfolding cmd_frequencies_def cmd_data_def cmd_help_def cmd_bandwidth_def bandwidth_reply_def Let_def
  by (intro fine_intros assms keeping)+

lemma fine_resume: "board_wf L b \<Longrightarrow> fine L (cmd_resume argv b)"
  unfolding cmd_resume_def
  by (intro fine_intros keeps_ifI) (use keeps_ifD [OF keeps_update] keepsD [OF keeps_control(2)] in auto)

lemma fine_freq: "board_wf L b \<Longrightarrow> fine L (cmd_freq argv b)"
  unfolding cmd_freq_def Let_def
  by (intro fine_intros keeps_ifI) (use keepsD [OF keeps_control(1)] in auto)

lemma keeps_power [keeping]: "keeps_if (set_power v)"
proof (rule keeps_ifI)
  fix s s' assume w: "device_wf s" and p: "set_power v s = Some s'"
  have "device_wf (on_props (power_update (\<lambda>_. x)) (request_to_redraw REDRAW_CAL_STATUS s))" for x
    using w keepsD [OF keeps_control(12)] by simp
  then show "device_wf s'" using p w by (auto simp: set_power_def Let_def split: if_splits)
qed

lemma fine_power: "board_wf L b \<Longrightarrow> fine L (cmd_power argv b)"
  unfolding cmd_power_def by (intro fine_intros keeping)

lemma fine_measure: "board_wf L b \<Longrightarrow> fine L (cmd_measure argv b)"
  unfolding cmd_measure_def Let_def plot_set_measure_mode_def
  by (auto simp: fine_def printed_def board_wf_def device_wf_def props_wf_def cal_wf_def cache_valid_def request_to_redraw_def)

lemma option_kept: "transform_option i = Some f \<Longrightarrow> keeps f"
  by (auto simp: transform_option_def split: if_splits intro: keeping)

lemma fine_transform_loop: "board_wf L b \<Longrightarrow> fine L (transform_loop argv b)"
  by (induction argv arbitrary: b) (auto simp: fine_Some fine_printed board_wf_on_dev option_kept split: option.splits)

lemma fine_transform: "board_wf L b \<Longrightarrow> fine L (cmd_transform argv b)"
  unfolding cmd_transform_def by (intro fine_intros fine_transform_loop)

lemma fine_sweep: "board_wf L b \<Longrightarrow> fine L (cmd_sweep argv b)"
  unfolding cmd_sweep_def Let_def
  by (intro fine_intros keeping keeps_ifI)
     (auto simp: bind_eq_Some_conv split: if_splits dest: keeps_ifD [OF keeps_frequency, rotated] keeps_ifD [OF keeps_points, rotated])

lemma fine_cal: "board_wf L b \<Longrightarrow> fine L (cmd_cal E argv b)"
  unfolding cmd_cal_def Let_def by (intro fine_intros keeping)

lemma fine_scan_run:
  assumes "board_wf L b" "points \<le> SWEEP_POINTS_MAX"
  shows "fine L (scan_run E start stop points m ch b)"
proof -
  let ?p = "on_props (sweep_points_update (\<lambda>_. points)) (dev b)"
  have "device_wf s2" if "set_frequencies start stop points ?p = Some s1"
    "(if c then map_option fst (sweep (samples E) (\<lambda>_. False) (junk E) False ch s1) else Some s1) = Some s2" for s1 s2 c
  proof -
    have "2 \<le> points" using that(1) by (auto simp: set_frequencies_def Let_def split: if_splits)
    then have "device_wf s1" using set_frequencies_wf [OF that(1)] points_wf assms by (simp add: board_wf_def)
    then show ?thesis using that(2) keeps_ifD [OF keeps_sweep] by (auto split: if_splits)
  qed
  then show ?thesis
    using assms(1) keepsD [OF keeps_control(1)] unfolding fine_def scan_run_def Let_def bind_eq_Some_conv
    by (metis board_wf_dev option.inject prod.inject)
qed

lemma scan_run_points: "scan_run E start stop points m ch (on_dev (on_props (sweep_points_update (\<lambda>_. n))) b) = scan_run E start stop points m ch b"
  by (simp add: scan_run_def on_dev_def set_frequencies_def Let_def comp_def)

lemma on_dev_swap: "on_dev (sweep_mode_update g) (on_dev (on_props f) b) = on_dev (on_props f) (on_dev (sweep_mode_update g) b)"
  by (simp add: on_dev_def)

lemma fine_scan:
  assumes w: "board_wf L b"
  shows "fine L (cmd_scan E argv b)"
proof -
  have p: "sweep_points (props (dev b)) \<le> SWEEP_POINTS_MAX" using w by (simp add: board_wf_def device_wf_def props_wf_def cal_wf_def)
  have r: "fine L (scan_run E a e n m c (on_dev (sweep_mode_update g) b))"
    "fine L (scan_run E a e n m c (on_dev (sweep_mode_update g) (on_dev (on_props (sweep_points_update (\<lambda>_. n))) b)))"
    if "n \<le> SWEEP_POINTS_MAX" for a e n m c g
    using fine_scan_run [OF board_wf_on_dev [OF w keeps_control(6)] that] by (simp_all add: on_dev_swap scan_run_points)
  show ?thesis unfolding cmd_scan_def Let_def
    by (intro fine_if fine_printed w; cases "3 \<le> length argv") (simp_all add: r p not_less)
qed

lemma fine_scan_bin: "board_wf L b \<Longrightarrow> fine L (cmd_scan_bin E argv b)"
  using fine_scan [OF board_wf_on_dev [OF _ keeps_control(6)]] board_wf_on_dev [OF _ keeps_control(6)]
  unfolding cmd_scan_bin_def fine_def by fastforce

definition plain :: "string list \<Rightarrow> bool" where
  "plain argv \<longleftrightarrow> (\<forall>a \<in> set argv. nul_free a)"

lemma find_index_less: "find_index v i xs < i + int (length xs) \<or> find_index v i xs = - 1"
proof (induction xs arbitrary: i)
  case (Cons x xs)
  show ?case using Cons [of "i + 1"] by auto
qed simp

lemma index_less: "nul_free a \<Longrightarrow> nul_free l \<Longrightarrow> get_str_index a l < int (length (split_bar l))"
  using find_index_less [of a 0 "split_bar l"] by (auto simp: get_str_index_def gsi_from_correct)

lemma length_split_bar: "length (split_bar l) = Suc (length (filter (\<lambda>c. c = CHR ''|'') l))"
proof (induction l)
  case (Cons c l)
  then show ?case by (cases "split_bar l") auto
qed simp

lemma list_sizes: "length (split_bar cmd_type_list) = 31" "nul_free cmd_type_list" "length (split_bar cmd_marker_smith) = 13" "nul_free cmd_marker_smith"
  unfolding length_split_bar cmd_type_list_def cmd_marker_smith_def nul_free_def by simp_all

lemma type_index: "nul_free a \<Longrightarrow> nat (get_str_index a cmd_type_list) < MAX_TRACE_TYPE"
  using index_less [OF _ list_sizes(2)] unfolding list_sizes MAX_TRACE_TYPE_def by fastforce

lemma format_index: "nul_free a \<Longrightarrow> nat (get_str_index a cmd_marker_smith) < MS_END"
  using index_less [OF _ list_sizes(4)] unfolding list_sizes MS_END_def by fastforce

lemma fine_trace:
  assumes w: "board_wf L b" and n: "plain argv"
  shows "fine L (cmd_trace argv b)"
proof -
  have ix: "nat (get_str_index (argv ! 1) cmd_type_list) < MAX_TRACE_TYPE" "nat (get_str_index (argv ! 1) cmd_marker_smith) < MS_END"
    if "length argv \<noteq> 0" "length argv \<noteq> 1"
  proof -
    have "1 < length argv" using that by linarith
    then have "nul_free (argv ! 1)" using n by (simp add: plain_def)
    then show "nat (get_str_index (argv ! 1) cmd_type_list) < MAX_TRACE_TYPE" "nat (get_str_index (argv ! 1) cmd_marker_smith) < MS_END"
      by (rule type_index, rule format_index)
  qed
  have f: "keeps (on_trace t (tr_smith_format_update (\<lambda>_. k)))" if "k < MS_END" for t k
    using that by (intro keeps_trace) (simp add: trace_wf_def)
  have e: "keeps (\<lambda>s. set_trace_enable t True (set_trace_type t k c s))" if "t < TRACES_MAX" "k < MAX_TRACE_TYPE" for t k c
    using keeps_comp [OF keeps_enable [OF that(1)] keeps_type [OF that(2)]] .
  have a: "keeps (fold (\<lambda>t. set_trace_enable t False) [0..<TRACES_MAX])"
    by (rule keepsI, rule fold_invariant [where Q = "\<lambda>t. t < TRACES_MAX" and P = device_wf]) (auto intro: keepsD [OF keeps_enable])
  show ?thesis
    unfolding cmd_trace_def trace_usage_def Let_def
    by (intro fine_if fine_changed fine_printed fine_Some w keeping f e a ix; simp)
qed

lemma fine_marker:
  assumes w: "board_wf L b"
  shows "fine L (cmd_marker argv b)"
proof -
  have a: "keeps (\<lambda>s. fold (\<lambda>t. enable_marker t e) [0..<MARKERS_MAX] (select_marker (if c then MARKER_INVALID else 0) s))" for e c
    by (rule keeps_comp [OF keeps_fold [OF keeps_enable_marker] keeps_select_marker]) (simp_all add: MARKERS_MAX_def)
  have o: "keeps (\<lambda>s. let s = enable_marker (nat t) False s in if active_marker (props s) = t then select_marker MARKER_INVALID s else s)" for t
    using keepsD [OF keeps_enable_marker] keepsD [OF keeps_select_marker [of MARKER_INVALID]] by (simp add: keeps_def Let_def MARKERS_MAX_def)
  have m: "keeps (\<lambda>s. select_marker t (set_marker_index t k (enable_marker (nat t) True s)))"
    "keeps (\<lambda>s. select_marker t (enable_marker (nat t) True s))" "keeps (\<lambda>s. enable_marker (nat t) True (select_marker t s))"
    if "\<not> (t < 0 \<or> t \<ge> int MARKERS_MAX)" for t k
  proof -
    have s: "keeps (select_marker t)" using that by (intro keeps_select_marker) auto
    show "keeps (\<lambda>s. select_marker t (set_marker_index t k (enable_marker (nat t) True s)))"
      by (rule keeps_comp [OF s keeps_comp [OF keeps_marker_index keeps_enable_marker]])
    show "keeps (\<lambda>s. select_marker t (enable_marker (nat t) True s))" "keeps (\<lambda>s. enable_marker (nat t) True (select_marker t s))"
      by (rule keeps_comp [OF s keeps_enable_marker], rule keeps_comp [OF keeps_enable_marker s])
  qed
  show ?thesis
    unfolding cmd_marker_def Let_def
    by (intro fine_if fine_printed fine_Some board_wf_on_dev fine_changed w keeps_redraw a m o [unfolded Let_def]; assumption)
qed

subsection \<open>Commands on the flash memory\<close>

lemma magic_wf [simp]: "props_wf (p\<lparr>pr_magic := w\<rparr>) = props_wf p"
  by (simp add: props_wf_def cal_wf_def)

lemma save_wf:
  assumes "board_wf L b"
  shows "board_wf L (fst (caldata_save L i b))"
proof (cases "i < SAVEAREA_MAX")
  case True
  then show ?thesis using assms
    by (auto simp: board_wf_def caldata_save_def Let_def cache_valid_def slot_value_program device_wf_def split: if_splits)
qed (use assms in \<open>simp add: caldata_save_def\<close>)

lemma saveconfig_wf: "board_wf L b \<Longrightarrow> board_wf L (fst (config_save L b))"
  by (simp add: config_save_def Let_def board_wf_def device_wf_def cache_valid_def)

lemma clear_wf: "board_wf L b \<Longrightarrow> board_wf L (clear_all_config_prop_data b)"
  by (simp add: clear_all_config_prop_data_def board_wf_def device_wf_def cache_valid_def values_erased)

lemma recall_wf:
  assumes "board_wf L b" "i < SAVEAREA_MAX"
  obtains b' r where "caldata_recall L i b = Some (b', r)" "board_wf L b'"
proof -
  let ?b = "b\<lparr>dev := (dev b)\<lparr>lastsaveid := NO_SAVE_SLOT\<rparr>\<rparr>"
  have cv: "cache_valid L ?b" and d: "device_wf (dev b)" and sl: "\<And>j p. slot_value L (flash b) j = Some p \<Longrightarrow> props_wf p"
    using assms(1) by (auto simp: board_wf_def cache_valid_def)
  have i: "i \<noteq> NO_SAVE_SLOT" using assms(2) by (simp add: SAVEAREA_MAX_def NO_SAVE_SLOT_def)
  obtain c where g: "get_properties L i ?b = (?b\<lparr>checksum_ok := c\<rparr>, map_option (\<lambda>_. calibration_slot_area i) (slot_value L (flash b) i))"
    "cache_valid L (?b\<lparr>checksum_ok := c\<rparr>)"
    using get_properties_value [OF cv, of i] by auto
  show ?thesis
  proof (cases "slot_value L (flash b) i")
    case None
    then have "caldata_recall L i b = Some (?b\<lparr>checksum_ok := c\<rparr>, 1)" using g i by (simp add: caldata_recall_def)
    then show ?thesis using that g(2) d sl by (simp add: board_wf_def device_wf_def)
  next
    case (Some p)
    then have "caldata_recall L i b = Some ((?b\<lparr>checksum_ok := c\<rparr>)\<lparr>dev := (dev b)\<lparr>lastsaveid := i, props := p\<rparr>\<rparr>, 0)"
      using g i slot_valueD [OF Some] by (simp add: caldata_recall_def)
    then show ?thesis using that g(2) d sl [OF Some] sl by (simp add: board_wf_def device_wf_def cache_valid_def)
  qed
qed

lemma refresh_wf:
  assumes "board_wf L b"
  obtains b' where "refresh_settings b = Some b'" "board_wf L b'"
proof -
  obtain s where s: "update_frequencies (dev b) = Some s" using update_returns assms by (fastforce simp: board_wf_def)
  then have "device_wf s" using keeps_ifD [OF keeps_update] assms by (auto simp: board_wf_def)
  then have "board_wf L (plot_set_measure_mode (measure_mode (props s)) (b\<lparr>dev := s\<rparr>))"
    using assms by (auto simp: plot_set_measure_mode_def board_wf_def cache_valid_def device_wf_def props_wf_def cal_wf_def request_to_redraw_def)
  then show ?thesis using that s by (simp add: refresh_settings_def)
qed

lemma fine_storage:
  assumes w: "board_wf (lay E) b"
  shows "fine (lay E) (cmd_save E argv b)" "fine (lay E) (cmd_saveconfig E argv b)" "fine (lay E) (cmd_clearconfig argv b)"
    "fine (lay E) (cmd_recall E argv b)" "cmd_recall E argv b \<noteq> None"
proof -
  show "fine (lay E) (cmd_save E argv b)" "fine (lay E) (cmd_saveconfig E argv b)" "fine (lay E) (cmd_clearconfig argv b)"
    unfolding cmd_save_def cmd_saveconfig_def cmd_clearconfig_def by (intro fine_intros w save_wf saveconfig_wf clear_wf keeping)+
  have "\<exists>b' r. load_properties (lay E) i b = Some (b', r) \<and> board_wf (lay E) b'" if "i < SAVEAREA_MAX" for i
    by (rule recall_wf [OF w that], erule refresh_wf) (simp add: load_properties_def)
  then show "fine (lay E) (cmd_recall E argv b)" "cmd_recall E argv b \<noteq> None"
    using w by (fastforce simp: cmd_recall_def fine_def printed_def)+
qed

subsection \<open>The shell as a state machine\<close>

text \<open>A line typed at the console, the command that waited for the sweep thread, a command file, and a
  sweep of the measurement thread, in any order.\<close>

inductive shell_step :: "rig \<Rightarrow> (string \<Rightarrow> command) \<Rightarrow> shell \<Rightarrow> shell \<Rightarrow> bool" for E io_command where
  typed: "VNAShell_readLine (shell_line sh) VNA_SHELL_MAX_LENGTH input = (True, line, echo, rest) \<Longrightarrow>
    VNAShell_executeLine E io_command (sh\<lparr>shell_line := line\<rparr>) = Some (sh', out) \<Longrightarrow> shell_step E io_command sh sh'"
| waited: "run_waiting sh = Some (sh', out) \<Longrightarrow> shell_step E io_command sh sh'"
| loaded: "sd_card_load_config E io_command mounted opened blocks sh = Some (sh', ok) \<Longrightarrow> shell_step E io_command sh sh'"
| swept: "sweep sample interrupt jnk True m (dev (brd sh)) = Some (s', finished) \<Longrightarrow>
    shell_step E io_command sh (sh\<lparr>brd := (brd sh)\<lparr>dev := s'\<rparr>\<rparr>)"

inductive_cases shell_stepE: "shell_step E io_command sh sh'"

text \<open>The contract between the shell and its commands: an invariant of the board that every command of
  the table and every sweep keeps.  The shell then keeps it too.\<close>

locale command_table =
  fixes E :: rig and io_command :: "string \<Rightarrow> command" and inv :: "board \<Rightarrow> bool"
  assumes command_keeps: "(n, f, fl) \<in> set (commands E io_command) \<Longrightarrow> plain argv \<Longrightarrow> inv b \<Longrightarrow> f argv b = Some (b', r) \<Longrightarrow> inv b'"
    and sweep_keeps: "inv b \<Longrightarrow> sweep sample interrupt jnk brk m (dev b) = Some (s', fin) \<Longrightarrow> inv (b\<lparr>dev := s'\<rparr>)"
begin

definition shell_inv :: "shell \<Rightarrow> bool" where
  "shell_inv sh \<longleftrightarrow> inv (brd sh) \<and> (\<forall>f. shell_function sh = Some f \<longrightarrow> (\<exists>n fl. (n, f, fl) \<in> set (commands E io_command)))"

lemma argv_plain: "plain (shell_argv sh)"
  by (auto simp: plain_def shell_argv_def nul_free_def cstr_from_def dest: set_takeWhileD)

lemma found: "find_command w cs = Some c \<Longrightarrow> c \<in> set cs"
  by (induction cs) (auto split: if_splits)

lemma parce_inv:
  assumes "VNAShell_parceLine E io_command sh = (sh', c, out)"
  shows "shell_inv sh' = shell_inv sh" "c = Some scp \<Longrightarrow> scp \<in> set (commands E io_command)"
  using assms by (auto simp: VNAShell_parceLine_def shell_inv_def Let_def split: prod.splits if_splits dest: found)

lemma execute_inv:
  assumes "shell_inv sh" "VNAShell_executeLine E io_command sh = Some (sh', out)"
  shows "shell_inv sh'"
proof -
  obtain sh1 c o1 where p: "VNAShell_parceLine E io_command sh = (sh1, c, o1)" by (cases "VNAShell_parceLine E io_command sh")
  have 1: "shell_inv sh1" using parce_inv(1) [OF p] assms(1) by simp
  show ?thesis
  proof (cases c)
    case None
    then show ?thesis using assms(2) p 1 by (auto simp: VNAShell_executeLine_def Let_def split: option.splits)
  next
    case (Some scp)
    obtain n f fl where scp: "scp = (n, f, fl)" by (cases scp)
    then have mem: "(n, f, fl) \<in> set (commands E io_command)" using parce_inv(2) [OF p] Some by blast
    have "shell_inv (sh2\<lparr>shell_function := Some f\<rparr>)" if "shell_inv sh2" for sh2 using that mem by (auto simp: shell_inv_def)
    moreover have "shell_inv (sh2\<lparr>brd := b\<rparr>)" if "f (shell_argv sh2) (brd sh2) = Some (b, r)" "shell_inv sh2" for sh2 b r
      using command_keeps [OF mem argv_plain] that by (auto simp: shell_inv_def)
    moreover have "shell_inv (sh1\<lparr>operation_requested := w\<rparr>)" for w using 1 by (simp add: shell_inv_def)
    ultimately show ?thesis
      using assms(2) p 1 Some scp by (auto simp: VNAShell_executeLine_def Let_def split: if_splits)
  qed
qed

lemma waiting_inv: "shell_inv sh \<Longrightarrow> run_waiting sh = Some (sh', out) \<Longrightarrow> shell_inv sh'"
  using command_keeps [OF _ argv_plain] by (fastforce simp: run_waiting_def shell_inv_def split: option.splits)

lemma run_load_inv:
  assumes "shell_inv sh" "run_load E io_command sh = Some sh'"
  shows "shell_inv sh'"
proof -
  obtain sh1 c o1 where p: "VNAShell_parceLine E io_command sh = (sh1, c, o1)" by (cases "VNAShell_parceLine E io_command sh")
  have 1: "shell_inv sh1" using parce_inv(1) [OF p] assms(1) by simp
  then show ?thesis
    using assms(2) p parce_inv(2) [OF p] command_keeps [OF _ argv_plain]
    by (fastforce simp: run_load_def shell_inv_def split: option.splits if_splits)
qed

lemma line_inv [simp]: "shell_inv (sh\<lparr>shell_line := l\<rparr>) = shell_inv sh"
  by (simp add: shell_inv_def)

lemma load_block_inv: "load_block E io_command buf (j, sh) = Some (j', sh') \<Longrightarrow> shell_inv sh \<Longrightarrow> shell_inv sh'"
proof (induction buf arbitrary: j sh)
  case (Cons c buf)
  show ?case
  proof (cases "c = CHR 0x0D")
    case True
    then obtain sh1 where r: "run_load E io_command (sh\<lparr>shell_line := (shell_line sh)[j := CHR 0x00]\<rparr>) = Some sh1"
      and l: "load_block E io_command buf (0, sh1) = Some (j', sh')"
      using Cons.prems(1) by (auto split: option.splits)
    then show ?thesis using Cons.IH [OF l] run_load_inv [OF _ r] Cons.prems(2) by simp
  next
    case False
    then show ?thesis using Cons by (auto split: if_splits)
  qed
qed simp

lemma load_blocks_inv: "load_blocks E io_command bs (j, sh) = Some (j', sh') \<Longrightarrow> shell_inv sh \<Longrightarrow> shell_inv sh'"
proof (induction bs arbitrary: j sh)
  case (Cons b bs)
  then show ?case using load_block_inv by (fastforce split: if_splits option.splits)
qed simp

lemma step_inv: "shell_step E io_command sh sh' \<Longrightarrow> shell_inv sh \<Longrightarrow> shell_inv sh'"
proof (induction rule: shell_step.induct)
  case (typed sh input line echo rest sh' out)
  then show ?case using execute_inv [of "sh\<lparr>shell_line := line\<rparr>"] by simp
next
  case (waited sh sh' out)
  then show ?case using waiting_inv by blast
next
  case (loaded mounted opened blocks sh sh' ok)
  then show ?case using load_blocks_inv by (auto simp: sd_card_load_config_def split: if_splits)
next
  case (swept sample interrupt jnk m sh s' finished)
  then show ?case using sweep_keeps by (simp add: shell_inv_def)
qed

lemma session_inv: "(shell_step E io_command)\<^sup>*\<^sup>* sh sh' \<Longrightarrow> shell_inv sh \<Longrightarrow> shell_inv sh'"
  by (induction rule: rtranclp_induct) (auto intro: step_inv)

end

text \<open>The well-formedness of the board is such an invariant.\<close>

lemma table_fine:
  assumes "(n, f, fl) \<in> set (commands E io_command)" "board_wf (lay E) b" "plain argv"
    and "\<And>w. fine (lay E) (io_command w argv b)"
  shows "fine (lay E) (f argv b)"
proof -
  have "list_all (\<lambda>(n, f, fl). fine (lay E) (f argv b)) (commands E io_command)"
    unfolding commands_def list.pred_inject prod.case
    by (simp only: assms(2-4) fine_control fine_reports fine_resume fine_freq fine_power fine_measure fine_transform fine_sweep fine_cal
        fine_scan fine_scan_bin fine_trace fine_marker fine_storage list.pred_inject(1) simp_thms)
  then show ?thesis using assms(1) by (auto simp: list_all_iff)
qed

definition keeps_board :: "layout \<Rightarrow> (string \<Rightarrow> command) \<Rightarrow> bool" where
  "keeps_board L io_command \<longleftrightarrow> (\<forall>w argv b. board_wf L b \<longrightarrow> fine L (io_command w argv b))"

lemma wf_table: "keeps_board (lay E) io_command \<Longrightarrow> command_table E io_command (board_wf (lay E))"
proof
  assume io: "keeps_board (lay E) io_command"
  fix n f fl argv b b' r
  assume m: "(n, f, fl) \<in> set (commands E io_command)" "plain argv" "board_wf (lay E) b" "f argv b = Some (b', r)"
  have "fine (lay E) (io_command w argv b)" for w using io m(3) by (simp add: keeps_board_def)
  then have "fine (lay E) (f argv b)" by (rule table_fine [OF m(1,3,2)])
  then show "board_wf (lay E) b'" using m(4) by (simp add: fine_def)
next
  fix b sample interrupt jnk brk m s' fin
  assume "board_wf (lay E) b" "sweep sample interrupt jnk brk m (dev b) = Some (s', fin)"
  then show "board_wf (lay E) (b\<lparr>dev := s'\<rparr>)" using sweep_swept swept_wf board_wf_dev by (meson board_wf_def)
qed

definition quiet_io :: "string \<Rightarrow> command" where
  "quiet_io w argv b = Some (b, [])"

lemma quiet_keeps: "keeps_board L quiet_io"
  by (simp add: keeps_board_def quiet_io_def fine_def)

interpretation console: command_table E quiet_io "board_wf (lay E)" for E
  by (rule wf_table [OF quiet_keeps])

text \<open>The commands that only work on the settings always return.\<close>

definition settings_commands :: "string list" where
  "settings_commands = [''data'', ''frequencies'', ''sweep'', ''offset'', ''bandwidth'', ''saveconfig'', ''clearconfig'', ''pause'', ''resume'',
    ''save'', ''recall'', ''trace'', ''marker'', ''edelay'', ''s21offset'', ''measure'', ''tcxo'', ''smooth'', ''config'', ''usart_cfg'',
    ''vbat_offset'', ''transform'', ''threshold'', ''help'', ''color'']"

lemma returns_simps: "changed f b \<noteq> None" "printed fmt args b \<noteq> None" "tried g b = None \<longleftrightarrow> g (dev b) = None"
  by (simp_all add: changed_def printed_def tried_def)

lemma if_returns: "(c \<Longrightarrow> x \<noteq> None) \<Longrightarrow> (\<not> c \<Longrightarrow> y \<noteq> None) \<Longrightarrow> (if c then x else y) \<noteq> None"
  by simp

lemma settings_return:
  "cmd_data argv b \<noteq> None" "cmd_frequencies argv b \<noteq> None" "cmd_offset argv b \<noteq> None" "cmd_bandwidth argv b \<noteq> None"
  "cmd_saveconfig E argv b \<noteq> None" "cmd_clearconfig argv b \<noteq> None" "cmd_pause argv b \<noteq> None" "cmd_save E argv b \<noteq> None"
  "cmd_trace argv b \<noteq> None" "cmd_marker argv b \<noteq> None" "cmd_edelay argv b \<noteq> None" "cmd_s21offset argv b \<noteq> None"
  "cmd_measure argv b \<noteq> None" "cmd_tcxo argv b \<noteq> None" "cmd_smooth argv b \<noteq> None" "cmd_config argv b \<noteq> None"
  "cmd_usart_cfg argv b \<noteq> None" "cmd_vbat_offset argv b \<noteq> None" "cmd_threshold argv b \<noteq> None" "cmd_help argv b \<noteq> None" "cmd_color argv b \<noteq> None"
  unfolding cmd_data_def cmd_frequencies_def cmd_offset_def cmd_bandwidth_def cmd_saveconfig_def cmd_clearconfig_def cmd_pause_def cmd_save_def
    cmd_trace_def trace_usage_def cmd_marker_def cmd_edelay_def edelay_usage_def cmd_s21offset_def cmd_measure_def cmd_tcxo_def cmd_smooth_def
    cmd_config_def cmd_usart_cfg_def cmd_vbat_offset_def cmd_threshold_def cmd_help_def cmd_color_def Let_def
  by (intro if_returns returns_simps option.distinct(2))+

lemma transform_returns: "cmd_transform argv b \<noteq> None"
proof -
  have "transform_loop argv b \<noteq> None" by (induction argv arbitrary: b) (simp_all add: printed_def split: option.splits)
  then show ?thesis by (simp add: cmd_transform_def printed_def)
qed

lemma resume_returns: "board_wf L b \<Longrightarrow> cmd_resume argv b \<noteq> None"
  using update_returns by (simp add: cmd_resume_def returns_simps board_wf_def)

lemma frequency_some: "device_wf s \<Longrightarrow> \<exists>s'. set_sweep_frequency type freq s = Some s' \<and> device_wf s'"
  using frequency_returns keeps_ifD [OF keeps_frequency] by (metis not_None_eq)

lemma sweep_returns:
  assumes "board_wf L b"
  shows "cmd_sweep argv b \<noteq> None"
proof -
  have w: "device_wf (dev b)" using assms by (simp add: board_wf_def)
  have "Option.bind (if p then set_sweep_frequency ST_START x s else Some s) (\<lambda>s.
      Option.bind (if q then set_sweep_frequency ST_STOP y s else Some s) (\<lambda>s. if c then set_sweep_points z s else Some s)) \<noteq> None"
    if w: "device_wf s" for p q c x y z s
  proof -
    obtain s1 where 1: "(if p then set_sweep_frequency ST_START x s else Some s) = Some s1" "device_wf s1"
      using frequency_some [OF w, of ST_START x] w by (cases p) auto
    obtain s2 where 2: "(if q then set_sweep_frequency ST_STOP y s1 else Some s1) = Some s2" "device_wf s2"
      using frequency_some [OF 1(2), of ST_STOP y] 1(2) by (cases q) auto
    show ?thesis using 1 2 points_returns by simp
  qed
  then show ?thesis using w frequency_returns [OF w]
    unfolding cmd_sweep_def Let_def by (intro if_returns returns_simps) (simp_all only: returns_simps not_False_eq_True)
qed


end
