(* ===== verification/ShellRun.thy ===== *)
theory ShellRun
  imports ShellWf SweepRun
begin

unbundle bit_operations_syntax

text \<open>
  What a line of text does: the buffer, the pointers into it and the in-place tokenizer against the
  plain list of words; the command file as a list of such lines; the scan command as the samples of
  the requested range; and the inputs on which the shell does not do what it should.
\<close>

subsection \<open>A line in the buffer\<close>

lemma char_at_suffix: "i \<le> length x \<Longrightarrow> char_at (x @ CHR 0x00 # r) i = char_at x i"
  by (auto simp: char_at_def nth_append)

lemma strpbrk_suffix:
  "i \<le> length x \<Longrightarrow> strpbrk (x @ CHR 0x00 # r) i brk = strpbrk x i brk \<and> strpbrk x i brk \<le> length x"
proof (induction x i brk rule: strpbrk.induct)
  case (1 x i brk)
  show ?case
  proof (cases "char_at x i = CHR 0x00 \<or> char_at x i \<in> set brk")
    case True
    then show ?thesis using 1(2) char_at_suffix [OF 1(2)] by (subst (1 2 3) strpbrk.simps) auto
  next
    case False
    then have "Suc i \<le> length x" by (auto simp: char_at_def split: if_splits)
    then have "strpbrk (x @ CHR 0x00 # r) (Suc i) brk = strpbrk x (Suc i) brk \<and> strpbrk x (Suc i) brk \<le> length x"
      using 1(1) False by blast
    then show ?thesis using False char_at_suffix [OF 1(2), of r] by (subst (1 2 3) strpbrk.simps) simp
  qed
qed

lemma parse_loop_suffix:
  "lp \<le> length x \<Longrightarrow> \<forall>a \<in> set args. a \<le> length x \<Longrightarrow>
   parse_loop m (x @ CHR 0x00 # r) lp args n =
     (fst (parse_loop m x lp args n) @ CHR 0x00 # r, snd (parse_loop m x lp args n)) \<and>
   (\<forall>a \<in> set (fst (snd (parse_loop m x lp args n))). a \<le> length x)"
proof (induction m x lp args n rule: parse_loop.induct)
  case (1 m x lp args n)
  let ?c = "char_at x lp"
  have c: "char_at (x @ CHR 0x00 # r) lp = ?c" using char_at_suffix 1(3) by blast
  show ?case
  proof (cases "?c = CHR 0x00")
    case True
    then show ?thesis using 1(4) c by (subst (1 2 3 4) parse_loop.simps) (simp add: Let_def)
  next
    case nz: False
    then have lt: "lp < length x" by (auto simp: char_at_def split: if_splits)
    show ?thesis
    proof (cases "?c \<noteq> CHR '' '' \<and> ?c \<noteq> CHR 0x09")
      case False
      have e: "parse_loop m x lp args n = parse_loop m x (Suc lp) args n"
        using nz False by (subst parse_loop.simps) (simp only: Let_def if_False)
      have e2: "parse_loop m (x @ CHR 0x00 # r) lp args n = parse_loop m (x @ CHR 0x00 # r) (Suc lp) args n"
        using nz False by (subst parse_loop.simps) (simp only: Let_def c if_False)
      show ?thesis unfolding e e2 by (rule 1(2) [OF refl nz False _ 1(4)]) (use lt in simp)
    next
      case True
      define lp1 brk args1 lp2 where "lp1 = (if ?c = CHR 0x22 then Suc lp else lp)"
        and "brk = (if ?c = CHR 0x22 then [CHR 0x22] else [CHR '' '', CHR 0x09])"
        and "args1 = (if n < m then args @ [lp1] else args)" and "lp2 = strpbrk x lp1 brk"
      have lp1: "lp1 \<le> length x" using lt by (simp add: lp1_def)
      have lp2: "strpbrk (x @ CHR 0x00 # r) lp1 brk = lp2" "lp2 \<le> length x" "char_at (x @ CHR 0x00 # r) lp2 = char_at x lp2"
        using strpbrk_suffix [OF lp1] char_at_suffix by (auto simp: lp2_def)
      have a1: "\<forall>a \<in> set args1. a \<le> length x" using 1(4) lp1 by (simp add: args1_def)
      have e: "parse_loop m x lp args n = (if char_at x lp2 = CHR 0x00 then (x, args1, Suc n)
          else parse_loop m (x[lp2 := CHR 0x00]) (Suc lp2) args1 (Suc n))"
        using nz True unfolding lp2_def args1_def brk_def lp1_def by (subst parse_loop.simps) (simp add: Let_def)
      have e2: "parse_loop m (x @ CHR 0x00 # r) lp args n = (if char_at x lp2 = CHR 0x00 then (x @ CHR 0x00 # r, args1, Suc n)
          else parse_loop m ((x @ CHR 0x00 # r)[lp2 := CHR 0x00]) (Suc lp2) args1 (Suc n))"
        using nz True c lp2(1,3) unfolding args1_def brk_def lp1_def by (subst parse_loop.simps) (simp add: Let_def)
      show ?thesis
      proof (cases "char_at x lp2 = CHR 0x00")
        case True
        then show ?thesis using e e2 a1 by simp
      next
        case False
        then have l2: "lp2 < length x" using lp2(2) by (auto simp: char_at_def split: if_splits)
        then have u: "(x @ CHR 0x00 # r)[lp2 := CHR 0x00] = x[lp2 := CHR 0x00] @ CHR 0x00 # r" by (simp add: list_update_append)
        show ?thesis
          using 1(1) [OF refl nz True lp1_def brk_def args1_def lp2_def False] l2 a1 e e2 False u by simp
      qed
    qed
  qed
qed

lemma cstr_suffix: "a \<le> length x \<Longrightarrow> cstr_from (x @ CHR 0x00 # r) a = cstr_from x a"
  by (simp add: cstr_from_def takeWhile_append takeWhile_eq_all_conv [THEN iffD2])

lemma parse_buffer:
  assumes "nul_free t"
  obtains l os where "parse_line (t @ CHR 0x00 # r) m = (l, os, length (tokens t))" "length l = length t + Suc (length r)"
    "map (cstr_from l) os = take m (tokens t)"
proof -
  obtain l os where p: "parse_loop m t 0 [] 0 = (l, take m os, length os)" "map (cstr_from l) os = tokens t"
    using parse_loop_correct [OF assms, of m "[]" "[]" 0] by auto
  have len: "length l = length t" using parse_loop_length [of m t 0 "[]" 0] p(1) by simp
  have s: "parse_loop m (t @ CHR 0x00 # r) 0 [] 0 = (l @ CHR 0x00 # r, take m os, length os)" "\<forall>a \<in> set (take m os). a \<le> length t"
    using parse_loop_suffix [of 0 t "[]" m r 0] p(1) by simp_all
  have "map (cstr_from (l @ CHR 0x00 # r)) (take m os) = map (cstr_from l) (take m os)"
    using s(2) len by (intro map_cong refl cstr_suffix) simp
  also have "\<dots> = take m (tokens t)" using p(2) by (metis take_map)
  finally show ?thesis using that s(1) len p(2) by (metis length_append length_Cons length_map parse_line_def)
qed

subsection \<open>What a line of text asks for\<close>

definition text_command :: "rig \<Rightarrow> (string \<Rightarrow> command) \<Rightarrow> string \<Rightarrow> (VNAShellCommand \<times> string list) option" where
  "text_command E io_command t = (case tokens t of [] \<Rightarrow> None
     | w # ws \<Rightarrow> if length ws \<le> VNA_SHELL_MAX_ARGUMENTS then map_option (\<lambda>c. (c, ws)) (find_command w (commands E io_command)) else None)"

definition shell_shape :: "shell \<Rightarrow> bool" where
  "shell_shape sh \<longleftrightarrow> length (shell_line sh) = VNA_SHELL_MAX_LENGTH \<and> length (shell_args sh) = VNA_SHELL_MAX_ARGUMENTS + 1"

lemma parce_text:
  assumes "nul_free t" "shell_line sh = t @ CHR 0x00 # r" "shell_shape sh"
  obtains sh' out where
    "VNAShell_parceLine E io_command sh = (sh', map_option fst (text_command E io_command t), out)" "shell_shape sh'" "brd sh' = brd sh"
    "text_command E io_command t = Some (c, ws) \<Longrightarrow> shell_argv sh' = ws"
proof -
  let ?m = "VNA_SHELL_MAX_ARGUMENTS + 1"
  obtain l os where p: "parse_line (shell_line sh) ?m = (l, os, length (tokens t))" "length l = length t + Suc (length r)"
    "map (cstr_from l) os = take ?m (tokens t)"
    using parse_buffer [OF assms(1)] assms(2) by metis
  have lo: "length os = min ?m (length (tokens t))" using p(3) by (metis length_map length_take min.commute)
  let ?sh = "sh\<lparr>shell_line := l, shell_args := map Some os @ drop (length os) (shell_args sh), shell_nargs := length (tokens t)\<rparr>"
  have sh: "shell_shape ?sh" using assms(2,3) p(2) lo by (simp add: shell_shape_def)
  have c: "\<exists>out. VNAShell_parceLine E io_command sh = (?sh, map_option fst (text_command E io_command t), out)"
  proof (cases "tokens t")
    case Nil
    then show ?thesis using p(1) by (simp add: VNAShell_parceLine_def text_command_def)
  next
    case (Cons w ws)
    then have "cstr_from l (os ! 0) = w" using p(3) lo by (cases os) auto
    then show ?thesis using p(1) Cons
      by (auto simp: VNAShell_parceLine_def text_command_def option.map_comp comp_def option.map_ident)
  qed
  have a: "shell_argv ?sh = ws" if tc: "text_command E io_command t = Some (c, ws)"
  proof -
    obtain w where t: "tokens t = w # ws" "length ws \<le> VNA_SHELL_MAX_ARGUMENTS"
      using tc by (auto simp: text_command_def split: list.splits if_splits)
    then obtain a as where os: "os = a # as" "map (cstr_from l) as = ws" "length as = length ws" using p(3) lo by (cases os) auto
    have "take (length ws) (tl (shell_args ?sh)) = map Some as" using os by simp
    then show ?thesis using os(2) t(1) by (simp add: shell_argv_def comp_def)
  qed
  from c obtain out where o: "VNAShell_parceLine E io_command sh = (?sh, map_option fst (text_command E io_command t), out)" by blast
  show ?thesis by (rule that [OF o sh _ a]) simp_all
qed

text \<open>The search of the table is a search by name, for words without a bar.\<close>

lemma split_bar_single: "CHR ''|'' \<notin> set w \<Longrightarrow> split_bar w = [w]"
  by (induction w) auto

lemma find_command_name:
  assumes "nul_free w" "CHR ''|'' \<notin> set w" "\<forall>c \<in> set cs. nul_free (fst c)"
  shows "find_command w cs = find (\<lambda>c. fst c = w) cs"
  using assms(3)
proof (induction cs)
  case (Cons c cs)
  have "get_str_index (fst c) w = 0 \<longleftrightarrow> fst c = w"
    using Cons.prems assms(1) by (auto simp: get_str_index_def gsi_from_correct split_bar_single [OF assms(2)])
  then show ?case using Cons by simp
qed simp

lemma command_names_plain: "\<forall>c \<in> set (commands E io_command). nul_free (fst c)"
proof -
  have "list_all (\<lambda>c. nul_free (fst c)) (commands E io_command)"
    unfolding commands_def list.pred_inject fst_conv by (simp add: nul_free_def)
  then show ?thesis by (simp only: list_all_iff)
qed

subsection \<open>The command file\<close>

definition script_step :: "rig \<Rightarrow> (string \<Rightarrow> command) \<Rightarrow> string \<Rightarrow> board \<Rightarrow> board option" where
  "script_step E io_command t b = (case text_command E io_command t of
     None \<Rightarrow> Some b
   | Some ((n, f, flags), ws) \<Rightarrow> if has flags CMD_RUN_IN_LOAD then map_option fst (f ws b) else Some b)"

fun run_script :: "rig \<Rightarrow> (string \<Rightarrow> command) \<Rightarrow> string list \<Rightarrow> board \<Rightarrow> board option" where
  "run_script E io_command [] b = Some b"
| "run_script E io_command (t # ts) b = Option.bind (script_step E io_command t b) (run_script E io_command ts)"

text \<open>The lines of a file end with a carriage return; other control characters are dropped, and a line
  is cut at the size of the buffer.\<close>

function script_lines :: "string \<Rightarrow> string list" where
  "script_lines cs = (if CHR 0x0D \<in> set cs then
       take (VNA_SHELL_MAX_LENGTH - 1) (filter (\<lambda>c. 0x20 \<le> (of_char c :: nat)) (takeWhile (\<lambda>c. c \<noteq> CHR 0x0D) cs)) #
       script_lines (tl (dropWhile (\<lambda>c. c \<noteq> CHR 0x0D) cs))
     else [])"
  by pat_completeness auto
termination
proof (relation "measure length", goal_cases)
  case (2 cs)
  then have "dropWhile (\<lambda>c. c \<noteq> CHR 0x0D) cs \<noteq> []" by (auto simp: dropWhile_eq_Nil_conv)
  then show ?case using length_dropWhile_le [of "\<lambda>c. c \<noteq> CHR 0x0D" cs] by (cases "dropWhile (\<lambda>c. c \<noteq> CHR 0x0D) cs") auto
qed simp

declare script_lines.simps [simp del]

definition lines_after :: "string \<Rightarrow> string \<Rightarrow> string list" where
  "lines_after acc cs = (if CHR 0x0D \<in> set cs then
       take (VNA_SHELL_MAX_LENGTH - 1) (acc @ filter (\<lambda>c. 0x20 \<le> (of_char c :: nat)) (takeWhile (\<lambda>c. c \<noteq> CHR 0x0D) cs)) #
       script_lines (tl (dropWhile (\<lambda>c. c \<noteq> CHR 0x0D) cs))
     else [])"

lemma lines_after_Nil: "lines_after [] cs = script_lines cs"
  by (subst script_lines.simps) (simp add: lines_after_def)

lemma lines_after_Cons:
  assumes "length acc < VNA_SHELL_MAX_LENGTH"
  shows "lines_after acc (c # cs) =
    (if c = CHR 0x0D then acc # lines_after [] cs
     else if (of_char c :: nat) < 0x20 then lines_after acc cs
     else if length acc < VNA_SHELL_MAX_LENGTH - 1 then lines_after (acc @ [c]) cs
     else lines_after acc cs)"
proof -
  have "take (VNA_SHELL_MAX_LENGTH - 1) (acc @ c # xs) = take (VNA_SHELL_MAX_LENGTH - 1) (acc @ xs)" if "\<not> length acc < VNA_SHELL_MAX_LENGTH - 1" for xs
    using assms that by simp
  then show ?thesis using assms by (auto simp: lines_after_def lines_after_Nil [symmetric] not_less)
qed

lemma run_load_text:
  assumes "nul_free t" "shell_line sh = t @ CHR 0x00 # r" "shell_shape sh"
  shows "rel_option (\<lambda>sh' b. brd sh' = b \<and> shell_shape sh') (run_load E io_command sh) (script_step E io_command t (brd sh))"
proof (cases "text_command E io_command t")
  case None
  obtain sh' out where "VNAShell_parceLine E io_command sh = (sh', map_option fst (text_command E io_command t), out)" "shell_shape sh'" "brd sh' = brd sh"
    using parce_text [OF assms] by metis
  then show ?thesis using None by (simp add: run_load_def script_step_def)
next
  case (Some x)
  obtain n f fl ws where x: "x = ((n, f, fl), ws)" by (cases x) auto
  show ?thesis
  proof (rule parce_text [OF assms, of E io_command "(n, f, fl)" ws])
    fix sh' out
    assume p: "VNAShell_parceLine E io_command sh = (sh', map_option fst (text_command E io_command t), out)" "shell_shape sh'" "brd sh' = brd sh"
      and a: "text_command E io_command t = Some ((n, f, fl), ws) \<Longrightarrow> shell_argv sh' = ws"
    have "run_load E io_command sh =
        (if has fl CMD_RUN_IN_LOAD then map_option (\<lambda>(b, r). sh'\<lparr>brd := b\<rparr>) (f ws (brd sh)) else Some sh')"
      using p a Some x by (simp add: run_load_def)
    then show ?thesis using p(2,3) Some x
      by (cases "f ws (brd sh)") (auto simp: script_step_def shell_shape_def)
  qed
qed

lemma load_block_text:
  assumes "shell_shape sh" "nul_free acc" "length acc < VNA_SHELL_MAX_LENGTH" "take (length acc) (shell_line sh) = acc"
  shows "map_option (\<lambda>(j, sh). brd sh) (load_block E io_command buf (length acc, sh)) = run_script E io_command (lines_after acc buf) (brd sh)"
  using assms
proof (induction buf arbitrary: acc sh)
  case Nil
  then show ?case by (simp add: lines_after_def)
next
  case (Cons c buf)
  let ?j = "length acc"
  have j: "?j < length (shell_line sh)" using Cons.prems(1,3) by (simp add: shell_shape_def)
  have split: "shell_line sh = acc @ shell_line sh ! ?j # drop (Suc ?j) (shell_line sh)"
    using Cons.prems(4) id_take_nth_drop [OF j] by simp
  have upd: "(shell_line sh)[?j := d] = acc @ d # drop (Suc ?j) (shell_line sh)" for d
    using split by (metis list_update_length)
  note lines = lines_after_Cons [OF Cons.prems(3), of c buf]
  consider "c = CHR 0x0D" | "c \<noteq> CHR 0x0D" "(of_char c :: nat) < 0x20" | "c \<noteq> CHR 0x0D" "\<not> (of_char c :: nat) < 0x20" by blast
  then show ?case
  proof cases
    case 1
    let ?sh = "sh\<lparr>shell_line := (shell_line sh)[?j := CHR 0x00]\<rparr>"
    have "shell_shape ?sh" using Cons.prems(1) by (simp add: shell_shape_def)
    then have rel: "rel_option (\<lambda>sh' b. brd sh' = b \<and> shell_shape sh') (run_load E io_command ?sh) (script_step E io_command acc (brd ?sh))"
      using upd by (intro run_load_text [OF Cons.prems(2)]) simp_all
    show ?thesis
    proof (cases "run_load E io_command ?sh")
      case None
      then show ?thesis using rel 1 lines by simp
    next
      case (Some sh')
      then have b: "script_step E io_command acc (brd sh) = Some (brd sh')" "shell_shape sh'"
        using rel by (auto elim: option.rel_cases)
      have "map_option (\<lambda>(j, sh). brd sh) (load_block E io_command buf (0, sh')) = run_script E io_command (lines_after [] buf) (brd sh')"
        using Cons.IH [where acc = "[]" and sh = sh'] b(2) by (simp add: VNA_SHELL_MAX_LENGTH_def)
      then show ?thesis using Some b(1) 1 lines by simp
    qed
  next
    case 2
    then show ?thesis using Cons.IH [OF Cons.prems] lines by simp
  next
    case 3
    show ?thesis
    proof (cases "?j < VNA_SHELL_MAX_LENGTH - 1")
      case True
      let ?sh = "sh\<lparr>shell_line := (shell_line sh)[?j := c]\<rparr>"
      have "map_option (\<lambda>(j, sh). brd sh) (load_block E io_command buf (length (acc @ [c]), ?sh)) =
          run_script E io_command (lines_after (acc @ [c]) buf) (brd ?sh)"
        using Cons.prems True 3(2) by (intro Cons.IH) (auto simp: shell_shape_def upd nul_free_def)
      then show ?thesis using 3 True lines by simp
    next
      case False
      then show ?thesis using Cons.IH [OF Cons.prems] 3 lines by simp
    qed
  qed
qed

lemma load_block_append:
  "load_block E io_command (x @ y) st = Option.bind (load_block E io_command x st) (load_block E io_command y)"
proof (induction x arbitrary: st)
  case (Cons c x)
  then show ?case by (cases st) (auto split: option.splits)
next
  case Nil
  then show ?case by (cases st) simp
qed

lemma load_blocks_concat:
  "\<forall>x \<in> set bs. x \<noteq> [] \<Longrightarrow> load_blocks E io_command bs st = load_block E io_command (concat bs) st"
proof (induction bs arbitrary: st)
  case Nil
  then show ?case by (cases st) simp
next
  case (Cons x bs)
  then show ?case by (auto simp: load_block_append split: option.splits)
qed

lemma load_file_text:
  assumes "shell_shape sh" "\<forall>x \<in> set blocks. x \<noteq> []"
  shows "map_option (\<lambda>(sh', ok). (brd sh', ok)) (sd_card_load_config E io_command True True blocks sh) =
    map_option (\<lambda>b. (b, True)) (run_script E io_command (script_lines (concat blocks)) (brd sh))"
proof -
  have "map_option (\<lambda>(j, sh). brd sh) (load_block E io_command (concat blocks) (0, sh)) =
      run_script E io_command (lines_after [] (concat blocks)) (brd sh)"
    using load_block_text [where acc = "[]" and sh = sh] assms(1) by (simp add: VNA_SHELL_MAX_LENGTH_def)
  then have e: "map_option (\<lambda>(j, sh). brd sh) (load_blocks E io_command blocks (0, sh)) = run_script E io_command (script_lines (concat blocks)) (brd sh)"
    by (simp add: load_blocks_concat [OF assms(2)] lines_after_Nil)
  show ?thesis unfolding e [symmetric] by (simp add: sd_card_load_config_def option.map_comp comp_def case_prod_unfold)
qed

text \<open>C10: The command file means its text: whatever the size of the blocks in which the card delivers it,
  and although every line passes through the shared buffer and is taken apart in place, loading the
  file runs, in order, exactly the commands that the lines ask for and that are allowed in a file, each
  with the words of its line as arguments.\<close>
theorem command_file_correct:
  assumes "shell_shape sh" "\<forall>x \<in> set blocks. x \<noteq> []"
  shows "map_option (\<lambda>(sh', ok). (brd sh', ok)) (sd_card_load_config E io_command True True blocks sh) =
    map_option (\<lambda>b. (b, True)) (run_script E io_command (script_lines (concat blocks)) (brd sh))"
  by (rule load_file_text [OF assms])

text \<open>A command file without carriage returns, as editors on other systems write it, is accepted and
  does nothing: the load reports success and no command has been run.\<close>
theorem command_file_newlines:
  assumes "shell_shape sh" "\<forall>x \<in> set blocks. CHR 0x0D \<notin> set x"
  shows "\<exists>sh'. sd_card_load_config E io_command True True blocks sh = Some (sh', True) \<and> brd sh' = brd sh"
proof -
  have b: "\<exists>j' sh'. load_block E io_command x (j, sh) = Some (j', sh') \<and> brd sh' = brd sh" if "CHR 0x0D \<notin> set x" for x j sh
    using that
  proof (induction x arbitrary: j sh)
    case (Cons c x)
    have "\<exists>j' sh'. load_block E io_command x (Suc j, sh\<lparr>shell_line := l\<rparr>) = Some (j', sh') \<and> brd sh' = brd sh" for l
      using Cons.IH [of "Suc j" "sh\<lparr>shell_line := l\<rparr>"] Cons.prems by simp
    moreover have "c \<noteq> CHR 0x0D" using Cons.prems by auto
    ultimately show ?case using Cons by simp
  qed simp
  have "\<exists>j' sh'. load_blocks E io_command xs (j, sh) = Some (j', sh') \<and> brd sh' = brd sh" if "\<forall>x \<in> set xs. CHR 0x0D \<notin> set x" for xs j sh
    using that
  proof (induction xs arbitrary: j sh)
    case (Cons x xs)
    then obtain j1 sh1 where "load_block E io_command x (j, sh) = Some (j1, sh1)" "brd sh1 = brd sh" using b [of x j sh] by auto
    then show ?case using Cons.IH [of j1 sh1] Cons.prems by simp
  qed simp
  from this [OF assms(2), of 0 sh] show ?thesis by (auto simp: sd_card_load_config_def)
qed

subsection \<open>A typed line\<close>

text \<open>The text that is left of the keys pressed before the return key.\<close>

fun edited :: "string \<Rightarrow> string \<Rightarrow> string" where
  "edited acc [] = acc"
| "edited acc (c # cs) =
     (if c = CHR 0x08 \<or> c = CHR 0x7F then edited (butlast acc) cs
      else if (of_char c :: nat) < 0x20 \<or> length acc \<ge> VNA_SHELL_MAX_LENGTH - 1 then edited acc cs
      else edited (acc @ [c]) cs)"

lemma readLine_loop_text:
  assumes "CHR 0x0D \<notin> set keys" "length line = VNA_SHELL_MAX_LENGTH" "nul_free acc" "length acc < VNA_SHELL_MAX_LENGTH" "take (length acc) line = acc"
  shows "\<exists>r o'. readLine_loop VNA_SHELL_MAX_LENGTH line (length acc) (keys @ CHR 0x0D # rest) out = (True, edited acc keys @ CHR 0x00 # r, o', rest) \<and>
    nul_free (edited acc keys) \<and> length (edited acc keys) + Suc (length r) = VNA_SHELL_MAX_LENGTH"
  using assms
proof (induction keys arbitrary: line acc out)
  case Nil
  have "line[length acc := CHR 0x00] = acc @ CHR 0x00 # drop (Suc (length acc)) line"
    using Nil.prems by (metis id_take_nth_drop list_update_length)
  then show ?case using Nil.prems by simp
next
  case (Cons c keys)
  have cr: "c \<noteq> CHR 0x0D" "CHR 0x0D \<notin> set keys" using Cons.prems(1) by auto
  consider (del) "c = CHR 0x08 \<or> c = CHR 0x7F"
    | (drop) "\<not> (c = CHR 0x08 \<or> c = CHR 0x7F)" "(of_char c :: nat) < 0x20 \<or> length acc \<ge> VNA_SHELL_MAX_LENGTH - 1"
    | (put) "\<not> (c = CHR 0x08 \<or> c = CHR 0x7F)" "\<not> ((of_char c :: nat) < 0x20 \<or> length acc \<ge> VNA_SHELL_MAX_LENGTH - 1)" by blast
  then show ?case
  proof cases
    case del
    show ?thesis
    proof (cases "acc = []")
      case True
      then show ?thesis using Cons.IH [OF cr(2) Cons.prems(2-5), of out] del by simp
    next
      case False
      have "nul_free (butlast acc)" using Cons.prems(3) by (auto simp: nul_free_def dest: in_set_butlastD)
      moreover have "take (length (butlast acc)) line = butlast acc" using Cons.prems(5) by (metis butlast_conv_take length_butlast take_take min_def diff_le_self)
      ultimately show ?thesis
        using Cons.IH [OF cr(2) Cons.prems(2), of "butlast acc" "out @ [Write (Str backspace)]"] del False Cons.prems(4) by simp
    qed
  next
    case drop
    then show ?thesis using Cons.IH [OF cr(2) Cons.prems(2-5), of out] cr(1) by simp
  next
    case put
    have "line[length acc := c] = acc @ c # drop (Suc (length acc)) line"
      using Cons.prems by (metis id_take_nth_drop list_update_length)
    moreover have "nul_free (acc @ [c])" using Cons.prems(3) put(2) by (auto simp: nul_free_def)
    moreover have "Suc (length acc) < VNA_SHELL_MAX_LENGTH" using put(2) by linarith
    ultimately show ?thesis
      using Cons.IH [OF cr(2), of "line[length acc := c]" "acc @ [c]" "out @ [Write (Str [c])]"] put cr(1) Cons.prems(2) by simp
  qed
qed

lemma readLine_text:
  assumes "shell_shape sh" "CHR 0x0D \<notin> set keys"
  obtains line echo r where "VNAShell_readLine (shell_line sh) VNA_SHELL_MAX_LENGTH (keys @ CHR 0x0D # rest) = (True, line, echo, rest)"
    "line = edited [] keys @ CHR 0x00 # r" "nul_free (edited [] keys)" "shell_shape (sh\<lparr>shell_line := line\<rparr>)"
  using readLine_loop_text [where acc = "[]" and keys = keys and line = "shell_line sh" and out = "[]" and rest = rest] assms
  by (fastforce simp: VNAShell_readLine_def shell_shape_def VNA_SHELL_MAX_LENGTH_def)

text \<open>C17: Typing works: whatever was in the buffer before, after any keys with corrections and a return
  the command that the remaining text asks for is run, at once or by the sweep thread, with the words
  of the text as its arguments.\<close>
theorem typed_command_runs:
  assumes "shell_shape sh" "shell_function sh = None" "CHR 0x0D \<notin> set keys"
    and "text_command E io_command (edited [] keys) = Some ((n, f, flags), ws)"
  shows "\<exists>line echo. VNAShell_readLine (shell_line sh) VNA_SHELL_MAX_LENGTH (keys @ CHR 0x0D # rest) = (True, line, echo, rest) \<and>
    map_option (\<lambda>(sh', out). brd sh')
      (Option.bind (VNAShell_executeLine E io_command (sh\<lparr>shell_line := line\<rparr>)) (\<lambda>(sh', out). run_waiting sh')) =
    map_option fst (f ws (brd sh))"
proof (rule readLine_text [OF assms(1,3), of rest])
  fix line echo r
  assume l: "VNAShell_readLine (shell_line sh) VNA_SHELL_MAX_LENGTH (keys @ CHR 0x0D # rest) = (True, line, echo, rest)"
    "line = edited [] keys @ CHR 0x00 # r" "nul_free (edited [] keys)" "shell_shape (sh\<lparr>shell_line := line\<rparr>)"
  let ?sh = "sh\<lparr>shell_line := line\<rparr>"
  have "map_option (\<lambda>(sh', out). brd sh') (Option.bind (VNAShell_executeLine E io_command ?sh) (\<lambda>(sh', out). run_waiting sh')) =
      map_option fst (f ws (brd sh))"
  proof (rule parce_text [OF l(3) _ l(4), of r E io_command "(n, f, flags)" ws])
    fix sh' out
    assume p: "VNAShell_parceLine E io_command ?sh = (sh', map_option fst (text_command E io_command (edited [] keys)), out)"
      "shell_shape sh'" "brd sh' = brd ?sh"
      "text_command E io_command (edited [] keys) = Some ((n, f, flags), ws) \<Longrightarrow> shell_argv sh' = ws"
    have sf: "shell_function sh' = None"
      using p(1) assms(2) by (auto simp: VNAShell_parceLine_def Let_def split: prod.splits if_splits)
    have av: "shell_argv (sh'\<lparr>operation_requested := w\<rparr>) = ws" "shell_argv (sh'\<lparr>operation_requested := w, shell_function := g\<rparr>) = ws"
      "shell_argv (sh'\<lparr>shell_function := g\<rparr>) = ws" "shell_argv sh' = ws" for w g
      using p(4) [OF assms(4)] by (simp_all add: shell_argv_def)
    show ?thesis
    proof (cases "f ws (brd sh)")
      case None
      then show ?thesis using p(1,3) sf assms(4) by (simp add: VNAShell_executeLine_def Let_def run_waiting_def av)
    next
      case (Some x)
      then show ?thesis using p(1,3) sf assms(4) by (cases x) (simp add: VNAShell_executeLine_def Let_def run_waiting_def av)
    qed
  qed (simp add: l(2))
  then show ?thesis using l(1) by blast
qed

subsection \<open>The scan command\<close>

definition raw_scan :: u16 where "raw_scan = 0x3F"

lemma scan_flags: "uncorrected (scan_channels 4 raw_scan start stop p)"
  by (simp add: scan_channels_def raw_scan_def uncorrected_def mask_defs SCAN_MASK_NO_CALIBRATION_def SCAN_MASK_NO_EDELAY_def
      SCAN_MASK_NO_S21OFFS_def has_def Let_def)

lemma uncorrected_has: "uncorrected m \<Longrightarrow> has m (SWEEP_CH0_MEASURE OR SWEEP_CH1_MEASURE)"
  by (auto simp: uncorrected_def has_def bit.conj_disj_distrib or_eq_0_iff)

lemma scan_ready:
  assumes "set_frequencies start stop points (on_props (sweep_points_update (\<lambda>_. points)) s0) = Some s"
    and "device_wf s0" "clock_ok (clk s0)" "start \<le> stop" "stop \<le> 2700000000" "points \<le> SWEEP_POINTS_MAX"
  shows "ready s" "sweep_points (props s) = points"
proof -
  have s: "props s = (props s0)\<lparr>sweep_points := points\<rparr>" "clk s = clk s0" "measured s = measured s0" "2 \<le> points"
    using assms(1) by (auto simp: set_frequencies_def Let_def split: if_splits)
  then show p: "sweep_points (props s) = points" by simp
  have "getFrequency i s \<le> stop" if "i < points" for i
  proof -
    have "i \<le> points - 1" "points - 1 < points" using that by simp_all
    then show ?thesis using frequency_list [OF assms(1,4,6), of i "points - 1"] by metis
  qed
  then have "getFrequency i s \<le> 2700000000" if "i < points" for i using that assms(5) order_trans by blast
  then show "ready s" using assms(2,3,6) s p unfolding ready_def device_wf_def props_wf_def cal_wf_def by simp
qed

lemma scan_data:
  assumes "ready s" "uncorrected m" "points = sweep_points (props s)"
  obtains c ms where "sweep sample interrupt jnk False m s = Some (at_point c points ms s, True)"
    "\<forall>i<points. ms ! 0 ! i = sample 0 (getFrequency i s) \<and> ms ! 1 ! i = negated (sample 1 (getFrequency i s))"
proof -
  have n: "points \<le> SWEEP_POINTS_MAX" "\<And>i. i < points \<Longrightarrow> getFrequency i s \<le> 2700000000"
    using assms(1,3) by (auto simp: ready_def cal_wf_def)
  have H: "\<exists>c' d'. sweep_point sample m (d, at_point c i ms s) =
      Some (d', at_point c' i (put_point (Some (sample 0 (getFrequency i s))) (Some (negated (sample 1 (getFrequency i s)))) i ms) s) \<and> clock_ok c'"
    if "clock_ok c" "i < points" for c d i ms
    using sweep_point_uncorrected [OF that(1) n(2) [OF that(2)] _ assms(2)] that(2) n(1) by simp
  obtain c ms where "sweep sample interrupt jnk False m s = Some (at_point c points ms s, True)"
    "row_stored (\<lambda>i. Some (sample 0 (getFrequency i s))) 0 points (measured s ! 0) (ms ! 0)"
    "row_stored (\<lambda>i. Some (negated (sample 1 (getFrequency i s)))) 0 points (measured s ! 1) (ms ! 1)"
    using sweep_stores [OF H assms(1,3)] by blast
  then show ?thesis using that n(1) by (simp add: row_stored_def)
qed

definition scan_report :: "(nat \<Rightarrow> u32 \<Rightarrow> cfloat) \<Rightarrow> u32 \<Rightarrow> reply" where
  "scan_report sample f =
     [Printf ''%u '' [Hz f], Printf ''%f %f '' [Flt (fst (sample 0 f)), Flt (snd (sample 0 f))],
      Printf ''%f %f '' [Flt (- fst (sample 1 f)), Flt (- snd (sample 1 f))], Printf nl []]"

text \<open>C13: The scan command measures what it is asked for: with a valid range and number of points and the
  mask for raw data it returns, for every frequency of the list between start and stop, the frequency
  and the samples of both channels at that frequency, and leaves the sweep paused.\<close>
theorem scan_correct:
  assumes "board_wf L b" "clock_ok (clk (dev b))" "\<not> has (sweep_mode (dev b)) SWEEP_BINARY"
    and "my_atoui x = start" "my_atoui y = stop" "my_atoui z = of_nat points" "my_atoui w = ucast raw_scan"
    and "0 < start" "start \<le> stop" "stop \<le> 2700000000" "points \<le> SWEEP_POINTS_MAX" "set_frequencies start stop points (dev b) = Some s"
  shows "\<exists>b'. cmd_scan E [x, y, z, w] b = Some (b', concat (map (\<lambda>i. scan_report (samples E) (getFrequency i s)) [0..<points])) \<and>
    \<not> has (sweep_mode (dev b')) SWEEP_ENABLE"
proof -
  define s0 where "s0 = sweep_mode_update (\<lambda>w. w AND NOT SWEEP_BINARY) (dev b)"
  have pts: "2 \<le> points" "unat (ucast (of_nat points :: u32) :: u16) = points"
    using assms(11,12) by (auto simp: set_frequencies_def Let_def SWEEP_POINTS_MAX_def unsigned_of_nat unsigned_ucast_eq take_bit_nat_eq_self split: if_splits)
  obtain s1 where s1: "set_frequencies start stop points (on_props (sweep_points_update (\<lambda>_. points)) s0) = Some s1" "getFrequency i s1 = getFrequency i s" for i
    using assms(12) by (auto simp: set_frequencies_def Let_def s0_def getFrequency_def split: if_splits)
  have r: "ready s1" "sweep_points (props s1) = points"
    using scan_ready [OF s1(1)] assms by (simp_all add: s0_def board_wf_def)
  let ?ch = "scan_channels 4 raw_scan start stop ((props (dev b))\<lparr>sweep_points := points\<rparr>)"
  obtain c ms where sw: "sweep (samples E) (\<lambda>_. False) (junk E) False ?ch s1 = Some (at_point c points ms s1, True)"
    and d: "\<forall>i<points. ms ! 0 ! i = samples E 0 (getFrequency i s1) \<and> ms ! 1 ! i = negated (samples E 1 (getFrequency i s1))"
    using scan_data [OF r(1) scan_flags r(2) [symmetric]] by blast
  let ?s = "pause_sweep (at_point c points ms s1)"
  have "cmd_scan E [x, y, z, w] b = scan_run E start stop points raw_scan ?ch
      (on_dev (sweep_mode_update (\<lambda>w. w AND NOT SWEEP_BINARY)) (on_dev (on_props (sweep_points_update (\<lambda>_. points))) b))"
  proof -
    have nz: "start \<noteq> 0" "stop \<noteq> 0" "\<not> stop < start" "\<not> points > SWEEP_POINTS_MAX" "points \<noteq> 0"
      using assms(8-11) pts(1) by (auto simp: word_less_def word_le_def)
    have "ucast (ucast raw_scan :: u32) = raw_scan" by (simp add: raw_scan_def)
    then show ?thesis using nz assms(3-7) pts by (simp add: cmd_scan_def Let_def on_dev_def eval_nat_numeral)
  qed
  also have "\<dots> = Some (b\<lparr>dev := ?s\<rparr>, scan_output raw_scan points ?s)"
    using s1(1) sw uncorrected_has [OF scan_flags] by (simp add: on_dev_swap scan_run_points) (simp add: scan_run_def on_dev_def s0_def Let_def)
  also have "scan_output raw_scan points ?s = concat (map (\<lambda>i. scan_report (samples E) (getFrequency i s)) [0..<points])"
  proof -
    have "scan_line raw_scan ?s i = scan_report (samples E) (getFrequency i s)" if "i < points" for i
      using d that s1(2) by (simp add: scan_line_def scan_report_def raw_scan_def SCAN_MASK_BINARY_def SCAN_MASK_OUT_FREQ_def
          SCAN_MASK_OUT_DATA0_def SCAN_MASK_OUT_DATA1_def has_def pause_sweep_def negated_def at_point_def getFrequency_def)
    then have "map (scan_line raw_scan ?s) [0..<points] = map (\<lambda>i. scan_report (samples E) (getFrequency i s)) [0..<points]" by simp
    then show ?thesis by (simp only: scan_output_def) (simp add: raw_scan_def SCAN_MASK_BINARY_def has_def)
  qed
  finally show ?thesis by (auto simp: pause_sweep_def has_def and.assoc)
qed

subsection \<open>Sessions\<close>

text \<open>No session can damage the settings: from a well-formed instrument, after any typed lines, waiting
  commands, command files and sweeps in any order, every array has its length, every stored index and
  enumeration is in range, the sweep has between 2 and 401 points, and every valid slot of the flash
  memory holds well-formed settings.\<close>
theorem session_keeps_wf:
  assumes "board_wf (lay E) (brd sh)" "shell_function sh = None" "keeps_board (lay E) io_command" "(shell_step E io_command)\<^sup>*\<^sup>* sh sh'"
  shows "board_wf (lay E) (brd sh')"
proof -
  note table = wf_table [OF assms(3)]
  have "command_table.shell_inv E io_command (board_wf (lay E)) sh"
    using assms(1,2) by (simp add: command_table.shell_inv_def [OF table])
  from command_table.session_inv [OF table assms(4) this] show ?thesis by (simp add: command_table.shell_inv_def [OF table])
qed

definition rig0 :: rig where "rig0 = \<lparr>lay = layout0, samples = (\<lambda>_ _. (1, 0)), junk = (0, 0)\<rparr>"

definition shell0 :: shell where
  "shell0 = \<lparr>brd = board0, shell_line = replicate VNA_SHELL_MAX_LENGTH (CHR 0x00), shell_args = replicate (VNA_SHELL_MAX_ARGUMENTS + 1) None,
     shell_nargs = 0, shell_function = None, operation_requested = 0\<rparr>"

lemma shell0_shape: "shell_shape shell0" "shell_function shell0 = None" "brd shell0 = board0"
  by (simp_all add: shell_shape_def shell0_def)

lemma props0_wf: "props_wf props0"
  by (simp add: props0_def load_default_properties_def props_wf_def cal_wf_def def_trace_def def_markers_def trace_wf_def TRC_LOGMAG_def TRC_PHASE_def
      TRC_SMITH_def MS_REIM_def MS_RX_def MAX_TRACE_TYPE_def MS_END_def TRACES_MAX_def MARKERS_MAX_def POINTS_COUNT_DEFAULT_def SWEEP_POINTS_MAX_def MEASURE_END_def)

lemma board0_wf: "board_wf L board0"
proof -
  have "device_wf device0" using props0_wf
    by (simp add: device_wf_def device0_def shaped_def config0_def LCD_DEFAULT_PALETTE_def MAX_PALETTE_def)
  then show ?thesis by (auto simp: board_wf_def board0_def cache_valid_def slot_value_def)
qed

lemma pause_text: "text_command rig0 quiet_io ''pause'' = Some ((''pause'', cmd_pause, CMD_BREAK_SWEEP OR CMD_RUN_IN_UI OR CMD_RUN_IN_LOAD), [])"
proof -
  have t: "tokens ''pause'' = [''pause'']" by simp
  have "find_command ''pause'' (commands rig0 quiet_io) = find (\<lambda>c. fst c = ''pause'') (commands rig0 quiet_io)"
    by (rule find_command_name [OF _ _ command_names_plain]) (simp_all add: nul_free_def)
  also have "\<dots> = Some (''pause'', cmd_pause, CMD_BREAK_SWEEP OR CMD_RUN_IN_UI OR CMD_RUN_IN_LOAD)" by (simp add: commands_def)
  finally show ?thesis by (simp add: text_command_def t)
qed

lemma pause_session: "\<exists>sh'. shell_step rig0 quiet_io shell0 sh' \<and> brd sh' = on_dev pause_sweep board0"
proof -
  have "script_lines (''pause'' @ [CHR 0x0D]) = [''pause'']"
    by (subst script_lines.simps) (simp add: VNA_SHELL_MAX_LENGTH_def, subst script_lines.simps, simp)
  then have "map_option (\<lambda>(sh', ok). (brd sh', ok)) (sd_card_load_config rig0 quiet_io True True [''pause'' @ [CHR 0x0D]] shell0) =
      Some (on_dev pause_sweep board0, True)"
    using load_file_text [OF shell0_shape(1), of "[''pause'' @ [CHR 0x0D]]" rig0 quiet_io]
    by (simp add: script_step_def pause_text cmd_pause_def changed_def shell0_shape cmd_flags has_def)
  then obtain sh' where l: "sd_card_load_config rig0 quiet_io True True [''pause'' @ [CHR 0x0D]] shell0 = Some (sh', True)"
    "brd sh' = on_dev pause_sweep board0" by auto
  show ?thesis using shell_step.loaded [OF l(1)] l(2) by blast
qed

theorem session_keeps_wf_witness:
  "\<exists>sh'. (shell_step rig0 quiet_io)\<^sup>*\<^sup>* shell0 sh' \<and> brd sh' = on_dev pause_sweep board0 \<and> board_wf layout0 (brd sh')"
proof -
  obtain sh' where st: "(shell_step rig0 quiet_io)\<^sup>*\<^sup>* shell0 sh'" "brd sh' = on_dev pause_sweep board0" using pause_session by blast
  have "board_wf (lay rig0) (brd shell0)" using board0_wf shell0_shape by simp
  from session_keeps_wf [OF this shell0_shape(2) quiet_keeps st(1)] show ?thesis using st by (auto simp: rig0_def)
qed


theorem command_file_correct_witness:
  "map_option (\<lambda>(sh', ok). (brd sh', ok)) (sd_card_load_config rig0 quiet_io True True [''pau'', ''se'' @ [CHR 0x0D], ''resume''] shell0) =
    map_option (\<lambda>b. (b, True)) (run_script rig0 quiet_io (script_lines (concat [''pau'', ''se'' @ [CHR 0x0D], ''resume''])) (brd shell0))"
  by (rule command_file_correct [OF shell0_shape(1)]) simp

theorem command_file_newlines_witness:
  "\<exists>sh'. sd_card_load_config rig0 quiet_io True True [''pause'' @ [CHR 0x0A] @ ''save 0'' @ [CHR 0x0A]] shell0 = Some (sh', True) \<and> brd sh' = brd shell0"
  by (rule command_file_newlines [OF shell0_shape(1)]) simp

theorem typed_command_runs_witness:
  "\<exists>line echo. VNAShell_readLine (shell_line shell0) VNA_SHELL_MAX_LENGTH (''pauze'' @ [CHR 0x08, CHR 0x08] @ ''se'' @ CHR 0x0D # []) = (True, line, echo, []) \<and>
    map_option (\<lambda>(sh', out). brd sh')
      (Option.bind (VNAShell_executeLine rig0 quiet_io (shell0\<lparr>shell_line := line\<rparr>)) (\<lambda>(sh', out). run_waiting sh')) =
    map_option fst (cmd_pause [] (brd shell0))"
proof -
  have "edited [] (''pauze'' @ [CHR 0x08, CHR 0x08] @ ''se'') = ''pause''" by (simp add: VNA_SHELL_MAX_LENGTH_def)
  then have "text_command rig0 quiet_io (edited [] (''pauze'' @ [CHR 0x08, CHR 0x08] @ ''se'')) =
      Some ((''pause'', cmd_pause, CMD_BREAK_SWEEP OR CMD_RUN_IN_UI OR CMD_RUN_IN_LOAD), [])"
    by (simp add: pause_text)
  from typed_command_runs [OF shell0_shape(1,2) _ this, of "[]"] show ?thesis by simp
qed

theorem scan_correct_witness:
  "\<exists>s b'. set_frequencies 1000000 2000000 101 (dev board0) = Some s \<and>
    cmd_scan rig0 [''1000000'', ''2000000'', ''101'', ''0x3F''] board0 =
      Some (b', concat (map (\<lambda>i. scan_report (samples rig0) (getFrequency i s)) [0..<101])) \<and> \<not> has (sweep_mode (dev b')) SWEEP_ENABLE"
proof -
  obtain s where s: "set_frequencies 1000000 2000000 101 (dev board0) = Some s" by (simp add: set_frequencies_def Let_def)
  have "clock_ok (clk (dev board0))"
    using ready_device0 [of "the (set_frequencies 50000 900000000 401 device0)"]
    by (simp add: ready_def board0_def set_frequencies_def Let_def device0_def)
  moreover have "my_atoui ''1000000'' = 1000000" "my_atoui ''2000000'' = 2000000" "my_atoui ''101'' = of_nat 101" "my_atoui ''0x3F'' = ucast raw_scan"
    by (simp_all add: my_atoui_def Let_def atoui_digit_def digit_code_def raw_scan_def word_le_def)
  ultimately show ?thesis
    using scan_correct [OF board0_wf _ _ _ _ _ _ _ _ _ _ s, where E = rig0] s
    by (simp add: SWEEP_POINTS_MAX_def board0_def device0_def SWEEP_ENABLE_def SWEEP_BINARY_def has_def)
qed

subsection \<open>Inputs that go wrong\<close>

text \<open>A scan of a single point passes the checks of the command and then divides by zero: the check only
  refuses zero points and more than 401.\<close>
theorem scan_single_point: "cmd_scan E [''1000000'', ''2000000'', ''1''] b = None"
proof -
  have "my_atoui ''1000000'' = 1000000" "my_atoui ''2000000'' = 2000000" "my_atoui ''1'' = 1"
    by (simp_all add: my_atoui_def Let_def atoui_digit_def digit_code_def word_le_def)
  then show ?thesis by (simp add: cmd_scan_def scan_run_def set_frequencies_def SWEEP_POINTS_MAX_def Let_def)
qed

text \<open>The electrical delay given for a named channel is ignored: whatever value follows the name, the
  delay of the channel becomes zero, because the name is parsed in its place.\<close>
theorem edelay_value_ignored: "cmd_edelay [''s21'', v] b = changed (set_electrical_delay 1 0) b"
proof -
  have "get_str_index ''s21'' cmd_edelay_list = 1"
    by (simp add: get_str_index_def cmd_edelay_list_def gsi_from_correct nul_free_def)
  moreover have "my_atof ''s21'' = 0"
    by (simp add: my_atof_def Let_def my_atoi_def digit_code_def isdigit_def atof_exp_def)
  ultimately show ?thesis by (simp add: cmd_edelay_def)
qed

text \<open>The image format can be left contradictory: with the PNG format selected, the configuration command
  for TIFF sets its flag beside the other one, although at most one of the two is meant to be set.\<close>
theorem image_format_conflict:
  assumes "VNA_MODE VNA_MODE_PNG (dev b)"
  shows "\<exists>b' r. cmd_config [''tif'', ''1''] b = Some (b', r) \<and> VNA_MODE VNA_MODE_PNG (dev b') \<and> VNA_MODE VNA_MODE_TIFF (dev b')"
proof -
  have "get_str_index ''tif'' cmd_mode_list = 9" by code_simp
  moreover have "my_atoui ''1'' = VNA_MODE_SET" by (simp add: my_atoui_def Let_def atoui_digit_def digit_code_def VNA_MODE_SET_def word_le_def)
  moreover have "has (x OR 512) 512" "has x 1024 \<Longrightarrow> has (x OR 512) 1024" for x :: u16
    unfolding has_or by (simp_all add: has_def)
  ultimately show ?thesis using assms
    by (auto simp: cmd_config_def changed_def on_dev_def apply_VNA_mode_def VNA_MODE_def VNA_MODE_PNG_def VNA_MODE_TIFF_def VNA_MODE_SET_def
        VNA_MODE_CLR_def Let_def request_to_redraw_def) metis
qed

text \<open>An empty line can repeat an old complaint: the word that the previous line left in the buffer is
  reported as an unknown command although nothing has been typed.\<close>
theorem empty_line_stale:
  assumes "shell_line sh = CHR 0x00 # r" "shell_args sh \<noteq> []" "shell_args sh ! 0 = Some p" "cstr_from (shell_line sh) p = w" "w \<noteq> []"
  shows "\<exists>sh'. VNAShell_executeLine E io_command sh = Some (sh', [Printf (''%s?'' @ nl) [Str w]])"
proof -
  have "parse_line (shell_line sh) (VNA_SHELL_MAX_ARGUMENTS + 1) = (shell_line sh, [], 0)"
    unfolding parse_line_def by (subst parse_loop.simps) (simp add: assms(1) char_at_def)
  then show ?thesis using assms by (simp add: VNAShell_executeLine_def VNAShell_parceLine_def)
qed

theorem image_format_conflict_witness:
  "\<exists>b b' r. VNA_MODE VNA_MODE_PNG (dev b) \<and> cmd_config [''tif'', ''1''] b = Some (b', r) \<and> VNA_MODE VNA_MODE_PNG (dev b') \<and> VNA_MODE VNA_MODE_TIFF (dev b')"
proof -
  have "VNA_MODE VNA_MODE_PNG (dev (on_dev (config_update (vna_mode_update (\<lambda>_. 1024))) board0))"
    by (simp add: on_dev_def VNA_MODE_def VNA_MODE_PNG_def has_def)
  from image_format_conflict [OF this] this show ?thesis by blast
qed

theorem empty_line_stale_witness:
  "\<exists>sh'. VNAShell_executeLine rig0 quiet_io (shell0\<lparr>shell_line := CHR 0x00 # ''foo'', shell_args := [Some 1]\<rparr>) =
    Some (sh', [Printf (''%s?'' @ nl) [Str ''foo'']])"
  by (rule empty_line_stale [where p = 1 and r = "''foo''"]) (simp_all add: cstr_from_def)

end
