(* ===== verification/Mute.thy ===== *)
theory Mute
  imports Clock
begin

unbundle bit_operations_syntax

text \<open>
  Switching the generator off and on again.  The output control registers are written only when they
  differ from the values kept in \<^verbatim>\<open>clk_cache\<close>, and the routine that powers the outputs down does not
  touch those values.
\<close>

text \<open>A routine that sets the control value of one channel, and is silent when the value is cached.\<close>

definition drives :: "(clock \<Rightarrow> clock) \<Rightarrow> nat \<Rightarrow> u8 \<Rightarrow> bool" where
  "drives F ch v \<longleftrightarrow> (\<forall>s. clk_cache (F s) = (clk_cache s)[ch := v] \<and> frame (F s) = frame s \<and>
     (clk_cache s ! ch = v \<longrightarrow> bus_regs (events (F s)) \<subseteq> insert (msreg_base ! ch) (bus_regs (events s))))"

lemma cache_write [simp]: "clk_cache (si5351_bulk_write buf s) = clk_cache s" "clk_cache (si5351_write r d s) = clk_cache s"
  "clk_cache (emit ev s) = clk_cache s" "clk_cache (si5351_reset_pll m s) = clk_cache s" "clk_cache (si5351_setupPLL a b c e s) = clk_cache s"
  "clk_cache (si5351_setupPLL_freq a p dv s) = clk_cache s"
  by (simp_all add: si5351_bulk_write_def si5351_write_def si5351_reset_pll_def si5351_setupPLL_def si5351_setupPLL_freq_def emit_def Let_def
      split: prod.splits)

lemma multisynth_drives: "\<exists>v. drives (si5351_setupMultisynth ch dv num denom r x) ch v"
proof -
  let ?v = "if num = 0 then (x OR CLK_INPUT_MULTISYNTH_N) OR CLK_INTEGER_MODE else x OR CLK_INPUT_MULTISYNTH_N"
  have "drives (si5351_setupMultisynth ch dv num denom r x) ch ?v"
    unfolding drives_def by (simp add: si5351_setupMultisynth_def ms_regs_def Let_def) (metis list_update_id)
  then show ?thesis by blast
qed

lemma fixedpll_drives: "\<exists>v. drives (si5351_set_frequency_fixedpll ch p f r x) ch v"
  using multisynth_drives unfolding fixedpll_whole_and_part by (auto split: prod.splits)

lemma drivesD:
  assumes "drives F ch v"
  shows "clk_cache (F s) = (clk_cache s)[ch := v]" "frame (F s) = frame s"
    "clk_cache s ! ch = v \<Longrightarrow> bus_regs (events (F s)) \<subseteq> insert (msreg_base ! ch) (bus_regs (events s))"
  using assms by (simp_all add: drives_def)

definition quiet_regs :: "u8 set" where "quiet_regs = {26, 34, 42, 50, 58, 177}"

text \<open>A routine that sets all three channels, and is silent on the control registers when they are cached.\<close>

definition settles :: "u32 \<Rightarrow> (clock \<Rightarrow> clock) \<Rightarrow> u8 list \<Rightarrow> bool" where
  "settles X F vs \<longleftrightarrow> length vs = 3 \<and> (\<forall>s. xtal_freq s = X \<longrightarrow> length (clk_cache s) = 3 \<longrightarrow> clk_cache (F s) = vs \<and>
     (clk_cache s = vs \<longrightarrow> bus_regs (events (F s)) \<subseteq> quiet_regs \<union> bus_regs (events s)))"

lemma frame_xtal: "frame s = frame s' \<Longrightarrow> xtal_freq s = xtal_freq s'"
  by (simp add: frame_def)

lemma three: "length xs = 3 \<Longrightarrow> xs[0 := a, 1 := b, 2 := c] = [a, b, c]" "length xs = 3 \<Longrightarrow> xs[2 := c, 0 := a, 1 := b] = [a, b, c]"
  by (auto simp: numeral_eq_Suc length_Suc_conv)

lemma pll_settles: "\<exists>vs. settles X (set_fixed_pll b True f g r x y) vs"
proof -
  let ?F2 = "si5351_set_frequency_fixedpll 2 (ucast (X * PLL_N_2)) CLK2_FREQUENCY 0 (DRIVE_2MA OR CLK_PLL_SELECT_B)"
  let ?F0 = "si5351_set_frequency_fixedpll 0 (ucast (bs_omul b) * ucast X * ucast (ucast (bs_div b) :: u32)) g r (y OR CLK_PLL_SELECT_A)"
  let ?F1 = "si5351_set_frequency_fixedpll 1 (ucast (bs_mul b) * ucast X * ucast (ucast (bs_div b) :: u32)) f r (x OR CLK_PLL_SELECT_A)"
  obtain v0 v1 v2 where d: "drives ?F2 2 v2" "drives ?F0 0 v0" "drives ?F1 1 v1" using fixedpll_drives by metis
  have "clk_cache (set_fixed_pll b True f g r x y s) = [v0, v1, v2] \<and>
      (clk_cache s = [v0, v1, v2] \<longrightarrow> bus_regs (events (set_fixed_pll b True f g r x y s)) \<subseteq> quiet_regs \<union> bus_regs (events s))"
    if X: "xtal_freq s = X" "length (clk_cache s) = 3" for s
  proof -
    let ?s0 = "si5351_setupPLL SI5351_REG_PLL_B (push_bit 7 PLL_N_2) 0 1 (si5351_setupPLL SI5351_REG_PLL_A (push_bit 7 (ucast (bs_div b) :: u32)) 0 1 s)"
    have f: "frame ?s0 = frame s" "frame (?F2 ?s0) = frame s" "frame (?F0 (?F2 ?s0)) = frame s" by simp_all
    have x: "xtal_freq (?F2 ?s0) = X" "xtal_freq (?F0 (?F2 ?s0)) = X" using frame_xtal [OF f(2)] frame_xtal [OF f(3)] X(1) by (simp_all only:)
    have e: "set_fixed_pll b True f g r x y s = ?F1 (?F0 (?F2 ?s0))"
      by (simp only: set_fixed_pll_def Let_def if_True x X(1))
    have c: "clk_cache (?F1 (?F0 (?F2 ?s0))) = [v0, v1, v2]"
      by (simp only: drivesD(1) [OF d(1)] drivesD(1) [OF d(2)] drivesD(1) [OF d(3)] cache_write three(2) [OF X(2)])
    have "bus_regs (events (?F1 (?F0 (?F2 ?s0)))) \<subseteq> quiet_regs \<union> bus_regs (events s)" if q: "clk_cache s = [v0, v1, v2]"
    proof -
      have c0: "clk_cache ?s0 = [v0, v1, v2]" "clk_cache (?F2 ?s0) = [v0, v1, v2]" "clk_cache (?F0 (?F2 ?s0)) = [v0, v1, v2]"
        using q drivesD(1) [OF d(1)] drivesD(1) [OF d(2)] by simp_all
      then show ?thesis
        using drivesD(3) [OF d(1), of ?s0] drivesD(3) [OF d(2), of "?F2 ?s0"] drivesD(3) [OF d(3), of "?F0 (?F2 ?s0)"]
        by (auto simp: msreg_base_def quiet_regs_def)
    qed
    then show ?thesis using e c by simp
  qed
  then show ?thesis unfolding settles_def by (intro exI [of _ "[v0, v1, v2]"]) simp
qed

lemma mult_settles:
  assumes "cd \<noteq> bs_div b"
  shows "\<exists>vs. settles X (set_fixed_mult b cd f g r x y) vs"
proof -
  let ?d = "ucast (bs_div b) :: u32"
  let ?F0 = "si5351_setupMultisynth 0 (push_bit 7 ?d) 0 1 (of_nat r) (y OR CLK_PLL_SELECT_A)"
  let ?F1 = "si5351_setupMultisynth 1 (push_bit 7 ?d) 0 1 (of_nat r) (x OR CLK_PLL_SELECT_B)"
  let ?F2 = "si5351_set_frequency_fixedpll 2 (ucast f * ucast ?d) (CLK2_FREQUENCY * bs_mul b) r (DRIVE_2MA OR CLK_PLL_SELECT_B)"
  obtain v0 v1 v2 where d: "drives ?F0 0 v0" "drives ?F1 1 v1" "drives ?F2 2 v2" using fixedpll_drives multisynth_drives by metis
  have "clk_cache (set_fixed_mult b cd f g r x y s) = [v0, v1, v2] \<and>
      (clk_cache s = [v0, v1, v2] \<longrightarrow> bus_regs (events (set_fixed_mult b cd f g r x y s)) \<subseteq> quiet_regs \<union> bus_regs (events s))"
    if X: "length (clk_cache s) = 3" for s
  proof -
    let ?s0 = "si5351_setupPLL_freq SI5351_REG_PLL_B (ucast f * ucast ?d) (bs_mul b) (si5351_setupPLL_freq SI5351_REG_PLL_A (ucast g * ucast ?d) (bs_omul b) s)"
    have e: "set_fixed_mult b cd f g r x y s = ?F2 (?F1 (?F0 ?s0))" using assms by (simp add: set_fixed_mult_def Let_def)
    have c: "clk_cache (?F2 (?F1 (?F0 ?s0))) = [v0, v1, v2]"
      by (simp only: drivesD(1) [OF d(1)] drivesD(1) [OF d(2)] drivesD(1) [OF d(3)] cache_write three(1) [OF X])
    have "bus_regs (events (?F2 (?F1 (?F0 ?s0)))) \<subseteq> quiet_regs \<union> bus_regs (events s)" if q: "clk_cache s = [v0, v1, v2]"
    proof -
      have "clk_cache ?s0 = [v0, v1, v2]" "clk_cache (?F0 ?s0) = [v0, v1, v2]" "clk_cache (?F1 (?F0 ?s0)) = [v0, v1, v2]"
        using q drivesD(1) [OF d(1)] drivesD(1) [OF d(2)] by simp_all
      then show ?thesis
        using drivesD(3) [OF d(1), of ?s0] drivesD(3) [OF d(2), of "?F0 ?s0"] drivesD(3) [OF d(3), of "?F1 (?F0 ?s0)"]
        by (auto simp: msreg_base_def quiet_regs_def bus_regs_pllfreq)
    qed
    then show ?thesis using e c by simp
  qed
  then show ?thesis unfolding settles_def by (intro exI [of _ "[v0, v1, v2]"]) simp
qed

lemma program_settles:
  assumes "bs_div cur \<noteq> bs_div b" "bs_mode b \<noteq> BAND_NONE"
  shows "\<exists>vs. length vs = 3 \<and> (\<forall>s. current_band s \<noteq> band \<longrightarrow> xtal_freq s = X \<longrightarrow> length (clk_cache s) = 3 \<longrightarrow>
    clk_cache (fst (program_band band b cur f g r drive s)) = vs \<and>
    (clk_cache s = vs \<longrightarrow> bus_regs (events (fst (program_band band b cur f g r drive s))) \<subseteq> quiet_regs \<union> bus_regs (events s)))"
proof -
  obtain ds ods where dr: "(if drive > DRIVE_8MA then (bs_pow b, bs_opow b) else (drive, drive)) = (ds, ods)" by fastforce
  define F where "F = (if bs_mode b = SI5351_FIXED_PLL then set_fixed_pll b True f g r ds ods else set_fixed_mult b (bs_div cur) f g r ds ods)"
  have "\<exists>vs. settles X F vs"
    using pll_settles [of X b f g r ds ods] mult_settles [OF assms(1), of X f g r ds ods] by (simp add: F_def)
  then obtain vs where vs: "settles X F vs" by blast
  have "clk_cache (fst (program_band band b cur f g r drive s)) = vs \<and>
    (clk_cache s = vs \<longrightarrow> bus_regs (events (fst (program_band band b cur f g r drive s))) \<subseteq> quiet_regs \<union> bus_regs (events s))"
    if s: "current_band s \<noteq> band" "xtal_freq s = X" "length (clk_cache s) = 3" for s
  proof -
    define s1 where "s1 = (if bs_l_gain cur \<noteq> bs_l_gain b \<or> bs_r_gain cur \<noteq> bs_r_gain b then emit (Set_Gain (bs_l_gain b) (bs_r_gain b)) s else s)"
    have s1: "clk_cache s1 = clk_cache s" "frame s1 = frame s" "bus_regs (events s1) = bus_regs (events s)" by (simp_all add: s1_def)
    then have x: "xtal_freq s1 = X" using frame_xtal [OF s1(2)] s(2) by simp
    have e: "fst (program_band band b cur f g r drive s) =
        (si5351_reset_pll (32 OR 128) (emit (Sleep DELAY_RESET_PLL_AFTER) (F s1)))\<lparr>current_band := band, current_freq := f\<rparr>"
      using s(1) assms(2) by (cases "bs_mode b") (simp_all add: program_band_def dr Let_def F_def s1_def)
    have "clk_cache (F s1) = vs" "clk_cache s1 = vs \<longrightarrow> bus_regs (events (F s1)) \<subseteq> quiet_regs \<union> bus_regs (events s1)"
      using vs x s1(1) s(3) by (simp_all add: settles_def)
    then show ?thesis unfolding e using s1 by (auto simp: quiet_regs_def)
  qed
  then show ?thesis using vs unfolding settles_def by blast
qed

lemma band_tables:
  assumes "clock_ok c"
  shows "bs_div (band_s c ! 0) = 0" "band_limit thr (band_s c ! 0) = 0"
    "\<And>i. 0 < i \<Longrightarrow> i < length (band_s c) \<Longrightarrow> bs_div (band_s c ! i) \<noteq> 0 \<and> bs_mode (band_s c ! i) \<noteq> BAND_NONE" "3 \<le> length (band_s c)"
proof -
  obtain t where t: "t < 3" "band_s c = band_s (si5351_set_band_mode t c)" using assms by (auto simp: clock_ok_def)
  then have "band_s c \<in> {band_strategy_H4_SI5351, band_strategy_36H_MS5351, band_strategy_SWC5351}"
    by (auto simp: si5351_set_band_mode_def numeral_eq_Suc less_Suc_eq)
  moreover have "list_all (\<lambda>bs. bs_div (bs ! 0) = 0 \<and> bs_freq (bs ! 0) = 0 \<and> list_all (\<lambda>b. bs_div b \<noteq> 0 \<and> bs_mode b \<noteq> BAND_NONE) (tl bs) \<and> 3 \<le> length bs)
      [band_strategy_H4_SI5351, band_strategy_36H_MS5351, band_strategy_SWC5351]"
    by (simp add: band_strategy_H4_SI5351_def band_strategy_36H_MS5351_def band_strategy_SWC5351_def)
  ultimately have q: "bs_div (band_s c ! 0) = 0" "bs_freq (band_s c ! 0) = 0"
    "list_all (\<lambda>b. bs_div b \<noteq> 0 \<and> bs_mode b \<noteq> BAND_NONE) (tl (band_s c))" "3 \<le> length (band_s c)" by auto
  show "bs_div (band_s c ! 0) = 0" "3 \<le> length (band_s c)" by (fact q)+
  show "band_limit thr (band_s c ! 0) = 0" by (simp add: band_limit_def q(2))
  fix i assume i: "0 < i" "i < length (band_s c)"
  then have "band_s c ! i \<in> set (tl (band_s c))" by (cases "band_s c") (auto simp: nth_Cons')
  then show "bs_div (band_s c ! i) \<noteq> 0 \<and> bs_mode (band_s c ! i) \<noteq> BAND_NONE" using q(3) by (simp add: list_all_iff)
qed

lemma select_band_positive:
  assumes "clock_ok c" "0 < freq" "freq \<le> 2700000000" "select_band freq drive c = Some (r, d, band)"
  shows "0 < band" "band < length (band_s c)"
proof -
  note b = band_tables [OF assms(1)]
  have "0 < band \<and> band < length (band_s c)"
  proof (cases "si5351_get_harmonic_lvl c freq = Some band")
    case True
    have "\<exists>i < length (band_s c). si5351_get_harmonic_lvl c freq = Some i" by (rule harmonic_lvl_exists [OF assms(1,3)])
    moreover have "band \<noteq> 0"
    proof
      assume "band = 0"
      with True have "harmonic_scan (harmonic_freq_threshold c) freq (band_s c) 0 = Some 0" by (simp add: si5351_get_harmonic_lvl_def)
      moreover obtain x xs where bs: "band_s c = x # xs" using b(4) by (cases "band_s c") auto
      ultimately have "freq \<le> band_limit (harmonic_freq_threshold c) x"
        using harmonic_scan_spec [where thr = "harmonic_freq_threshold c" and freq = freq and bs = "band_s c" and i = 0]
        by (auto simp: bs band_limit_def split: if_splits)
      then show False using b(2) assms(2) bs by (simp add: word_le_def word_less_def)
    qed
    ultimately show ?thesis using True by simp
  next
    case False
    then have "band = 1 \<or> band = 2" using assms(4) by (auto simp: select_band_def bind_eq_Some_conv split: if_splits)
    then show ?thesis using b(4) by auto
  qed
  then show "0 < band" "band < length (band_s c)" by simp_all
qed

lemma cold_tune:
  assumes "clock_ok c" "current_band c = 0" "current_freq c = 0" "0 < freq" "select_band freq p c = Some (r, d, band)"
    "band < length (band_s c)"
  shows "si5351_set_frequency freq p c =
    Some (program_band band (band_s c ! band) (band_s c ! 0) freq (freq + IF_freq c) r d (c\<lparr>current_power := d\<rparr>))"
proof -
  have "(if current_power c \<noteq> d then (si5351_reset_cache c)\<lparr>current_power := d\<rparr> else c) = c\<lparr>current_power := d\<rparr>"
    using assms(2,3) by (cases c) (simp add: si5351_reset_cache_def)
  then show ?thesis using assms band_tables(4) [OF assms(1)] by (cases "freq = 0") (auto simp: si5351_set_frequency_def Let_def band_at_def)
qed

text \<open>The state after pausing with muted outputs and resuming.\<close>

lemma mute_cycle:
  fixes c :: clock
  defines "m \<equiv> (si5351_enable_output (si5351_disable_output c))\<lparr>events := []\<rparr>"
  shows "clk_cache m = clk_cache c" "current_band m = 0" "current_freq m = 0" "current_power m = current_power c" "band_s m = band_s c"
    "xtal_freq m = xtal_freq c" "harmonic_freq_threshold m = harmonic_freq_threshold c" "IF_freq m = IF_freq c" "events m = []"
  by (simp_all add: m_def si5351_enable_output_def si5351_disable_output_def si5351_reset_cache_def si5351_write_def si5351_bulk_write_def emit_def)



end
