(* ===== verification/Measuring.thy ===== *)
theory Measuring
  imports ShellRun Mute
begin

unbundle bit_operations_syntax

text \<open>
  The measuring thread of \<^verbatim>\<open>main.c\<close>: each pass of \<^verbatim>\<open>Thread1\<close> sweeps or mutes the outputs, runs the command that
  the console has left for it, serves the user interface, smooths and transforms a finished sweep and
  draws.  The user interface and the drawing are parameters of a pass.
\<close>

subsection \<open>A pass\<close>

text \<open>The channels each measurement needs, in the order of the enumeration.\<close>

definition measure_option :: "u16 list" where
  "measure_option = [0, 0, 2, 2, 2, 2, 1, 1, 1, 1, 2]"

definition plot_get_measure_channels :: "vna \<Rightarrow> u16" where
  "plot_get_measure_channels s = measure_option ! measure_mode (props s)"

record thread =
  thread_shell :: shell
  thread_td :: td_state
  output_muted :: bool

definition pause_outputs :: "bool \<Rightarrow> vna \<Rightarrow> vna \<times> bool" where
  "pause_outputs muted s =
     (let mute = VNA_MODE VNA_MODE_MUTE_PAUSE s in
      if mute \<noteq> muted then (s\<lparr>clk := (if mute then si5351_disable_output (clk s) else si5351_enable_output (clk s))\<rparr>, mute) else (s, muted))"

definition sweep_phase :: "rig \<Rightarrow> (nat \<Rightarrow> bool) \<Rightarrow> u16 \<Rightarrow> bool \<Rightarrow> vna \<Rightarrow> (vna \<times> bool \<times> bool) option" where
  "sweep_phase E interrupt m muted s =
     (if has (sweep_mode s) (SWEEP_ENABLE OR SWEEP_ONCE) then
        let s = (if muted then s\<lparr>clk := si5351_enable_output (clk s)\<rparr> else s) in
        map_option (\<lambda>(s, completed). (s\<lparr>sweep_mode := sweep_mode s AND NOT SWEEP_ONCE\<rparr>, False, completed))
          (sweep (samples E) interrupt (junk E) True m s)
      else let (s, muted) = pause_outputs muted s in Some (s, muted, False))"

definition process_data :: "bool \<Rightarrow> u16 \<Rightarrow> vna \<Rightarrow> td_state \<Rightarrow> vna \<times> td_state" where
  "process_data completed m s td =
     (let (s, td) = (if completed then
            let s = (if smooth_factor s \<noteq> 0 then measurementDataSmooth m s else s);
                (s, td) = (if props_mode (props s) AND DOMAIN_MODE = DOMAIN_TIME then transform_domain m s td else (s, td)) in
            (request_to_redraw REDRAW_PLOT s, td)
          else (s, td)) in
      (request_to_redraw REDRAW_BATTERY s, td))"

definition Thread1_pass ::
  "rig \<Rightarrow> (nat \<Rightarrow> bool) \<Rightarrow> (board \<Rightarrow> board) \<Rightarrow> (board \<Rightarrow> board) \<Rightarrow> thread \<Rightarrow> (thread \<times> reply \<times> bool) option" where
  "Thread1_pass E interrupt ui_process draw_all t =
     (let sh = thread_shell t; s = dev (brd sh); m = get_sweep_mask (plot_get_measure_channels s) s in
      Option.bind (sweep_phase E interrupt m (output_muted t) s) (\<lambda>(s, muted, completed).
      Option.bind (run_waiting (sh\<lparr>brd := (brd sh)\<lparr>dev := s\<rparr>\<rparr>)) (\<lambda>(sh, out).
      let b = on_dev (\<lambda>s. s\<lparr>sweep_mode := sweep_mode s OR SWEEP_UI_MODE\<rparr>) (brd sh);
          b = on_dev (\<lambda>s. s\<lparr>sweep_mode := sweep_mode s AND NOT SWEEP_UI_MODE\<rparr>) (ui_process b);
          (s, td) = process_data completed m (dev b) (thread_td t) in
      Some (\<lparr>thread_shell = sh\<lparr>brd := draw_all (b\<lparr>dev := s\<rparr>)\<rparr>, thread_td = td, output_muted = muted\<rparr>, out, completed))))"

subsection \<open>Processing keeps the shape of the data\<close>

lemma length_smooth [simp]: "length (smooth_pass f n a) = length a"
proof -
  have "length (snd (fold (smooth_step f) js (p, a))) = length a" for js p
    by (induction js arbitrary: p a) (simp_all add: smooth_step_def split: prod.splits)
  then show ?thesis by (simp add: smooth_pass_def)
qed

lemma length_smooth_n [simp]: "length ((smooth_pass f n ^^ k) a) = length a"
  by (induction k) simp_all

lemma length_td_channel [simp]: "length (td_channel mode n w a) = length a"
  by (simp add: td_channel_def Let_def)

lemma shaped_map:
  assumes "shaped ms" "\<And>a. length (g a) = length a"
  shows "shaped (map (\<lambda>ch. if c ch then g (ms ! ch) else ms ! ch) [0..<2])"
  using assms by (auto simp: shaped_def)

lemma measured_wf: "device_wf s \<Longrightarrow> shaped ms \<Longrightarrow> device_wf (s\<lparr>measured := ms\<rparr>)"
  by (simp add: device_wf_def)

lemma keeps_smooth [keeping]: "keeps (measurementDataSmooth m)"
  unfolding keeps_def measurementDataSmooth_def Let_def
  by (auto intro!: measured_wf shaped_map simp del: upt_Suc) (simp_all add: device_wf_def)

lemma transform_keeps:
  assumes "device_wf s" "td_valid td" "transform_domain m s td = (s', td')"
  shows "device_wf s'" "td_valid td'"
proof -
  have n: "0 < sweep_points (props s)" "sweep_points (props s) < 2048"
    using assms(1) by (auto simp: device_wf_def props_wf_def cal_wf_def SWEEP_POINTS_MAX_def)
  show "td_valid td'" using assms(2,3) n by (auto simp: transform_domain_def Let_def td_update_valid)
  have "shaped (measured s)" using assms(1) by (simp add: device_wf_def)
  then show "device_wf s'" using assms(1,3)
    by (auto simp: transform_domain_def Let_def simp del: upt_Suc intro!: measured_wf shaped_map)
qed

lemma process_data_simps:
  "process_data False m s td = (request_to_redraw REDRAW_BATTERY s, td)"
  "process_data True m s td =
     (let s1 = (if smooth_factor s \<noteq> 0 then measurementDataSmooth m s else s);
          r = (if props_mode (props s1) AND DOMAIN_MODE = DOMAIN_TIME then transform_domain m s1 td else (s1, td)) in
      (request_to_redraw REDRAW_BATTERY (request_to_redraw REDRAW_PLOT (fst r)), snd r))"
  by (simp_all add: process_data_def Let_def split: prod.split)

lemma process_keeps:
  assumes "device_wf s" "td_valid td" "process_data completed m s td = (s', td')"
  shows "device_wf s' \<and> td_valid td'"
proof (cases completed)
  case True
  define s1 where "s1 = (if smooth_factor s \<noteq> 0 then measurementDataSmooth m s else s)"
  have s1: "device_wf s1" using assms(1) keeps_smooth by (simp add: s1_def keeps_def)
  obtain s2 td2 where t: "transform_domain m s1 td = (s2, td2)" by fastforce
  note e = process_data_simps(2) [of m s td, unfolded Let_def, folded s1_def, unfolded t]
  show ?thesis
    using transform_keeps [OF s1 assms(2) t] assms(2,3) s1 True e by (cases "props_mode (props s1) AND DOMAIN_MODE = DOMAIN_TIME") auto
qed (use assms in \<open>auto simp: process_data_simps\<close>)

subsection \<open>The whole system\<close>

definition pass_mask :: "thread \<Rightarrow> u16" where
  "pass_mask t = (let s = dev (brd (thread_shell t)) in get_sweep_mask (plot_get_measure_channels s) s)"

text \<open>What is left of a pass after the command.\<close>

definition pass_result :: "(board \<Rightarrow> board) \<Rightarrow> (board \<Rightarrow> board) \<Rightarrow> bool \<Rightarrow> thread \<Rightarrow> bool \<Rightarrow> shell \<Rightarrow> thread" where
  "pass_result ui draw completed t muted sh =
     (let b = on_dev (\<lambda>s. s\<lparr>sweep_mode := sweep_mode s AND NOT SWEEP_UI_MODE\<rparr>)
            (ui (on_dev (\<lambda>s. s\<lparr>sweep_mode := sweep_mode s OR SWEEP_UI_MODE\<rparr>) (brd sh)));
          r = process_data completed (pass_mask t) (dev b) (thread_td t) in
      \<lparr>thread_shell = sh\<lparr>brd := draw (b\<lparr>dev := fst r\<rparr>)\<rparr>, thread_td = snd r, output_muted = muted\<rparr>)"

lemma pass_eq:
  "Thread1_pass E interrupt ui draw t =
     Option.bind (sweep_phase E interrupt (pass_mask t) (output_muted t) (dev (brd (thread_shell t)))) (\<lambda>(s, muted, completed).
     Option.bind (run_waiting ((thread_shell t)\<lparr>brd := (brd (thread_shell t))\<lparr>dev := s\<rparr>\<rparr>)) (\<lambda>(sh, out).
     Some (pass_result ui draw completed t muted sh, out, completed)))"
  by (simp add: Thread1_pass_def pass_mask_def pass_result_def Let_def case_prod_beta)

lemma pass_cases:
  assumes "Thread1_pass E interrupt ui draw t = Some (t', out, completed)"
  obtains s muted sh where "sweep_phase E interrupt (pass_mask t) (output_muted t) (dev (brd (thread_shell t))) = Some (s, muted, completed)"
    "run_waiting ((thread_shell t)\<lparr>brd := (brd (thread_shell t))\<lparr>dev := s\<rparr>\<rparr>) = Some (sh, out)" "t' = pass_result ui draw completed t muted sh"
  using assms unfolding pass_eq by (auto simp: bind_eq_Some_conv)

text \<open>The console between the passes of the measuring thread.\<close>

inductive system_step ::
  "rig \<Rightarrow> (string \<Rightarrow> command) \<Rightarrow> (board \<Rightarrow> board) \<Rightarrow> (board \<Rightarrow> board) \<Rightarrow> thread \<Rightarrow> thread \<Rightarrow> bool" for E io_command ui draw where
  console_step: "shell_step E io_command (thread_shell t) sh' \<Longrightarrow> system_step E io_command ui draw t (t\<lparr>thread_shell := sh'\<rparr>)"
| pass_step: "Thread1_pass E interrupt ui draw t = Some (t', out, completed) \<Longrightarrow> system_step E io_command ui draw t t'"

text \<open>The contract of the shell, extended by what the measuring thread does between the commands.\<close>

locale measuring_thread = command_table E io_command inv
  for E :: rig and io_command :: "string \<Rightarrow> command" and inv :: "board \<Rightarrow> bool" +
  fixes ui draw :: "board \<Rightarrow> board"
  assumes ui_keeps: "inv b \<Longrightarrow> inv (ui b)"
    and draw_keeps: "inv b \<Longrightarrow> inv (draw b)"
    and control_keeps: "inv b \<Longrightarrow> inv (b\<lparr>dev := (dev b)\<lparr>clk := c, sweep_mode := w\<rparr>\<rparr>)"
    and data_keeps: "inv b \<Longrightarrow> td_valid td \<Longrightarrow> process_data completed m (dev b) td = (s', td') \<Longrightarrow> inv (b\<lparr>dev := s'\<rparr>) \<and> td_valid td'"
begin

definition thread_inv :: "thread \<Rightarrow> bool" where
  "thread_inv t \<longleftrightarrow> shell_inv (thread_shell t) \<and> td_valid (thread_td t)"

lemma control_inv:
  assumes "inv b"
  shows "inv (b\<lparr>dev := (dev b)\<lparr>clk := c\<rparr>\<rparr>)" "inv (b\<lparr>dev := (dev b)\<lparr>sweep_mode := w\<rparr>\<rparr>)"
  using control_keeps [OF assms, where c = c and w = "sweep_mode (dev b)"] control_keeps [OF assms, where c = "clk (dev b)" and w = w] by simp_all

lemma phase_inv:
  assumes "inv b" "sweep_phase E interrupt m muted (dev b) = Some (s', muted', completed)"
  shows "inv (b\<lparr>dev := s'\<rparr>)"
proof (cases "has (sweep_mode (dev b)) (SWEEP_ENABLE OR SWEEP_ONCE)")
  case True
  define b1 where "b1 = b\<lparr>dev := (dev b)\<lparr>clk := (if muted then si5351_enable_output (clk (dev b)) else clk (dev b))\<rparr>\<rparr>"
  have "sweep_phase E interrupt m muted (dev b) =
      map_option (\<lambda>(s, completed). (s\<lparr>sweep_mode := sweep_mode s AND NOT SWEEP_ONCE\<rparr>, False, completed)) (sweep (samples E) interrupt (junk E) True m (dev b1))"
    using True by (simp add: sweep_phase_def b1_def)
  then obtain s1 where s1: "sweep (samples E) interrupt (junk E) True m (dev b1) = Some (s1, completed)"
    "s' = s1\<lparr>sweep_mode := sweep_mode s1 AND NOT SWEEP_ONCE\<rparr>"
    using assms(2) by (cases "sweep (samples E) interrupt (junk E) True m (dev b1)") auto
  have "inv b1" unfolding b1_def by (rule control_inv(1) [OF assms(1)])
  from control_inv(2) [OF sweep_keeps [OF this s1(1)]] show ?thesis by (simp add: s1(2) b1_def)
next
  case False
  then have "s' = dev b \<or> (\<exists>c. s' = (dev b)\<lparr>clk := c\<rparr>)"
    using assms(2) by (auto simp: sweep_phase_def pause_outputs_def Let_def split: if_splits)
  then show ?thesis using control_inv(1) [OF assms(1)] assms(1) by auto
qed

lemma pass_inv:
  assumes "thread_inv t" "Thread1_pass E interrupt ui draw t = Some (t', out, completed)"
  shows "thread_inv t'"
proof -
  obtain s muted sh1 where p: "sweep_phase E interrupt (pass_mask t) (output_muted t) (dev (brd (thread_shell t))) = Some (s, muted, completed)"
    and w: "run_waiting ((thread_shell t)\<lparr>brd := (brd (thread_shell t))\<lparr>dev := s\<rparr>\<rparr>) = Some (sh1, out)"
    and t': "t' = pass_result ui draw completed t muted sh1"
    using assms(2) by (rule pass_cases)
  have "inv (brd (thread_shell t))" using assms(1) by (simp add: thread_inv_def shell_inv_def)
  then have "shell_inv ((thread_shell t)\<lparr>brd := (brd (thread_shell t))\<lparr>dev := s\<rparr>\<rparr>)"
    using assms(1) phase_inv [OF _ p] by (simp add: thread_inv_def shell_inv_def)
  then have sh1: "shell_inv sh1" by (rule waiting_inv [OF _ w])
  define b where "b = ui (on_dev (\<lambda>s. s\<lparr>sweep_mode := sweep_mode s OR SWEEP_UI_MODE\<rparr>) (brd sh1))"
  define b1 where "b1 = on_dev (\<lambda>s. s\<lparr>sweep_mode := sweep_mode s AND NOT SWEEP_UI_MODE\<rparr>) b"
  have "inv b" unfolding b_def on_dev_def using sh1 by (auto intro!: ui_keeps control_inv(2) simp: shell_inv_def)
  then have b1: "inv b1" unfolding b1_def on_dev_def by (rule control_inv(2))
  obtain s2 td2 where d: "process_data completed (pass_mask t) (dev b1) (thread_td t) = (s2, td2)" by fastforce
  have k: "inv (b1\<lparr>dev := s2\<rparr>)" "td_valid td2" using data_keeps [OF b1 _ d] assms(1) by (simp_all add: thread_inv_def)
  have "t' = \<lparr>thread_shell = sh1\<lparr>brd := draw (b1\<lparr>dev := s2\<rparr>)\<rparr>, thread_td = td2, output_muted = muted\<rparr>"
    using t' d by (simp add: pass_result_def Let_def b_def b1_def)
  then show ?thesis using k draw_keeps [OF k(1)] sh1 by (simp add: thread_inv_def shell_inv_def)
qed

lemma system_inv: "(system_step E io_command ui draw)\<^sup>*\<^sup>* t t' \<Longrightarrow> thread_inv t \<Longrightarrow> thread_inv t'"
proof (induction rule: rtranclp_induct)
  case (step t1 t2)
  from step.hyps(2) show ?case
  proof cases
    case (console_step sh')
    then show ?thesis using step step_inv by (simp add: thread_inv_def)
  next
    case (pass_step interrupt out completed)
    then show ?thesis using step pass_inv by blast
  qed
qed

end

lemma wf_thread:
  assumes "keeps_board (lay E) io_command" "\<forall>b. board_wf (lay E) b \<longrightarrow> board_wf (lay E) (ui b)" "\<forall>b. board_wf (lay E) b \<longrightarrow> board_wf (lay E) (draw b)"
  shows "measuring_thread E io_command (board_wf (lay E)) ui draw"
proof (intro measuring_thread.intro measuring_thread_axioms.intro)
  show "command_table E io_command (board_wf (lay E))" by (rule wf_table [OF assms(1)])
next
  fix b c w assume "board_wf (lay E) b"
  then show "board_wf (lay E) (b\<lparr>dev := (dev b)\<lparr>clk := c, sweep_mode := w\<rparr>\<rparr>)" by (intro board_wf_dev) (simp_all add: board_wf_def)
next
  fix b td completed m s' td'
  assume "board_wf (lay E) b" "td_valid td" "process_data completed m (dev b) td = (s', td')"
  then show "board_wf (lay E) (b\<lparr>dev := s'\<rparr>) \<and> td_valid td'" using process_keeps board_wf_dev by (meson board_wf_def)
qed (use assms in auto)

interpretation measuring: measuring_thread E quiet_io "board_wf (lay E)" id id for E
  by (rule wf_thread) (simp_all add: quiet_keeps)


definition thread0 :: thread where
  "thread0 = \<lparr>thread_shell = shell0, thread_td = \<lparr>td_cache = 0, window_scale = 0\<rparr>, output_muted = False\<rparr>"


subsection \<open>What a pass shows\<close>

text \<open>A drawing routine that changes nothing but the redraw request.\<close>

definition only_draws :: "(board \<Rightarrow> board) \<Rightarrow> bool" where
  "only_draws f \<longleftrightarrow> (\<forall>b. \<exists>r. f b = on_dev (redraw_request_update (\<lambda>_. r)) b)"

text \<open>The data a finished sweep is shown as.\<close>

definition view :: "vna \<Rightarrow> cfloat list \<Rightarrow> cfloat list" where
  "view s row =
     (let f = (if VNA_MODE VNA_MODE_SMOOTH s then arifmetic_mean else geometry_mean);
          mode = props_mode (props s); points = sweep_points (props s);
          row = (if smooth_factor s \<noteq> 0 then (smooth_pass f points ^^ (2 ^ (smooth_factor s - 1))) row else row) in
      if mode AND DOMAIN_MODE = DOMAIN_TIME then td_channel mode points (td_scale mode points) row else row)"

definition raw_settings :: "properties \<Rightarrow> bool" where
  "raw_settings p \<longleftrightarrow> \<not> has (cal_status p) CALSTAT_APPLY \<and> \<not> has (cal_status p) CALSTAT_INTERPOLATED \<and>
     electrical_delay p ! 0 = 0 \<and> electrical_delay p ! 1 = 0 \<and> s21_offset p = 0 \<and> measure_mode p < MEASURE_END"

lemma raw_mask: "raw_settings (props s) \<Longrightarrow> get_sweep_mask (plot_get_measure_channels s) s = both_channels"
proof -
  assume r: "raw_settings (props s)"
  then have "measure_mode (props s) < 11" by (simp add: raw_settings_def MEASURE_END_def)
  then have "measure_mode (props s) \<in> {0, 1, 2, 3, 4, 5, 6, 7, 8, 9, 10}" unfolding insert_iff empty_iff by presburger
  then have "3 OR plot_get_measure_channels s = 3" by (auto simp: plot_get_measure_channels_def measure_option_def)
  then have "1 OR (2 OR plot_get_measure_channels s) = 3" by (simp add: or.assoc [symmetric])
  then show ?thesis using r by (simp add: raw_settings_def get_sweep_mask_def Let_def both_channels_def mask_defs or.assoc)
qed

lemma bits_both: "bit both_channels 0" "bit both_channels (Suc 0)"
  by (simp_all add: both_channels_def mask_defs bit_simps)

lemma process_view:
  assumes "td_valid td" "0 < sweep_points (props s)" "sweep_points (props s) < 2048" "length (measured s) = 2"
  shows "measured (fst (process_data True both_channels s td)) = [view s (measured s ! 0), view s (measured s ! 1)]"
proof -
  define s1 where "s1 = (if smooth_factor s \<noteq> 0 then measurementDataSmooth both_channels s else s)"
  have s1: "props s1 = props s" by (simp add: s1_def measurementDataSmooth_def Let_def)
  obtain a b where ab: "measured s = [a, b]" using assms(4) by (auto simp: numeral_eq_Suc length_Suc_conv)
  have w: "window_scale (td_update (props_mode (props s)) (sweep_points (props s)) td) = td_scale (props_mode (props s)) (sweep_points (props s))"
    by (rule td_update_valid(2) [OF assms(1-3)])
  have two: "[0..<2] = [0, Suc 0]" by (simp add: numeral_eq_Suc)
  show ?thesis
    by (simp add: process_data_simps(2) Let_def s1_def [symmetric] transform_domain_def s1 w two bits_both)
      (simp add: s1_def measurementDataSmooth_def view_def Let_def ab two bits_both w request_to_redraw_def)
qed

lemma enable_ok: "clock_ok c \<Longrightarrow> clock_ok (si5351_enable_output c)"
  by (auto simp: clock_ok_def si5351_enable_output_def si5351_reset_cache_def si5351_write_def si5351_bulk_write_def emit_def si5351_set_band_mode_def)

lemma ready_clk: "ready s \<Longrightarrow> clock_ok c \<Longrightarrow> ready (s\<lparr>clk := c\<rparr>)"
  by (simp add: ready_def getFrequency_def)

text \<open>The sweep of a pass that is left alone.\<close>

lemma phase_measures:
  assumes "ready s" "p_sweep s = 0" "has (sweep_mode s) (SWEEP_ENABLE OR SWEEP_ONCE)"
  shows "\<exists>c ms. sweep_phase E (\<lambda>_. False) both_channels muted s =
      Some ((at_point c (sweep_points (props s)) ms s)\<lparr>sweep_mode := sweep_mode s AND NOT SWEEP_ONCE\<rparr>, False, True) \<and>
    shaped ms \<and> (\<forall>i < sweep_points (props s). ms ! 0 ! i = samples E 0 (getFrequency i s) \<and> ms ! 1 ! i = negated (samples E 1 (getFrequency i s)))"
proof -
  define s1 where "s1 = (if muted then s\<lparr>clk := si5351_enable_output (clk s)\<rparr> else s)"
  have r: "ready s1" using assms(1) ready_clk [OF assms(1) enable_ok] by (simp add: s1_def ready_def)
  have "s1 = at_point (clk s1) 0 (measured s1) s1" using assms(2) by (simp add: at_point_def s1_def)
  then have "measured_to (samples E) s1 s1 0" using r unfolding measured_to_def ready_def by blast
  from sweep_call [OF r this, of "\<lambda>_. False" "junk E"] obtain s2 where
    s2: "sweep (samples E) (\<lambda>_. False) (junk E) True both_channels s1 = Some (s2, True)" "measured_to (samples E) s1 s2 (sweep_points (props s1))" by auto
  then obtain c ms where m: "s2 = at_point c (sweep_points (props s1)) ms s1" "shaped ms"
    "\<forall>i < sweep_points (props s1). ms ! 0 ! i = samples E 0 (getFrequency i s1) \<and> ms ! 1 ! i = negated (samples E 1 (getFrequency i s1))"
    by (auto simp: measured_to_def)
  have f: "getFrequency i s1 = getFrequency i s" "props s1 = props s" "at_point c k ms s1 = at_point c k ms s" "sweep_mode s1 = sweep_mode s" for i k
    by (simp_all add: s1_def getFrequency_def at_point_def)
  have "sweep_phase E (\<lambda>_. False) both_channels muted s = Some (s2\<lparr>sweep_mode := sweep_mode s2 AND NOT SWEEP_ONCE\<rparr>, False, True)"
    using assms(3) s2(1) by (simp add: sweep_phase_def Let_def s1_def)
  moreover have "sweep_mode s2 = sweep_mode s" by (simp add: m(1) f at_point_def s1_def)
  ultimately show ?thesis using m f by auto
qed


lemma raw_props0: "raw_settings props0"
  by (simp add: raw_settings_def props0_def load_default_properties_def has_def MEASURE_END_def)

definition thread_of :: "vna \<Rightarrow> thread" where
  "thread_of s = thread0\<lparr>thread_shell := shell0\<lparr>brd := board0\<lparr>dev := s\<rparr>\<rparr>\<rparr>"

lemma thread_of_simps [simp]: "dev (brd (thread_shell (thread_of s))) = s" "shell_function (thread_shell (thread_of s)) = None"
  "td_valid (thread_td (thread_of s))" "\<not> output_muted (thread_of s)"
  using td_boot_valid shell0_shape by (simp_all add: thread_of_def thread0_def)

lemma only_draws_id: "only_draws id"
proof -
  have "id b = on_dev (redraw_request_update (\<lambda>_. redraw_request (dev b))) b" for b by (simp add: on_dev_def)
  then show ?thesis unfolding only_draws_def by blast
qed


subsection \<open>Pausing\<close>

lemma ui_flag: "has ((w OR SWEEP_UI_MODE) AND NOT SWEEP_UI_MODE) (SWEEP_ENABLE OR SWEEP_ONCE) = has w (SWEEP_ENABLE OR SWEEP_ONCE)"
  by (simp add: has_def SWEEP_UI_MODE_def SWEEP_ENABLE_def SWEEP_ONCE_def bit.conj_disj_distrib2 and.assoc)

lemma vna_mode_fields: "VNA_MODE k (s\<lparr>clk := c, sweep_mode := w, redraw_request := q\<rparr>) = VNA_MODE k s"
  by (simp add: VNA_MODE_def)

text \<open>The state after a pass in which no sweep was finished, no command waited and the user did nothing.\<close>

lemma idle_rest:
  assumes "sweep_phase E interrupt (pass_mask t) (output_muted t) (dev (brd (thread_shell t))) = Some (s, muted, False)"
    and "shell_function (thread_shell t) = None" "only_draws draw"
  shows "\<exists>t1 q. Thread1_pass E interrupt id draw t = Some (t1, [], False) \<and> output_muted t1 = muted \<and> shell_function (thread_shell t1) = None \<and>
    dev (brd (thread_shell t1)) = s\<lparr>sweep_mode := (sweep_mode s OR SWEEP_UI_MODE) AND NOT SWEEP_UI_MODE, redraw_request := q\<rparr>"
proof -
  define b where "b = (brd (thread_shell t))\<lparr>dev := request_to_redraw REDRAW_BATTERY
    (s\<lparr>sweep_mode := (sweep_mode s OR SWEEP_UI_MODE) AND NOT SWEEP_UI_MODE\<rparr>)\<rparr>"
  obtain q where q: "draw b = on_dev (redraw_request_update (\<lambda>_. q)) b" using assms(3) by (auto simp: only_draws_def)
  have "Thread1_pass E interrupt id draw t =
      Some (\<lparr>thread_shell = (thread_shell t)\<lparr>brd := draw b\<rparr>, thread_td = thread_td t, output_muted = muted\<rparr>, [], False)"
    using assms(1,2) by (simp add: pass_eq pass_result_def run_waiting_def on_dev_def process_data_simps b_def Let_def)
  moreover have "dev (draw b) = s\<lparr>sweep_mode := (sweep_mode s OR SWEEP_UI_MODE) AND NOT SWEEP_UI_MODE, redraw_request := q\<rparr>"
    unfolding q by (simp add: on_dev_def b_def request_to_redraw_def)
  ultimately show ?thesis using assms(2) by auto
qed

lemma paused_pass:
  assumes "\<not> has (sweep_mode (dev (brd (thread_shell t)))) (SWEEP_ENABLE OR SWEEP_ONCE)" "shell_function (thread_shell t) = None" "only_draws draw"
  shows "\<exists>t1 q. Thread1_pass E interrupt id draw t = Some (t1, [], False) \<and> shell_function (thread_shell t1) = None \<and>
    output_muted t1 = VNA_MODE VNA_MODE_MUTE_PAUSE (dev (brd (thread_shell t))) \<and>
    dev (brd (thread_shell t1)) = (dev (brd (thread_shell t)))
      \<lparr>clk := (if output_muted t1 = output_muted t then clk (dev (brd (thread_shell t)))
         else if output_muted t1 then si5351_disable_output (clk (dev (brd (thread_shell t))))
         else si5351_enable_output (clk (dev (brd (thread_shell t))))),
       sweep_mode := (sweep_mode (dev (brd (thread_shell t))) OR SWEEP_UI_MODE) AND NOT SWEEP_UI_MODE, redraw_request := q\<rparr>"
proof -
  define s where "s = dev (brd (thread_shell t))"
  have "sweep_phase E interrupt (pass_mask t) (output_muted t) s = Some (fst (pause_outputs (output_muted t) s), snd (pause_outputs (output_muted t) s), False)"
    using assms(1) by (simp add: sweep_phase_def s_def case_prod_beta)
  from idle_rest [OF this [unfolded s_def] assms(2,3)] show ?thesis by (auto simp: pause_outputs_def Let_def split: if_splits)
qed



lemma interrupted_phase:
  assumes "ready s" "p_sweep s < sweep_points (props s)" "sweep_mode s = SWEEP_ONCE" "interrupt (p_sweep s)"
  shows "\<exists>c ms. sweep_phase E interrupt both_channels muted s = Some ((at_point c (p_sweep s) ms s)\<lparr>sweep_mode := 0\<rparr>, False, False)"
proof -
  define c0 where "c0 = (if muted then si5351_enable_output (clk s) else clk s)"
  have c0: "clock_ok c0" using assms(1) enable_ok by (simp add: c0_def ready_def)
  have k: "p_sweep s < SWEEP_POINTS_MAX" "getFrequency (p_sweep s) s \<le> 2700000000"
    using assms(1,2) by (auto simp: ready_def cal_wf_def)
  obtain c d ms where p: "sweep_point (samples E) both_channels (junk E, at_point c0 (p_sweep s) (measured s) s) = Some (d, at_point c (p_sweep s) ms s)"
    using sweep_point_uncorrected [OF c0 k(2,1) both_uncorrected] by blast
  have e: "(if muted then s\<lparr>clk := si5351_enable_output (clk s)\<rparr> else s) = at_point c0 (p_sweep s) (measured s) s"
    by (simp add: c0_def at_point_def)
  have "both_channels \<noteq> 0" by (simp add: both_channels_def mask_defs)
  then have "sweep (samples E) interrupt (junk E) True both_channels (at_point c0 (p_sweep s) (measured s) s) = Some (at_point c (p_sweep s) ms s, False)"
    using assms(2,4) p by (simp add: sweep_def Let_def) (subst sweep_loop.simps, simp)
  moreover have "has (sweep_mode s) (SWEEP_ENABLE OR SWEEP_ONCE)" by (simp add: assms(3) has_def SWEEP_ENABLE_def SWEEP_ONCE_def)
  ultimately have "sweep_phase E interrupt both_channels muted s = Some ((at_point c (p_sweep s) ms s)\<lparr>sweep_mode := 0\<rparr>, False, False)"
    using assms(3) by (simp add: sweep_phase_def e) (simp add: at_point_def SWEEP_ONCE_def)
  then show ?thesis by blast
qed

text \<open>C38: Pausing with muted outputs promises to finish the current scan first, but the request for that
  scan is dropped when the user interrupts it: a pass that was asked for one more sweep and is
  interrupted at its first point reports an unfinished sweep and has cleared the request, so the next
  pass finds the sweep paused and mutes the outputs in the middle of the scan.\<close>
theorem one_shot_lost:
  assumes "ready (dev (brd (thread_shell t)))" "p_sweep (dev (brd (thread_shell t))) < sweep_points (props (dev (brd (thread_shell t))))"
    and "sweep_mode (dev (brd (thread_shell t))) = SWEEP_ONCE" "raw_settings (props (dev (brd (thread_shell t))))"
    and "VNA_MODE VNA_MODE_MUTE_PAUSE (dev (brd (thread_shell t)))"
    and "shell_function (thread_shell t) = None" "only_draws draw" "interrupt (p_sweep (dev (brd (thread_shell t))))"
  shows "\<exists>t1 t2. Thread1_pass E interrupt id draw t = Some (t1, [], False) \<and> Thread1_pass E i2 id draw t1 = Some (t2, [], False) \<and>
    p_sweep (dev (brd (thread_shell t2))) = p_sweep (dev (brd (thread_shell t))) \<and> output_muted t2"
proof -
  define s where "s = dev (brd (thread_shell t))"
  note a = assms [folded s_def]
  obtain c ms where p: "sweep_phase E interrupt both_channels (output_muted t) s = Some ((at_point c (p_sweep s) ms s)\<lparr>sweep_mode := 0\<rparr>, False, False)"
    using interrupted_phase [where interrupt = interrupt, OF a(1-3,8)] by blast
  have mk: "pass_mask t = both_channels" using raw_mask [OF a(4)] by (simp add: pass_mask_def Let_def s_def)
  obtain t1 q where t1: "Thread1_pass E interrupt id draw t = Some (t1, [], False)" "shell_function (thread_shell t1) = None"
    "dev (brd (thread_shell t1)) = (at_point c (p_sweep s) ms s)\<lparr>sweep_mode := (0 OR SWEEP_UI_MODE) AND NOT SWEEP_UI_MODE, redraw_request := q\<rparr>"
    using idle_rest [OF p [unfolded s_def, folded mk] a(6,7)] unfolding s_def [symmetric] by auto
  have np: "\<not> has (sweep_mode (dev (brd (thread_shell t1)))) (SWEEP_ENABLE OR SWEEP_ONCE)"
    unfolding t1(3) by (simp add: has_def SWEEP_UI_MODE_def SWEEP_ENABLE_def SWEEP_ONCE_def)
  have "VNA_MODE VNA_MODE_MUTE_PAUSE (dev (brd (thread_shell t1)))" "p_sweep (dev (brd (thread_shell t1))) = p_sweep s"
    using a(5) unfolding t1(3) by (simp_all add: VNA_MODE_def at_point_def)
  then show ?thesis using t1(1) paused_pass [OF np t1(2) a(7), of E i2] unfolding s_def [symmetric] by auto
qed

theorem one_shot_lost_witness:
  "\<exists>s t1 t2. p_sweep s < sweep_points (props s) \<and> Thread1_pass rig0 (\<lambda>_. True) id id (thread_of s) = Some (t1, [], False) \<and>
     Thread1_pass rig0 (\<lambda>_. False) id id t1 = Some (t2, [], False) \<and> p_sweep (dev (brd (thread_shell t2))) = p_sweep s \<and> output_muted t2"
proof -
  obtain s0 where s0: "set_frequencies 50000 900000000 401 device0 = Some s0" "p_sweep s0 = p_sweep device0"
    by (simp add: set_frequencies_def Let_def)
  define s where "s = s0\<lparr>sweep_mode := SWEEP_ONCE, config := (config s0)\<lparr>vna_mode := 2 ^ VNA_MODE_MUTE_PAUSE\<rparr>\<rparr>"
  have "ready s0" "props s0 = props0" using ready_device0 [OF s0(1)] by simp_all
  then have r: "ready s" "props s = props0" "p_sweep s = 0" "sweep_mode s = SWEEP_ONCE" "VNA_MODE VNA_MODE_MUTE_PAUSE s" "raw_settings (props s)"
    "p_sweep s < sweep_points (props s)"
    using s0(2) raw_props0 by (simp_all add: s_def ready_def getFrequency_def VNA_MODE_def has_def VNA_MODE_MUTE_PAUSE_def device0_def
        props0_def load_default_properties_def POINTS_COUNT_DEFAULT_def SWEEP_POINTS_MAX_def)
  then show ?thesis using one_shot_lost [of "thread_of s" id "\<lambda>_. True" rig0 "\<lambda>_. False"] only_draws_id by (intro exI [of _ s]) auto
qed

end
