(* ===== verification/Spec2Isabelle.thy ===== *)
theory Spec2Isabelle
  imports Strings PngRoundtrip Bands Coax Choke SwrBw SweepRun Interp LcMatch ChokePanel S21 Resonance SoftFloat Transform Measuring
begin

text \<open>
  \<^bold>\<open>Verification of the NanoVNA-D firmware.\<close>

  The firmware drives a vector network analyser: a clock generator produces the stimulus, a sweep
  collects complex samples over a list of frequencies, a calibration removes the errors of the
  instrument, and a user interface shows, stores and sends the results.  The theories follow the
  source files of the repository.

  \<^item> \<open>Prelude\<close>: machine integers, C strings, flag words, and the interface \<open>best_scan\<close> of the loops
    that look for a best sample.
  \<^item> \<open>Strings\<close>: number parsing, keyword search and the tokenizer of \<^verbatim>\<open>common.c\<close>.
  \<^item> \<open>Screenshot\<close>, \<open>Png\<close>, \<open>PngBits\<close>, \<open>PngRoundtrip\<close>: the BMP, TIFF and PNG writers and readers of \<^verbatim>\<open>ui.c\<close>,
    \<^verbatim>\<open>common.c\<close> and \<^verbatim>\<open>vna_modules/vna_png.c\<close>.
  \<^item> \<open>Bands\<close>: the amateur band tables and their overlay (\<^verbatim>\<open>vna_modules/vna_hambands.c\<close>, \<^verbatim>\<open>plot.c\<close>).
  \<^item> \<open>Coax\<close>, \<open>Choke\<close>, \<open>SwrBw\<close>: the measurement arithmetic of \<^verbatim>\<open>vna_modules\<close>.
  \<^item> \<open>Clock\<close>: the clock generator driver \<^verbatim>\<open>si5351.c\<close>.
  \<^item> \<open>Device\<close>: the state of the instrument and its simple settings (\<^verbatim>\<open>nanovna.h\<close>, \<^verbatim>\<open>main.c\<close>).
  \<^item> \<open>Grid\<close>: the grids of the plot area (\<^verbatim>\<open>plot.c\<close>).
  \<^item> \<open>Sweep\<close>: frequency list, stimulus settings and markers (\<^verbatim>\<open>main.c\<close>).
\<close>

end
